(* ===== verification/Gz_Prelude.thy ===== *)
theory Gz_Prelude
  imports Main "HOL-Library.Char_ord" "HOL-Library.List_Lexorder" "HOL-Library.Product_Lexorder"
    "HOL-Library.Word" "HOL-Library.Sublist"
begin

text \<open>
  Shared vocabulary of the development: the Rust standard-library pieces that every crate
  uses and the generic lemmas about them.

  \<^item> A byte (Rust \<open>u8\<close>) is HOL's \<open>char\<close>, which has exactly 256 values; a byte vector and a
    \<open>String\<close> (its UTF-8 bytes) are both \<open>char list\<close>, so \<open>str::as_bytes\<close> is the identity and the
    lexicographic order of \<open>HOL-Library.List_Lexorder\<close> is Rust's \<open>Ord for str\<close>.
  \<^item> A \<open>BTreeMap\<close> is its in-order list of entries: strictly sorted by key (\<open>bt_ok\<close>), so equality
    of maps is equality of lists and iteration is list order. A \<open>BTreeSet\<close> is a strictly sorted
    list.
  \<^item> A fallible, effectful call (an \<open>async fn\<close> that returns \<open>Result\<close>) is a function from the
    state to a result and the next state; \<open>bindE\<close> is the \<open>?\<close> operator, which stops at the first
    error and keeps the effects made so far.
\<close>

type_synonym byte = char
type_synonym bytes = "char list"

named_theorems bt_simps \<open>lookup and well-formedness of ordered maps\<close>
named_theorems io_simps \<open>evaluation of effectful computations\<close>

subsection \<open>Lists\<close>

lemma sorted_wrt_less_distinct: "sorted_wrt (<) (xs :: 'a::linorder list) \<Longrightarrow> distinct xs"
  by (induction xs) auto

lemma sorted_wrt_less_unique:
  fixes xs ys :: "'a::linorder list"
  assumes "sorted_wrt (<) xs" "sorted_wrt (<) ys" "set xs = set ys"
  shows "xs = ys"
  using assms by (metis strict_sorted_equal)

lemma distinct_singleton: "distinct xs \<Longrightarrow> set xs = {a} \<Longrightarrow> xs = [a]"
  by (cases xs; cases "tl xs") (auto simp: insert_eq_iff)

lemma sorted_wrt_filter_less: "sorted_wrt R xs \<Longrightarrow> sorted_wrt R (filter P xs)"
  by (induction xs) auto

lemma filter_map_fst: "filter P (map fst xs) = map fst (filter (\<lambda>p. P (fst p)) xs)"
  by (induction xs) auto

text \<open>\<open>slice::chunks\<close>.\<close>

fun chunks :: "nat \<Rightarrow> 'a list \<Rightarrow> 'a list list" where
  "chunks n xs = (if xs = [] \<or> n = 0 then [] else take n xs # chunks n (drop n xs))"

declare chunks.simps [simp del]

lemma concat_chunks: "0 < n \<Longrightarrow> concat (chunks n xs) = xs"
proof (induction n xs rule: chunks.induct)
  case (1 n xs)
  then show ?case by (subst chunks.simps) auto
qed

subsection \<open>Rust's \<open>Vec::dedup\<close>: keep the first of each run of equal elements\<close>

fun vec_dedup :: "'a list \<Rightarrow> 'a list" where
  "vec_dedup [] = []"
| "vec_dedup [x] = [x]"
| "vec_dedup (x # y # zs) = (if x = y then vec_dedup (x # zs) else x # vec_dedup (y # zs))"

lemma set_vec_dedup [simp]: "set (vec_dedup xs) = set xs"
  by (induction xs rule: vec_dedup.induct) auto

lemma vec_dedup_Cons_head: "\<exists>ys. vec_dedup (x # xs) = x # ys"
  by (induction xs arbitrary: x) auto

text \<open>On a sorted list \<open>dedup\<close> removes every duplicate, because equal elements are adjacent.\<close>

lemma sorted_wrt_vec_dedup:
  assumes "antisymp R" "transp R" "sorted_wrt R xs"
  shows "sorted_wrt (\<lambda>a b. R a b \<and> a \<noteq> b) (vec_dedup xs)"
  using assms(3)
proof (induction xs rule: vec_dedup.induct)
  case (3 x y zs)
  show ?case
  proof (cases "x = y")
    case True
    with 3 show ?thesis by auto
  next
    case False
    have "\<forall>z \<in> set (y # zs). R x z \<and> x \<noteq> z"
      using 3(3) False assms(1) by (auto dest: antisympD)
    with 3 False show ?thesis by auto
  qed
qed auto

subsection \<open>Text\<close>

text \<open>Decimal rendering of the counters in messages (\<open>Display\<close> of \<open>u64\<close> and \<open>usize\<close>).\<close>

fun show_nat :: "nat \<Rightarrow> string" where
  "show_nat n = (if n < 10 then [char_of (48 + n)] else show_nat (n div 10) @ [char_of (48 + n mod 10)])"

declare show_nat.simps [simp del]

fun join :: "string \<Rightarrow> string list \<Rightarrow> string" where
  "join sep [] = []"
| "join sep [x] = x"
| "join sep (x # y # ys) = x @ sep @ join sep (y # ys)"

text \<open>\<open>str::strip_prefix\<close>, \<open>str::strip_suffix\<close> and \<open>str::split('/')\<close>.\<close>

definition strip_prefix :: "string \<Rightarrow> string \<Rightarrow> string option" where
  "strip_prefix pre s = (if take (length pre) s = pre then Some (drop (length pre) s) else None)"

definition strip_suffix :: "string \<Rightarrow> string \<Rightarrow> string option" where
  "strip_suffix suf s =
     (if length suf \<le> length s \<and> drop (length s - length suf) s = suf
      then Some (take (length s - length suf) s) else None)"

fun split_slash :: "string \<Rightarrow> string \<Rightarrow> string list" where
  "split_slash cur [] = [cur]"
| "split_slash cur (c # s) =
     (if c = CHR ''/'' then cur # split_slash [] s else split_slash (cur @ [c]) s)"

lemma strip_suffix_Some: "strip_suffix suf s = Some i \<longleftrightarrow> s = i @ suf"
  by (auto simp: strip_suffix_def) (metis append_take_drop_id)

lemma split_slash_plain: "CHR ''/'' \<notin> set s \<Longrightarrow> split_slash cur s = [cur @ s]"
  by (induction s arbitrary: cur) auto

lemma split_slash_append:
  "CHR ''/'' \<notin> set a \<Longrightarrow> split_slash cur (a @ CHR ''/'' # b) = (cur @ a) # split_slash [] b"
  by (induction a arbitrary: cur) auto

text \<open>
  \<open>str::parse::<usize>\<close>: an optional plus sign, then decimal digits, checked against the 64-bit range
  as they accumulate.
\<close>

definition digit_of :: "char \<Rightarrow> nat option" where
  "digit_of c = (if 48 \<le> (of_char c :: nat) \<and> (of_char c :: nat) \<le> 57 then Some (of_char c - 48) else None)"

fun parse_digits :: "nat \<Rightarrow> string \<Rightarrow> string + nat" where
  "parse_digits acc [] = Inr acc"
| "parse_digits acc (c # cs) =
     (case digit_of c of
        None \<Rightarrow> Inl ''invalid digit found in string''
      | Some d \<Rightarrow>
          if 2 ^ 64 \<le> acc * 10 + d then Inl ''number too large to fit in target type''
          else parse_digits (acc * 10 + d) cs)"

definition parse_usize :: "string \<Rightarrow> string + nat" where
  "parse_usize s =
     (if s = [] then Inl ''cannot parse integer from empty string''
      else if s = ''+'' \<or> s = ''-'' then Inl ''invalid digit found in string''
      else parse_digits 0 (if hd s = CHR ''+'' then tl s else s))"

lemma parse_digits_bound: "acc < 2 ^ 64 \<Longrightarrow> parse_digits acc s = Inr n \<Longrightarrow> n < 2 ^ 64"
  by (induction acc s rule: parse_digits.induct) (auto split: option.splits if_splits)

lemma digit_of_char: "d < 10 \<Longrightarrow> digit_of (char_of (48 + d)) = Some d"
  by (simp add: digit_of_def)

lemma parse_digits_snoc:
  assumes "parse_digits acc s = Inr n" "d < 10" "n * 10 + d < 2 ^ 64"
  shows "parse_digits acc (s @ [char_of (48 + d)]) = Inr (n * 10 + d)"
  using assms by (induction acc s rule: parse_digits.induct) (auto simp: digit_of_char split: option.splits if_splits)

text \<open>A printed number parses back as long as it fits.\<close>

lemma parse_digits_show: "n < 2 ^ 64 \<Longrightarrow> parse_digits 0 (show_nat n) = Inr n"
proof (induction n rule: show_nat.induct)
  case (1 n)
  show ?case
  proof (cases "n < 10")
    case True
    then show ?thesis using digit_of_char [of n] 1(2) by (subst show_nat.simps) simp
  next
    case False
    then have "parse_digits 0 (show_nat (n div 10)) = Inr (n div 10)"
      using 1 by (metis div_le_dividend le_less_trans)
    then have "parse_digits 0 (show_nat (n div 10) @ [char_of (48 + n mod 10)]) = Inr (n div 10 * 10 + n mod 10)"
      by (rule parse_digits_snoc) (use 1(2) in simp_all)
    then show ?thesis using False by (subst show_nat.simps) simp
  qed
qed

lemma show_nat_nonempty: "show_nat n \<noteq> []"
  by (subst show_nat.simps) auto

lemma show_nat_digit: "c \<in> set (show_nat n) \<Longrightarrow> digit_of c \<noteq> None"
proof (induction n rule: show_nat.induct)
  case (1 n)
  show ?case
  proof (cases "n < 10")
    case True
    then show ?thesis using 1(2) digit_of_char [of n] by (subst (asm) show_nat.simps) auto
  next
    case False
    then show ?thesis using 1 digit_of_char [of "n mod 10"] by (subst (asm) (2) show_nat.simps) auto
  qed
qed

lemma parse_usize_show:
  assumes "n < 2 ^ 64"
  shows "parse_usize (show_nat n) = Inr n"
proof -
  have digit: "digit_of CHR ''+'' = None" "digit_of CHR ''-'' = None" by code_simp+
  obtain c s where s: "show_nat n = c # s" using show_nat_nonempty by (cases "show_nat n") blast+
  then have "c \<noteq> CHR ''+''" "c \<noteq> CHR ''-''" using show_nat_digit [of c n] digit by auto
  then show ?thesis using parse_digits_show [OF assms] by (simp add: parse_usize_def s)
qed

subsection \<open>Ordered maps: \<open>BTreeMap\<close> as its sorted entry list\<close>

type_synonym ('k, 'v) btree = "('k \<times> 'v) list"

definition bt_ok :: "('k::linorder, 'v) btree \<Rightarrow> bool" where
  "bt_ok m \<longleftrightarrow> sorted_wrt (<) (map fst m)"

abbreviation bt_get :: "('k, 'v) btree \<Rightarrow> 'k \<Rightarrow> 'v option" where
  "bt_get \<equiv> map_of"

fun bt_insert :: "'k::linorder \<Rightarrow> 'v \<Rightarrow> ('k, 'v) btree \<Rightarrow> ('k, 'v) btree" where
  "bt_insert k v [] = [(k, v)]"
| "bt_insert k v ((k', v') # m) =
     (if k < k' then (k, v) # (k', v') # m
      else if k = k' then (k, v) # m
      else (k', v') # bt_insert k v m)"

definition bt_remove :: "'k \<Rightarrow> ('k, 'v) btree \<Rightarrow> ('k, 'v) btree" where
  "bt_remove k m = filter (\<lambda>p. fst p \<noteq> k) m"

text \<open>\<open>Extend\<close> and \<open>FromIterator\<close>: insert the entries one after the other, later ones win.\<close>

definition bt_extend :: "('k::linorder, 'v) btree \<Rightarrow> ('k \<times> 'v) list \<Rightarrow> ('k, 'v) btree" where
  "bt_extend m es = foldl (\<lambda>acc (k, v). bt_insert k v acc) m es"

definition bt_of_list :: "('k::linorder \<times> 'v) list \<Rightarrow> ('k, 'v) btree" where
  "bt_of_list es = bt_extend [] es"

text \<open>A \<open>BTreeSet\<close> collected from an iterator, as its in-order list.\<close>

definition bts_of_list :: "'k::linorder list \<Rightarrow> 'k list" where
  "bts_of_list xs = sort (remdups xs)"

lemma bt_ok_Nil [simp, bt_simps]: "bt_ok []"
  by (simp add: bt_ok_def)

lemma bt_ok_Cons: "bt_ok ((k, v) # m) \<longleftrightarrow> (\<forall>k' \<in> fst ` set m. k < k') \<and> bt_ok m"
  by (auto simp: bt_ok_def)

lemma set_keys_bt_insert [simp, bt_simps]: "fst ` set (bt_insert k v m) = insert k (fst ` set m)"
  by (induction k v m rule: bt_insert.induct) auto

lemma bt_ok_insert [simp, bt_simps]: "bt_ok m \<Longrightarrow> bt_ok (bt_insert k v m)"
proof (induction k v m rule: bt_insert.induct)
  case (2 k v k' v' m)
  then show ?case by (auto simp: bt_ok_Cons)
qed (simp add: bt_ok_Cons)

lemma bt_get_insert [simp, bt_simps]:
  "bt_ok m \<Longrightarrow> bt_get (bt_insert k v m) = (bt_get m)(k \<mapsto> v)"
proof (induction k v m rule: bt_insert.induct)
  case (2 k v k' v' m)
  then show ?case by (auto simp: bt_ok_Cons fun_eq_iff)
qed auto

lemma bt_ok_filter [simp, bt_simps]: "bt_ok m \<Longrightarrow> bt_ok (filter P m)"
  by (induction m) (auto simp: bt_ok_Cons split: prod.splits)

lemma bt_ok_remove [simp, bt_simps]: "bt_ok m \<Longrightarrow> bt_ok (bt_remove k m)"
  by (simp add: bt_remove_def)

lemma bt_get_remove [simp, bt_simps]: "bt_get (bt_remove k m) = (bt_get m)(k := None)"
  by (induction m) (auto simp: bt_remove_def fun_eq_iff)

lemma bt_ok_distinct: "bt_ok m \<Longrightarrow> distinct (map fst m)"
  by (simp add: bt_ok_def sorted_wrt_less_distinct)

lemma bt_get_in_set: "bt_ok m \<Longrightarrow> bt_get m k = Some v \<longleftrightarrow> (k, v) \<in> set m"
  by (simp add: bt_ok_distinct)

lemma bt_ok_extend [simp, bt_simps]: "bt_ok m \<Longrightarrow> bt_ok (bt_extend m es)"
  by (induction es arbitrary: m) (auto simp: bt_extend_def)

lemma bt_get_extend [simp, bt_simps]:
  "bt_ok m \<Longrightarrow> bt_get (bt_extend m es) = bt_get m ++ bt_get (rev es)"
proof (induction es arbitrary: m)
  case (Cons e es)
  obtain k v where e: "e = (k, v)" by (cases e)
  have "bt_get (bt_extend m (e # es)) = bt_get (bt_extend (bt_insert k v m) es)"
    by (simp add: bt_extend_def e)
  also have "\<dots> = (bt_get m)(k \<mapsto> v) ++ bt_get (rev es)"
    by (simp only: Cons.IH Cons.prems bt_ok_insert bt_get_insert)
  also have "\<dots> = bt_get m ++ bt_get (rev (e # es))"
    by (simp add: e map_add_def fun_eq_iff split: option.splits)
  finally show ?case .
qed (simp add: bt_extend_def)

lemma bt_ok_of_list [simp, bt_simps]: "bt_ok (bt_of_list es)"
  by (simp add: bt_of_list_def)

lemma map_eq_on_keys:
  assumes "map fst m = map fst m'" "map_of m = map_of m'" "distinct (map fst m)"
  shows "m = m'"
  using assms
proof (induction m m' rule: list_induct2')
  case (4 x xs y ys)
  have "snd x = snd y"
    using 4(2,3) by (cases x, cases y) (auto dest: fun_cong [of _ _ "fst x"])
  moreover have "map_of xs = map_of ys"
  proof
    fix k
    show "map_of xs k = map_of ys k"
      using 4(2,3,4) fun_cong [OF 4(3), of k]
      by (cases x, cases y, cases "k = fst x")
        (auto split: if_splits, metis list.set_map map_of_eq_None_iff)
  qed
  ultimately show ?case
    using 4 by (auto simp: prod_eq_iff)
qed auto

text \<open>The representation is canonical: two maps with the same lookups are the same list.\<close>

lemma bt_eqI:
  assumes "bt_ok m" "bt_ok m'" "bt_get m = bt_get m'"
  shows "m = m'"
proof -
  have same: "(k, v) \<in> set m \<longleftrightarrow> (k, v) \<in> set m'" for k v
    using assms bt_get_in_set by metis
  then have "set m = set m'" by auto
  then have "map fst m = map fst m'"
    using assms sorted_wrt_less_unique [of "map fst m" "map fst m'"] by (simp add: bt_ok_def)
  then show ?thesis
    using assms bt_ok_distinct [of m] bt_ok_distinct [of m'] map_eq_on_keys by blast
qed

lemma sorted_bts_of_list [simp]: "sorted_wrt (<) (bts_of_list xs)"
  by (simp add: bts_of_list_def strict_sorted_iff)

lemma set_bts_of_list [simp]: "set (bts_of_list xs) = set xs"
  by (simp add: bts_of_list_def)

lemma distinct_bts_of_list [simp]: "distinct (bts_of_list xs)"
  by (simp add: bts_of_list_def)

subsection \<open>Fallible effectful computations\<close>

type_synonym ('s, 'e, 'a) io = "'s \<Rightarrow> ('e + 'a) \<times> 's"

definition retE :: "'a \<Rightarrow> ('s, 'e, 'a) io" where
  "retE x s = (Inr x, s)"

definition throwE :: "'e \<Rightarrow> ('s, 'e, 'a) io" where
  "throwE e s = (Inl e, s)"

definition bindE :: "('s, 'e, 'a) io \<Rightarrow> ('a \<Rightarrow> ('s, 'e, 'b) io) \<Rightarrow> ('s, 'e, 'b) io" where
  "bindE m f s = (case m s of (Inl e, s') \<Rightarrow> (Inl e, s') | (Inr x, s') \<Rightarrow> f x s')"

text \<open>Lift a pure \<open>Result\<close>.\<close>

definition liftE :: "('e + 'a) \<Rightarrow> ('s, 'e, 'a) io" where
  "liftE r s = (r, s)"

lemma bindE_Inr [io_simps]: "m s = (Inr x, s') \<Longrightarrow> bindE m f s = f x s'"
  by (simp add: bindE_def)

lemma bindE_Inl [io_simps]: "m s = (Inl e, s') \<Longrightarrow> bindE m f s = (Inl e, s')"
  by (simp add: bindE_def)

lemmas io_basic [io_simps] = retE_def throwE_def liftE_def

text \<open>The same for pure code: \<open>Result\<close> with the \<open>?\<close> operator.\<close>

definition bindR :: "('e + 'a) \<Rightarrow> ('a \<Rightarrow> 'e + 'b) \<Rightarrow> 'e + 'b" where
  "bindR r f = (case r of Inl e \<Rightarrow> Inl e | Inr x \<Rightarrow> f x)"

lemma bindR_simps [simp, io_simps]: "bindR (Inl e) f = Inl e" "bindR (Inr x) f = f x"
  by (simp_all add: bindR_def)

lemma bindR_Inr: "bindR r f = Inr y \<longleftrightarrow> (\<exists>x. r = Inr x \<and> f x = Inr y)"
  by (cases r) auto

end
