(* ===== verification/Gz_Record.thy ===== *)
theory Gz_Record
  imports Gz_Prelude
begin

text \<open>
  The data model of \<open>gonzalo-core\<close>: \<open>key.rs\<close>, \<open>identity.rs\<close>, \<open>revision.rs\<close>, \<open>record.rs\<close>,
  \<open>error.rs\<close> and the outcome types of \<open>store.rs\<close>.

  BLAKE3 is a third-party crate: its hex digest is the parameter \<open>H\<close> of every definition that
  hashes. A revision counter is a 64-bit word, so the \<open>+ 1\<close> of the code wraps at the width the
  release build uses; times (\<open>i64\<close> milliseconds) are \<open>int\<close>, with the range checks of the code
  written out where it has them. \<open>RecordKey\<close> and \<open>ContentHash\<close> are datatypes with selectors
  because the code orders them (\<open>derive(Ord)\<close>): they are instances of \<open>linorder\<close> below.
\<close>

subsection \<open>Keys (\<open>key.rs\<close>)\<close>

datatype record_key = RecordKey (namespace: string) (collection: string) (key_id: string)

text \<open>\<open>derive(PartialOrd, Ord)\<close>: lexicographic in the order of the fields.\<close>

definition key_tuple :: "record_key \<Rightarrow> string \<times> string \<times> string" where
  "key_tuple k = (namespace k, collection k, key_id k)"

lemma key_tuple_inj: "key_tuple a = key_tuple b \<longleftrightarrow> a = b"
  by (cases a; cases b) (simp add: key_tuple_def)

instantiation record_key :: linorder
begin

definition less_eq_record_key :: "record_key \<Rightarrow> record_key \<Rightarrow> bool" where
  "a \<le> b \<longleftrightarrow> key_tuple a \<le> key_tuple b"

definition less_record_key :: "record_key \<Rightarrow> record_key \<Rightarrow> bool" where
  "a < b \<longleftrightarrow> key_tuple a < key_tuple b"

instance
  by standard (auto simp: less_eq_record_key_def less_record_key_def key_tuple_inj [symmetric])

end

definition key_display :: "record_key \<Rightarrow> string" where
  "key_display k = namespace k @ ''/'' @ collection k @ ''/'' @ key_id k"

record key_prefix =
  kp_namespace :: "string option"
  kp_collection :: "string option"

definition kp_default :: key_prefix where
  "kp_default = \<lparr>kp_namespace = None, kp_collection = None\<rparr>"

text \<open>\<open>Option::is_none_or\<close>.\<close>

definition is_none_or :: "('a \<Rightarrow> bool) \<Rightarrow> 'a option \<Rightarrow> bool" where
  "is_none_or p o' = (case o' of None \<Rightarrow> True | Some x \<Rightarrow> p x)"

definition kp_matches :: "key_prefix \<Rightarrow> record_key \<Rightarrow> bool" where
  "kp_matches p k \<longleftrightarrow>
     is_none_or (\<lambda>n. n = namespace k) (kp_namespace p) \<and>
     is_none_or (\<lambda>c. c = collection k) (kp_collection p)"

lemma kp_matches_default [simp]: "kp_matches kp_default k"
  by (simp add: kp_matches_def kp_default_def is_none_or_def)

subsection \<open>Identities (\<open>identity.rs\<close>)\<close>

record identity =
  ident_id :: string
  ident_display :: "string option"

definition identity_new :: "string \<Rightarrow> identity" where
  "identity_new i = \<lparr>ident_id = i, ident_display = None\<rparr>"

subsection \<open>Content hashes and revisions (\<open>revision.rs\<close>)\<close>

datatype content_hash = ContentHash (hash_str: string)

instantiation content_hash :: linorder
begin

definition less_eq_content_hash :: "content_hash \<Rightarrow> content_hash \<Rightarrow> bool" where
  "a \<le> b \<longleftrightarrow> hash_str a \<le> hash_str b"

definition less_content_hash :: "content_hash \<Rightarrow> content_hash \<Rightarrow> bool" where
  "a < b \<longleftrightarrow> hash_str a < hash_str b"

instance
  by standard (auto simp: less_eq_content_hash_def less_content_hash_def content_hash.expand)

end

type_synonym blake3 = "bytes \<Rightarrow> string"

definition content_hash_of :: "blake3 \<Rightarrow> bytes \<Rightarrow> content_hash" where
  "content_hash_of H b = ContentHash (H b)"

datatype revision = Revision (counter: "64 word") (rev_hash: content_hash)

definition revision_initial :: "blake3 \<Rightarrow> bytes \<Rightarrow> revision" where
  "revision_initial H b = Revision 0 (content_hash_of H b)"

definition revision_next :: "blake3 \<Rightarrow> revision \<Rightarrow> bytes \<Rightarrow> revision" where
  "revision_next H r b = Revision (counter r + 1) (content_hash_of H b)"

text \<open>
  The order the ancestor lists are sorted by: counter first, hash second. It is total, which is
  what makes two stores persist the same list. \<open>Revision\<close> derives no \<open>Ord\<close> in the code; the sort
  and the tombstone tie-break spell the comparison out, and this is that comparison.
\<close>

instantiation revision :: linorder
begin

definition less_eq_revision :: "revision \<Rightarrow> revision \<Rightarrow> bool" where
  "a \<le> b \<longleftrightarrow> (counter a, rev_hash a) \<le> (counter b, rev_hash b)"

definition less_revision :: "revision \<Rightarrow> revision \<Rightarrow> bool" where
  "a < b \<longleftrightarrow> (counter a, rev_hash a) < (counter b, rev_hash b)"

instance
  by standard (auto simp: less_eq_revision_def less_revision_def revision.expand)

end

subsection \<open>Records (\<open>record.rs\<close>)\<close>

datatype record_kind =
    MemoryTier | Topic | Session | Checkpoint | Ticket | TicketEvent | GraphManifest
  | VectorManifest | Person | IdentityBinding | RoleGrant | ChannelConfig | LinkToken
  | AuditEntry | Tombstone

datatype merge_class_t = AppendOnly | Structured | Opaque | Derived

fun merge_class :: "record_kind \<Rightarrow> merge_class_t" where
  "merge_class Topic = AppendOnly"
| "merge_class Session = AppendOnly"
| "merge_class TicketEvent = AppendOnly"
| "merge_class MemoryTier = Structured"
| "merge_class Ticket = Structured"
| "merge_class Person = Structured"
| "merge_class IdentityBinding = Structured"
| "merge_class RoleGrant = Structured"
| "merge_class ChannelConfig = Structured"
| "merge_class Checkpoint = Opaque"
| "merge_class LinkToken = Opaque"
| "merge_class AuditEntry = Opaque"
| "merge_class GraphManifest = Derived"
| "merge_class VectorManifest = Opaque"
| "merge_class Tombstone = Opaque"

datatype body = Inline bytes | Blob content_hash "64 word"

definition body_blob :: "blake3 \<Rightarrow> bytes \<Rightarrow> body" where
  "body_blob H c = Blob (content_hash_of H c) (of_nat (length c))"

fun body_bytes :: "body \<Rightarrow> bytes" where
  "body_bytes (Inline b) = b"
| "body_bytes (Blob h _) = hash_str h"

record meta =
  author :: identity
  origin_system :: string
  created :: int
  updated :: int
  labels :: "(string, string) btree"

definition meta_new :: "identity \<Rightarrow> string \<Rightarrow> meta" where
  "meta_new a o' = \<lparr>author = a, origin_system = o', created = 0, updated = 0, labels = []\<rparr>"

record rec =
  rec_key :: record_key
  rec_kind :: record_kind
  rec_revision :: revision
  rec_parent :: "revision option"
  rec_body :: body
  rec_meta :: meta
  rec_links :: "record_key list"
  rec_ancestors :: "revision list"
  rec_deleted_at :: "int option"
  rec_deleted_blob :: "content_hash option"
  rec_deleted_kind :: "record_kind option"

definition record_create :: "blake3 \<Rightarrow> record_key \<Rightarrow> record_kind \<Rightarrow> body \<Rightarrow> meta \<Rightarrow> rec" where
  "record_create H k kd b m =
     \<lparr>rec_key = k, rec_kind = kd, rec_revision = revision_initial H (body_bytes b),
      rec_parent = None, rec_body = b, rec_meta = m, rec_links = [], rec_ancestors = [],
      rec_deleted_at = None, rec_deleted_blob = None, rec_deleted_kind = None\<rparr>"

definition record_update :: "blake3 \<Rightarrow> rec \<Rightarrow> body \<Rightarrow> meta \<Rightarrow> rec" where
  "record_update H r b m =
     \<lparr>rec_key = rec_key r, rec_kind = rec_kind r,
      rec_revision = revision_next H (rec_revision r) (body_bytes b),
      rec_parent = Some (rec_revision r), rec_body = b, rec_meta = m, rec_links = rec_links r,
      rec_ancestors = [], rec_deleted_at = None, rec_deleted_blob = None,
      rec_deleted_kind = None\<rparr>"

definition is_tombstone :: "rec \<Rightarrow> bool" where
  "is_tombstone r \<longleftrightarrow> rec_kind r = Tombstone"

subsection \<open>Errors and outcomes (\<open>error.rs\<close>, \<open>store.rs\<close>)\<close>

datatype core_error = NotFound record_key | Serde string | Invalid string | Backend string

record conflict =
  conf_key :: record_key
  conf_expected :: "revision option"
  conf_current :: rec

datatype put_result = Committed revision | PutConflict conflict

datatype delete_result = Deleted | DeleteConflict conflict

type_synonym 'a result = "core_error + 'a"

end
