(* ===== verification/Gz_Tombstone.thy ===== *)
theory Gz_Tombstone
  imports Gz_Record
begin

text \<open>
  Tombstone semantics (\<open>tombstone.rs\<close>): the ancestor fold, the tombstone a delete writes, and the
  planners every store asks inside its critical section. A planner is a pure function of the
  stored record, the request, the clock and the store's ancestor cap.
\<close>

definition DEFAULT_ANCESTOR_CAP :: nat where
  "DEFAULT_ANCESTOR_CAP = 32"

definition TOMBSTONE_DOMAIN :: bytes where
  "TOMBSTONE_DOMAIN = ''gonzalo:tombstone:v1''"

definition tombstone_hash :: "blake3 \<Rightarrow> content_hash" where
  "tombstone_hash H = content_hash_of H TOMBSTONE_DOMAIN"

text \<open>A \<open>SystemTime\<close> is its signed distance from the Unix epoch in nanoseconds.\<close>

type_synonym system_time = int

definition i64_max :: int where
  "i64_max = 2 ^ 63 - 1"

definition i64_min :: int where
  "i64_min = - (2 ^ 63)"

definition now_ms :: "system_time \<Rightarrow> int" where
  "now_ms t =
     (if 0 \<le> t then (if t div 1000000 \<le> i64_max then t div 1000000 else i64_max) else i64_max)"

definition validate_ancestor_cap :: "nat \<Rightarrow> nat result" where
  "validate_ancestor_cap cap =
     (if cap = 0 then Inl (Backend ''ancestor cap must be at least 1'') else Inr cap)"

subsection \<open>The ancestor fold\<close>

text \<open>
  \<open>sort_by\<close> with the comparison reversed in both fields: the order is total, so the result is the
  ascending sort read backwards.
\<close>

definition sort_desc :: "revision list \<Rightarrow> revision list" where
  "sort_desc xs = rev (sort xs)"

definition from_current :: "rec option \<Rightarrow> revision list" where
  "from_current cur = (case cur of None \<Rightarrow> [] | Some c \<Rightarrow> rec_revision c # rec_ancestors c)"

definition fold_ancestors :: "revision \<Rightarrow> revision list \<Rightarrow> rec option \<Rightarrow> nat \<Rightarrow> revision list" where
  "fold_ancestors stored incoming cur cap =
     take cap (filter (\<lambda>r. r \<noteq> stored) (vec_dedup (sort_desc (incoming @ from_current cur))))"

subsection \<open>Tombstones\<close>

definition retains_body :: "record_kind \<Rightarrow> bool" where
  "retains_body k \<longleftrightarrow> k = GraphManifest \<or> k = VectorManifest"

definition tombstone_of :: "blake3 \<Rightarrow> rec \<Rightarrow> int \<Rightarrow> nat \<Rightarrow> identity option \<Rightarrow> rec" where
  "tombstone_of H cur now cap au =
     (let revision = Revision (counter (rec_revision cur) + 1) (tombstone_hash H);
          ancestors = fold_ancestors revision [] (Some cur) cap;
          meta0 = (case au of None \<Rightarrow> rec_meta cur | Some a \<Rightarrow> (rec_meta cur)\<lparr>author := a\<rparr>);
          meta1 = meta0\<lparr>updated := now\<rparr>;
          retains = retains_body (rec_kind cur)
      in \<lparr>rec_key = rec_key cur, rec_kind = Tombstone, rec_revision = revision,
          rec_parent = Some (rec_revision cur),
          rec_body = (if retains then rec_body cur else Inline []),
          rec_meta = meta1, rec_links = [], rec_ancestors = ancestors,
          rec_deleted_at = Some now,
          rec_deleted_blob = (case rec_body cur of Blob h _ \<Rightarrow> Some h | Inline _ \<Rightarrow> None),
          rec_deleted_kind = (if retains then Some (rec_kind cur) else None)\<rparr>)"

subsection \<open>Planners\<close>

datatype put_plan = PutWrite rec | PutPlanConflict conflict | PutNotFound | PutRejected string

datatype delete_plan = DelWrite rec | DelNoop | DelPlanConflict conflict

datatype purge_plan = PurgeRemove | PurgeNoop | PurgePlanConflict conflict

definition CONSUMER_TOMBSTONE_REJECTED :: string where
  "CONSUMER_TOMBSTONE_REJECTED = ''consumer put cannot write a tombstone; use delete_as''"

definition MANIFEST_TOMBSTONE_RECREATE_REJECTED :: string where
  "MANIFEST_TOMBSTONE_RECREATE_REJECTED =
     ''a deleted manifest is at this key; restore it with `gonzalo undelete`, '' @
     ''or discard the tombstone with `gonzalo purge`''"

definition stamp :: "int \<Rightarrow> int \<Rightarrow> rec \<Rightarrow> rec" where
  "stamp c u r = r\<lparr>rec_meta := (rec_meta r)\<lparr>created := c, updated := u\<rparr>\<rparr>"

definition with_folded :: "rec option \<Rightarrow> nat \<Rightarrow> rec \<Rightarrow> rec" where
  "with_folded cur cap r =
     r\<lparr>rec_ancestors := fold_ancestors (rec_revision r) (rec_ancestors r) cur cap\<rparr>"

text \<open>The record a create over the tombstone \<open>t\<close> becomes: the chain continues past the delete.\<close>

definition recreated :: "blake3 \<Rightarrow> rec \<Rightarrow> rec \<Rightarrow> int \<Rightarrow> nat \<Rightarrow> rec" where
  "recreated H t r now cap =
     with_folded (Some t) cap
       (stamp now now
         (r\<lparr>rec_revision :=
               Revision (counter (rec_revision t) + 1) (content_hash_of H (body_bytes (rec_body r))),
            rec_parent := Some (rec_revision t), rec_deleted_at := None, rec_deleted_blob := None,
            rec_deleted_kind := None\<rparr>))"

definition plan_put ::
  "blake3 \<Rightarrow> rec option \<Rightarrow> rec \<Rightarrow> revision option \<Rightarrow> int \<Rightarrow> nat \<Rightarrow> put_plan" where
  "plan_put H cur r expected now cap =
     (if is_tombstone r then PutRejected CONSUMER_TOMBSTONE_REJECTED
      else case cur of
        None \<Rightarrow>
          if expected \<noteq> None then PutNotFound
          else PutWrite (with_folded None cap (stamp now now r))
      | Some c \<Rightarrow>
          if is_tombstone c then
            (case expected of
               None \<Rightarrow>
                 if rec_deleted_kind c = Some GraphManifest \<or> rec_deleted_kind c = Some VectorManifest
                 then PutRejected MANIFEST_TOMBSTONE_RECREATE_REJECTED
                 else PutWrite (recreated H c r now cap)
             | Some _ \<Rightarrow> PutNotFound)
          else if expected = Some (rec_revision c) then
            PutWrite (with_folded (Some c) cap (stamp (created (rec_meta c)) now r))
          else PutPlanConflict \<lparr>conf_key = rec_key r, conf_expected = expected, conf_current = c\<rparr>)"

definition plan_put_raw ::
  "rec option \<Rightarrow> rec \<Rightarrow> revision option \<Rightarrow> int \<Rightarrow> nat \<Rightarrow> put_plan" where
  "plan_put_raw cur r expected now cap =
     (case (cur, expected) of
        (None, None) \<Rightarrow> PutWrite (with_folded None cap r)
      | (None, Some _) \<Rightarrow> PutNotFound
      | (Some c, ex) \<Rightarrow>
          if ex = Some (rec_revision c) then PutWrite (with_folded (Some c) cap r)
          else PutPlanConflict \<lparr>conf_key = rec_key r, conf_expected = ex, conf_current = c\<rparr>)"

definition plan_delete ::
  "blake3 \<Rightarrow> rec option \<Rightarrow> revision option \<Rightarrow> int \<Rightarrow> nat \<Rightarrow> identity option \<Rightarrow> delete_plan" where
  "plan_delete H cur expected now cap au =
     (case cur of
        None \<Rightarrow> DelNoop
      | Some c \<Rightarrow>
          if is_tombstone c then DelNoop
          else if expected = None \<or> expected = Some (rec_revision c)
          then DelWrite (tombstone_of H c now cap au)
          else DelPlanConflict \<lparr>conf_key = rec_key c, conf_expected = expected, conf_current = c\<rparr>)"

definition plan_purge :: "rec option \<Rightarrow> revision \<Rightarrow> purge_plan" where
  "plan_purge cur expected =
     (case cur of
        None \<Rightarrow> PurgeNoop
      | Some c \<Rightarrow>
          if rec_revision c = expected then PurgeRemove
          else PurgePlanConflict
                 \<lparr>conf_key = rec_key c, conf_expected = Some expected, conf_current = c\<rparr>)"

subsection \<open>Reconciling two diverged records\<close>

definition reconciled_ancestors :: "revision \<Rightarrow> rec \<Rightarrow> rec \<Rightarrow> nat \<Rightarrow> revision list" where
  "reconciled_ancestors stored a b cap =
     fold_ancestors stored
       (rec_revision a # rec_ancestors a @ rec_revision b # rec_ancestors b) None cap"

definition tombstone_winner :: "rec \<Rightarrow> rec \<Rightarrow> nat \<Rightarrow> rec" where
  "tombstone_winner a b cap =
     (let a_wins = (counter (rec_revision b), rev_hash (rec_revision b)) \<le> (counter (rec_revision a), rev_hash (rec_revision a));
          winner = (if a_wins then a else b)
      in winner\<lparr>rec_ancestors := reconciled_ancestors (rec_revision winner) a b cap\<rparr>)"

text \<open>\<open>for l in &b.links { if !links.contains(l) { links.push(l) } }\<close>.\<close>

fun push_missing :: "'a list \<Rightarrow> 'a list \<Rightarrow> 'a list" where
  "push_missing acc [] = acc"
| "push_missing acc (x # xs) = push_missing (if x \<in> set acc then acc else acc @ [x]) xs"

definition reconciled_record ::
  "blake3 \<Rightarrow> rec \<Rightarrow> rec \<Rightarrow> body \<Rightarrow> identity \<Rightarrow> string \<Rightarrow> nat \<Rightarrow> rec" where
  "reconciled_record H a b bd au origin cap =
     (let revision = Revision (max (counter (rec_revision a)) (counter (rec_revision b)) + 1)
                       (content_hash_of H (body_bytes bd));
          parent = (if counter (rec_revision b) \<le> counter (rec_revision a)
                    then rec_revision a else rec_revision b)
      in \<lparr>rec_key = rec_key a, rec_kind = rec_kind a, rec_revision = revision,
          rec_parent = Some parent, rec_body = bd,
          rec_meta =
            \<lparr>author = au, origin_system = origin,
             created = min (created (rec_meta a)) (created (rec_meta b)),
             updated = max (updated (rec_meta a)) (updated (rec_meta b)),
             labels = bt_extend (labels (rec_meta a)) (labels (rec_meta b))\<rparr>,
          rec_links = push_missing (rec_links a) (rec_links b),
          rec_ancestors = reconciled_ancestors revision a b cap,
          rec_deleted_at = None, rec_deleted_blob = None, rec_deleted_kind = None\<rparr>)"

subsection \<open>Facts about the fold\<close>

lemma sorted_vec_dedup_desc: "sorted_wrt (>) (vec_dedup (sort_desc xs))"
proof -
  have "sorted_wrt (\<ge>) (sort_desc xs)"
    unfolding sort_desc_def sorted_wrt_rev by simp
  then have "sorted_wrt (\<lambda>a b. a \<ge> b \<and> a \<noteq> b) (vec_dedup (sort_desc xs))"
    by (rule sorted_wrt_vec_dedup [rotated 2]) (auto intro: antisympI transpI)
  then show ?thesis
    by (rule sorted_wrt_mono_rel [rotated]) auto
qed

lemma sorted_wrt_greater_unique:
  fixes xs ys :: "'a::linorder list"
  assumes "sorted_wrt (>) xs" "sorted_wrt (>) ys" "set xs = set ys"
  shows "xs = ys"
proof -
  have "sorted_wrt (<) (rev xs)" "sorted_wrt (<) (rev ys)"
    using assms(1,2) by (simp_all add: sorted_wrt_rev)
  then have "rev xs = rev ys"
    using assms(3) by (intro sorted_wrt_less_unique) auto
  then show ?thesis by simp
qed

definition fold_set :: "revision \<Rightarrow> revision list \<Rightarrow> rec option \<Rightarrow> revision set" where
  "fold_set stored incoming cur = (set incoming \<union> set (from_current cur)) - {stored}"

text \<open>The set formula of the documentation is what the sort, dedup, retain and truncate compute.\<close>

lemma fold_ancestors_eq:
  "fold_ancestors stored incoming cur cap =
     take cap (rev (sorted_list_of_set (fold_set stored incoming cur)))"
proof -
  let ?l = "filter (\<lambda>r. r \<noteq> stored) (vec_dedup (sort_desc (incoming @ from_current cur)))"
  let ?S = "fold_set stored incoming cur"
  have "finite ?S" by (simp add: fold_set_def)
  have "sorted_wrt (>) ?l"
    by (intro sorted_wrt_filter_less sorted_vec_dedup_desc)
  moreover have "sorted_wrt (>) (rev (sorted_list_of_set ?S))"
    by (simp add: sorted_wrt_rev)
  moreover have "set ?l = set (rev (sorted_list_of_set ?S))"
    using \<open>finite ?S\<close> by (auto simp: fold_set_def sort_desc_def)
  ultimately have "?l = rev (sorted_list_of_set ?S)"
    by (rule sorted_wrt_greater_unique)
  then show ?thesis by (simp add: fold_ancestors_def)
qed

lemma fold_ancestors_sorted: "sorted_wrt (>) (fold_ancestors stored incoming cur cap)"
  unfolding fold_ancestors_def by (intro sorted_wrt_take sorted_wrt_filter_less sorted_vec_dedup_desc)

lemma fold_ancestors_length: "length (fold_ancestors stored incoming cur cap) \<le> cap"
  by (simp add: fold_ancestors_def)

lemma fold_ancestors_not_stored: "stored \<notin> set (fold_ancestors stored incoming cur cap)"
  unfolding fold_ancestors_def by (auto dest: in_set_takeD)

lemma fold_ancestors_subset: "set (fold_ancestors stored incoming cur cap) \<subseteq> fold_set stored incoming cur"
  unfolding fold_ancestors_eq by (auto dest!: in_set_takeD simp: fold_set_def)

lemma fold_ancestors_all:
  assumes "card (fold_set stored incoming cur) \<le> cap"
  shows "set (fold_ancestors stored incoming cur cap) = fold_set stored incoming cur"
proof -
  have "finite (fold_set stored incoming cur)" by (simp add: fold_set_def)
  with assms show ?thesis by (simp add: fold_ancestors_eq)
qed

text \<open>Truncation drops only revisions older than every one it keeps.\<close>

lemma fold_ancestors_keeps_newest:
  assumes "x \<in> set (fold_ancestors stored incoming cur cap)"
    and "y \<in> fold_set stored incoming cur - set (fold_ancestors stored incoming cur cap)"
  shows "y < x"
proof -
  let ?l = "rev (sorted_list_of_set (fold_set stored incoming cur))"
  have "sorted_wrt (>) (take cap ?l @ drop cap ?l)"
    by (simp add: sorted_wrt_rev)
  moreover have "x \<in> set (take cap ?l)"
    using assms(1) by (simp add: fold_ancestors_eq)
  moreover have "y \<in> set (drop cap ?l)"
  proof -
    have "y \<in> set ?l" using assms(2) by (simp add: fold_set_def)
    then have "y \<in> set (take cap ?l) \<union> set (drop cap ?l)"
      by (metis append_take_drop_id set_append)
    then show ?thesis using assms(2) by (simp add: fold_ancestors_eq)
  qed
  ultimately show ?thesis by (simp only: sorted_wrt_append)
qed

lemma with_folded_simps [simp]:
  "rec_key (with_folded cur cap r) = rec_key r"
  "rec_kind (with_folded cur cap r) = rec_kind r"
  "rec_revision (with_folded cur cap r) = rec_revision r"
  "rec_body (with_folded cur cap r) = rec_body r"
  "rec_meta (with_folded cur cap r) = rec_meta r"
  "rec_deleted_at (with_folded cur cap r) = rec_deleted_at r"
  "rec_deleted_blob (with_folded cur cap r) = rec_deleted_blob r"
  "rec_deleted_kind (with_folded cur cap r) = rec_deleted_kind r"
  "is_tombstone (with_folded cur cap r) = is_tombstone r"
  by (simp_all add: with_folded_def is_tombstone_def)

lemma stamp_simps [simp]:
  "rec_key (stamp c u r) = rec_key r"
  "rec_kind (stamp c u r) = rec_kind r"
  "rec_revision (stamp c u r) = rec_revision r"
  "rec_body (stamp c u r) = rec_body r"
  "rec_ancestors (stamp c u r) = rec_ancestors r"
  "is_tombstone (stamp c u r) = is_tombstone r"
  by (simp_all add: stamp_def is_tombstone_def)

lemma recreated_simps [simp]:
  "rec_key (recreated H t r now cap) = rec_key r"
  "rec_kind (recreated H t r now cap) = rec_kind r"
  "rec_body (recreated H t r now cap) = rec_body r"
  "rec_revision (recreated H t r now cap) =
     Revision (counter (rec_revision t) + 1) (content_hash_of H (body_bytes (rec_body r)))"
  by (simp_all add: recreated_def)

lemma tombstone_of_simps [simp]:
  "rec_key (tombstone_of H c now cap au) = rec_key c"
  "rec_kind (tombstone_of H c now cap au) = Tombstone"
  "rec_revision (tombstone_of H c now cap au) =
     Revision (counter (rec_revision c) + 1) (tombstone_hash H)"
  "rec_deleted_at (tombstone_of H c now cap au) = Some now"
  "is_tombstone (tombstone_of H c now cap au)"
  by (simp_all add: tombstone_of_def Let_def is_tombstone_def)

lemma tombstone_winner_eq:
  "tombstone_winner a b cap =
     (let w = (if rec_revision b \<le> rec_revision a then a else b)
      in w\<lparr>rec_ancestors := reconciled_ancestors (rec_revision w) a b cap\<rparr>)"
  by (simp only: tombstone_winner_def less_eq_revision_def Let_def)

lemma tombstone_winner_simps [simp]:
  "rec_key (tombstone_winner a b cap) = rec_key (if rec_revision b \<le> rec_revision a then a else b)"
  "rec_revision (tombstone_winner a b cap) = max (rec_revision a) (rec_revision b)"
  by (auto simp: tombstone_winner_eq Let_def max_def)

lemma reconciled_record_simps [simp]:
  "rec_key (reconciled_record H a b bd au og cap) = rec_key a"
  "rec_kind (reconciled_record H a b bd au og cap) = rec_kind a"
  "rec_body (reconciled_record H a b bd au og cap) = bd"
  by (simp_all add: reconciled_record_def Let_def)

lemma set_push_missing [simp]: "set (push_missing acc xs) = set acc \<union> set xs"
  by (induction acc xs rule: push_missing.induct) auto

text \<open>The outcome does not depend on the order of the two sides.\<close>

lemma fold_set_cong: "set xs = set ys \<Longrightarrow> fold_ancestors st xs cur cap = fold_ancestors st ys cur cap"
  by (simp add: fold_ancestors_eq fold_set_def)

lemma reconciled_ancestors_sym: "reconciled_ancestors st a b cap = reconciled_ancestors st b a cap"
  unfolding reconciled_ancestors_def by (rule fold_set_cong) auto

lemma tombstone_winner_sym:
  assumes "rec_revision a \<noteq> rec_revision b"
  shows "tombstone_winner a b cap = tombstone_winner b a cap"
proof -
  have "rec_revision b \<le> rec_revision a \<longleftrightarrow> \<not> rec_revision a \<le> rec_revision b"
    using assms by auto
  then show ?thesis
    by (simp add: tombstone_winner_eq Let_def reconciled_ancestors_sym [of _ b a])
qed

subsection \<open>Planners keep the key\<close>

lemma plan_put_key: "plan_put H cur r ex t c = PutWrite r' \<Longrightarrow> rec_key r' = rec_key r"
  by (auto simp: plan_put_def split: if_splits option.splits)

lemma plan_put_raw_key: "plan_put_raw cur r ex t c = PutWrite r' \<Longrightarrow> rec_key r' = rec_key r"
  by (auto simp: plan_put_raw_def split: if_splits option.splits)

lemma plan_delete_key:
  "plan_delete H (Some cur) ex t c au = DelWrite r' \<Longrightarrow> rec_key r' = rec_key cur"
  by (auto simp: plan_delete_def split: if_splits)

end
