(* ===== verification/Gz_Paths.thy ===== *)
theory Gz_Paths
  imports Gz_Record
begin

text \<open>
  Path encoding of record keys (\<open>paths.rs\<close>) and the file layout of the filesystem store
  (\<open>gonzalo-store-fs/src/layout.rs\<close>).

  \<open>segment\<close> escapes every byte outside \<open>[A-Za-z0-9_-]\<close> as \<open>%XX\<close>; \<open>decode_segment\<close> is the index
  loop of the code, written as recursion on the remaining bytes. The final
  \<open>String::from_utf8_lossy\<close> is modelled in full: it copies well-formed UTF-8 sequences and writes
  U+FFFD for each maximal ill-formed part, so it is the identity on the bytes of a Rust
  \<open>String\<close>, which are always well-formed.
\<close>

subsection \<open>UTF-8, as the standard library reads it\<close>

definition byte_in :: "nat \<Rightarrow> nat \<Rightarrow> char \<Rightarrow> bool" where
  "byte_in lo hi c \<longleftrightarrow> lo \<le> of_char c \<and> (of_char c :: nat) \<le> hi"

text \<open>The allowed range of the second byte after a given first byte, and the sequence length.\<close>

definition utf8_lead :: "char \<Rightarrow> (nat \<times> nat \<times> nat) option" where
  "utf8_lead c =
     (let n = of_char c :: nat in
      if 0xC2 \<le> n \<and> n \<le> 0xDF then Some (2, 0x80, 0xBF)
      else if n = 0xE0 then Some (3, 0xA0, 0xBF)
      else if 0xE1 \<le> n \<and> n \<le> 0xEC then Some (3, 0x80, 0xBF)
      else if n = 0xED then Some (3, 0x80, 0x9F)
      else if 0xEE \<le> n \<and> n \<le> 0xEF then Some (3, 0x80, 0xBF)
      else if n = 0xF0 then Some (4, 0x90, 0xBF)
      else if 0xF1 \<le> n \<and> n \<le> 0xF3 then Some (4, 0x80, 0xBF)
      else if n = 0xF4 then Some (4, 0x80, 0x8F)
      else None)"

text \<open>
  The number of leading bytes of a non-empty input that form one unit: \<open>(n, True)\<close> for a
  well-formed character of \<open>n\<close> bytes, \<open>(n, False)\<close> for a maximal ill-formed part of \<open>n\<close> bytes.
\<close>

fun utf8_unit :: "bytes \<Rightarrow> nat \<times> bool" where
  "utf8_unit [] = (0, False)"
| "utf8_unit (a # rest) =
     (if byte_in 0 0x7F a then (1, True)
      else case utf8_lead a of
        None \<Rightarrow> (1, False)
      | Some (n, lo, hi) \<Rightarrow>
          (case rest of
             [] \<Rightarrow> (1, False)
           | b # rest2 \<Rightarrow>
               if \<not> byte_in lo hi b then (1, False)
               else if n = 2 then (2, True)
               else (case rest2 of
                       [] \<Rightarrow> (2, False)
                     | c # rest3 \<Rightarrow>
                         if \<not> byte_in 0x80 0xBF c then (2, False)
                         else if n = 3 then (3, True)
                         else (case rest3 of
                                 [] \<Rightarrow> (3, False)
                               | d # _ \<Rightarrow>
                                   if byte_in 0x80 0xBF d then (4, True) else (3, False)))))"

lemma utf8_unit_pos: "s \<noteq> [] \<Longrightarrow> 0 < fst (utf8_unit s)"
  by (cases s) (auto split: option.splits list.splits)

lemma utf8_unit_shrinks: "s \<noteq> [] \<Longrightarrow> (n, ok) = utf8_unit s \<Longrightarrow> length s - n < length s"
  using utf8_unit_pos [of s] by (cases "utf8_unit s") auto

definition replacement_char :: bytes where
  "replacement_char = [CHR 0xEF, CHR 0xBF, CHR 0xBD]"

function from_utf8_lossy :: "bytes \<Rightarrow> bytes" where
  "from_utf8_lossy s =
     (if s = [] then []
      else case utf8_unit s of
        (n, ok) \<Rightarrow> (if ok then take n s else replacement_char) @ from_utf8_lossy (drop n s))"
  by pat_completeness auto
termination
  by (relation "measure length") (auto intro: utf8_unit_shrinks)

declare from_utf8_lossy.simps [simp del]

function utf8_valid :: "bytes \<Rightarrow> bool" where
  "utf8_valid s =
     (if s = [] then True
      else case utf8_unit s of (n, ok) \<Rightarrow> ok \<and> utf8_valid (drop n s))"
  by pat_completeness auto
termination
  by (relation "measure length") (auto intro: utf8_unit_shrinks)

declare utf8_valid.simps [simp del]

lemma from_utf8_lossy_valid: "utf8_valid s \<Longrightarrow> from_utf8_lossy s = s"
proof (induction s rule: from_utf8_lossy.induct)
  case (1 s)
  show ?case
  proof (cases "s = []")
    case True
    then show ?thesis by (simp add: from_utf8_lossy.simps)
  next
    case False
    obtain n ok where u: "utf8_unit s = (n, ok)" by (cases "utf8_unit s")
    have "ok" and "utf8_valid (drop n s)"
      using "1.prems" False u by (auto simp: utf8_valid.simps [of s])
    then have "from_utf8_lossy (drop n s) = drop n s"
      using "1.IH" False u by simp
    with False u \<open>ok\<close> show ?thesis
      by (simp add: from_utf8_lossy.simps [of s])
  qed
qed

lemma utf8_valid_Nil [simp]: "utf8_valid []"
  by (simp add: utf8_valid.simps)

lemma utf8_valid_ascii: "\<forall>c \<in> set s. byte_in 0 0x7F c \<Longrightarrow> utf8_valid s"
proof (induction s)
  case (Cons c s)
  then show ?case by (simp add: utf8_valid.simps [of "c # s"])
qed simp

subsection \<open>The segment codec (\<open>paths.rs\<close>)\<close>

definition HEX :: string where
  "HEX = ''0123456789ABCDEF''"

definition unreserved :: "char \<Rightarrow> bool" where
  "unreserved b \<longleftrightarrow>
     byte_in 0x41 0x5A b \<or> byte_in 0x61 0x7A b \<or> byte_in 0x30 0x39 b \<or> b = CHR ''-'' \<or> b = CHR ''_''"

definition segment_byte :: "char \<Rightarrow> string" where
  "segment_byte b =
     (if unreserved b then [b]
      else [CHR ''%'', HEX ! (of_char b div 16), HEX ! (of_char b mod 16)])"

definition segment :: "string \<Rightarrow> string" where
  "segment s = concat (map segment_byte s)"

definition hex_val :: "char \<Rightarrow> nat option" where
  "hex_val b =
     (let n = of_char b :: nat in
      if 0x30 \<le> n \<and> n \<le> 0x39 then Some (n - 0x30)
      else if 0x41 \<le> n \<and> n \<le> 0x46 then Some (n - 0x41 + 10)
      else if 0x61 \<le> n \<and> n \<le> 0x66 then Some (n - 0x61 + 10)
      else None)"

fun decode_loop :: "bytes \<Rightarrow> bytes" where
  "decode_loop [] = []"
| "decode_loop (b # rest) =
     (case rest of
        h # l # rest' \<Rightarrow>
          (if b = CHR ''%'' then
             (case (hex_val h, hex_val l) of
                (Some hi, Some lo) \<Rightarrow> char_of (hi * 16 + lo) # decode_loop rest'
              | _ \<Rightarrow> b # decode_loop rest)
           else b # decode_loop rest)
      | _ \<Rightarrow> b # decode_loop rest)"

definition decode_segment :: "string \<Rightarrow> string" where
  "decode_segment s = from_utf8_lossy (decode_loop s)"

definition record_components :: "record_key \<Rightarrow> string \<times> string \<times> string" where
  "record_components k =
     (segment (namespace k), segment (collection k), segment (key_id k) @ ''.json'')"

definition object_key :: "record_key \<Rightarrow> string" where
  "object_key k = (case record_components k of (ns, col, file) \<Rightarrow> ns @ ''/'' @ col @ ''/'' @ file)"

subsection \<open>Round trip\<close>

lemma hex_val_HEX: "n < 16 \<Longrightarrow> hex_val (HEX ! n) = Some n"
proof -
  assume "n < 16"
  then have "n \<in> set [0..<16]" by simp
  moreover have "\<forall>n \<in> set [0..<16]. hex_val (HEX ! n) = Some n"
    by code_simp
  ultimately show ?thesis by blast
qed

lemma of_char_div_16: "(of_char b :: nat) div 16 < 16"
  by (simp add: of_char_def)

lemma decode_segment_byte: "decode_loop (segment_byte b @ s) = b # decode_loop s"
proof (cases "unreserved b")
  case True
  then have "b \<noteq> CHR ''%''"
    by (auto simp: unreserved_def byte_in_def)
  with True show ?thesis
    by (auto simp: segment_byte_def split: list.splits)
next
  case False
  have "hex_val (HEX ! (of_char b div 16)) = Some (of_char b div 16)"
    by (simp add: hex_val_HEX of_char_div_16)
  moreover have "hex_val (HEX ! (of_char b mod 16)) = Some (of_char b mod 16)"
    by (simp add: hex_val_HEX)
  ultimately show ?thesis
    using False by (simp add: segment_byte_def)
qed

lemma decode_loop_segment: "decode_loop (segment s) = s"
  by (induction s) (simp_all add: segment_def decode_segment_byte)

lemma segment_inj: "segment s = segment t \<longleftrightarrow> s = t"
  by (metis decode_loop_segment)

subsection \<open>Safe output alphabet\<close>

definition seg_char :: "char \<Rightarrow> bool" where
  "seg_char c \<longleftrightarrow> unreserved c \<or> c = CHR ''%''"

lemma HEX_unreserved: "n < 16 \<Longrightarrow> unreserved (HEX ! n)"
proof -
  assume "n < 16"
  then have "n \<in> set [0..<16]" by simp
  moreover have "\<forall>n \<in> set [0..<16]. unreserved (HEX ! n)"
    by code_simp
  ultimately show ?thesis by blast
qed

lemma segment_chars: "c \<in> set (segment s) \<Longrightarrow> seg_char c"
  by (auto simp: segment_def segment_byte_def seg_char_def HEX_unreserved of_char_div_16
      split: if_splits)

lemma seg_char_not_sep: "seg_char c \<Longrightarrow> c \<noteq> CHR ''/'' \<and> c \<noteq> CHR ''.''"
  by (auto simp: seg_char_def unreserved_def byte_in_def)

lemma segment_no_sep: "CHR ''/'' \<notin> set (segment s)" "CHR ''.'' \<notin> set (segment s)"
  using segment_chars seg_char_not_sep by blast+

lemma segment_unreserved: "\<forall>c \<in> set s. unreserved c \<Longrightarrow> segment s = s"
  by (induction s) (auto simp: segment_def segment_byte_def)

text \<open>Splitting at the first separator is unambiguous when the parts do not contain it.\<close>

lemma append_sep_inj:
  assumes "c \<notin> set xs" "c \<notin> set xs'" "xs @ c # ys = xs' @ c # ys'"
  shows "xs = xs' \<and> ys = ys'"
  using assms by (induction xs arbitrary: xs') (auto simp: Cons_eq_append_conv append_eq_Cons_conv)

lemma object_key_inj: "object_key k = object_key k' \<longleftrightarrow> k = k'"
proof
  assume eq: "object_key k = object_key k'"
  obtain ns col i ns' col' i' where k: "k = RecordKey ns col i" "k' = RecordKey ns' col' i'"
    by (cases k; cases k')
  from eq have 1: "segment ns @ CHR ''/'' # (segment col @ CHR ''/'' # segment i @ ''.json'')
      = segment ns' @ CHR ''/'' # (segment col' @ CHR ''/'' # segment i' @ ''.json'')"
    by (simp add: object_key_def record_components_def k)
  from append_sep_inj [OF segment_no_sep(1) segment_no_sep(1) 1]
  have "segment ns = segment ns'"
    and 2: "segment col @ CHR ''/'' # (segment i @ ''.json'')
      = segment col' @ CHR ''/'' # (segment i' @ ''.json'')" by auto
  moreover from append_sep_inj [OF segment_no_sep(1) segment_no_sep(1) 2]
  have "segment col = segment col'" and "segment i = segment i'" by auto
  ultimately show "k = k'" by (simp add: k segment_inj)
qed simp

lemma decode_segment_valid: "utf8_valid s \<Longrightarrow> decode_segment (segment s) = s"
  by (simp add: decode_segment_def decode_loop_segment from_utf8_lossy_valid)

end
