(* ===== verification/Gz_Disk.thy ===== *)
theory Gz_Disk
  imports Gz_Tombstone Gz_Paths
begin

text \<open>
  The part of an operating system's filesystem that \<open>gonzalo-store-fs\<close> calls: paths
  (\<open>std::path\<close>), a tree of files with modification times, and the system calls, each of which can
  fail.

  \<^item> An absolute path is the list of its components. \<open>join\<close> drops empty and \<open>.\<close> components and
    starts over at a leading slash; \<open>..\<close> stays in the path and is resolved by the system calls.
  \<^item> A directory exists when something below it does, so creating one is only the check that no
    file is in the way.
  \<^item> The state carries a schedule of faults: every system call takes the next entry, and an entry
    \<open>Fault m n\<close> makes that call fail with the message \<open>m\<close> (a failing write has written \<open>n\<close> bytes by
    then). An exhausted schedule means no more faults.
  \<^item> The clock is a field of the state. \<open>dk_dir_mtime\<close> is what the system reports as the
    modification time of a directory.
\<close>

type_synonym path = "string list"

datatype fault = NoFault | Fault string nat

record dfile =
  f_bytes :: bytes
  f_mtime :: system_time

record disk =
  dk_files :: "(path, dfile) btree"
  dk_now :: system_time
  dk_faults :: "fault list"
  dk_nonce :: nat
  dk_dir_mtime :: "path \<Rightarrow> system_time"

datatype io_error = IoNotFound | IoOther string

definition EISDIR :: string where "EISDIR = ''Is a directory (os error 21)''"
definition ENOTDIR :: string where "ENOTDIR = ''Not a directory (os error 20)''"
definition EEXIST :: string where "EEXIST = ''File exists (os error 17)''"

fun io_to_string :: "io_error \<Rightarrow> string" where
  "io_to_string IoNotFound = ''No such file or directory (os error 2)''"
| "io_to_string (IoOther m) = m"

subsection \<open>Paths\<close>

definition components :: "string \<Rightarrow> path" where
  "components s = filter (\<lambda>c. c \<noteq> [] \<and> c \<noteq> ''.'') (split_slash [] s)"

definition path_join :: "path \<Rightarrow> string \<Rightarrow> path" where
  "path_join p s = (if take 1 s = ''/'' then [] else p) @ components s"

definition path_parent :: "path \<Rightarrow> path option" where
  "path_parent p = (if p = [] then None else Some (butlast p))"

text \<open>\<open>file_stem\<close>: up to the last dot, unless that dot is the first character.\<close>

definition file_stem :: "string \<Rightarrow> string" where
  "file_stem n =
     (let ext = takeWhile (\<lambda>c. c \<noteq> CHR ''.'') (rev n)
      in case drop (length ext) (rev n) of
           [] \<Rightarrow> n
         | _ # before \<Rightarrow> if before = [] then n else rev before)"

definition with_extension :: "string \<Rightarrow> path \<Rightarrow> path" where
  "with_extension ext p =
     (if p = [] \<or> last p = ''..'' then p
      else butlast p @ [file_stem (last p) @ ''.'' @ ext])"

subsection \<open>The tree\<close>

definition is_dir :: "(path, dfile) btree \<Rightarrow> path \<Rightarrow> bool" where
  "is_dir fs p \<longleftrightarrow> p = [] \<or> (\<exists>q \<in> fst ` set fs. strict_prefix p q)"

definition below_file :: "(path, dfile) btree \<Rightarrow> path \<Rightarrow> bool" where
  "below_file fs p \<longleftrightarrow> (\<exists>q \<in> fst ` set fs. strict_prefix q p)"

text \<open>Walk a path: \<open>..\<close> needs the directory it leaves to be there.\<close>

fun resolve_from :: "(path, dfile) btree \<Rightarrow> path \<Rightarrow> path \<Rightarrow> io_error + path" where
  "resolve_from fs acc [] = Inr acc"
| "resolve_from fs acc (c # cs) =
     (if c = ''..'' then
        if is_dir fs acc then resolve_from fs (butlast acc) cs
        else if bt_get fs acc \<noteq> None \<or> below_file fs acc then Inl (IoOther ENOTDIR)
        else Inl IoNotFound
      else resolve_from fs (acc @ [c]) cs)"

definition resolve :: "(path, dfile) btree \<Rightarrow> path \<Rightarrow> io_error + path" where
  "resolve fs p = resolve_from fs [] p"

text \<open>The error of an operation that needs a file at \<open>p\<close> and finds none.\<close>

definition missing :: "(path, dfile) btree \<Rightarrow> path \<Rightarrow> io_error" where
  "missing fs p =
     (if is_dir fs p then IoOther EISDIR
      else if below_file fs p then IoOther ENOTDIR else IoNotFound)"

definition children :: "(path, dfile) btree \<Rightarrow> path \<Rightarrow> string list" where
  "children fs p = bts_of_list (map (\<lambda>q. q ! length p) (filter (strict_prefix p) (map fst fs)))"

subsection \<open>System calls\<close>

type_synonym 'a sys = "(disk, io_error, 'a) io"

definition sys_call :: "'a sys \<Rightarrow> 'a sys" where
  "sys_call f s =
     (case dk_faults s of
        [] \<Rightarrow> f s
      | NoFault # rest \<Rightarrow> f (s\<lparr>dk_faults := rest\<rparr>)
      | Fault m n # rest \<Rightarrow> (Inl (IoOther m), s\<lparr>dk_faults := rest\<rparr>))"

definition at_path :: "path \<Rightarrow> (path \<Rightarrow> 'a sys) \<Rightarrow> 'a sys" where
  "at_path p f s = (case resolve (dk_files s) p of Inl e \<Rightarrow> (Inl e, s) | Inr q \<Rightarrow> f q s)"

text \<open>Calls with no effect on the tree: \<open>flock\<close>, \<open>sync_all\<close>, \<open>next_entry\<close>, opening a directory.\<close>

definition sys_tick :: "unit sys" where
  "sys_tick = sys_call (retE ())"

definition sys_read :: "path \<Rightarrow> bytes sys" where
  "sys_read p = sys_call (at_path p (\<lambda>q s.
     case bt_get (dk_files s) q of
       Some f \<Rightarrow> (Inr (f_bytes f), s)
     | None \<Rightarrow> (Inl (missing (dk_files s) q), s)))"

definition sys_create_dir_all :: "path \<Rightarrow> unit sys" where
  "sys_create_dir_all p = sys_call (at_path p (\<lambda>q s.
     if bt_get (dk_files s) q \<noteq> None then (Inl (IoOther EEXIST), s)
     else if below_file (dk_files s) q then (Inl (IoOther ENOTDIR), s)
     else (Inr (), s)))"

text \<open>Open for writing, creating the file if it is absent; \<open>trunc\<close> empties an existing one.\<close>

definition sys_open :: "bool \<Rightarrow> path \<Rightarrow> unit sys" where
  "sys_open trunc p = sys_call (at_path p (\<lambda>q s.
     if is_dir (dk_files s) q then (Inl (IoOther EISDIR), s)
     else if below_file (dk_files s) q then (Inl (IoOther ENOTDIR), s)
     else if bt_get (dk_files s) q \<noteq> None \<and> \<not> trunc then (Inr (), s)
     else (Inr (), s\<lparr>dk_files := bt_insert q \<lparr>f_bytes = [], f_mtime = dk_now s\<rparr> (dk_files s)\<rparr>)))"

definition append_bytes :: "path \<Rightarrow> bytes \<Rightarrow> disk \<Rightarrow> disk" where
  "append_bytes q bs s =
     (case bt_get (dk_files s) q of
        None \<Rightarrow> s
      | Some f \<Rightarrow> s\<lparr>dk_files :=
          bt_insert q \<lparr>f_bytes = f_bytes f @ bs, f_mtime = dk_now s\<rparr> (dk_files s)\<rparr>)"

text \<open>Write to the file just created at \<open>p\<close>.\<close>

definition sys_write_all :: "path \<Rightarrow> bytes \<Rightarrow> unit sys" where
  "sys_write_all p bs s =
     (case dk_faults s of
        [] \<Rightarrow> at_path p (\<lambda>q s. (Inr (), append_bytes q bs s)) s
      | NoFault # rest \<Rightarrow> at_path p (\<lambda>q s. (Inr (), append_bytes q bs s)) (s\<lparr>dk_faults := rest\<rparr>)
      | Fault m n # rest \<Rightarrow>
          (case at_path p (\<lambda>q s. (Inr (), append_bytes q (take n bs) s)) (s\<lparr>dk_faults := rest\<rparr>) of
             (_, s') \<Rightarrow> (Inl (IoOther m), s')))"

definition sys_rename :: "path \<Rightarrow> path \<Rightarrow> unit sys" where
  "sys_rename p p' = sys_call (at_path p (\<lambda>q. at_path p' (\<lambda>q' s.
     case bt_get (dk_files s) q of
       None \<Rightarrow> (Inl (missing (dk_files s) q), s)
     | Some f \<Rightarrow>
         if is_dir (dk_files s) q' then (Inl (IoOther EISDIR), s)
         else if below_file (dk_files s) q' then (Inl (IoOther ENOTDIR), s)
         else (Inr (), s\<lparr>dk_files := bt_insert q' f (bt_remove q (dk_files s))\<rparr>))))"

definition sys_remove :: "path \<Rightarrow> unit sys" where
  "sys_remove p = sys_call (at_path p (\<lambda>q s.
     if bt_get (dk_files s) q \<noteq> None then (Inr (), s\<lparr>dk_files := bt_remove q (dk_files s)\<rparr>)
     else (Inl (missing (dk_files s) q), s)))"

definition sys_try_exists :: "path \<Rightarrow> bool sys" where
  "sys_try_exists p s =
     (case sys_call (at_path p (\<lambda>q s.
        if bt_get (dk_files s) q \<noteq> None \<or> is_dir (dk_files s) q then (Inr (), s)
        else (Inl (missing (dk_files s) q), s))) s of
        (Inr _, s') \<Rightarrow> (Inr True, s')
      | (Inl IoNotFound, s') \<Rightarrow> (Inr False, s')
      | (Inl (IoOther m), s') \<Rightarrow> (Inl (IoOther m), s'))"

definition sys_read_dir :: "path \<Rightarrow> string list sys" where
  "sys_read_dir p = sys_call (at_path p (\<lambda>q s.
     if is_dir (dk_files s) q then (Inr (children (dk_files s) q), s)
     else if bt_get (dk_files s) q \<noteq> None \<or> below_file (dk_files s) q then (Inl (IoOther ENOTDIR), s)
     else (Inl IoNotFound, s)))"

definition sys_is_dir :: "path \<Rightarrow> bool sys" where
  "sys_is_dir p = sys_call (at_path p (\<lambda>q s. (Inr (is_dir (dk_files s) q), s)))"

definition sys_modified :: "path \<Rightarrow> system_time sys" where
  "sys_modified p = sys_call (at_path p (\<lambda>q s.
     case bt_get (dk_files s) q of
       Some f \<Rightarrow> (Inr (f_mtime f), s)
     | None \<Rightarrow>
         if is_dir (dk_files s) q then (Inr (dk_dir_mtime s q), s)
         else (Inl (missing (dk_files s) q), s)))"

text \<open>\<open>map_err(|e| CoreError::Backend(e.to_string()))\<close>.\<close>

definition backend :: "'a sys \<Rightarrow> (disk, core_error, 'a) io" where
  "backend m s =
     (case m s of (Inl e, s') \<Rightarrow> (Inl (Backend (io_to_string e)), s') | (Inr x, s') \<Rightarrow> (Inr x, s'))"

subsection \<open>Paths without dot-dot resolve to themselves\<close>

lemma resolve_from_plain: "''..'' \<notin> set p \<Longrightarrow> resolve_from fs acc p = Inr (acc @ p)"
  by (induction p arbitrary: acc) auto

lemma resolve_plain: "''..'' \<notin> set p \<Longrightarrow> resolve fs p = Inr p"
  by (simp add: resolve_def resolve_from_plain)

lemma path_join_plain:
  "CHR ''/'' \<notin> set s \<Longrightarrow> s \<noteq> [] \<Longrightarrow> s \<noteq> ''.'' \<Longrightarrow> path_join p s = p @ [s]"
  by (cases s) (auto simp: path_join_def components_def split_slash_plain)

lemma path_join_empty: "path_join p [] = p"
  by (simp add: path_join_def components_def)

lemma file_stem_dot:
  assumes "CHR ''.'' \<notin> set ext" "n \<noteq> []"
  shows "file_stem (n @ CHR ''.'' # ext) = n"
proof -
  have "takeWhile (\<lambda>c. c \<noteq> CHR ''.'') (rev ext @ CHR ''.'' # rev n) = rev ext"
    using assms(1) by (subst takeWhile_append2) auto
  then show ?thesis using assms(2) by (simp add: file_stem_def)
qed

lemma file_stem_hidden:
  assumes "CHR ''.'' \<notin> set ext"
  shows "file_stem (CHR ''.'' # ext) = CHR ''.'' # ext"
proof -
  have "takeWhile (\<lambda>c. c \<noteq> CHR ''.'') (rev ext @ [CHR ''.'']) = rev ext"
    using assms by (subst takeWhile_append2) auto
  then show ?thesis by (simp add: file_stem_def)
qed

lemma file_stem_plain: "CHR ''.'' \<notin> set n \<Longrightarrow> file_stem n = n"
proof -
  assume "CHR ''.'' \<notin> set n"
  then have tw: "takeWhile (\<lambda>c. c \<noteq> CHR ''.'') (rev n) = rev n" by (simp add: takeWhile_eq_all_conv) blast
  show ?thesis unfolding file_stem_def Let_def tw by simp
qed

lemma strict_prefix_iff: "strict_prefix p q \<longleftrightarrow> (\<exists>n rest. q = p @ n # rest)"
  by (metis strict_prefixE' strict_prefixI')

lemma set_children:
  "n \<in> set (children fs p) \<longleftrightarrow> (\<exists>rest. p @ n # rest \<in> fst ` set fs)"
proof
  assume "n \<in> set (children fs p)"
  then obtain q where "q \<in> fst ` set fs" "strict_prefix p q" "n = q ! length p"
    by (auto simp: children_def)
  moreover then obtain m rest where "q = p @ m # rest" by (auto simp: strict_prefix_iff)
  ultimately have "p @ n # rest \<in> fst ` set fs" by simp
  then show "\<exists>rest. p @ n # rest \<in> fst ` set fs" by blast
next
  assume "\<exists>rest. p @ n # rest \<in> fst ` set fs"
  then obtain rest where "p @ n # rest \<in> fst ` set fs" by blast
  moreover have "strict_prefix p (p @ n # rest)" by (simp add: strict_prefix_iff)
  moreover have "(p @ n # rest) ! length p = n" by simp
  ultimately show "n \<in> set (children fs p)"
    unfolding children_def set_bts_of_list set_map set_filter by (metis (mono_tags, lifting) imageI mem_Collect_eq)
qed

lemma distinct_children [simp]: "distinct (children fs p)"
  by (simp add: children_def)

lemma is_dir_iff: "is_dir fs p \<longleftrightarrow> p = [] \<or> (\<exists>n rest. p @ n # rest \<in> fst ` set fs)"
  unfolding is_dir_def strict_prefix_iff by metis

subsection \<open>System calls that meet no fault\<close>

lemma sys_call_ok [io_simps]: "dk_faults s = [] \<Longrightarrow> sys_call f s = f s"
  by (simp add: sys_call_def)

lemma at_path_plain [io_simps]: "''..'' \<notin> set p \<Longrightarrow> at_path p f s = f p s"
  by (simp add: at_path_def resolve_plain)

lemma backend_Inr [io_simps]: "m s = (Inr x, s') \<Longrightarrow> backend m s = (Inr x, s')"
  by (simp add: backend_def)

lemma backend_Inl [io_simps]: "m s = (Inl e, s') \<Longrightarrow> backend m s = (Inl (Backend (io_to_string e)), s')"
  by (simp add: backend_def)

text \<open>A place for a file: no file is on the way to it, and it is no directory.\<close>

definition clear :: "(path, dfile) btree \<Rightarrow> path \<Rightarrow> bool" where
  "clear fs p \<longleftrightarrow> p \<noteq> [] \<and> ''..'' \<notin> set p \<and> \<not> is_dir fs p \<and> \<not> below_file fs p"

lemma missing_clear: "clear fs p \<Longrightarrow> missing fs p = IoNotFound"
  by (simp add: clear_def missing_def)

lemma sys_tick_ok: "dk_faults s = [] \<Longrightarrow> sys_tick s = (Inr (), s)"
  by (simp add: sys_tick_def io_simps)

lemma sys_read_ok:
  "dk_faults s = [] \<Longrightarrow> clear (dk_files s) p \<Longrightarrow>
     sys_read p s =
       (case bt_get (dk_files s) p of Some f \<Rightarrow> Inr (f_bytes f) | None \<Rightarrow> Inl IoNotFound, s)"
  by (simp add: sys_read_def io_simps clear_def missing_def split: option.splits)

lemma sys_create_dir_all_ok:
  assumes "dk_faults s = []" "clear (dk_files s) p"
  shows "sys_create_dir_all (butlast p) s = (Inr (), s)"
proof -
  have "strict_prefix (butlast p) p"
    using assms(2) by (simp add: clear_def strict_prefix_def prefix_def)
      (metis append_butlast_last_id append_self_conv not_Cons_self2)
  then have "bt_get (dk_files s) (butlast p) = None" "\<not> below_file (dk_files s) (butlast p)"
    using assms(2) prefix_order.less_trans [of _ "butlast p" p]
    by (auto simp: clear_def below_file_def map_of_eq_None_iff)
  moreover have "''..'' \<notin> set (butlast p)" using assms(2) by (auto simp: clear_def dest: in_set_butlastD)
  ultimately show ?thesis using assms(1) by (simp add: sys_create_dir_all_def io_simps)
qed

lemma sys_open_ok:
  "dk_faults s = [] \<Longrightarrow> clear (dk_files s) p \<Longrightarrow>
     sys_open tr p s =
       (Inr (), if bt_get (dk_files s) p \<noteq> None \<and> \<not> tr then s
                else s\<lparr>dk_files := bt_insert p \<lparr>f_bytes = [], f_mtime = dk_now s\<rparr> (dk_files s)\<rparr>)"
  by (simp add: sys_open_def io_simps clear_def)

lemma sys_write_all_ok:
  "dk_faults s = [] \<Longrightarrow> ''..'' \<notin> set p \<Longrightarrow> sys_write_all p bs s = (Inr (), append_bytes p bs s)"
  by (simp add: sys_write_all_def io_simps)

lemma sys_rename_ok:
  "dk_faults s = [] \<Longrightarrow> ''..'' \<notin> set p \<Longrightarrow> bt_get (dk_files s) p = Some f \<Longrightarrow> clear (dk_files s) p' \<Longrightarrow>
     sys_rename p p' s = (Inr (), s\<lparr>dk_files := bt_insert p' f (bt_remove p (dk_files s))\<rparr>)"
  by (simp add: sys_rename_def io_simps clear_def)

lemma sys_remove_ok:
  "dk_faults s = [] \<Longrightarrow> clear (dk_files s) p \<Longrightarrow>
     sys_remove p s =
       (if bt_get (dk_files s) p = None then (Inl IoNotFound, s)
        else (Inr (), s\<lparr>dk_files := bt_remove p (dk_files s)\<rparr>))"
  by (simp add: sys_remove_def io_simps clear_def missing_def)

lemma sys_try_exists_ok:
  "dk_faults s = [] \<Longrightarrow> clear (dk_files s) p \<Longrightarrow>
     sys_try_exists p s = (Inr (bt_get (dk_files s) p \<noteq> None), s)"
  by (simp add: sys_try_exists_def io_simps clear_def missing_def)

end
