(* ===== verification/Gz_Store.thy ===== *)
theory Gz_Store
  imports Gz_Tombstone
begin

text \<open>
  The storage interface (\<open>store.rs\<close>): the \<open>Store\<close> and \<open>BlobStore\<close> traits as records of operations
  (what \<open>&dyn Store\<close> is at run time), blob listings with their age rule, and the contract a store
  has to meet (\<open>planned_store\<close>): seen through an abstraction to a map from keys to records, every
  operation does what the planner decides and nothing else. \<open>vk\<close> is the set of keys the contract
  speaks about: all of them for the reference store, the ones whose namespace and collection are
  not empty for the filesystem layout (\<open>Gz_FsStore\<close>). The clock reading \<open>now\<close> is a function of the
  state and may differ from call to call. Everything above the store (sync,
  reset, collection, garbage collection, restore) is proved against this contract.
\<close>

subsection \<open>The traits\<close>

record 's store_vt =
  vt_get :: "record_key \<Rightarrow> ('s, core_error, rec option) io"
  vt_put :: "rec \<Rightarrow> revision option \<Rightarrow> ('s, core_error, put_result) io"
  vt_list :: "key_prefix \<Rightarrow> ('s, core_error, record_key list) io"
  vt_delete_as ::
    "record_key \<Rightarrow> revision option \<Rightarrow> identity option \<Rightarrow> ('s, core_error, delete_result) io"
  vt_get_raw :: "record_key \<Rightarrow> ('s, core_error, rec option) io"
  vt_list_raw :: "key_prefix \<Rightarrow> ('s, core_error, record_key list) io"
  vt_put_raw :: "rec \<Rightarrow> revision option \<Rightarrow> ('s, core_error, put_result) io"
  vt_purge :: "record_key \<Rightarrow> revision \<Rightarrow> ('s, core_error, delete_result) io"

text \<open>The provided method \<open>Store::delete\<close>.\<close>

definition vt_delete ::
  "'s store_vt \<Rightarrow> record_key \<Rightarrow> revision option \<Rightarrow> ('s, core_error, delete_result) io" where
  "vt_delete vt k expected = vt_delete_as vt k expected None"

record blob_entry =
  be_hash :: content_hash
  be_modified_unix_ms :: int

record 's blob_vt =
  bv_put_blob :: "bytes \<Rightarrow> ('s, core_error, content_hash) io"
  bv_get_blob :: "content_hash \<Rightarrow> ('s, core_error, bytes option) io"
  bv_list_blobs :: "('s, core_error, blob_entry list) io"
  bv_has_blob :: "content_hash \<Rightarrow> ('s, core_error, bool) io"
  bv_delete_blob :: "content_hash \<Rightarrow> ('s, core_error, unit) io"

text \<open>The provided method \<open>BlobStore::has_blob\<close>: fetch and throw the bytes away.\<close>

definition default_has_blob ::
  "(content_hash \<Rightarrow> ('s, core_error, bytes option) io) \<Rightarrow> content_hash \<Rightarrow> ('s, core_error, bool) io" where
  "default_has_blob get_blob h = bindE (get_blob h) (\<lambda>b. retE (b \<noteq> None))"

text \<open>The JSON text of a record, as \<open>serde_json\<close> writes and reads it.\<close>

record rec_codec =
  rc_to :: "rec \<Rightarrow> string + bytes"
  rc_from :: "bytes \<Rightarrow> string + rec"

subsection \<open>Blob ages\<close>

text \<open>A \<open>Duration\<close> is a number of nanoseconds.\<close>

type_synonym duration = nat

definition as_millis :: "duration \<Rightarrow> nat" where
  "as_millis d = d div 1000000"

definition from_millis :: "nat \<Rightarrow> duration" where
  "from_millis ms = ms * 1000000"

text \<open>\<open>i64::try_from(..).unwrap_or(i64::MAX)\<close>.\<close>

definition i64_sat :: "nat \<Rightarrow> int" where
  "i64_sat n = (if int n \<le> i64_max then int n else i64_max)"

text \<open>\<open>duration_since(UNIX_EPOCH)\<close>: the distance and its sign, then milliseconds, saturated.\<close>

definition unix_ms :: "system_time \<Rightarrow> int" where
  "unix_ms t = (if 0 \<le> t then i64_sat (as_millis (nat t)) else - i64_sat (as_millis (nat (- t))))"

definition from_system_time :: "content_hash \<Rightarrow> system_time \<Rightarrow> blob_entry" where
  "from_system_time h modified = \<lparr>be_hash = h, be_modified_unix_ms = unix_ms modified\<rparr>"

definition checked_sub_i64 :: "int \<Rightarrow> int \<Rightarrow> int option" where
  "checked_sub_i64 a b = (if i64_min \<le> a - b \<and> a - b \<le> i64_max then Some (a - b) else None)"

definition blob_age :: "blob_entry \<Rightarrow> system_time \<Rightarrow> duration option" where
  "blob_age e now =
     (case checked_sub_i64 (unix_ms now) (be_modified_unix_ms e) of
        None \<Rightarrow> None
      | Some age_ms \<Rightarrow> if age_ms < 0 then None else Some (from_millis (nat age_ms)))"

lemma blob_age_Some:
  "blob_age e now = Some d \<Longrightarrow>
     be_modified_unix_ms e \<le> unix_ms now \<and> unix_ms now - be_modified_unix_ms e \<le> i64_max \<and>
     d = from_millis (nat (unix_ms now - be_modified_unix_ms e))"
  by (auto simp: blob_age_def checked_sub_i64_def split: option.splits if_splits)

subsection \<open>Carrying out a plan\<close>

type_synonym store_map = "record_key \<Rightarrow> rec option"

fun put_outcome :: "record_key \<Rightarrow> put_plan \<Rightarrow> put_result result" where
  "put_outcome k (PutWrite r) = Inr (Committed (rec_revision r))"
| "put_outcome k (PutPlanConflict c) = Inr (PutConflict c)"
| "put_outcome k PutNotFound = Inl (NotFound k)"
| "put_outcome k (PutRejected m) = Inl (Invalid m)"

fun put_effect :: "record_key \<Rightarrow> put_plan \<Rightarrow> store_map \<Rightarrow> store_map" where
  "put_effect k (PutWrite r) m = m(k \<mapsto> r)"
| "put_effect k _ m = m"

fun delete_outcome :: "delete_plan \<Rightarrow> delete_result result" where
  "delete_outcome (DelWrite r) = Inr Deleted"
| "delete_outcome DelNoop = Inr Deleted"
| "delete_outcome (DelPlanConflict c) = Inr (DeleteConflict c)"

fun delete_effect :: "record_key \<Rightarrow> delete_plan \<Rightarrow> store_map \<Rightarrow> store_map" where
  "delete_effect k (DelWrite r) m = m(k \<mapsto> r)"
| "delete_effect k _ m = m"

fun purge_outcome :: "purge_plan \<Rightarrow> delete_result result" where
  "purge_outcome PurgeRemove = Inr Deleted"
| "purge_outcome PurgeNoop = Inr Deleted"
| "purge_outcome (PurgePlanConflict c) = Inr (DeleteConflict c)"

fun purge_effect :: "record_key \<Rightarrow> purge_plan \<Rightarrow> store_map \<Rightarrow> store_map" where
  "purge_effect k PurgeRemove m = m(k := None)"
| "purge_effect k _ m = m"

text \<open>Consumer reads: \<open>Option::filter(|r| !r.is_tombstone())\<close>.\<close>

definition live_only :: "rec option \<Rightarrow> rec option" where
  "live_only o' = (case o' of None \<Rightarrow> None | Some r \<Rightarrow> if is_tombstone r then None else Some r)"

lemma live_only_simps [simp]:
  "live_only None = None"
  "is_tombstone r \<Longrightarrow> live_only (Some r) = None"
  "\<not> is_tombstone r \<Longrightarrow> live_only (Some r) = Some r"
  by (simp_all add: live_only_def)

lemma live_only_eq_Some: "live_only o' = Some r \<longleftrightarrow> o' = Some r \<and> \<not> is_tombstone r"
  by (auto simp: live_only_def split: option.splits)

subsection \<open>The contract\<close>

locale planned_store =
  fixes H :: blake3
    and cap :: nat
    and vk :: "record_key \<Rightarrow> bool"
    and vt :: "'s store_vt"
    and abs :: "'s \<Rightarrow> store_map"
    and inv :: "'s \<Rightarrow> bool"
    and now :: "'s \<Rightarrow> int"
  assumes get_raw: "inv s \<Longrightarrow> vk k \<Longrightarrow> vt_get_raw vt k s = (Inr (abs s k), s)"
    and get: "inv s \<Longrightarrow> vk k \<Longrightarrow> vt_get vt k s = (Inr (live_only (abs s k)), s)"
    and list_raw: "inv s \<Longrightarrow> \<exists>ks. vt_list_raw vt p s = (Inr ks, s) \<and> distinct ks \<and>
          set ks = {k. abs s k \<noteq> None \<and> kp_matches p k}"
    and list: "inv s \<Longrightarrow> \<exists>ks s'. vt_list vt p s = (Inr ks, s') \<and> inv s' \<and> abs s' = abs s \<and> distinct ks \<and>
          set ks = {k. live_only (abs s k) \<noteq> None \<and> kp_matches p k}"
    and put: "inv s \<Longrightarrow> vk (rec_key r) \<Longrightarrow> vt_put vt r ex s = (res, s') \<Longrightarrow>
          inv s' \<and>
          res = put_outcome (rec_key r) (plan_put H (abs s (rec_key r)) r ex (now s) cap) \<and>
          abs s' = put_effect (rec_key r) (plan_put H (abs s (rec_key r)) r ex (now s) cap) (abs s)"
    and put_raw: "inv s \<Longrightarrow> vk (rec_key r) \<Longrightarrow> vt_put_raw vt r ex s = (res, s') \<Longrightarrow>
          inv s' \<and>
          res = put_outcome (rec_key r) (plan_put_raw (abs s (rec_key r)) r ex (now s) cap) \<and>
          abs s' = put_effect (rec_key r) (plan_put_raw (abs s (rec_key r)) r ex (now s) cap) (abs s)"
    and delete_as: "inv s \<Longrightarrow> vk k \<Longrightarrow> vt_delete_as vt k ex au s = (dres, s') \<Longrightarrow>
          inv s' \<and>
          dres = delete_outcome (plan_delete H (abs s k) ex (now s) cap au) \<and>
          abs s' = delete_effect k (plan_delete H (abs s k) ex (now s) cap au) (abs s)"
    and purge: "inv s \<Longrightarrow> vk k \<Longrightarrow> vt_purge vt k rv s = (dres, s') \<Longrightarrow>
          inv s' \<and>
          dres = purge_outcome (plan_purge (abs s k) rv) \<and>
          abs s' = purge_effect k (plan_purge (abs s k) rv) (abs s)"
    and stored_key: "inv s \<Longrightarrow> abs s k = Some r \<Longrightarrow> rec_key r = k"
    and stored_valid: "inv s \<Longrightarrow> abs s k = Some r \<Longrightarrow> vk k"
    and finite_keys: "inv s \<Longrightarrow> finite (dom (abs s))"
begin

lemma put_raw_create:
  assumes "inv s" "abs s (rec_key r) = None" "vk (rec_key r)"
  shows "\<exists>s'. vt_put_raw vt r None s = (Inr (Committed (rec_revision r)), s') \<and> inv s' \<and>
    abs s' = (abs s)(rec_key r \<mapsto> with_folded None cap r)"
proof -
  obtain res s' where run: "vt_put_raw vt r None s = (res, s')" by (cases "vt_put_raw vt r None s")
  from put_raw [OF assms(1,3) run] assms(2) run show ?thesis
    by (simp add: plan_put_raw_def)
qed

lemma put_raw_over:
  assumes "inv s" "abs s (rec_key r) = Some c"
  shows "\<exists>s'. vt_put_raw vt r (Some (rec_revision c)) s = (Inr (Committed (rec_revision r)), s') \<and>
    inv s' \<and> abs s' = (abs s)(rec_key r \<mapsto> with_folded (Some c) cap r)"
proof -
  obtain res s' where run: "vt_put_raw vt r (Some (rec_revision c)) s = (res, s')"
    by (cases "vt_put_raw vt r (Some (rec_revision c)) s")
  from put_raw [OF assms(1) stored_valid [OF assms(1,2)] run] assms(2) run show ?thesis
    by (simp add: plan_put_raw_def)
qed

lemma delete_live:
  assumes "inv s" "abs s k = Some c" "\<not> is_tombstone c" "ex = None \<or> ex = Some (rec_revision c)"
  shows "\<exists>s'. vt_delete_as vt k ex au s = (Inr Deleted, s') \<and> inv s' \<and>
    abs s' = (abs s)(k \<mapsto> tombstone_of H c (now s) cap au)"
proof -
  obtain res s' where run: "vt_delete_as vt k ex au s = (res, s')"
    by (cases "vt_delete_as vt k ex au s")
  from delete_as [OF assms(1) stored_valid [OF assms(1,2)] run] assms(2,3,4) run show ?thesis
    by (auto simp: plan_delete_def)
qed

lemma purge_match:
  assumes "inv s" "abs s k = Some c"
  shows "\<exists>s'. vt_purge vt k (rec_revision c) s = (Inr Deleted, s') \<and> inv s' \<and>
    abs s' = (abs s)(k := None)"
proof -
  obtain res s' where run: "vt_purge vt k (rec_revision c) s = (res, s')"
    by (cases "vt_purge vt k (rec_revision c) s")
  from purge [OF assms(1) stored_valid [OF assms(1,2)] run] assms(2) run show ?thesis
    by (simp add: plan_purge_def)
qed

text \<open>Optimistic concurrency: a stale write leaves the store as it was and hands back the winner.\<close>

lemma put_stale:
  assumes "inv s" "abs s (rec_key r) = Some c" "\<not> is_tombstone c" "\<not> is_tombstone r"
    "ex \<noteq> Some (rec_revision c)"
  shows "\<exists>s'. vt_put vt r ex s =
      (Inr (PutConflict \<lparr>conf_key = rec_key r, conf_expected = ex, conf_current = c\<rparr>), s') \<and>
    inv s' \<and> abs s' = abs s"
proof -
  obtain res s' where run: "vt_put vt r ex s = (res, s')" by (cases "vt_put vt r ex s")
  from put [OF assms(1) stored_valid [OF assms(1,2)] run] assms(2-5) run show ?thesis
    by (simp add: plan_put_def)
qed

lemma put_over:
  assumes "inv s" "abs s (rec_key r) = Some c" "\<not> is_tombstone c" "\<not> is_tombstone r"
  shows "\<exists>s'. vt_put vt r (Some (rec_revision c)) s = (Inr (Committed (rec_revision r)), s') \<and>
    inv s' \<and>
    abs s' = (abs s)(rec_key r \<mapsto>
      with_folded (Some c) cap (stamp (created (rec_meta c)) (now s) r))"
proof -
  obtain res s' where run: "vt_put vt r (Some (rec_revision c)) s = (res, s')"
    by (cases "vt_put vt r (Some (rec_revision c)) s")
  from put [OF assms(1) stored_valid [OF assms(1,2)] run] assms(2-4) run show ?thesis
    by (simp add: plan_put_def)
qed

text \<open>
  Two writers that read the same revision: once the first has committed a different revision, the
  second is a conflict that carries the first one's record, so no update is lost.
\<close>

lemma no_lost_update:
  assumes "inv s" "abs s k = Some c" "\<not> is_tombstone c"
    "rec_key r1 = k" "rec_key r2 = k" "\<not> is_tombstone r1" "\<not> is_tombstone r2"
    "rec_revision r1 \<noteq> rec_revision c"
    "vt_put vt r1 (Some (rec_revision c)) s = (res1, s1)"
    "vt_put vt r2 (Some (rec_revision c)) s1 = (res2, s2)"
  shows "res1 = Inr (Committed (rec_revision r1)) \<and>
    (\<exists>stored. abs s1 k = Some stored \<and> rec_body stored = rec_body r1 \<and>
      res2 = Inr (PutConflict
        \<lparr>conf_key = k, conf_expected = Some (rec_revision c), conf_current = stored\<rparr>)) \<and>
    abs s2 = abs s1"
proof -
  let ?st = "with_folded (Some c) cap (stamp (created (rec_meta c)) (now s) r1)"
  obtain s1' where 1: "vt_put vt r1 (Some (rec_revision c)) s = (Inr (Committed (rec_revision r1)), s1')"
    "inv s1'" "abs s1' = (abs s)(k \<mapsto> ?st)"
    using put_over [of s r1 c] assms(1-4,6) by auto
  with assms(9) have eq: "s1' = s1" "res1 = Inr (Committed (rec_revision r1))" by auto
  have "\<exists>s2'. vt_put vt r2 (Some (rec_revision c)) s1 =
      (Inr (PutConflict \<lparr>conf_key = rec_key r2, conf_expected = Some (rec_revision c),
        conf_current = ?st\<rparr>), s2') \<and> inv s2' \<and> abs s2' = abs s1"
    using 1 assms(4-8) by (intro put_stale) (auto simp: eq)
  with assms(10) 1(3) eq assms(5) show ?thesis by auto
qed

end

end
