(* ===== verification/Gz_Blobs.thy ===== *)
theory Gz_Blobs
  imports Gz_Store
begin

text \<open>
  The contract of a content-addressed blob store (the \<open>BlobStore\<close> trait of \<open>store.rs\<close>), seen as a
  map from hashes to the bytes and the modification time of a blob, and the contract of a substrate
  that keeps records and blobs side by side (\<open>full_store\<close>): neither half disturbs the other. Garbage
  collection, restore and the ancestry decorator are proved against these.

  \<open>hv\<close> are the hashes the contract speaks about, e.g. 64 lowercase hex digits for the filesystem.
\<close>

type_synonym blob_map = "content_hash \<Rightarrow> (bytes \<times> int) option"

text \<open>A listing promises neither order nor uniqueness: a stale duplicate may be older, never newer.\<close>

definition listing_of :: "blob_map \<Rightarrow> blob_entry list \<Rightarrow> bool" where
  "listing_of m es \<longleftrightarrow>
     (\<forall>e \<in> set es. \<exists>c ms. m (be_hash e) = Some (c, ms) \<and> be_modified_unix_ms e \<le> ms) \<and>
     (\<forall>h c ms. m h = Some (c, ms) \<longrightarrow> \<lparr>be_hash = h, be_modified_unix_ms = ms\<rparr> \<in> set es)"

text \<open>
  A digest of fixed width cannot be injective; what content addressing relies on is that nothing
  else hashes to the digest of the content at hand.
\<close>

definition unique_preimage :: "blake3 \<Rightarrow> bytes \<Rightarrow> bool" where
  "unique_preimage H c \<longleftrightarrow> (\<forall>c'. H c' = H c \<longrightarrow> c' = c)"

locale blob_store =
  fixes H :: blake3
    and bv :: "'s blob_vt"
    and blobs :: "'s \<Rightarrow> blob_map"
    and binv :: "'s \<Rightarrow> bool"
    and hv :: "content_hash \<Rightarrow> bool"
  assumes get_blob: "binv s \<Longrightarrow> hv h \<Longrightarrow> bv_get_blob bv h s = (Inr (map_option fst (blobs s h)), s)"
    and has_blob: "binv s \<Longrightarrow> hv h \<Longrightarrow> bv_has_blob bv h s = (Inr (blobs s h \<noteq> None), s)"
    and list_blobs: "binv s \<Longrightarrow> \<exists>es. bv_list_blobs bv s = (Inr es, s) \<and> listing_of (blobs s) es"
    and put_blob: "binv s \<Longrightarrow> \<exists>s' c' ms. bv_put_blob bv c s = (Inr (content_hash_of H c), s') \<and>
          binv s' \<and> blobs s' = (blobs s)(content_hash_of H c \<mapsto> (c', ms)) \<and>
          (c' = c \<or> map_option fst (blobs s (content_hash_of H c)) = Some c')"
    and delete_blob: "binv s \<Longrightarrow> hv h \<Longrightarrow> \<exists>s'. bv_delete_blob bv h s = (Inr (), s') \<and>
          binv s' \<and> blobs s' = (blobs s)(h := None)"
    and content: "binv s \<Longrightarrow> blobs s h = Some (c, ms) \<Longrightarrow> content_hash_of H c = h"
    and hash_valid: "hv (content_hash_of H c)"
begin

lemma stored_hash_valid: "binv s \<Longrightarrow> blobs s h \<noteq> None \<Longrightarrow> hv h"
  using content [of s h] hash_valid by (cases "blobs s h") (auto simp: split_paired_all)

text \<open>Without a collision on this content, a put is readable back under the hash it returns.\<close>

lemma put_get_blob:
  assumes "binv s" "unique_preimage H c"
  shows "\<exists>s'. bv_put_blob bv c s = (Inr (content_hash_of H c), s') \<and> binv s' \<and>
    bv_get_blob bv (content_hash_of H c) s' = (Inr (Some c), s')"
proof -
  obtain s' c' ms where s': "bv_put_blob bv c s = (Inr (content_hash_of H c), s')" "binv s'"
    "blobs s' = (blobs s)(content_hash_of H c \<mapsto> (c', ms))"
    using put_blob [OF assms(1), of c] by blast
  have "blobs s' (content_hash_of H c) = Some (c', ms)" by (simp add: s'(3))
  then have "content_hash_of H c' = content_hash_of H c" by (rule content [OF s'(2)])
  then have "c' = c" using assms(2) by (simp add: content_hash_of_def unique_preimage_def)
  with s' get_blob [OF s'(2) hash_valid, of c] show ?thesis by simp
qed

end

locale full_store =
  planned_store H cap vk vt abs inv now + blob_store H bv blobs inv hv
  for H :: blake3 and cap :: nat and vk :: "record_key \<Rightarrow> bool" and vt :: "'s store_vt"
    and abs :: "'s \<Rightarrow> store_map" and inv :: "'s \<Rightarrow> bool" and now :: "'s \<Rightarrow> int"
    and bv :: "'s blob_vt" and blobs :: "'s \<Rightarrow> blob_map" and hv :: "content_hash \<Rightarrow> bool" +
  assumes put_blob_records: "inv s \<Longrightarrow> bv_put_blob bv c s = (res, s') \<Longrightarrow> abs s' = abs s"
    and delete_blob_records:
      "inv s \<Longrightarrow> hv h \<Longrightarrow> bv_delete_blob bv h s = (bres, s') \<Longrightarrow> abs s' = abs s"
    and put_raw_blobs:
      "inv s \<Longrightarrow> vk (rec_key r) \<Longrightarrow> vt_put_raw vt r ex s = (pres, s') \<Longrightarrow> blobs s' = blobs s"
    and put_blobs:
      "inv s \<Longrightarrow> vk (rec_key r) \<Longrightarrow> vt_put vt r ex s = (pres, s') \<Longrightarrow> blobs s' = blobs s"
    and delete_as_blobs:
      "inv s \<Longrightarrow> vk k \<Longrightarrow> vt_delete_as vt k ex au s = (dres, s') \<Longrightarrow> blobs s' = blobs s"
    and list_keeps_blobs: "inv s \<Longrightarrow> vt_list vt p s = (lres, s') \<Longrightarrow> blobs s' = blobs s"
    and purge_blobs:
      "inv s \<Longrightarrow> vk k \<Longrightarrow> vt_purge vt k rv s = (dres, s') \<Longrightarrow> blobs s' = blobs s"
begin

text \<open>Every key the raw listing names is there to be read.\<close>

lemma list_raw_all:
  assumes "inv s"
  shows "\<exists>ks. vt_list_raw vt kp_default s = (Inr ks, s) \<and> distinct ks \<and> set ks = dom (abs s)"
  using list_raw [OF assms, of kp_default] by (auto simp: dom_def)

end

end
