(* ===== verification/Gz_FsStore.thy ===== *)
theory Gz_FsStore
  imports Gz_Disk Gz_Blobs
begin

text \<open>
  The filesystem substrate (\<open>gonzalo-store-fs\<close>: \<open>lib.rs\<close>, \<open>layout.rs\<close>, \<open>tilde.rs\<close>): one JSON file
  per record at \<open><root>/<namespace>/<collection>/<id>.json\<close>, with a lock and a temporary file beside
  it, and one file per blob at \<open><root>/blobs/<hash>\<close>. The operations are the code's sequences of
  system calls (\<open>Gz_Disk\<close>), so a fault can strike between any two of them.

  The JSON text of a record is written and read by \<open>serde_json\<close>, a third-party crate: the pair
  \<open>rc_to\<close>/\<open>rc_from\<close> is a parameter \<open>C\<close>, and what the proofs need of it is that reading gives back the
  record that was written (\<open>Gz_FsProofs\<close>). The per-record \<open>flock\<close> makes a locked section atomic against other
  writers, so an operation is one transition of the disk.
\<close>

record fs_store =
  fs_root :: path
  fs_cap :: nat
  fs_pid :: nat

definition fs_new :: "path \<Rightarrow> nat \<Rightarrow> fs_store" where
  "fs_new root pid = \<lparr>fs_root = root, fs_cap = DEFAULT_ANCESTOR_CAP, fs_pid = pid\<rparr>"

definition fs_with_ancestor_cap :: "nat \<Rightarrow> fs_store \<Rightarrow> fs_store result" where
  "fs_with_ancestor_cap cap st =
     bindR (validate_ancestor_cap cap) (\<lambda>c. Inr (st\<lparr>fs_cap := c\<rparr>))"

subsection \<open>Leading tilde (\<open>tilde.rs\<close>)\<close>

text \<open>
  A path is its text here; \<open>None\<close> is a path that is no UTF-8. \<open>text_join\<close> is \<open>Path::join\<close> on text.
\<close>

definition text_join :: "string \<Rightarrow> string \<Rightarrow> string" where
  "text_join p s =
     (if take 1 s = ''/'' then s
      else if p = [] \<or> last p = CHR ''/'' then p @ s else p @ ''/'' @ s)"

definition expand_tilde_with :: "string \<Rightarrow> string option \<Rightarrow> string" where
  "expand_tilde_with path home =
     (case (case home of Some h \<Rightarrow> if h \<noteq> [] then Some h else None | None \<Rightarrow> None) of
        None \<Rightarrow> path
      | Some home \<Rightarrow>
          if \<not> utf8_valid path then path
          else if path = ''~'' then home
          else (case strip_prefix ''~/'' path of Some rest \<Rightarrow> text_join home rest | None \<Rightarrow> path))"

subsection \<open>Layout (\<open>layout.rs\<close>)\<close>

definition record_path :: "path \<Rightarrow> record_key \<Rightarrow> path" where
  "record_path root k =
     (case record_components k of (ns, col, file) \<Rightarrow>
        path_join (path_join (path_join root ns) col) file)"

definition blobs_dir :: "path \<Rightarrow> path" where
  "blobs_dir root = path_join root ''blobs''"

definition blob_path :: "path \<Rightarrow> content_hash \<Rightarrow> path" where
  "blob_path root h = path_join (blobs_dir root) (hash_str h)"

subsection \<open>Reading\<close>

text \<open>\<open>read_record\<close> and, inside the critical section, \<open>read_current\<close>.\<close>

definition read_record_at :: "rec_codec \<Rightarrow> path \<Rightarrow> (disk, core_error, rec option) io" where
  "read_record_at C p s =
     (case sys_read p s of
        (Inr bs, s') \<Rightarrow>
          (case rc_from C bs of Inl e \<Rightarrow> (Inl (Serde e), s') | Inr r \<Rightarrow> (Inr (Some r), s'))
      | (Inl IoNotFound, s') \<Rightarrow> (Inr None, s')
      | (Inl e, s') \<Rightarrow> (Inl (Backend (io_to_string e)), s'))"

definition read_record :: "rec_codec \<Rightarrow> fs_store \<Rightarrow> record_key \<Rightarrow> (disk, core_error, rec option) io" where
  "read_record C st k = read_record_at C (record_path (fs_root st) k)"

definition listed_live :: "rec_codec \<Rightarrow> fs_store \<Rightarrow> record_key \<Rightarrow> disk \<Rightarrow> bool \<times> disk" where
  "listed_live C st k s =
     (case read_record C st k s of
        (Inr (Some r), s') \<Rightarrow> (\<not> is_tombstone r, s')
      | (Inr None, s') \<Rightarrow> (False, s')
      | (Inl _, s') \<Rightarrow> (True, s'))"

subsection \<open>The critical sections\<close>

definition create_parent :: "path \<Rightarrow> (disk, core_error, unit) io" where
  "create_parent p =
     (case path_parent p of None \<Rightarrow> retE () | Some d \<Rightarrow> backend (sys_create_dir_all d))"

definition lock_record :: "path \<Rightarrow> (disk, core_error, unit) io" where
  "lock_record p =
     bindE (create_parent p) (\<lambda>_.
     bindE (backend (sys_open False (with_extension ''json.lock'' p))) (\<lambda>_.
       backend sys_tick))"

text \<open>Open the directory, then \<open>sync_all\<close> it; \<open>EINVAL\<close> from the sync counts as done.\<close>

definition EINVAL :: string where "EINVAL = ''Invalid argument (os error 22)''"

definition fsync_dir :: "path \<Rightarrow> unit sys" where
  "fsync_dir p = bindE sys_tick (\<lambda>_ s.
     case sys_tick s of
       (Inl (IoOther m), s') \<Rightarrow> if m = EINVAL then (Inr (), s') else (Inl (IoOther m), s')
     | (r, s') \<Rightarrow> (r, s'))"

definition fsync_parent :: "path \<Rightarrow> (disk, core_error, unit) io" where
  "fsync_parent p = (case path_parent p of None \<Rightarrow> retE () | Some d \<Rightarrow> backend (fsync_dir d))"

text \<open>Write the bytes to \<open>tmp\<close>, flush them, rename over \<open>p\<close>, flush the directory.\<close>

definition publish :: "path \<Rightarrow> path \<Rightarrow> bytes \<Rightarrow> (disk, core_error, unit) io" where
  "publish tmp p bs =
     bindE (backend (sys_open True tmp)) (\<lambda>_.
     bindE (backend (sys_write_all tmp bs)) (\<lambda>_.
     bindE (backend sys_tick) (\<lambda>_.
     bindE (backend (sys_rename tmp p)) (\<lambda>_.
       fsync_parent p))))"

definition write_durable :: "rec_codec \<Rightarrow> path \<Rightarrow> rec \<Rightarrow> (disk, core_error, unit) io" where
  "write_durable C p r =
     (case rc_to C r of
        Inl e \<Rightarrow> throwE (Serde e)
      | Inr bs \<Rightarrow> publish (with_extension ''json.tmp'' p) p bs)"

definition remove_durable :: "path \<Rightarrow> (disk, core_error, unit) io" where
  "remove_durable p =
     bindE (\<lambda>s. case sys_remove p s of
       (Inl IoNotFound, s') \<Rightarrow> (Inr (), s')
     | (Inl e, s') \<Rightarrow> (Inl (Backend (io_to_string e)), s')
     | (Inr _, s') \<Rightarrow> (Inr (), s')) (\<lambda>_.
       fsync_parent p)"

definition fs_clock :: "disk \<Rightarrow> int" where
  "fs_clock s = now_ms (dk_now s)"

definition put_locked ::
  "rec_codec \<Rightarrow> (rec option \<Rightarrow> rec \<Rightarrow> revision option \<Rightarrow> int \<Rightarrow> nat \<Rightarrow> put_plan) \<Rightarrow> fs_store \<Rightarrow>
   rec \<Rightarrow> revision option \<Rightarrow> (disk, core_error, put_result) io" where
  "put_locked C plan st r expected =
     (let p = record_path (fs_root st) (rec_key r) in
      bindE (lock_record p) (\<lambda>_.
      bindE (read_record_at C p) (\<lambda>current s.
        (case plan current r expected (fs_clock s) (fs_cap st) of
           PutWrite stored \<Rightarrow>
             bindE (write_durable C p stored) (\<lambda>_. retE (Committed (rec_revision stored)))
         | PutPlanConflict c \<Rightarrow> retE (PutConflict c)
         | PutNotFound \<Rightarrow> throwE (NotFound (rec_key r))
         | PutRejected m \<Rightarrow> throwE (Invalid m)) s)))"

definition purge_locked ::
  "rec_codec \<Rightarrow> fs_store \<Rightarrow> record_key \<Rightarrow> revision \<Rightarrow> (disk, core_error, delete_result) io" where
  "purge_locked C st k expected =
     (let p = record_path (fs_root st) k in
      bindE (lock_record p) (\<lambda>_.
      bindE (read_record_at C p) (\<lambda>current.
        case plan_purge current expected of
          PurgeRemove \<Rightarrow> bindE (remove_durable p) (\<lambda>_. retE Deleted)
        | PurgeNoop \<Rightarrow> retE Deleted
        | PurgePlanConflict c \<Rightarrow> retE (DeleteConflict c))))"

definition delete_locked ::
  "blake3 \<Rightarrow> rec_codec \<Rightarrow> fs_store \<Rightarrow> record_key \<Rightarrow> revision option \<Rightarrow> identity option \<Rightarrow>
   (disk, core_error, delete_result) io" where
  "delete_locked H C st k expected au =
     (let p = record_path (fs_root st) k in
      bindE (lock_record p) (\<lambda>_.
      bindE (read_record_at C p) (\<lambda>current s.
        (case plan_delete H current expected (fs_clock s) (fs_cap st) au of
           DelWrite tombstone \<Rightarrow> bindE (write_durable C p tombstone) (\<lambda>_. retE Deleted)
         | DelNoop \<Rightarrow> retE Deleted
         | DelPlanConflict c \<Rightarrow> retE (DeleteConflict c)) s)))"

subsection \<open>Listing\<close>

text \<open>The three nested walks. A loop ends with the \<open>next_entry\<close> call that returns no entry.\<close>

primrec collect_files ::
  "key_prefix \<Rightarrow> string \<Rightarrow> string \<Rightarrow> string list \<Rightarrow> record_key list \<Rightarrow> (disk, core_error, record_key list) io" where
  "collect_files p ns col [] out = bindE (backend sys_tick) (\<lambda>_. retE out)"
| "collect_files p ns col (f # fs) out =
     bindE (backend sys_tick) (\<lambda>_.
       collect_files p ns col fs
         (case strip_suffix ''.json'' (from_utf8_lossy f) of
            Some i \<Rightarrow>
              let key = RecordKey (decode_segment ns) (decode_segment col) (decode_segment i)
              in if kp_matches p key then out @ [key] else out
          | None \<Rightarrow> out))"

text \<open>\<open>file_type().map(|ft| !ft.is_dir()).unwrap_or(true)\<close>, negated.\<close>

definition entry_is_dir :: "path \<Rightarrow> (disk, core_error, bool) io" where
  "entry_is_dir p s =
     (case sys_is_dir p s of (Inr b, s') \<Rightarrow> (Inr b, s') | (Inl _, s') \<Rightarrow> (Inr False, s'))"

primrec collect_cols ::
  "key_prefix \<Rightarrow> path \<Rightarrow> string \<Rightarrow> string list \<Rightarrow> record_key list \<Rightarrow> (disk, core_error, record_key list) io" where
  "collect_cols p dir ns [] out = bindE (backend sys_tick) (\<lambda>_. retE out)"
| "collect_cols p dir ns (c # cs) out =
     bindE (backend sys_tick) (\<lambda>_.
     bindE (entry_is_dir (dir @ [c])) (\<lambda>isdir.
       if \<not> isdir then collect_cols p dir ns cs out
       else
         bindE (backend (sys_read_dir (dir @ [c]))) (\<lambda>files.
         bindE (collect_files p ns (from_utf8_lossy c) files out) (\<lambda>out'.
           collect_cols p dir ns cs out'))))"

primrec collect_namespaces ::
  "key_prefix \<Rightarrow> path \<Rightarrow> string list \<Rightarrow> record_key list \<Rightarrow> (disk, core_error, record_key list) io" where
  "collect_namespaces p root [] out = bindE (backend sys_tick) (\<lambda>_. retE out)"
| "collect_namespaces p root (n # ns) out =
     bindE (backend sys_tick) (\<lambda>_.
     bindE (entry_is_dir (root @ [n])) (\<lambda>isdir.
       if \<not> isdir then collect_namespaces p root ns out
       else
         bindE (backend (sys_read_dir (root @ [n]))) (\<lambda>cols.
         bindE (collect_cols p (root @ [n]) (from_utf8_lossy n) cols out) (\<lambda>out'.
           collect_namespaces p root ns out'))))"

definition collect_keys :: "path \<Rightarrow> key_prefix \<Rightarrow> (disk, core_error, record_key list) io" where
  "collect_keys root p s =
     (case sys_read_dir root s of
        (Inr ns, s') \<Rightarrow> collect_namespaces p root ns [] s'
      | (Inl IoNotFound, s') \<Rightarrow> (Inr [], s')
      | (Inl e, s') \<Rightarrow> (Inl (Backend (io_to_string e)), s'))"

primrec keep_live ::
  "rec_codec \<Rightarrow> fs_store \<Rightarrow> record_key list \<Rightarrow> record_key list \<Rightarrow> (disk, core_error, record_key list) io" where
  "keep_live C st [] out = retE out"
| "keep_live C st (k # ks) out =
     (\<lambda>s. case listed_live C st k s of
        (live, s') \<Rightarrow> keep_live C st ks (if live then out @ [k] else out) s')"

subsection \<open>The \<open>Store\<close> operations\<close>

definition fs_get :: "rec_codec \<Rightarrow> fs_store \<Rightarrow> record_key \<Rightarrow> (disk, core_error, rec option) io" where
  "fs_get C st k = bindE (read_record C st k) (\<lambda>o'. retE (live_only o'))"

definition fs_put ::
  "blake3 \<Rightarrow> rec_codec \<Rightarrow> fs_store \<Rightarrow> rec \<Rightarrow> revision option \<Rightarrow> (disk, core_error, put_result) io" where
  "fs_put H C st r ex = put_locked C (plan_put H) st r ex"

definition fs_put_raw ::
  "rec_codec \<Rightarrow> fs_store \<Rightarrow> rec \<Rightarrow> revision option \<Rightarrow> (disk, core_error, put_result) io" where
  "fs_put_raw C st r ex = put_locked C plan_put_raw st r ex"

definition fs_list :: "rec_codec \<Rightarrow> fs_store \<Rightarrow> key_prefix \<Rightarrow> (disk, core_error, record_key list) io" where
  "fs_list C st p = bindE (collect_keys (fs_root st) p) (\<lambda>keys. keep_live C st keys [])"

definition fs_delete_as ::
  "blake3 \<Rightarrow> rec_codec \<Rightarrow> fs_store \<Rightarrow> record_key \<Rightarrow> revision option \<Rightarrow> identity option \<Rightarrow>
   (disk, core_error, delete_result) io" where
  "fs_delete_as H C st k ex au = delete_locked H C st k ex au"

definition fs_get_raw :: "rec_codec \<Rightarrow> fs_store \<Rightarrow> record_key \<Rightarrow> (disk, core_error, rec option) io" where
  "fs_get_raw C st k = read_record C st k"

definition fs_list_raw :: "fs_store \<Rightarrow> key_prefix \<Rightarrow> (disk, core_error, record_key list) io" where
  "fs_list_raw st p = collect_keys (fs_root st) p"

definition fs_purge ::
  "rec_codec \<Rightarrow> fs_store \<Rightarrow> record_key \<Rightarrow> revision \<Rightarrow> (disk, core_error, delete_result) io" where
  "fs_purge C st k rv = purge_locked C st k rv"

definition fs_vt :: "blake3 \<Rightarrow> rec_codec \<Rightarrow> fs_store \<Rightarrow> disk store_vt" where
  "fs_vt H C st =
     \<lparr>vt_get = fs_get C st, vt_put = fs_put H C st, vt_list = fs_list C st,
      vt_delete_as = fs_delete_as H C st, vt_get_raw = fs_get_raw C st,
      vt_list_raw = fs_list_raw st, vt_put_raw = fs_put_raw C st, vt_purge = fs_purge C st\<rparr>"

subsection \<open>The \<open>BlobStore\<close> operations\<close>

definition is_blob_hash :: "string \<Rightarrow> bool" where
  "is_blob_hash name \<longleftrightarrow> length name = 64 \<and> list_all (\<lambda>b. b \<in> set ''0123456789abcdef'') name"

definition fetch_nonce :: "(disk, core_error, nat) io" where
  "fetch_nonce s = (Inr (dk_nonce s), s\<lparr>dk_nonce := dk_nonce s + 1\<rparr>)"

definition blob_tmp :: "nat \<Rightarrow> nat \<Rightarrow> path \<Rightarrow> path" where
  "blob_tmp pid nonce p = with_extension (''tmp.'' @ show_nat pid @ ''.'' @ show_nat nonce) p"

definition fs_put_blob :: "blake3 \<Rightarrow> fs_store \<Rightarrow> bytes \<Rightarrow> (disk, core_error, content_hash) io" where
  "fs_put_blob H st content =
     (let hash = content_hash_of H content; p = blob_path (fs_root st) hash in
      bindE (backend (sys_try_exists p)) (\<lambda>present.
        if present then retE hash
        else
          bindE (create_parent p) (\<lambda>_.
          bindE fetch_nonce (\<lambda>nonce.
          bindE (publish (blob_tmp (fs_pid st) nonce p) p content) (\<lambda>_.
            retE hash)))))"

definition fs_get_blob :: "fs_store \<Rightarrow> content_hash \<Rightarrow> (disk, core_error, bytes option) io" where
  "fs_get_blob st h s =
     (case sys_read (blob_path (fs_root st) h) s of
        (Inr bs, s') \<Rightarrow> (Inr (Some bs), s')
      | (Inl IoNotFound, s') \<Rightarrow> (Inr None, s')
      | (Inl e, s') \<Rightarrow> (Inl (Backend (io_to_string e)), s'))"

definition blob_entry_from_dir_entry :: "string \<Rightarrow> io_error + system_time \<Rightarrow> blob_entry option result" where
  "blob_entry_from_dir_entry name metadata =
     (if \<not> is_blob_hash name then Inr None
      else case metadata of
        Inr modified \<Rightarrow> Inr (Some (from_system_time (ContentHash name) modified))
      | Inl IoNotFound \<Rightarrow> Inr None
      | Inl e \<Rightarrow> Inl (Backend (io_to_string e)))"

primrec collect_blobs ::
  "path \<Rightarrow> string list \<Rightarrow> blob_entry list \<Rightarrow> (disk, core_error, blob_entry list) io" where
  "collect_blobs dir [] out = bindE (backend sys_tick) (\<lambda>_. retE out)"
| "collect_blobs dir (n # ns) out =
     bindE (backend sys_tick) (\<lambda>_.
       let name = from_utf8_lossy n in
       if \<not> is_blob_hash name then collect_blobs dir ns out
       else
         (\<lambda>s. case sys_modified (dir @ [n]) s of
            (md, s') \<Rightarrow>
              bindE (liftE (blob_entry_from_dir_entry name md)) (\<lambda>e.
                collect_blobs dir ns (case e of Some e \<Rightarrow> out @ [e] | None \<Rightarrow> out)) s'))"

definition fs_list_blobs :: "fs_store \<Rightarrow> (disk, core_error, blob_entry list) io" where
  "fs_list_blobs st s =
     (let dir = blobs_dir (fs_root st) in
      case sys_read_dir dir s of
        (Inr names, s') \<Rightarrow> collect_blobs dir names [] s'
      | (Inl IoNotFound, s') \<Rightarrow> (Inr [], s')
      | (Inl e, s') \<Rightarrow> (Inl (Backend (io_to_string e)), s'))"

definition fs_has_blob :: "fs_store \<Rightarrow> content_hash \<Rightarrow> (disk, core_error, bool) io" where
  "fs_has_blob st h = backend (sys_try_exists (blob_path (fs_root st) h))"

definition fs_delete_blob :: "fs_store \<Rightarrow> content_hash \<Rightarrow> (disk, core_error, unit) io" where
  "fs_delete_blob st h s =
     (case sys_remove (blob_path (fs_root st) h) s of
        (Inl IoNotFound, s') \<Rightarrow> (Inr (), s')
      | (Inl e, s') \<Rightarrow> (Inl (Backend (io_to_string e)), s')
      | (Inr _, s') \<Rightarrow> (Inr (), s'))"

definition fs_bv :: "blake3 \<Rightarrow> fs_store \<Rightarrow> disk blob_vt" where
  "fs_bv H st =
     \<lparr>bv_put_blob = fs_put_blob H st, bv_get_blob = fs_get_blob st,
      bv_list_blobs = fs_list_blobs st, bv_has_blob = fs_has_blob st,
      bv_delete_blob = fs_delete_blob st\<rparr>"

end
