(* ===== verification/Gz_FsPaths.thy ===== *)
theory Gz_FsPaths
  imports Gz_FsStore
begin

text \<open>
  Where the filesystem store keeps its files. For the keys the layout is made for (\<open>fs_valid\<close>), the
  record, lock and temporary files and the blobs lie at paths none of which is a prefix of another,
  so that every system call on one of them finds its place clear.
\<close>

definition fs_valid :: "record_key \<Rightarrow> bool" where
  "fs_valid k \<longleftrightarrow> namespace k \<noteq> [] \<and> collection k \<noteq> [] \<and>
     utf8_valid (namespace k) \<and> utf8_valid (collection k) \<and> utf8_valid (key_id k) \<and>
     \<not> (namespace k = ''blobs'' \<and> is_blob_hash (collection k))"

definition fs_hash_valid :: "content_hash \<Rightarrow> bool" where
  "fs_hash_valid h \<longleftrightarrow> is_blob_hash (hash_str h)"

definition root_ok :: "path \<Rightarrow> bool" where
  "root_ok root \<longleftrightarrow> ''..'' \<notin> set root"

definition lock_path :: "path \<Rightarrow> record_key \<Rightarrow> path" where
  "lock_path root k = with_extension ''json.lock'' (record_path root k)"

definition tmp_path :: "path \<Rightarrow> record_key \<Rightarrow> path" where
  "tmp_path root k = with_extension ''json.tmp'' (record_path root k)"

definition blob_tmp_path :: "path \<Rightarrow> nat \<Rightarrow> nat \<Rightarrow> content_hash \<Rightarrow> path" where
  "blob_tmp_path root pid n h = blob_tmp pid n (blob_path root h)"

lemma segment_nonempty: "s \<noteq> [] \<Longrightarrow> segment s \<noteq> []"
  by (cases s) (auto simp: segment_def segment_byte_def)

lemma segment_Nil [simp]: "segment [] = []"
  by (simp add: segment_def)

lemma segment_not_dots: "segment s \<noteq> ''.''" "segment s \<noteq> ''..''"
  using segment_no_sep(2) [of s] by auto

lemma hash_digits:
  "c \<in> set ''0123456789abcdef'' \<Longrightarrow>
     c \<noteq> CHR ''.'' \<and> c \<noteq> CHR ''/'' \<and> unreserved c \<and> byte_in 0 0x7F c"
proof -
  have "\<forall>c \<in> set ''0123456789abcdef''.
      c \<noteq> CHR ''.'' \<and> c \<noteq> CHR ''/'' \<and> unreserved c \<and> byte_in 0 0x7F c" by code_simp
  then show "c \<in> set ''0123456789abcdef'' \<Longrightarrow>
      c \<noteq> CHR ''.'' \<and> c \<noteq> CHR ''/'' \<and> unreserved c \<and> byte_in 0 0x7F c" by blast
qed

lemma hash_chars: "is_blob_hash h \<Longrightarrow> c \<in> set h \<Longrightarrow>
    c \<noteq> CHR ''.'' \<and> c \<noteq> CHR ''/'' \<and> unreserved c \<and> byte_in 0 0x7F c"
  unfolding is_blob_hash_def list_all_iff using hash_digits by blast

lemma hash_no_dot: "is_blob_hash h \<Longrightarrow> CHR ''.'' \<notin> set h \<and> CHR ''/'' \<notin> set h \<and> h \<noteq> []"
  using hash_chars by (auto simp: is_blob_hash_def)

lemma segment_hash: "is_blob_hash h \<Longrightarrow> segment h = h"
  using hash_chars segment_unreserved by blast

lemma record_path_valid:
  "fs_valid k \<Longrightarrow> record_path root k =
     root @ [segment (namespace k), segment (collection k), segment (key_id k) @ ''.json'']"
  by (simp add: record_path_def record_components_def path_join_plain fs_valid_def segment_no_sep
      segment_nonempty segment_not_dots)

lemma blob_path_valid: "is_blob_hash (hash_str h) \<Longrightarrow> blob_path root h = root @ [''blobs'', hash_str h]"
proof -
  assume h: "is_blob_hash (hash_str h)"
  then have "hash_str h \<noteq> ''.''" "CHR ''/'' \<notin> set (hash_str h)" "hash_str h \<noteq> []"
    using hash_no_dot by force+
  then show ?thesis by (simp add: blob_path_def blobs_dir_def path_join_plain)
qed

definition rec_stem :: "record_key \<Rightarrow> string" where
  "rec_stem k = (if key_id k = [] then ''.json'' else segment (key_id k))"

lemma rec_stem: "file_stem (segment (key_id k) @ ''.json'') = rec_stem k"
proof (cases "key_id k = []")
  case True
  then show ?thesis using file_stem_hidden [of "''json''"] by (simp add: rec_stem_def)
next
  case False
  then show ?thesis
    using file_stem_dot [of "''json''" "segment (key_id k)"] segment_nonempty by (simp add: rec_stem_def)
qed

lemma lock_path_valid:
  "fs_valid k \<Longrightarrow> lock_path root k =
     root @ [segment (namespace k), segment (collection k), rec_stem k @ ''.json.lock'']"
  using rec_stem [of k] by (simp add: lock_path_def tmp_path_def with_extension_def record_path_valid butlast_append)

lemma tmp_path_valid:
  "fs_valid k \<Longrightarrow> tmp_path root k =
     root @ [segment (namespace k), segment (collection k), rec_stem k @ ''.json.tmp'']"
  using rec_stem [of k] by (simp add: lock_path_def tmp_path_def with_extension_def record_path_valid butlast_append)

lemma blob_tmp_valid:
  assumes "is_blob_hash (hash_str h)"
  shows "blob_tmp_path root pid n h =
    root @ [''blobs'', hash_str h @ ''.tmp.'' @ show_nat pid @ ''.'' @ show_nat n]"
proof -
  have "hash_str h \<noteq> ''..''" "CHR ''.'' \<notin> set (hash_str h)"
    using hash_no_dot [OF assms] by auto
  then show ?thesis
    by (simp add: blob_tmp_path_def blob_tmp_def with_extension_def blob_path_valid [OF assms] butlast_append
        file_stem_plain)
qed

subsection \<open>The files of a store\<close>

text \<open>The names the store writes next to a record, and in the blob directory.\<close>

definition scratch_path :: "path \<Rightarrow> path \<Rightarrow> bool" where
  "scratch_path root p \<longleftrightarrow>
     (\<exists>k. fs_valid k \<and> (p = lock_path root k \<or> p = tmp_path root k)) \<or>
     (\<exists>h pid n. is_blob_hash (hash_str h) \<and> p = blob_tmp_path root pid n h)"

definition store_path :: "path \<Rightarrow> path \<Rightarrow> bool" where
  "store_path root p \<longleftrightarrow>
     scratch_path root p \<or> (\<exists>k. fs_valid k \<and> p = record_path root k) \<or>
     (\<exists>h. is_blob_hash (hash_str h) \<and> p = blob_path root h)"

text \<open>The shape of such a path, which is all that the prefix argument needs.\<close>

lemma store_path_shape:
  assumes "store_path root p"
  obtains (rec) k f where "fs_valid k" "p = root @ [segment (namespace k), segment (collection k), f]"
      "2 < length f"
  | (blob) n where "p = root @ [''blobs'', n]" "2 < length n"
      "is_blob_hash n \<or> CHR ''.'' \<in> set n"
proof -
  consider k where "fs_valid k" "p = lock_path root k \<or> p = tmp_path root k \<or> p = record_path root k"
    | h pid n where "is_blob_hash (hash_str h)"
        "p = blob_tmp_path root pid n h \<or> p = blob_path root h"
    using assms by (auto simp: store_path_def scratch_path_def)
  then show thesis
  proof cases
    case (1 k)
    then show ?thesis
      using rec [of k] by (auto simp: lock_path_valid tmp_path_valid record_path_valid)
  next
    case (2 h pid n)
    have "2 < length (hash_str h)" using 2(1) by (simp add: is_blob_hash_def)
    with 2 blob show ?thesis by (auto simp: blob_tmp_valid blob_path_valid)
  qed
qed

lemma blob_dir_not_record:
  assumes "fs_valid k" "is_blob_hash n \<or> CHR ''.'' \<in> set n"
  shows "\<not> (segment (namespace k) = ''blobs'' \<and> segment (collection k) = n)"
proof
  assume eq: "segment (namespace k) = ''blobs'' \<and> segment (collection k) = n"
  then have "is_blob_hash n" using assms(2) segment_no_sep(2) [of "collection k"] by auto
  moreover have "segment ''blobs'' = ''blobs''" by code_simp
  ultimately have "namespace k = ''blobs''" "collection k = n"
    using eq segment_inj segment_hash by metis+
  with assms(1) \<open>is_blob_hash n\<close> show False by (simp add: fs_valid_def)
qed

lemma store_path_antichain:
  assumes "store_path root p" "store_path root q"
  shows "\<not> strict_prefix p q"
  using assms(1)
proof (cases rule: store_path_shape)
  case (rec k f)
  from assms(2) show ?thesis
    by (cases rule: store_path_shape) (auto simp: rec strict_prefix_iff)
next
  case (blob n)
  from assms(2) show ?thesis
  proof (cases rule: store_path_shape)
    case (rec k f)
    then show ?thesis
      using blob_dir_not_record [OF rec(1) blob(3)] by (auto simp: blob(1) strict_prefix_iff)
  next
    case (blob n')
    then show ?thesis using \<open>p = root @ [''blobs'', n]\<close> by (auto simp: strict_prefix_iff)
  qed
qed

lemma store_path_no_dots: "root_ok root \<Longrightarrow> store_path root p \<Longrightarrow> ''..'' \<notin> set p \<and> p \<noteq> []"
  by (erule store_path_shape)
    (auto simp: root_ok_def dest: arg_cong [of _ _ length] simp: segment_not_dots [symmetric])

text \<open>
  A well-formed disk: below the root there are only files of the store, and no file sits on the way
  to the root.
\<close>

definition fs_wf :: "path \<Rightarrow> disk \<Rightarrow> bool" where
  "fs_wf root s \<longleftrightarrow> bt_ok (dk_files s) \<and> root_ok root \<and>
     (\<forall>p \<in> dom (bt_get (dk_files s)). store_path root p \<or> (\<not> prefix root p \<and> \<not> prefix p root))"

lemma store_path_prefix: "store_path root p \<Longrightarrow> prefix root p"
  by (erule store_path_shape) auto

lemma clear_store_path:
  assumes "fs_wf root s" "store_path root p"
  shows "clear (dk_files s) p"
proof -
  have "\<not> strict_prefix p q \<and> \<not> strict_prefix q p" if "q \<in> fst ` set (dk_files s)" for q
  proof -
    from that have "q \<in> dom (bt_get (dk_files s))" by (simp add: dom_map_of_conv_image_fst)
    then consider "store_path root q" | "\<not> prefix root q" "\<not> prefix q root"
      using assms(1) by (auto simp: fs_wf_def)
    then show ?thesis
    proof cases
      case 1
      then show ?thesis using store_path_antichain assms(2) by blast
    next
      case 2
      then show ?thesis
        using store_path_prefix [OF assms(2)]
        by (metis prefix_order.dual_order.trans prefix_order.less_imp_le prefix_same_cases)
    qed
  qed
  then show ?thesis
    using store_path_no_dots [OF _ assms(2)] assms(1)
    by (auto simp: clear_def fs_wf_def is_dir_def below_file_def)
qed

subsection \<open>Distinct files\<close>

lemma record_path_inj:
  "fs_valid k \<Longrightarrow> fs_valid k' \<Longrightarrow> record_path root k = record_path root k' \<longleftrightarrow> k = k'"
  by (cases k; cases k') (auto simp: record_path_valid segment_inj)

lemma blob_path_inj:
  "is_blob_hash (hash_str h) \<Longrightarrow> is_blob_hash (hash_str h') \<Longrightarrow>
     blob_path root h = blob_path root h' \<longleftrightarrow> h = h'"
  by (auto simp: blob_path_valid content_hash.expand)

lemma record_not_blob:
  "fs_valid k \<Longrightarrow> is_blob_hash (hash_str h) \<Longrightarrow> record_path root k \<noteq> blob_path root h"
  by (simp add: record_path_valid blob_path_valid)

lemma scratch_not_record: "scratch_path root p \<Longrightarrow> fs_valid k \<Longrightarrow> p \<noteq> record_path root k"
  by (auto simp: scratch_path_def lock_path_valid tmp_path_valid record_path_valid blob_tmp_valid
      dest: arg_cong [of _ _ "\<lambda>s. last s"])

lemma scratch_not_blob:
  assumes "scratch_path root p" "is_blob_hash (hash_str h)"
  shows "p \<noteq> blob_path root h"
proof
  assume "p = blob_path root h"
  with assms have "CHR ''.'' \<in> set (hash_str h)"
    by (auto simp: scratch_path_def lock_path_valid tmp_path_valid blob_path_valid blob_tmp_valid)
  with hash_no_dot [OF assms(2)] show False by blast
qed

end
