(* ===== verification/Gz_FsProofs.thy ===== *)
theory Gz_FsProofs
  imports Gz_FsPaths
begin

text \<open>
  The filesystem store meets the contracts of a record store and a blob store. What is assumed of
  third-party code is the locale \<open>fs_substrate\<close>: \<open>serde_json\<close> reads back what it wrote, and a BLAKE3
  hex digest is 64 lowercase hex digits.
\<close>

definition fs_abs :: "rec_codec \<Rightarrow> path \<Rightarrow> disk \<Rightarrow> store_map" where
  "fs_abs C root s k =
     (if fs_valid k then
        (case bt_get (dk_files s) (record_path root k) of
           None \<Rightarrow> None
         | Some f \<Rightarrow> (case rc_from C (f_bytes f) of Inl _ \<Rightarrow> None | Inr r \<Rightarrow> Some r))
      else None)"

definition fs_blobs :: "path \<Rightarrow> disk \<Rightarrow> blob_map" where
  "fs_blobs root s h =
     (if fs_hash_valid h then
        map_option (\<lambda>f. (f_bytes f, unix_ms (f_mtime f))) (bt_get (dk_files s) (blob_path root h))
      else None)"

definition fs_inv :: "blake3 \<Rightarrow> rec_codec \<Rightarrow> path \<Rightarrow> disk \<Rightarrow> bool" where
  "fs_inv H C root s \<longleftrightarrow> fs_wf root s \<and> dk_faults s = [] \<and>
     (\<forall>k f. fs_valid k \<longrightarrow> bt_get (dk_files s) (record_path root k) = Some f \<longrightarrow>
        (\<exists>r. rc_from C (f_bytes f) = Inr r \<and> rec_key r = k)) \<and>
     (\<forall>h f. fs_hash_valid h \<longrightarrow> bt_get (dk_files s) (blob_path root h) = Some f \<longrightarrow>
        H (f_bytes f) = hash_str h)"

subsection \<open>Changes to the tree\<close>

text \<open>The files outside \<open>X\<close> are as before.\<close>

definition touched :: "path set \<Rightarrow> (path, dfile) btree \<Rightarrow> (path, dfile) btree \<Rightarrow> bool" where
  "touched X fs fs' \<longleftrightarrow> bt_ok fs' \<and> (\<forall>p. p \<notin> X \<longrightarrow> bt_get fs' p = bt_get fs p)"

lemma touchedD: "touched X fs fs' \<Longrightarrow> p \<notin> X \<Longrightarrow> bt_get fs' p = bt_get fs p"
  by (simp add: touched_def)

lemma touched_refl: "bt_ok fs \<Longrightarrow> touched X fs fs"
  by (simp add: touched_def)

lemma touched_trans: "touched X fs fs' \<Longrightarrow> touched Y fs' fs'' \<Longrightarrow> touched (X \<union> Y) fs fs''"
  by (simp add: touched_def)

lemma touched_wf:
  assumes "fs_wf root s" "touched X (dk_files s) fs'" "\<forall>p \<in> X. store_path root p"
  shows "fs_wf root (s\<lparr>dk_files := fs'\<rparr>)"
  using assms unfolding fs_wf_def touched_def by (fastforce simp: dom_def)

lemma scratch_store: "scratch_path root p \<Longrightarrow> store_path root p"
  by (simp add: store_path_def)

lemma record_store [simp]: "fs_valid k \<Longrightarrow> store_path root (record_path root k)"
  by (auto simp: store_path_def)

lemma blob_store_path [simp]: "fs_hash_valid h \<Longrightarrow> store_path root (blob_path root h)"
  by (auto simp: store_path_def fs_hash_valid_def)

lemma lock_scratch [simp]: "fs_valid k \<Longrightarrow> scratch_path root (lock_path root k)"
  and tmp_scratch [simp]: "fs_valid k \<Longrightarrow> scratch_path root (tmp_path root k)"
  and blob_tmp_scratch [simp]: "fs_hash_valid h \<Longrightarrow> scratch_path root (blob_tmp_path root pid n h)"
  by (auto simp: scratch_path_def fs_hash_valid_def)

text \<open>A change at one record's path, among scratch files.\<close>

lemma record_change:
  assumes "fs_inv H C root s" "fs_valid k" "touched (insert (record_path root k) X) (dk_files s) fs'"
    "\<forall>p \<in> X. scratch_path root p"
    "case bt_get fs' (record_path root k) of
       None \<Rightarrow> v = None | Some f \<Rightarrow> \<exists>r. rc_from C (f_bytes f) = Inr r \<and> rec_key r = k \<and> v = Some r"
  shows "fs_inv H C root (s\<lparr>dk_files := fs'\<rparr>) \<and>
    fs_abs C root (s\<lparr>dk_files := fs'\<rparr>) = (fs_abs C root s)(k := v) \<and>
    fs_blobs root (s\<lparr>dk_files := fs'\<rparr>) = fs_blobs root s"
proof -
  have wf: "fs_wf root (s\<lparr>dk_files := fs'\<rparr>)"
    using assms(1-4) by (intro touched_wf) (auto simp: fs_inv_def scratch_store)
  have other: "bt_get fs' (record_path root k') = bt_get (dk_files s) (record_path root k')"
    if "fs_valid k'" "k' \<noteq> k" for k'
  proof -
    have "record_path root k' \<notin> insert (record_path root k) X"
      using assms(4) that record_path_inj [OF that(1) assms(2)] scratch_not_record [OF _ that(1)] by blast
    then show ?thesis using assms(3) unfolding touched_def by blast
  qed
  have blob: "bt_get fs' (blob_path root h) = bt_get (dk_files s) (blob_path root h)"
    if "fs_hash_valid h" for h
  proof -
    have "blob_path root h \<notin> insert (record_path root k) X"
      using assms(4) that record_not_blob [OF assms(2), of h root] scratch_not_blob [of root _ h]
      by (auto simp: fs_hash_valid_def)
    then show ?thesis using assms(3) unfolding touched_def by blast
  qed
  have "fs_inv H C root (s\<lparr>dk_files := fs'\<rparr>)"
    unfolding fs_inv_def
  proof (intro conjI allI impI)
    fix k' f
    assume "fs_valid k'" "bt_get (dk_files (s\<lparr>dk_files := fs'\<rparr>)) (record_path root k') = Some f"
    then show "\<exists>r. rc_from C (f_bytes f) = Inr r \<and> rec_key r = k'"
      using assms(1,5) other [of k'] by (cases "k' = k") (auto simp: fs_inv_def)
  qed (use assms(1) wf blob in \<open>auto simp: fs_inv_def\<close>)
  moreover have "fs_abs C root (s\<lparr>dk_files := fs'\<rparr>) k' = ((fs_abs C root s)(k := v)) k'" for k'
    using assms(2,5) other [of k']
    by (cases "k' = k") (auto simp: fs_abs_def split: option.splits)
  moreover have "fs_blobs root (s\<lparr>dk_files := fs'\<rparr>) = fs_blobs root s"
    using blob by (auto simp: fs_blobs_def)
  ultimately show ?thesis by blast
qed

lemma blob_change:
  assumes "fs_inv H C root s" "fs_hash_valid h" "touched (insert (blob_path root h) X) (dk_files s) fs'"
    "\<forall>p \<in> X. scratch_path root p" "\<forall>f. bt_get fs' (blob_path root h) = Some f \<longrightarrow> H (f_bytes f) = hash_str h"
  shows "fs_inv H C root (s\<lparr>dk_files := fs'\<rparr>) \<and>
    fs_abs C root (s\<lparr>dk_files := fs'\<rparr>) = fs_abs C root s \<and>
    fs_blobs root (s\<lparr>dk_files := fs'\<rparr>) = (fs_blobs root s)
      (h := map_option (\<lambda>f. (f_bytes f, unix_ms (f_mtime f))) (bt_get fs' (blob_path root h)))"
proof -
  have wf: "fs_wf root (s\<lparr>dk_files := fs'\<rparr>)"
    using assms(1-4) by (intro touched_wf) (auto simp: fs_inv_def scratch_store)
  have rec: "bt_get fs' (record_path root k) = bt_get (dk_files s) (record_path root k)"
    if "fs_valid k" for k
  proof -
    have "record_path root k \<notin> insert (blob_path root h) X"
      using assms(2,4) record_not_blob [OF that, of h root] scratch_not_record [OF _ that]
      by (auto simp: fs_hash_valid_def)
    then show ?thesis using assms(3) unfolding touched_def by blast
  qed
  have other: "bt_get fs' (blob_path root h') = bt_get (dk_files s) (blob_path root h')"
    if "fs_hash_valid h'" "h' \<noteq> h" for h'
  proof -
    have "blob_path root h' \<notin> insert (blob_path root h) X"
      using assms(2,4) that blob_path_inj [of h' h root] scratch_not_blob [of root _ h']
      by (auto simp: fs_hash_valid_def)
    then show ?thesis using assms(3) unfolding touched_def by blast
  qed
  have "fs_inv H C root (s\<lparr>dk_files := fs'\<rparr>)"
    unfolding fs_inv_def
  proof (intro conjI allI impI)
    fix h' f
    assume "fs_hash_valid h'" "bt_get (dk_files (s\<lparr>dk_files := fs'\<rparr>)) (blob_path root h') = Some f"
    then show "H (f_bytes f) = hash_str h'"
      using assms(1,5) other [of h'] by (cases "h' = h") (auto simp: fs_inv_def)
  qed (use assms(1) wf rec in \<open>auto simp: fs_inv_def\<close>)
  moreover have "fs_abs C root (s\<lparr>dk_files := fs'\<rparr>) = fs_abs C root s"
    using rec by (auto simp: fs_abs_def fun_eq_iff)
  moreover have "fs_blobs root (s\<lparr>dk_files := fs'\<rparr>) h' = ((fs_blobs root s)
      (h := map_option (\<lambda>f. (f_bytes f, unix_ms (f_mtime f))) (bt_get fs' (blob_path root h)))) h'" for h'
    using assms(2) other [of h'] by (cases "h' = h") (auto simp: fs_blobs_def)
  ultimately show ?thesis by blast
qed

subsection \<open>The building blocks\<close>

lemma create_parent_ok:
  "fs_wf root s \<Longrightarrow> dk_faults s = [] \<Longrightarrow> store_path root p \<Longrightarrow> create_parent p s = (Inr (), s)"
  using clear_store_path [of root s p]
  by (simp add: create_parent_def path_parent_def clear_def sys_create_dir_all_ok backend_def)

lemma fsync_parent_ok:
  "dk_faults s = [] \<Longrightarrow> fsync_parent p s = (Inr (), s)"
  by (simp add: fsync_parent_def fsync_dir_def path_parent_def bindE_def sys_tick_ok backend_def retE_def)

lemma lock_record_ok:
  assumes "fs_wf root s" "dk_faults s = []" "fs_valid k"
  shows "\<exists>fs'. lock_record (record_path root k) s = (Inr (), s\<lparr>dk_files := fs'\<rparr>) \<and>
    touched {lock_path root k} (dk_files s) fs'"
proof -
  have ok: "bt_ok (dk_files s)" using assms(1) by (simp add: fs_wf_def)
  note clear = clear_store_path [OF assms(1) scratch_store [OF lock_scratch [OF assms(3)]]]
  define fs' where "fs' = (if bt_get (dk_files s) (lock_path root k) \<noteq> None then dk_files s
    else bt_insert (lock_path root k) \<lparr>f_bytes = [], f_mtime = dk_now s\<rparr> (dk_files s))"
  have "sys_open False (lock_path root k) s = (Inr (), s\<lparr>dk_files := fs'\<rparr>)"
    using sys_open_ok [OF assms(2) clear, of False] by (simp add: fs'_def)
  moreover have "touched {lock_path root k} (dk_files s) fs'"
    using ok by (simp add: touched_def fs'_def)
  ultimately show ?thesis
    using create_parent_ok [OF assms(1,2) record_store [OF assms(3)]] assms(2)
    by (intro exI [of _ fs'])
      (simp add: lock_record_def lock_path_def [symmetric] bindE_def backend_def sys_tick_ok)
qed

lemma publish_ok:
  assumes "fs_wf root s" "dk_faults s = []" "store_path root tmp" "store_path root p" "tmp \<noteq> p"
  shows "\<exists>fs'. publish tmp p bs s = (Inr (), s\<lparr>dk_files := fs'\<rparr>) \<and>
    touched {p, tmp} (dk_files s) fs' \<and>
    bt_get fs' p = Some \<lparr>f_bytes = bs, f_mtime = dk_now s\<rparr>"
proof -
  have ok: "bt_ok (dk_files s)" using assms(1) by (simp add: fs_wf_def)
  define s1 where "s1 = s\<lparr>dk_files := bt_insert tmp \<lparr>f_bytes = [], f_mtime = dk_now s\<rparr> (dk_files s)\<rparr>"
  define s2 where "s2 = s1\<lparr>dk_files := bt_insert tmp \<lparr>f_bytes = bs, f_mtime = dk_now s\<rparr> (dk_files s1)\<rparr>"
  have t: "touched {tmp} (dk_files s) (dk_files s2)" "bt_ok (dk_files s1)"
    using ok by (simp_all add: touched_def s1_def s2_def)
  have wf2: "fs_wf root s2"
    using touched_wf [OF assms(1) t(1)] assms(3) by (simp add: s1_def s2_def)
  have 1: "sys_open True tmp s = (Inr (), s1)"
    using sys_open_ok [OF assms(2) clear_store_path [OF assms(1,3)]] by (simp add: s1_def)
  have no: "''..'' \<notin> set tmp"
    using store_path_no_dots [OF _ assms(3)] assms(1) by (simp add: fs_wf_def)
  have 2: "sys_write_all tmp bs s1 = (Inr (), s2)"
    using sys_write_all_ok [of s1 tmp bs] no assms(2) ok
    by (simp add: s1_def s2_def append_bytes_def)
  have 3: "sys_rename tmp p s2 = (Inr (), s2\<lparr>dk_files :=
      bt_insert p \<lparr>f_bytes = bs, f_mtime = dk_now s\<rparr> (bt_remove tmp (dk_files s2))\<rparr>)"
    by (rule sys_rename_ok)
      (use no assms(2) t(2) clear_store_path [OF wf2 assms(4)] in \<open>simp_all add: s1_def s2_def\<close>)
  let ?fs = "bt_insert p \<lparr>f_bytes = bs, f_mtime = dk_now s\<rparr> (bt_remove tmp (dk_files s2))"
  have ok2: "bt_ok (dk_files s2)" using t(2) by (simp add: s2_def)
  have "touched {p, tmp} (dk_files s) ?fs"
    using ok2 t(1) by (auto simp: touched_def)
  moreover have "bt_get ?fs p = Some \<lparr>f_bytes = bs, f_mtime = dk_now s\<rparr>" using ok2 by simp
  moreover have "publish tmp p bs s = (Inr (), s\<lparr>dk_files := ?fs\<rparr>)"
    using 1 2 3 assms(2)
    by (simp add: publish_def bindE_def backend_def sys_tick_ok fsync_parent_ok s2_def s1_def)
  ultimately show ?thesis by blast
qed

lemma read_record_ok:
  assumes "fs_inv H C root s" "fs_valid k"
  shows "read_record_at C (record_path root k) s = (Inr (fs_abs C root s k), s)"
proof -
  have "clear (dk_files s) (record_path root k)" "dk_faults s = []"
    using assms clear_store_path [of root s "record_path root k"] by (auto simp: fs_inv_def)
  then have read: "sys_read (record_path root k) s =
      (case bt_get (dk_files s) (record_path root k) of
         Some f \<Rightarrow> Inr (f_bytes f) | None \<Rightarrow> Inl IoNotFound, s)"
    using sys_read_ok by blast
  show ?thesis
  proof (cases "bt_get (dk_files s) (record_path root k)")
    case None
    then show ?thesis using read by (simp add: read_record_at_def fs_abs_def)
  next
    case (Some f)
    then obtain r where "rc_from C (f_bytes f) = Inr r" using assms unfolding fs_inv_def by blast
    with Some read assms(2) show ?thesis by (simp add: read_record_at_def fs_abs_def)
  qed
qed

lemma scratch_change:
  assumes "fs_inv H C root s" "fs_valid k" "touched {lock_path root k} (dk_files s) fs'"
  shows "fs_inv H C root (s\<lparr>dk_files := fs'\<rparr>) \<and>
    fs_abs C root (s\<lparr>dk_files := fs'\<rparr>) = fs_abs C root s \<and>
    fs_blobs root (s\<lparr>dk_files := fs'\<rparr>) = fs_blobs root s"
proof -
  have same: "bt_get fs' (record_path root k) = bt_get (dk_files s) (record_path root k)"
    using scratch_not_record [OF lock_scratch [OF assms(2)] assms(2), of root]
    by (intro touchedD [OF assms(3)]) simp
  have "case bt_get fs' (record_path root k) of
       None \<Rightarrow> fs_abs C root s k = None
     | Some f \<Rightarrow> \<exists>r. rc_from C (f_bytes f) = Inr r \<and> rec_key r = k \<and> fs_abs C root s k = Some r"
  proof (cases "bt_get fs' (record_path root k)")
    case (Some f)
    then obtain r where "rc_from C (f_bytes f) = Inr r" "rec_key r = k"
      using assms(1,2) same unfolding fs_inv_def by force
    with Some same assms(2) show ?thesis by (simp add: fs_abs_def)
  qed (use same in \<open>simp add: fs_abs_def\<close>)
  moreover have "touched (insert (record_path root k) {lock_path root k}) (dk_files s) fs'"
    using assms(3) by (simp add: touched_def)
  ultimately show ?thesis
    using record_change [OF assms(1,2), of "{lock_path root k}" fs'] assms(2) by simp
qed

text \<open>Every locked section starts the same way: take the lock, read what is stored.\<close>

lemma locked_start:
  assumes "fs_inv H C root s" "fs_valid k"
  shows "\<exists>s1. lock_record (record_path root k) s = (Inr (), s1) \<and>
    read_record_at C (record_path root k) s1 = (Inr (fs_abs C root s k), s1) \<and>
    fs_inv H C root s1 \<and> fs_abs C root s1 = fs_abs C root s \<and>
    fs_blobs root s1 = fs_blobs root s \<and> fs_clock s1 = fs_clock s"
proof -
  have "fs_wf root s" "dk_faults s = []" using assms(1) by (auto simp: fs_inv_def)
  from lock_record_ok [OF this assms(2)] obtain fs' where
    lock: "lock_record (record_path root k) s = (Inr (), s\<lparr>dk_files := fs'\<rparr>)"
    and t: "touched {lock_path root k} (dk_files s) fs'" by blast
  note same = scratch_change [OF assms t]
  have "read_record_at C (record_path root k) (s\<lparr>dk_files := fs'\<rparr>) =
      (Inr (fs_abs C root s k), s\<lparr>dk_files := fs'\<rparr>)"
    using read_record_ok [of H C root "s\<lparr>dk_files := fs'\<rparr>" k] same assms(2) by simp
  with lock same show ?thesis by (intro exI [of _ "s\<lparr>dk_files := fs'\<rparr>"]) (simp add: fs_clock_def)
qed

locale fs_substrate =
  fixes H :: blake3 and C :: rec_codec and st :: fs_store
  assumes round_trip: "\<exists>bs. rc_to C r = Inr bs \<and> rc_from C bs = Inr r"
    and hex_digest: "is_blob_hash (H c)"
begin

abbreviation root where "root \<equiv> fs_root st"

lemma write_durable_ok:
  assumes "fs_inv H C root s" "fs_valid (rec_key r)"
  shows "\<exists>s'. write_durable C (record_path root (rec_key r)) r s = (Inr (), s') \<and>
    fs_inv H C root s' \<and> fs_abs C root s' = (fs_abs C root s)(rec_key r \<mapsto> r) \<and>
    fs_blobs root s' = fs_blobs root s"
proof -
  let ?p = "record_path root (rec_key r)" and ?t = "tmp_path root (rec_key r)"
  obtain bs where bs: "rc_to C r = Inr bs" "rc_from C bs = Inr r" using round_trip by blast
  have wf: "fs_wf root s" "dk_faults s = []" using assms(1) by (auto simp: fs_inv_def)
  have "?t \<noteq> ?p" using scratch_not_record [OF tmp_scratch [OF assms(2)] assms(2)] .
  then obtain fs' where fs': "publish ?t ?p bs s = (Inr (), s\<lparr>dk_files := fs'\<rparr>)"
    "touched {?p, ?t} (dk_files s) fs'" "bt_get fs' ?p = Some \<lparr>f_bytes = bs, f_mtime = dk_now s\<rparr>"
    using publish_ok [OF wf scratch_store [OF tmp_scratch [OF assms(2)]] record_store [OF assms(2)]]
    by blast
  have "fs_inv H C root (s\<lparr>dk_files := fs'\<rparr>) \<and>
      fs_abs C root (s\<lparr>dk_files := fs'\<rparr>) = (fs_abs C root s)(rec_key r \<mapsto> r) \<and>
      fs_blobs root (s\<lparr>dk_files := fs'\<rparr>) = fs_blobs root s"
    by (rule record_change [OF assms fs'(2)]) (use assms(2) fs'(3) bs in simp_all)
  with fs'(1) bs(1) show ?thesis
    by (simp add: write_durable_def tmp_path_def [symmetric])
qed

lemma remove_durable_ok:
  assumes "fs_inv H C root s" "fs_valid k"
  shows "\<exists>s'. remove_durable (record_path root k) s = (Inr (), s') \<and>
    fs_inv H C root s' \<and> fs_abs C root s' = (fs_abs C root s)(k := None) \<and>
    fs_blobs root s' = fs_blobs root s"
proof -
  let ?p = "record_path root k" and ?fs = "bt_remove (record_path root k) (dk_files s)"
  have wf: "fs_wf root s" "dk_faults s = []" "bt_ok (dk_files s)"
    using assms(1) by (auto simp: fs_inv_def fs_wf_def)
  have "touched (insert ?p {}) (dk_files s) ?fs" using wf(3) by (simp add: touched_def)
  from record_change [OF assms this, of None] have change:
    "fs_inv H C root (s\<lparr>dk_files := ?fs\<rparr>)"
    "fs_abs C root (s\<lparr>dk_files := ?fs\<rparr>) = (fs_abs C root s)(k := None)"
    "fs_blobs root (s\<lparr>dk_files := ?fs\<rparr>) = fs_blobs root s" by auto
  note rm = sys_remove_ok [OF wf(2) clear_store_path [OF wf(1) record_store [OF assms(2)]]]
  show ?thesis
  proof (cases "bt_get (dk_files s) ?p")
    case None
    then have "(fs_abs C root s)(k := None) = fs_abs C root s"
      by (auto simp: fs_abs_def fun_eq_iff)
    with None rm assms(1) show ?thesis
      by (simp add: remove_durable_def bindE_def fsync_parent_ok wf(2))
  next
    case (Some f)
    with rm change show ?thesis
      by (simp add: remove_durable_def bindE_def fsync_parent_ok wf(2))
  qed
qed

lemma put_locked_spec:
  assumes "fs_inv H C root s" "fs_valid (rec_key r)"
    "\<And>cur t r'. plan cur r ex t (fs_cap st) = PutWrite r' \<Longrightarrow> rec_key r' = rec_key r"
    "put_locked C plan st r ex s = (res, s')"
  defines "pl \<equiv> plan (fs_abs C root s (rec_key r)) r ex (fs_clock s) (fs_cap st)"
  shows "fs_inv H C root s' \<and> res = put_outcome (rec_key r) pl \<and>
    fs_abs C root s' = put_effect (rec_key r) pl (fs_abs C root s) \<and>
    fs_blobs root s' = fs_blobs root s"
proof -
  obtain s1 where s1: "lock_record (record_path root (rec_key r)) s = (Inr (), s1)"
    "read_record_at C (record_path root (rec_key r)) s1 = (Inr (fs_abs C root s (rec_key r)), s1)"
    "fs_inv H C root s1" "fs_abs C root s1 = fs_abs C root s"
    "fs_blobs root s1 = fs_blobs root s" "fs_clock s1 = fs_clock s"
    using locked_start [OF assms(1,2)] by blast
  note run = assms(4) [unfolded put_locked_def Let_def bindE_def s1(1) prod.case sum.case s1(2)
      s1(6) pl_def [symmetric]]
  show ?thesis
  proof (cases pl)
    case (PutWrite stored)
    then have key: "rec_key stored = rec_key r" using assms(3) by (simp add: pl_def)
    obtain s2 where "write_durable C (record_path root (rec_key r)) stored s1 = (Inr (), s2)"
      "fs_inv H C root s2" "fs_abs C root s2 = (fs_abs C root s)(rec_key r \<mapsto> stored)"
      "fs_blobs root s2 = fs_blobs root s"
      using write_durable_ok [OF s1(3), of stored] assms(2) key s1(4,5) by auto
    with run PutWrite show ?thesis by (simp add: bindE_def retE_def)
  qed (use run s1 in \<open>simp_all add: retE_def throwE_def\<close>)
qed

lemma delete_locked_spec:
  assumes "fs_inv H C root s" "fs_valid k" "delete_locked H C st k ex au s = (res, s')"
  defines "pl \<equiv> plan_delete H (fs_abs C root s k) ex (fs_clock s) (fs_cap st) au"
  shows "fs_inv H C root s' \<and> res = delete_outcome pl \<and>
    fs_abs C root s' = delete_effect k pl (fs_abs C root s) \<and>
    fs_blobs root s' = fs_blobs root s"
proof -
  obtain s1 where s1: "lock_record (record_path root k) s = (Inr (), s1)"
    "read_record_at C (record_path root k) s1 = (Inr (fs_abs C root s k), s1)"
    "fs_inv H C root s1" "fs_abs C root s1 = fs_abs C root s"
    "fs_blobs root s1 = fs_blobs root s" "fs_clock s1 = fs_clock s"
    using locked_start [OF assms(1,2)] by blast
  note run = assms(3) [unfolded delete_locked_def Let_def bindE_def s1(1) prod.case sum.case s1(2)
      s1(6) pl_def [symmetric]]
  show ?thesis
  proof (cases pl)
    case (DelWrite t)
    then obtain cur where cur: "fs_abs C root s k = Some cur"
      by (cases "fs_abs C root s k") (auto simp: pl_def plan_delete_def)
    then have "rec_key cur = k"
      using assms(1,2) by (auto simp: fs_abs_def fs_inv_def split: option.splits sum.splits)
    then have key: "rec_key t = k" using plan_delete_key DelWrite cur pl_def by metis
    obtain s2 where "write_durable C (record_path root k) t s1 = (Inr (), s2)"
      "fs_inv H C root s2" "fs_abs C root s2 = (fs_abs C root s)(k \<mapsto> t)"
      "fs_blobs root s2 = fs_blobs root s"
      using write_durable_ok [OF s1(3), of t] assms(2) key s1(4,5) by auto
    with run DelWrite show ?thesis by (simp add: bindE_def retE_def)
  qed (use run s1 in \<open>simp_all add: retE_def\<close>)
qed

lemma purge_locked_spec:
  assumes "fs_inv H C root s" "fs_valid k" "purge_locked C st k rv s = (res, s')"
  defines "pl \<equiv> plan_purge (fs_abs C root s k) rv"
  shows "fs_inv H C root s' \<and> res = purge_outcome pl \<and>
    fs_abs C root s' = purge_effect k pl (fs_abs C root s) \<and>
    fs_blobs root s' = fs_blobs root s"
proof -
  obtain s1 where s1: "lock_record (record_path root k) s = (Inr (), s1)"
    "read_record_at C (record_path root k) s1 = (Inr (fs_abs C root s k), s1)"
    "fs_inv H C root s1" "fs_abs C root s1 = fs_abs C root s"
    "fs_blobs root s1 = fs_blobs root s" "fs_clock s1 = fs_clock s"
    using locked_start [OF assms(1,2)] by blast
  note run = assms(3) [unfolded purge_locked_def Let_def bindE_def s1(1) prod.case sum.case s1(2)
      pl_def [symmetric]]
  show ?thesis
  proof (cases pl)
    case PurgeRemove
    obtain s2 where "remove_durable (record_path root k) s1 = (Inr (), s2)"
      "fs_inv H C root s2" "fs_abs C root s2 = (fs_abs C root s)(k := None)"
      "fs_blobs root s2 = fs_blobs root s"
      using remove_durable_ok [OF s1(3) assms(2)] s1(4,5) by auto
    with run PurgeRemove show ?thesis by (simp add: bindE_def retE_def)
  qed (use run s1 in \<open>simp_all add: retE_def\<close>)
qed

end

end
