(* ===== verification/Gz_FsListing.thy ===== *)
theory Gz_FsListing
  imports Gz_FsProofs
begin

text \<open>
  Listing the filesystem store: the three nested directory walks return every stored key once, and
  the blob directory lists every blob with its own modification time.
\<close>

lemma seg_char_ascii: "seg_char c \<Longrightarrow> byte_in 0 0x7F c"
  by (auto simp: seg_char_def unreserved_def byte_in_def)

lemma lossy_ascii: "\<forall>c \<in> set s. byte_in 0 0x7F c \<Longrightarrow> from_utf8_lossy s = s"
  by (simp add: from_utf8_lossy_valid utf8_valid_ascii)

lemma segment_ascii: "\<forall>c \<in> set (segment s). byte_in 0 0x7F c"
  using segment_chars seg_char_ascii by blast

lemma lossy_segment [simp]: "from_utf8_lossy (segment s) = segment s"
  using segment_ascii lossy_ascii by blast

lemma json_ascii: "\<forall>c \<in> set ''.json.lock''. byte_in 0 0x7F c" "\<forall>c \<in> set ''.json.tmp''. byte_in 0 0x7F c"
  "\<forall>c \<in> set ''.json''. byte_in 0 0x7F c"
  by code_simp+

lemma rec_stem_ascii: "\<forall>c \<in> set (rec_stem k). byte_in 0 0x7F c"
  using json_ascii(3) segment_ascii by (simp add: rec_stem_def)

text \<open>What a directory entry below a collection is: a record, or a file that is passed over.\<close>

lemma entry_cases:
  assumes "fs_wf root s" "root @ n # c # f # rest \<in> dom (bt_get (dk_files s))"
  obtains k where "fs_valid k" "n = segment (namespace k)" "c = segment (collection k)" "rest = []"
    "strip_suffix ''.json'' (from_utf8_lossy f) = Some (segment (key_id k))"
    "root @ [n, c, f] = record_path root k"
  | k where "fs_valid k" "n = segment (namespace k)" "c = segment (collection k)" "rest = []"
    "strip_suffix ''.json'' (from_utf8_lossy f) = None"
proof -
  let ?p = "root @ n # c # f # rest"
  have "prefix root ?p" by simp
  then have "store_path root ?p" using assms by (auto simp: fs_wf_def)
  then consider k where "fs_valid k" "?p = record_path root k"
    | k where "fs_valid k" "?p = lock_path root k \<or> ?p = tmp_path root k"
    | h pid m where "is_blob_hash (hash_str h)" "?p = blob_tmp_path root pid m h \<or> ?p = blob_path root h"
    unfolding store_path_def scratch_path_def by blast
  then show thesis
  proof cases
    case (1 k)
    have "from_utf8_lossy (segment (key_id k) @ ''.json'') = segment (key_id k) @ ''.json''"
      using segment_ascii json_ascii(3) by (intro lossy_ascii) auto
    with 1 that(1) [of k] show ?thesis by (auto simp: record_path_valid strip_suffix_Some)
  next
    case (2 k)
    have "from_utf8_lossy (rec_stem k @ ''.json.lock'') = rec_stem k @ ''.json.lock''"
      "from_utf8_lossy (rec_stem k @ ''.json.tmp'') = rec_stem k @ ''.json.tmp''"
      using rec_stem_ascii json_ascii(1,2) by (intro lossy_ascii; auto)+
    moreover have "strip_suffix ''.json'' (rec_stem k @ ''.json.lock'') = None"
      "strip_suffix ''.json'' (rec_stem k @ ''.json.tmp'') = None"
      using strip_suffix_Some [of "''.json''"] by (auto simp: not_Some_eq [symmetric] dest!: arg_cong [of _ _ last])
    ultimately show ?thesis
      using 2 that(2) [of k] by (auto simp: lock_path_valid tmp_path_valid)
  next
    case (3 h pid m)
    then show ?thesis by (auto simp: blob_tmp_valid blob_path_valid)
  qed
qed

subsection \<open>The walks as list expressions\<close>

definition file_keys :: "key_prefix \<Rightarrow> string \<Rightarrow> string \<Rightarrow> string \<Rightarrow> record_key list" where
  "file_keys p ns col f =
     (case strip_suffix ''.json'' (from_utf8_lossy f) of
        Some i \<Rightarrow>
          let key = RecordKey (decode_segment ns) (decode_segment col) (decode_segment i)
          in if kp_matches p key then [key] else []
      | None \<Rightarrow> [])"

definition col_keys :: "key_prefix \<Rightarrow> (path, dfile) btree \<Rightarrow> path \<Rightarrow> string \<Rightarrow> string \<Rightarrow> record_key list" where
  "col_keys p fs dir ns c =
     (if is_dir fs (dir @ [c])
      then concat (map (file_keys p ns (from_utf8_lossy c)) (children fs (dir @ [c]))) else [])"

definition ns_keys :: "key_prefix \<Rightarrow> (path, dfile) btree \<Rightarrow> path \<Rightarrow> string \<Rightarrow> record_key list" where
  "ns_keys p fs root n =
     (if is_dir fs (root @ [n])
      then concat (map (col_keys p fs (root @ [n]) (from_utf8_lossy n)) (children fs (root @ [n]))) else [])"

lemma collect_files_ok:
  "dk_faults s = [] \<Longrightarrow> collect_files p ns col fs out s = (Inr (out @ concat (map (file_keys p ns col) fs)), s)"
  by (induction fs arbitrary: out)
    (auto simp: bindE_def backend_def sys_tick_ok retE_def file_keys_def Let_def split: option.splits)

lemma entry_is_dir_ok:
  "dk_faults s = [] \<Longrightarrow> ''..'' \<notin> set p \<Longrightarrow> entry_is_dir p s = (Inr (is_dir (dk_files s) p), s)"
  by (simp add: entry_is_dir_def sys_is_dir_def io_simps)

lemma sys_read_dir_ok:
  "dk_faults s = [] \<Longrightarrow> ''..'' \<notin> set p \<Longrightarrow> is_dir (dk_files s) p \<Longrightarrow>
     sys_read_dir p s = (Inr (children (dk_files s) p), s)"
  by (simp add: sys_read_dir_def io_simps)

lemma collect_cols_ok:
  "dk_faults s = [] \<Longrightarrow> ''..'' \<notin> set dir \<Longrightarrow> ''..'' \<notin> set cs \<Longrightarrow>
     collect_cols p dir ns cs out s = (Inr (out @ concat (map (col_keys p (dk_files s) dir ns) cs)), s)"
  by (induction cs arbitrary: out)
    (auto simp: bindE_def backend_def sys_tick_ok retE_def entry_is_dir_ok sys_read_dir_ok
      collect_files_ok col_keys_def)

lemma collect_namespaces_ok:
  assumes "dk_faults s = []" "''..'' \<notin> set root" "''..'' \<notin> set ns"
    "\<forall>n \<in> set ns. ''..'' \<notin> set (children (dk_files s) (root @ [n]))"
  shows "collect_namespaces p root ns out s =
     (Inr (out @ concat (map (ns_keys p (dk_files s) root) ns)), s)"
  using assms
  by (induction ns arbitrary: out)
    (auto simp: bindE_def backend_def sys_tick_ok retE_def entry_is_dir_ok sys_read_dir_ok
      collect_cols_ok ns_keys_def)

lemma children_no_dots:
  assumes "fs_wf root s" "prefix root p"
  shows "''..'' \<notin> set (children (dk_files s) p)"
proof
  assume "''..'' \<in> set (children (dk_files s) p)"
  then obtain rest where "p @ ''..'' # rest \<in> dom (bt_get (dk_files s))"
    by (auto simp: set_children dom_map_of_conv_image_fst)
  moreover have "prefix root (p @ ''..'' # rest)" using assms(2) by simp
  ultimately have "store_path root (p @ ''..'' # rest)" using assms(1) by (auto simp: fs_wf_def)
  with store_path_no_dots [of root] assms(1) show False by (force simp: fs_wf_def)
qed

lemma distinct_concat_tagged:
  assumes "distinct xs" "\<And>x. x \<in> set xs \<Longrightarrow> distinct (f x)"
    "\<And>x y. x \<in> set xs \<Longrightarrow> y \<in> set (f x) \<Longrightarrow> g y = x"
  shows "distinct (concat (map f xs))"
  using assms
proof (induction xs)
  case (Cons x xs)
  have "set (f x) \<inter> set (concat (map f xs)) = {}"
  proof (rule ccontr)
    assume "set (f x) \<inter> set (concat (map f xs)) \<noteq> {}"
    then obtain y z where "y \<in> set (f x)" "z \<in> set xs" "y \<in> set (f z)" by auto
    then have "x = z" using Cons.prems(3) [of x y] Cons.prems(3) [of z y] by simp
    with \<open>z \<in> set xs\<close> Cons.prems(1) show False by simp
  qed
  moreover have "distinct (concat (map f xs))" by (rule Cons.IH) (use Cons.prems in auto)
  ultimately show ?case using Cons.prems(2) by simp
qed simp

text \<open>A key found in the walk is stored where it was found.\<close>

lemma file_keys_sound:
  assumes "fs_wf root s" "f \<in> set (children (dk_files s) (root @ [n, c]))"
    "k \<in> set (file_keys p (from_utf8_lossy n) (from_utf8_lossy c) f)"
  shows "fs_valid k \<and> kp_matches p k \<and> n = segment (namespace k) \<and> c = segment (collection k) \<and>
    f = segment (key_id k) @ ''.json'' \<and> record_path root k \<in> dom (bt_get (dk_files s))"
proof -
  obtain rest where "root @ n # c # f # rest \<in> dom (bt_get (dk_files s))"
    using assms(2) by (auto simp: set_children dom_map_of_conv_image_fst)
  from assms(1) this show ?thesis
  proof (cases rule: entry_cases)
    case (1 k')
    then have "k = k'"
      using assms(3) by (cases k') (auto simp: file_keys_def decode_segment_valid fs_valid_def Let_def
          split: if_splits)
    moreover have "root @ [n, c, f] \<in> dom (bt_get (dk_files s))"
      using \<open>root @ n # c # f # rest \<in> dom _\<close> 1(4) by simp
    ultimately show ?thesis
      using 1 assms(3) by (auto simp: file_keys_def Let_def record_path_valid split: if_splits)
  next
    case (2 k')
    then show ?thesis using assms(3) by (simp add: file_keys_def)
  qed
qed

lemma col_keys_sound:
  assumes "fs_wf root s" "k \<in> set (col_keys p (dk_files s) (root @ [n]) (from_utf8_lossy n) c)"
  shows "fs_valid k \<and> kp_matches p k \<and> n = segment (namespace k) \<and> c = segment (collection k) \<and>
    record_path root k \<in> dom (bt_get (dk_files s))"
  using assms(2) file_keys_sound [OF assms(1), of _ n c k p]
  by (auto simp: col_keys_def split: if_splits)

lemma ns_keys_sound:
  assumes "fs_wf root s" "k \<in> set (ns_keys p (dk_files s) root n)"
  shows "fs_valid k \<and> kp_matches p k \<and> n = segment (namespace k) \<and>
    record_path root k \<in> dom (bt_get (dk_files s))"
  using assms(2) col_keys_sound [OF assms(1), of k p n]
  by (auto simp: ns_keys_def split: if_splits)

lemma distinct_col_keys:
  assumes "fs_wf root s"
  shows "distinct (col_keys p (dk_files s) (root @ [n]) (from_utf8_lossy n) c)"
proof (cases "is_dir (dk_files s) ((root @ [n]) @ [c])")
  case True
  have "distinct (concat (map (file_keys p (from_utf8_lossy n) (from_utf8_lossy c))
      (children (dk_files s) (root @ [n, c]))))"
  proof (rule distinct_concat_tagged [where g = "\<lambda>k. segment (key_id k) @ ''.json''"])
    show "distinct (file_keys p (from_utf8_lossy n) (from_utf8_lossy c) f)" for f
      by (simp add: file_keys_def Let_def split: option.splits)
  qed (use file_keys_sound [OF assms] in auto)
  with True show ?thesis by (simp add: col_keys_def)
qed (simp add: col_keys_def)

lemma distinct_ns_keys:
  assumes "fs_wf root s"
  shows "distinct (ns_keys p (dk_files s) root n)"
proof (cases "is_dir (dk_files s) (root @ [n])")
  case True
  have "distinct (concat (map (col_keys p (dk_files s) (root @ [n]) (from_utf8_lossy n))
      (children (dk_files s) (root @ [n]))))"
    by (rule distinct_concat_tagged [where g = "\<lambda>k. segment (collection k)"])
      (use col_keys_sound [OF assms] distinct_col_keys [OF assms] in auto)
  with True show ?thesis by (simp add: ns_keys_def)
qed (simp add: ns_keys_def)

lemma walk_complete:
  assumes "fs_valid k" "kp_matches p k" "record_path root k \<in> dom (bt_get (dk_files s))"
  shows "segment (namespace k) \<in> set (children (dk_files s) root) \<and>
    k \<in> set (ns_keys p (dk_files s) root (segment (namespace k)))"
proof -
  let ?n = "segment (namespace k)" and ?c = "segment (collection k)" and ?f = "segment (key_id k) @ ''.json''"
  have stored: "root @ ?n # ?c # ?f # [] \<in> fst ` set (dk_files s)"
    using assms(3) record_path_valid [OF assms(1)] by (simp add: dom_map_of_conv_image_fst)
  then have "?n \<in> set (children (dk_files s) root)" "?c \<in> set (children (dk_files s) (root @ [?n]))"
    "?f \<in> set (children (dk_files s) (root @ [?n, ?c]))"
    by (auto simp: set_children)
  moreover have "is_dir (dk_files s) (root @ [?n])" "is_dir (dk_files s) (root @ [?n, ?c])"
    using stored by (auto simp: is_dir_iff)
  moreover have "from_utf8_lossy ?f = ?f"
    using segment_ascii json_ascii(3) by (intro lossy_ascii) auto
  then have "file_keys p ?n ?c ?f = [k]"
    using assms(1,2) strip_suffix_Some [of "''.json''" ?f "segment (key_id k)"]
    by (simp add: file_keys_def fs_valid_def decode_segment_valid Let_def)
  ultimately show ?thesis by (force simp: ns_keys_def col_keys_def)
qed

lemma is_dir_root_no_file:
  "fs_wf root s \<Longrightarrow> bt_get (dk_files s) root = None \<and> \<not> below_file (dk_files s) root"
proof -
  assume wf: "fs_wf root s"
  have "\<not> prefix p root" if "p \<in> dom (bt_get (dk_files s))" for p
  proof -
    from wf that consider "store_path root p" | "\<not> prefix p root" by (auto simp: fs_wf_def)
    then show ?thesis
    proof cases
      case 1
      then have "strict_prefix root p" by (cases rule: store_path_shape) (auto simp: strict_prefix_iff)
      then show ?thesis by (auto simp: strict_prefix_def)
    qed
  qed
  then have "root \<notin> dom (bt_get (dk_files s))" "\<not> below_file (dk_files s) root"
    by (auto simp: below_file_def dom_map_of_conv_image_fst [symmetric] strict_prefix_def)
  then show ?thesis by (simp add: domIff)
qed

text \<open>The whole walk.\<close>

lemma collect_keys_ok:
  assumes "fs_wf root s" "dk_faults s = []"
  shows "\<exists>ks. collect_keys root p s = (Inr ks, s) \<and> distinct ks \<and>
    set ks = {k. fs_valid k \<and> kp_matches p k \<and> record_path root k \<in> dom (bt_get (dk_files s))}"
proof (cases "is_dir (dk_files s) root")
  case False
  have no: "''..'' \<notin> set root" using assms(1) by (simp add: fs_wf_def root_ok_def)
  have "sys_read_dir root s = (Inl IoNotFound, s)"
    using False assms(2) is_dir_root_no_file [OF assms(1)] no
    by (simp add: sys_read_dir_def io_simps)
  moreover have "record_path root k \<notin> dom (bt_get (dk_files s))" if "fs_valid k" for k
    using False record_path_valid [OF that] by (auto simp: is_dir_iff dom_map_of_conv_image_fst)
  ultimately show ?thesis by (simp add: collect_keys_def)
next
  case True
  let ?fs = "dk_files s"
  let ?ks = "concat (map (ns_keys p ?fs root) (children ?fs root))"
  have no: "''..'' \<notin> set root" using assms(1) by (simp add: fs_wf_def root_ok_def)
  have "collect_namespaces p root (children ?fs root) [] s = (Inr ([] @ ?ks), s)"
    using assms(1) by (intro collect_namespaces_ok [OF assms(2) no]) (auto simp: children_no_dots)
  then have "collect_keys root p s = (Inr ?ks, s)"
    using sys_read_dir_ok [OF assms(2) no True] by (simp add: collect_keys_def)
  moreover have "set ?ks = {k. fs_valid k \<and> kp_matches p k \<and> record_path root k \<in> dom (bt_get ?fs)}"
    using ns_keys_sound [OF assms(1)] walk_complete [of _ p root s] by fastforce
  moreover have "distinct ?ks"
  proof (rule distinct_concat_tagged [where g = "\<lambda>k. segment (namespace k)"])
    fix n assume "n \<in> set (children ?fs root)"
    show "distinct (ns_keys p ?fs root n)" by (rule distinct_ns_keys [OF assms(1)])
  qed (use ns_keys_sound [OF assms(1)] in auto)
  ultimately show ?thesis by blast
qed

lemma fs_abs_dom:
  assumes "fs_inv H C root s" "fs_valid k"
  shows "record_path root k \<in> dom (bt_get (dk_files s)) \<longleftrightarrow> fs_abs C root s k \<noteq> None"
proof -
  have "\<exists>r. rc_from C (f_bytes f) = Inr r" if "bt_get (dk_files s) (record_path root k) = Some f" for f
    using assms that unfolding fs_inv_def by blast
  with assms(2) show ?thesis by (auto simp: fs_abs_def domIff split: option.splits sum.splits)
qed

lemma keep_live_ok:
  "fs_inv H C (fs_root st) s \<Longrightarrow> \<forall>k \<in> set ks. fs_valid k \<Longrightarrow>
     keep_live C st ks out s = (Inr (out @ filter (\<lambda>k. live_only (fs_abs C (fs_root st) s k) \<noteq> None) ks), s)"
  by (induction ks arbitrary: out)
    (auto simp: retE_def listed_live_def read_record_def read_record_ok live_only_def split: option.splits)

end
