(* ===== verification/Gz_Manifest.thy ===== *)
theory Gz_Manifest
  imports Gz_Record
begin

text \<open>
  The two manifest kinds: per-view code-graph manifests (\<open>manifest.rs\<close>) and the manifest of a
  durable vector index (\<open>vector_manifest.rs\<close>). Their bodies are JSON written and read by
  \<open>serde_json\<close>, a third-party crate: the printers and parsers are parameters (\<open>Inl\<close> is the parser's
  message).
\<close>

subsection \<open>Graph manifests\<close>

definition GRAPH_MANIFEST_COLLECTION :: string where
  "GRAPH_MANIFEST_COLLECTION = ''graph-manifest''"

record manifest =
  mf_entries :: "(string, content_hash) btree"

definition manifest_new :: manifest where
  "manifest_new = \<lparr>mf_entries = []\<rparr>"

definition manifest_key :: "string \<Rightarrow> string \<Rightarrow> record_key" where
  "manifest_key repo view = RecordKey repo GRAPH_MANIFEST_COLLECTION view"

definition manifest_insert :: "string \<Rightarrow> content_hash \<Rightarrow> manifest \<Rightarrow> manifest" where
  "manifest_insert path h m = m\<lparr>mf_entries := bt_insert path h (mf_entries m)\<rparr>"

definition manifest_get :: "manifest \<Rightarrow> string \<Rightarrow> content_hash option" where
  "manifest_get m path = bt_get (mf_entries m) path"

type_synonym entries_printer = "(string, content_hash) btree \<Rightarrow> bytes"
type_synonym entries_parser = "bytes \<Rightarrow> string + (string, content_hash) btree"

definition manifest_to_body :: "entries_printer \<Rightarrow> manifest \<Rightarrow> body" where
  "manifest_to_body to_vec m = Inline (to_vec (mf_entries m))"

definition manifest_from_body :: "entries_parser \<Rightarrow> body \<Rightarrow> manifest result" where
  "manifest_from_body from_slice b =
     (case from_slice (body_bytes b) of
        Inl e \<Rightarrow> Inl (Serde e) | Inr es \<Rightarrow> Inr \<lparr>mf_entries = es\<rparr>)"

record reconciliation =
  rc_added :: "string list"
  rc_modified :: "string list"
  rc_deleted :: "string list"
  rc_manifest :: manifest

text \<open>One entry of the desired set against the old manifest, pushed onto the change lists.\<close>

definition reconcile_step ::
  "manifest \<Rightarrow> string \<times> content_hash \<Rightarrow> string list \<times> string list \<Rightarrow> string list \<times> string list" where
  "reconcile_step m ph acc =
     (case (ph, acc) of ((path, hash), (added, modified)) \<Rightarrow>
        (case bt_get (mf_entries m) path of
           None \<Rightarrow> (added @ [path], modified)
         | Some current \<Rightarrow>
             if current \<noteq> hash then (added, modified @ [path]) else (added, modified)))"

definition manifest_reconcile :: "manifest \<Rightarrow> (string, content_hash) btree \<Rightarrow> reconciliation" where
  "manifest_reconcile m desired =
     (case fold (reconcile_step m) desired ([], []) of (added, modified) \<Rightarrow>
        \<lparr>rc_added = added, rc_modified = modified,
         rc_deleted = filter (\<lambda>path. bt_get desired path = None) (map fst (mf_entries m)),
         rc_manifest = \<lparr>mf_entries = desired\<rparr>\<rparr>)"

definition desired_set :: "blake3 \<Rightarrow> (string \<times> bytes) list \<Rightarrow> (string, content_hash) btree" where
  "desired_set H es = bt_of_list (map (\<lambda>(path, content). (path, content_hash_of H content)) es)"

subsection \<open>Vector manifests\<close>

definition VECTOR_MANIFEST_COLLECTION :: string where
  "VECTOR_MANIFEST_COLLECTION = ''vector-manifest''"

record vector_manifest =
  vm_space :: string
  vm_dim :: nat
  vm_shards :: "16 word"
  vm_entries :: "(16 word, content_hash) btree"

definition vector_manifest_new :: "string \<Rightarrow> nat \<Rightarrow> 16 word \<Rightarrow> vector_manifest" where
  "vector_manifest_new space dim shards =
     \<lparr>vm_space = space, vm_dim = dim, vm_shards = shards, vm_entries = []\<rparr>"

definition vector_manifest_key :: "string \<Rightarrow> string \<Rightarrow> record_key" where
  "vector_manifest_key ns index_id = RecordKey ns VECTOR_MANIFEST_COLLECTION index_id"

definition vector_manifest_to_body :: "(vector_manifest \<Rightarrow> bytes) \<Rightarrow> vector_manifest \<Rightarrow> body" where
  "vector_manifest_to_body to_vec m = Inline (to_vec m)"

definition vector_manifest_from_body ::
  "(bytes \<Rightarrow> string + vector_manifest) \<Rightarrow> body \<Rightarrow> vector_manifest result" where
  "vector_manifest_from_body from_slice b =
     (case from_slice (body_bytes b) of Inl e \<Rightarrow> Inl (Serde e) | Inr m \<Rightarrow> Inr m)"

subsection \<open>Reconciliation is the set difference\<close>

lemma fold_reconcile_step:
  "fold (reconcile_step m) es (ad, md) =
     (ad @ map fst (filter (\<lambda>(p, h). bt_get (mf_entries m) p = None) es),
      md @ map fst (filter (\<lambda>(p, h). \<exists>c. bt_get (mf_entries m) p = Some c \<and> c \<noteq> h) es))"
  by (induction es arbitrary: ad md) (auto simp: reconcile_step_def split: option.splits)

lemma manifest_reconcile_sets:
  assumes "bt_ok (mf_entries m)" "bt_ok desired"
  defines "r \<equiv> manifest_reconcile m desired"
  shows "set (rc_added r) = {p. bt_get (mf_entries m) p = None \<and> bt_get desired p \<noteq> None}"
    "set (rc_modified r) = {p. \<exists>c h. bt_get (mf_entries m) p = Some c \<and> bt_get desired p = Some h \<and> c \<noteq> h}"
    "set (rc_deleted r) = {p. bt_get (mf_entries m) p \<noteq> None \<and> bt_get desired p = None}"
    "mf_entries (rc_manifest r) = desired"
proof -
  have keys: "p \<in> fst ` {x \<in> set d. P x} \<longleftrightarrow> (\<exists>h. bt_get d p = Some h \<and> P (p, h))"
    if "bt_ok d" for p P and d :: "(string, content_hash) btree"
    by (auto simp: bt_get_in_set [OF that] image_iff)
  show "set (rc_added r) = {p. bt_get (mf_entries m) p = None \<and> bt_get desired p \<noteq> None}"
    "set (rc_modified r) = {p. \<exists>c h. bt_get (mf_entries m) p = Some c \<and> bt_get desired p = Some h \<and> c \<noteq> h}"
    by (auto simp: r_def manifest_reconcile_def fold_reconcile_step keys [OF assms(2)]
        dest: bt_get_in_set [OF assms(2), THEN iffD2] simp del: map_of_eq_None_iff)
  show "set (rc_deleted r) = {p. bt_get (mf_entries m) p \<noteq> None \<and> bt_get desired p = None}"
    by (auto simp: r_def manifest_reconcile_def fold_reconcile_step filter_map_fst
        keys [OF assms(1)] dest: bt_get_in_set [OF assms(1), THEN iffD2] simp del: map_of_eq_None_iff)
  show "mf_entries (rc_manifest r) = desired"
    by (simp add: r_def manifest_reconcile_def fold_reconcile_step)
qed

lemma manifest_reconcile_sorted:
  assumes "bt_ok (mf_entries m)" "bt_ok desired"
  defines "r \<equiv> manifest_reconcile m desired"
  shows "sorted_wrt (<) (rc_added r)" "sorted_wrt (<) (rc_modified r)" "sorted_wrt (<) (rc_deleted r)"
proof -
  have "sorted_wrt (<) (map fst (filter P desired))" for P
    using bt_ok_filter [OF assms(2)] by (simp add: bt_ok_def)
  then show "sorted_wrt (<) (rc_added r)" "sorted_wrt (<) (rc_modified r)"
    by (simp_all add: r_def manifest_reconcile_def fold_reconcile_step)
  show "sorted_wrt (<) (rc_deleted r)"
    using assms(1) by (simp add: r_def manifest_reconcile_def fold_reconcile_step bt_ok_def
        sorted_wrt_filter_less)
qed

end
