(* ===== verification/Gz_GC.thy ===== *)
theory Gz_GC
  imports Gz_Blobs Gz_Manifest
begin

text \<open>
  Mark-sweep garbage collection of blobs (\<open>gc.rs\<close>). The mark set is computed from the raw records,
  tombstones included; the sweep deletes what is outside it and old enough. The two JSON parsers of
  manifest bodies are parameters (\<open>gp\<close>, \<open>vp\<close>).

  The specification is a set (\<open>references\<close>): which hashes a record needs. \<open>gc_spec\<close> (in
  \<open>full_store\<close>) says that a collection removes exactly the stored blobs that no record references
  and that are at least the minimum age old, and \<open>gc_parse_failure\<close> that a manifest that does not
  parse stops it before anything is removed.
\<close>

type_synonym vector_parser = "bytes \<Rightarrow> string + vector_manifest"

record gc_report =
  gc_freed :: "content_hash list"
  gc_retained :: nat
  gc_deferred :: nat

definition bts_extend :: "'a::linorder list \<Rightarrow> 'a list \<Rightarrow> 'a list" where
  "bts_extend s xs = bts_of_list (s @ xs)"

lemma set_bts_extend [simp]: "set (bts_extend s xs) = set s \<union> set xs"
  by (simp add: bts_extend_def)

text \<open>\<open>entries.into_values()\<close> of a manifest body, or the parser's error.\<close>

definition graph_values :: "entries_parser \<Rightarrow> body \<Rightarrow> content_hash list result" where
  "graph_values gp b = bindR (manifest_from_body gp b) (\<lambda>m. Inr (map snd (mf_entries m)))"

definition vector_values :: "vector_parser \<Rightarrow> body \<Rightarrow> content_hash list result" where
  "vector_values vp b = bindR (vector_manifest_from_body vp b) (\<lambda>m. Inr (map snd (vm_entries m)))"

text \<open>One turn of the marking loop.\<close>

definition mark_record ::
  "entries_parser \<Rightarrow> vector_parser \<Rightarrow> rec \<Rightarrow> content_hash list \<Rightarrow> content_hash list result" where
  "mark_record gp vp r live0 =
     (let live1 = (case rec_body r of Blob h _ \<Rightarrow> bts_extend live0 [h] | Inline _ \<Rightarrow> live0);
          live2 = (case rec_deleted_blob r of Some h \<Rightarrow> bts_extend live1 [h] | None \<Rightarrow> live1)
      in bindR (if rec_kind r = GraphManifest
                then bindR (graph_values gp (rec_body r)) (\<lambda>hs. Inr (bts_extend live2 hs))
                else Inr live2) (\<lambda>live3.
         bindR (if rec_kind r = VectorManifest
                then bindR (vector_values vp (rec_body r)) (\<lambda>hs. Inr (bts_extend live3 hs))
                else Inr live3) (\<lambda>live4.
         if rec_kind r = Tombstone then
           (case rec_deleted_kind r of
              Some VectorManifest \<Rightarrow>
                bindR (vector_values vp (rec_body r)) (\<lambda>hs. Inr (bts_extend live4 hs))
            | Some GraphManifest \<Rightarrow>
                bindR (graph_values gp (rec_body r)) (\<lambda>hs. Inr (bts_extend live4 hs))
            | _ \<Rightarrow> Inr live4)
         else Inr live4)))"

primrec mark_records ::
  "entries_parser \<Rightarrow> vector_parser \<Rightarrow> rec list \<Rightarrow> content_hash list \<Rightarrow> content_hash list result" where
  "mark_records gp vp [] live = Inr live"
| "mark_records gp vp (r # rs) live = bindR (mark_record gp vp r live) (mark_records gp vp rs)"

definition live_blob_hashes ::
  "entries_parser \<Rightarrow> vector_parser \<Rightarrow> rec list \<Rightarrow> content_hash list result" where
  "live_blob_hashes gp vp rs = mark_records gp vp rs []"

definition DEFAULT_MIN_AGE :: duration where
  "DEFAULT_MIN_AGE = 3600 * 1000000000"

record sweep_policy =
  sp_min_age :: duration
  sp_now :: system_time

definition sweep_policy_default :: "system_time \<Rightarrow> sweep_policy" where
  "sweep_policy_default clock = \<lparr>sp_min_age = DEFAULT_MIN_AGE, sp_now = clock\<rparr>"

text \<open>\<open>entry(hash).and_modify(max).or_insert(ms)\<close> for each listed blob.\<close>

definition newest_step ::
  "blob_entry \<Rightarrow> (content_hash, int) btree \<Rightarrow> (content_hash, int) btree" where
  "newest_step e m =
     bt_insert (be_hash e)
       (case bt_get m (be_hash e) of
          None \<Rightarrow> be_modified_unix_ms e
        | Some ms \<Rightarrow> max ms (be_modified_unix_ms e)) m"

definition newest :: "blob_entry list \<Rightarrow> (content_hash, int) btree" where
  "newest es = fold newest_step es []"

definition old_enough :: "sweep_policy \<Rightarrow> content_hash \<Rightarrow> int \<Rightarrow> bool" where
  "old_enough pol h ms =
     (case blob_age \<lparr>be_hash = h, be_modified_unix_ms = ms\<rparr> (sp_now pol) of
        Some age \<Rightarrow> sp_min_age pol \<le> age
      | None \<Rightarrow> False)"

text \<open>One turn of the classification loop: (freed, retained, deferred).\<close>

definition classify ::
  "content_hash list \<Rightarrow> sweep_policy \<Rightarrow> content_hash \<times> int \<Rightarrow> gc_report \<Rightarrow> gc_report" where
  "classify live pol hm rep =
     (case hm of (h, ms) \<Rightarrow>
        if h \<in> set live then rep\<lparr>gc_retained := gc_retained rep + 1\<rparr>
        else if old_enough pol h ms then rep\<lparr>gc_freed := gc_freed rep @ [h]\<rparr>
        else rep\<lparr>gc_deferred := gc_deferred rep + 1\<rparr>)"

primrec delete_blobs :: "'s blob_vt \<Rightarrow> content_hash list \<Rightarrow> ('s, core_error, unit) io" where
  "delete_blobs bv [] = retE ()"
| "delete_blobs bv (h # hs) = bindE (bv_delete_blob bv h) (\<lambda>_. delete_blobs bv hs)"

definition sweep_blobs_with ::
  "'s blob_vt \<Rightarrow> content_hash list \<Rightarrow> sweep_policy \<Rightarrow> ('s, core_error, gc_report) io" where
  "sweep_blobs_with bv live pol =
     bindE (bv_list_blobs bv) (\<lambda>es.
       let rep = fold (classify live pol) (newest es) \<lparr>gc_freed = [], gc_retained = 0, gc_deferred = 0\<rparr>
       in bindE (delete_blobs bv (gc_freed rep)) (\<lambda>_. retE rep))"

definition sweep_blobs ::
  "'s blob_vt \<Rightarrow> content_hash list \<Rightarrow> system_time \<Rightarrow> ('s, core_error, gc_report) io" where
  "sweep_blobs bv live clock = sweep_blobs_with bv live (sweep_policy_default clock)"

primrec read_all :: "'s store_vt \<Rightarrow> record_key list \<Rightarrow> rec list \<Rightarrow> ('s, core_error, rec list) io" where
  "read_all vt [] acc = retE acc"
| "read_all vt (k # ks) acc =
     bindE (vt_get_raw vt k) (\<lambda>o'.
       read_all vt ks (case o' of Some r \<Rightarrow> acc @ [r] | None \<Rightarrow> acc))"

definition gc_blobs_with ::
  "entries_parser \<Rightarrow> vector_parser \<Rightarrow> 's store_vt \<Rightarrow> 's blob_vt \<Rightarrow> sweep_policy \<Rightarrow>
   ('s, core_error, gc_report) io" where
  "gc_blobs_with gp vp vt bv pol =
     bindE (vt_list_raw vt kp_default) (\<lambda>ks.
     bindE (read_all vt ks []) (\<lambda>rs.
     bindE (liftE (live_blob_hashes gp vp rs)) (\<lambda>live.
       sweep_blobs_with bv live pol)))"

definition gc_blobs ::
  "entries_parser \<Rightarrow> vector_parser \<Rightarrow> 's store_vt \<Rightarrow> 's blob_vt \<Rightarrow> system_time \<Rightarrow>
   ('s, core_error, gc_report) io" where
  "gc_blobs gp vp vt bv clock = gc_blobs_with gp vp vt bv (sweep_policy_default clock)"

subsection \<open>What a record references\<close>

text \<open>The manifest kind whose parser reads this record's body, live or retained by a tombstone.\<close>

definition manifest_kind :: "rec \<Rightarrow> record_kind option" where
  "manifest_kind r =
     (if rec_kind r = GraphManifest \<or> rec_kind r = VectorManifest then Some (rec_kind r)
      else if is_tombstone r then
        (case rec_deleted_kind r of
           Some k \<Rightarrow> if retains_body k then Some k else None
         | None \<Rightarrow> None)
      else None)"

definition references :: "entries_parser \<Rightarrow> vector_parser \<Rightarrow> rec \<Rightarrow> content_hash set" where
  "references gp vp r =
     {h. \<exists>n. rec_body r = Blob h n} \<union> {h. rec_deleted_blob r = Some h} \<union>
     {h. manifest_kind r = Some GraphManifest \<and> (\<exists>hs. graph_values gp (rec_body r) = Inr hs \<and> h \<in> set hs)} \<union>
     {h. manifest_kind r = Some VectorManifest \<and> (\<exists>hs. vector_values vp (rec_body r) = Inr hs \<and> h \<in> set hs)}"

definition parses :: "entries_parser \<Rightarrow> vector_parser \<Rightarrow> rec \<Rightarrow> bool" where
  "parses gp vp r \<longleftrightarrow>
     (manifest_kind r = Some GraphManifest \<longrightarrow> \<not> isl (graph_values gp (rec_body r))) \<and>
     (manifest_kind r = Some VectorManifest \<longrightarrow> \<not> isl (vector_values vp (rec_body r)))"

text \<open>The hashes the record names itself: its blob body and the blob its tombstone pins.\<close>

definition mark_direct :: "rec \<Rightarrow> content_hash list \<Rightarrow> content_hash list" where
  "mark_direct r live0 =
     (let live1 = (case rec_body r of Blob h _ \<Rightarrow> bts_extend live0 [h] | Inline _ \<Rightarrow> live0)
      in case rec_deleted_blob r of Some h \<Rightarrow> bts_extend live1 [h] | None \<Rightarrow> live1)"

lemma set_mark_direct:
  "set (mark_direct r live) =
     set live \<union> {h. \<exists>n. rec_body r = Blob h n} \<union> {h. rec_deleted_blob r = Some h}"
  by (auto simp: mark_direct_def Let_def split: body.splits option.splits)

lemma bindR_ext: "bindR r Inr = r"
  by (cases r) auto

lemma mark_record_eq:
  "mark_record gp vp r live =
     (case manifest_kind r of
        None \<Rightarrow> Inr (mark_direct r live)
      | Some k \<Rightarrow>
          bindR (if k = GraphManifest then graph_values gp (rec_body r) else vector_values vp (rec_body r))
            (\<lambda>hs. Inr (bts_extend (mark_direct r live) hs)))"
proof (cases "rec_kind r = Tombstone")
  case True
  then show ?thesis
    by (cases "rec_deleted_kind r")
      (auto simp: mark_record_def Let_def manifest_kind_def is_tombstone_def retains_body_def
        mark_direct_def split: record_kind.splits)
next
  case False
  then show ?thesis
    by (auto simp: mark_record_def Let_def manifest_kind_def is_tombstone_def mark_direct_def bindR_ext)
qed

lemma manifest_kind_cases:
  "manifest_kind r = None \<or> manifest_kind r = Some GraphManifest \<or> manifest_kind r = Some VectorManifest"
  by (auto simp: manifest_kind_def retains_body_def split: option.splits)

lemma mark_record_ok:
  assumes "parses gp vp r"
  shows "\<exists>live'. mark_record gp vp r live = Inr live' \<and> set live' = set live \<union> references gp vp r"
  using manifest_kind_cases [of r] assms
  by (cases "graph_values gp (rec_body r)"; cases "vector_values vp (rec_body r)")
    (auto simp: mark_record_eq parses_def references_def set_mark_direct)

lemma mark_record_err: "\<not> parses gp vp r \<Longrightarrow> \<exists>e. mark_record gp vp r live = Inl (Serde e)"
  by (auto simp: mark_record_eq parses_def isl_def bindR_def graph_values_def vector_values_def
      manifest_from_body_def vector_manifest_from_body_def split: sum.splits)

lemma live_blob_hashes_ok:
  assumes "\<forall>r \<in> set rs. parses gp vp r"
  shows "\<exists>live. live_blob_hashes gp vp rs = Inr live \<and> set live = (\<Union>r \<in> set rs. references gp vp r)"
proof -
  have "\<exists>live'. mark_records gp vp rs live = Inr live' \<and>
      set live' = set live \<union> (\<Union>r \<in> set rs. references gp vp r)" for live
    using assms
  proof (induction rs arbitrary: live)
    case (Cons r rs)
    obtain l1 where "mark_record gp vp r live = Inr l1" "set l1 = set live \<union> references gp vp r"
      using mark_record_ok Cons.prems by (metis list.set_intros(1))
    with Cons.IH [of l1] Cons.prems show ?case by auto
  qed simp
  from this [of "[]"] show ?thesis by (simp add: live_blob_hashes_def)
qed

lemma live_blob_hashes_err:
  assumes "r \<in> set rs" "\<not> parses gp vp r"
  shows "\<exists>e. live_blob_hashes gp vp rs = Inl (Serde e)"
proof -
  have "\<exists>e. mark_records gp vp rs live = Inl (Serde e)" for live
    using assms(1)
  proof (induction rs arbitrary: live)
    case (Cons r' rs)
    show ?case
    proof (cases "parses gp vp r'")
      case True
      then show ?thesis
        using mark_record_ok [of gp vp r' live] Cons assms(2) by auto
    next
      case False
      then show ?thesis using mark_record_err [of gp vp r' live] by auto
    qed
  qed simp
  then show ?thesis by (simp add: live_blob_hashes_def)
qed

subsection \<open>The newest stamp of each hash\<close>

lemma newest_invariant:
  "bt_ok m \<Longrightarrow> bt_ok (fold newest_step es m) \<and>
     (\<forall>h. bt_get (fold newest_step es m) h =
       fold (\<lambda>e o'. if be_hash e = h then Some (case o' of None \<Rightarrow> be_modified_unix_ms e
         | Some ms \<Rightarrow> max ms (be_modified_unix_ms e)) else o') es (bt_get m h))"
  by (induction es arbitrary: m) (auto simp: newest_step_def)

lemma bt_ok_newest: "bt_ok (newest es)"
  using newest_invariant [of "[]" es] by (simp add: newest_def)

lemma newest_step_ok [simp]: "bt_ok m \<Longrightarrow> bt_ok (newest_step e m)"
  by (simp add: newest_step_def)

lemma newest_upper:
  assumes "bt_ok m" "\<forall>h ms. bt_get m h = Some ms \<longrightarrow> (\<exists>c ms'. b h = Some (c, ms') \<and> ms \<le> ms')"
    "\<forall>e \<in> set es. \<exists>c ms. b (be_hash e) = Some (c, ms) \<and> be_modified_unix_ms e \<le> ms"
  shows "\<forall>h ms. bt_get (fold newest_step es m) h = Some ms \<longrightarrow> (\<exists>c ms'. b h = Some (c, ms') \<and> ms \<le> ms')"
  using assms
proof (induction es arbitrary: m)
  case (Cons e es)
  have "\<forall>h ms. bt_get (newest_step e m) h = Some ms \<longrightarrow> (\<exists>c ms'. b h = Some (c, ms') \<and> ms \<le> ms')"
    using Cons.prems by (fastforce simp: newest_step_def split: option.splits if_splits)
  with Cons.IH [of "newest_step e m"] Cons.prems show ?case by simp
qed simp

lemma newest_lower:
  "bt_ok m \<Longrightarrow> e \<in> set es \<or> (\<exists>ms \<ge> be_modified_unix_ms e. bt_get m (be_hash e) = Some ms) \<Longrightarrow>
     \<exists>ms \<ge> be_modified_unix_ms e. bt_get (fold newest_step es m) (be_hash e) = Some ms"
proof (induction es arbitrary: m)
  case (Cons e' es)
  have "e \<in> set es \<or> (\<exists>ms \<ge> be_modified_unix_ms e. bt_get (newest_step e' m) (be_hash e) = Some ms)"
    using Cons.prems by (auto simp: newest_step_def le_max_iff_disj split: option.splits)
  with Cons.IH [of "newest_step e' m"] Cons.prems show ?case by simp
qed auto

text \<open>Whatever duplicates a listing has, the collapsed map is the blob store's own stamps.\<close>

lemma newest_listing:
  assumes "listing_of b es"
  shows "bt_get (newest es) h = map_option snd (b h)"
proof -
  have upper: "\<exists>c ms'. b h = Some (c, ms') \<and> ms \<le> ms'" if "bt_get (newest es) h = Some ms" for ms
    using newest_upper [of "[]" b es] assms that by (simp add: listing_of_def newest_def)
  have lower: "\<exists>ms1 \<ge> ms. bt_get (newest es) h = Some ms1" if "b h = Some (c, ms)" for c ms
    using newest_lower [of "[]" "\<lparr>be_hash = h, be_modified_unix_ms = ms\<rparr>" es] assms that
    by (simp add: listing_of_def newest_def)
  show ?thesis
  proof (cases "b h")
    case None
    with upper show ?thesis by (cases "bt_get (newest es) h") auto
  next
    case (Some p)
    obtain c ms where p: "b h = Some (c, ms)" using Some by (cases p) auto
    then obtain ms1 where "ms \<le> ms1" "bt_get (newest es) h = Some ms1" using lower by blast
    with upper [of ms1] p show ?thesis by auto
  qed
qed

subsection \<open>What a sweep does\<close>

lemma fold_classify:
  "fold (classify live pol) hs rep =
     rep\<lparr>gc_freed := gc_freed rep @
           map fst (filter (\<lambda>(h, ms). h \<notin> set live \<and> old_enough pol h ms) hs),
         gc_retained := gc_retained rep + length (filter (\<lambda>(h, ms). h \<in> set live) hs),
         gc_deferred := gc_deferred rep +
           length (filter (\<lambda>(h, ms). h \<notin> set live \<and> \<not> old_enough pol h ms) hs)\<rparr>"
  by (induction hs arbitrary: rep) (auto simp: classify_def)

lemma bt_card:
  assumes "bt_ok m"
  shows "length (filter P m) = card {k. \<exists>v. bt_get m k = Some v \<and> P (k, v)}"
proof -
  have "{k. \<exists>v. bt_get m k = Some v \<and> P (k, v)} = set (map fst (filter P m))"
    by (auto simp: bt_get_in_set [OF assms] image_iff)
  moreover have "distinct (map fst (filter P m))"
    using bt_ok_distinct [OF bt_ok_filter [OF assms]] .
  ultimately show ?thesis by (metis distinct_card length_map)
qed

text \<open>The blobs a sweep with this mark set and policy may remove.\<close>

definition garbage :: "content_hash set \<Rightarrow> sweep_policy \<Rightarrow> blob_map \<Rightarrow> content_hash set" where
  "garbage live pol b = {h. \<exists>c ms. b h = Some (c, ms) \<and> h \<notin> live \<and> old_enough pol h ms}"

definition swept :: "content_hash set \<Rightarrow> sweep_policy \<Rightarrow> blob_map \<Rightarrow> blob_map" where
  "swept live pol b = (\<lambda>h. if h \<in> garbage live pol b then None else b h)"

definition is_gc_report :: "content_hash set \<Rightarrow> sweep_policy \<Rightarrow> blob_map \<Rightarrow> gc_report \<Rightarrow> bool" where
  "is_gc_report live pol b rep \<longleftrightarrow>
     sorted_wrt (<) (gc_freed rep) \<and> set (gc_freed rep) = garbage live pol b \<and>
     gc_retained rep = card {h \<in> live. b h \<noteq> None} \<and>
     gc_deferred rep = card {h. h \<notin> live \<and> b h \<noteq> None \<and> h \<notin> garbage live pol b}"

lemma classify_report:
  assumes "listing_of b es"
  shows "is_gc_report (set live) pol b
    (fold (classify live pol) (newest es) \<lparr>gc_freed = [], gc_retained = 0, gc_deferred = 0\<rparr>)"
proof -
  note ok = bt_ok_newest [of es]
  have mem: "(h, ms) \<in> set (newest es) \<longleftrightarrow> (\<exists>c. b h = Some (c, ms))" for h ms
    using bt_get_in_set [OF ok, of h ms] newest_listing [OF assms, of h] by auto
  have get: "bt_get (newest es) h = map_option snd (b h)" for h
    by (rule newest_listing [OF assms])
  have "set (map fst (filter (\<lambda>(h, ms). h \<notin> set live \<and> old_enough pol h ms) (newest es)))
      = garbage (set live) pol b"
    by (auto simp: garbage_def mem image_iff)
  moreover have "sorted_wrt (<) (map fst (filter P (newest es)))" for P
    using bt_ok_filter [OF ok] by (simp add: bt_ok_def)
  moreover have "{k. \<exists>v. bt_get (newest es) k = Some v \<and> (case (k, v) of (h, ms) \<Rightarrow> h \<in> set live)}
      = {h \<in> set live. b h \<noteq> None}"
    by (auto simp: get)
  moreover have "{k. \<exists>v. bt_get (newest es) k = Some v \<and>
        (case (k, v) of (h, ms) \<Rightarrow> h \<notin> set live \<and> \<not> old_enough pol h ms)}
      = {h. h \<notin> set live \<and> b h \<noteq> None \<and> h \<notin> garbage (set live) pol b}"
    by (auto simp: get garbage_def)
  ultimately show ?thesis
    by (simp add: is_gc_report_def fold_classify bt_card [OF ok])
qed

context blob_store
begin

lemma delete_blobs_spec:
  assumes "binv s" "\<forall>h \<in> set hs. hv h"
  shows "\<exists>s'. delete_blobs bv hs s = (Inr (), s') \<and> binv s' \<and>
    blobs s' = (\<lambda>h. if h \<in> set hs then None else blobs s h)"
  using assms
proof (induction hs arbitrary: s)
  case (Cons h hs)
  obtain s1 where s1: "bv_delete_blob bv h s = (Inr (), s1)" "binv s1" "blobs s1 = (blobs s)(h := None)"
    using delete_blob [OF Cons.prems(1), of h] Cons.prems(2) by auto
  with Cons.IH [OF s1(2)] Cons.prems(2) show ?case by (auto simp: bindE_def fun_eq_iff)
qed (simp add: retE_def)

lemma sweep_spec:
  assumes "binv s"
  shows "\<exists>rep s'. sweep_blobs_with bv live pol s = (Inr rep, s') \<and> binv s' \<and>
    is_gc_report (set live) pol (blobs s) rep \<and> blobs s' = swept (set live) pol (blobs s)"
proof -
  obtain es where es: "bv_list_blobs bv s = (Inr es, s)" "listing_of (blobs s) es"
    using list_blobs [OF assms] by blast
  define rep where "rep = fold (classify live pol) (newest es)
    \<lparr>gc_freed = [], gc_retained = 0, gc_deferred = 0\<rparr>"
  have rep: "is_gc_report (set live) pol (blobs s) rep"
    unfolding rep_def by (rule classify_report [OF es(2)])
  then have freed: "set (gc_freed rep) = garbage (set live) pol (blobs s)"
    by (simp add: is_gc_report_def)
  then have "\<forall>h \<in> set (gc_freed rep). hv h"
    using stored_hash_valid [OF assms] by (auto simp: garbage_def)
  from delete_blobs_spec [OF assms this] obtain s' where
    "delete_blobs bv (gc_freed rep) s = (Inr (), s')" "binv s'"
    "blobs s' = (\<lambda>h. if h \<in> set (gc_freed rep) then None else blobs s h)" by blast
  with es(1) rep freed show ?thesis
    by (simp add: sweep_blobs_with_def bindE_def retE_def rep_def [symmetric] swept_def Let_def)
qed

end

context full_store
begin

lemma delete_blobs_records:
  "inv s \<Longrightarrow> \<forall>h \<in> set hs. hv h \<Longrightarrow> delete_blobs bv hs s = (r, s') \<Longrightarrow> abs s' = abs s"
proof (induction hs arbitrary: s)
  case (Cons h hs)
  obtain s1 where s1: "bv_delete_blob bv h s = (Inr (), s1)" "inv s1"
    using delete_blob [OF Cons.prems(1), of h] Cons.prems(2) by auto
  with delete_blob_records [OF Cons.prems(1) _ s1(1)] Cons.prems have "abs s1 = abs s" by simp
  with Cons.IH [OF s1(2)] Cons.prems s1(1) show ?case by (simp add: bindE_def)
qed (simp add: retE_def)

lemma sweep_records:
  assumes "inv s" "sweep_blobs_with bv live pol s = (r, s')"
  shows "abs s' = abs s"
proof -
  obtain es where es: "bv_list_blobs bv s = (Inr es, s)" "listing_of (blobs s) es"
    using list_blobs [OF assms(1)] by blast
  define rep where "rep = fold (classify live pol) (newest es)
    \<lparr>gc_freed = [], gc_retained = 0, gc_deferred = 0\<rparr>"
  have "is_gc_report (set live) pol (blobs s) rep"
    unfolding rep_def by (rule classify_report [OF es(2)])
  then have hv: "\<forall>h \<in> set (gc_freed rep). hv h"
    using stored_hash_valid [OF assms(1)] by (auto simp: garbage_def is_gc_report_def)
  obtain s1 where "delete_blobs bv (gc_freed rep) s = (Inr (), s1)"
    using delete_blobs_spec [OF assms(1) hv] by blast
  with delete_blobs_records [OF assms(1) hv] assms(2) es(1) show ?thesis
    by (simp add: sweep_blobs_with_def bindE_def retE_def rep_def [symmetric] Let_def)
qed

lemma read_all_spec:
  "inv s \<Longrightarrow> \<forall>k \<in> set ks. vk k \<Longrightarrow>
     read_all vt ks acc s = (Inr (acc @ concat (map (\<lambda>k. case abs s k of Some r \<Rightarrow> [r] | None \<Rightarrow> []) ks)), s)"
  by (induction ks arbitrary: acc)
    (auto simp: retE_def bindE_def get_raw split: option.splits)

lemma read_store:
  assumes "inv s"
  shows "\<exists>ks rs. vt_list_raw vt kp_default s = (Inr ks, s) \<and> read_all vt ks [] s = (Inr rs, s) \<and>
    set rs = ran (abs s)"
proof -
  obtain ks where ks: "vt_list_raw vt kp_default s = (Inr ks, s)" "set ks = dom (abs s)"
    using list_raw_all [OF assms] by blast
  have "\<forall>k \<in> set ks. vk k" using ks(2) stored_valid [OF assms] by auto
  from read_all_spec [OF assms this, of "[]"] ks show ?thesis
    by (fastforce simp: ran_def dom_def split: option.splits)
qed

lemma gc_spec:
  assumes "inv s" "\<forall>r \<in> ran (abs s). parses gp vp r"
  defines "live \<equiv> (\<Union>r \<in> ran (abs s). references gp vp r)"
  shows "\<exists>rep s'. gc_blobs_with gp vp vt bv pol s = (Inr rep, s') \<and> inv s' \<and> abs s' = abs s \<and>
    is_gc_report live pol (blobs s) rep \<and> blobs s' = swept live pol (blobs s)"
proof -
  obtain ks rs where rs: "vt_list_raw vt kp_default s = (Inr ks, s)"
    "read_all vt ks [] s = (Inr rs, s)" "set rs = ran (abs s)"
    using read_store [OF assms(1)] by blast
  obtain l where l: "live_blob_hashes gp vp rs = Inr l" "set l = live"
    using live_blob_hashes_ok [of rs gp vp] assms(2) rs(3) by (auto simp: live_def)
  obtain rep s' where "sweep_blobs_with bv l pol s = (Inr rep, s')" "inv s'"
    "is_gc_report live pol (blobs s) rep" "blobs s' = swept live pol (blobs s)"
    using sweep_spec [OF assms(1), of l pol] l(2) by auto
  moreover from sweep_records [OF assms(1) this(1)] have "abs s' = abs s" .
  ultimately show ?thesis
    using rs(1,2) l(1) by (simp add: gc_blobs_with_def bindE_def liftE_def)
qed

lemma gc_parse_failure:
  assumes "inv s" "r \<in> ran (abs s)" "\<not> parses gp vp r"
  shows "\<exists>e. gc_blobs_with gp vp vt bv pol s = (Inl (Serde e), s)"
proof -
  obtain ks rs where rs: "vt_list_raw vt kp_default s = (Inr ks, s)"
    "read_all vt ks [] s = (Inr rs, s)" "set rs = ran (abs s)"
    using read_store [OF assms(1)] by blast
  with live_blob_hashes_err [of r rs gp vp] assms(2,3) show ?thesis
    by (auto simp: gc_blobs_with_def bindE_def liftE_def)
qed

end

end
