(* ===== verification/Gz_Undelete.thy ===== *)
theory Gz_Undelete
  imports Gz_GC
begin

text \<open>
  Restoring a record from its tombstone (\<open>undelete.rs\<close>). Only the kinds whose body the tombstone
  retains can come back, and only while every blob that body names is still there; every refusal
  leaves the store as it was. \<open>undelete_spec\<close> gives the record that is written;
  \<open>delete_undelete\<close> (both in \<open>full_store\<close>) is the round trip of a delete and a restore.
\<close>

definition referenced_blobs ::
  "entries_parser \<Rightarrow> vector_parser \<Rightarrow> record_kind \<Rightarrow> rec \<Rightarrow> content_hash list result" where
  "referenced_blobs gp vp kind tomb =
     (case kind of
        VectorManifest \<Rightarrow> vector_values vp (rec_body tomb)
      | GraphManifest \<Rightarrow> graph_values gp (rec_body tomb)
      | _ \<Rightarrow> Inr [])"

primrec missing_blobs ::
  "'s blob_vt \<Rightarrow> content_hash list \<Rightarrow> string list \<Rightarrow> ('s, core_error, string list) io" where
  "missing_blobs bv [] missing = retE missing"
| "missing_blobs bv (h # hs) missing =
     bindE (bv_has_blob bv h) (\<lambda>present.
       missing_blobs bv hs (if present then missing else missing @ [hash_str h]))"

definition restored_record :: "blake3 \<Rightarrow> record_key \<Rightarrow> record_kind \<Rightarrow> rec \<Rightarrow> int \<Rightarrow> identity option \<Rightarrow> rec" where
  "restored_record H k kind tomb now au =
     (let meta0 = (case au of Some a \<Rightarrow> (rec_meta tomb)\<lparr>author := a\<rparr> | None \<Rightarrow> rec_meta tomb)
      in \<lparr>rec_key = k, rec_kind = kind,
          rec_revision = Revision (counter (rec_revision tomb) + 1)
            (content_hash_of H (body_bytes (rec_body tomb))),
          rec_parent = Some (rec_revision tomb), rec_body = rec_body tomb,
          rec_meta = meta0\<lparr>updated := now\<rparr>, rec_links = [], rec_ancestors = [],
          rec_deleted_at = None, rec_deleted_blob = None, rec_deleted_kind = None\<rparr>)"

definition undelete ::
  "blake3 \<Rightarrow> entries_parser \<Rightarrow> vector_parser \<Rightarrow> 's store_vt \<Rightarrow> 's blob_vt \<Rightarrow> record_key \<Rightarrow> int \<Rightarrow>
   identity option \<Rightarrow> ('s, core_error, revision) io" where
  "undelete H gp vp vt bv k now au =
     bindE (vt_get_raw vt k) (\<lambda>cur.
       case cur of
         None \<Rightarrow> throwE (NotFound k)
       | Some tomb \<Rightarrow>
           if \<not> is_tombstone tomb then
             throwE (Invalid (key_display k @ '' is live at revision '' @
               show_nat (unat (counter (rec_revision tomb))) @ ''; there is nothing to restore''))
           else
             (case rec_deleted_kind tomb of
                None \<Rightarrow> throwE (Invalid (key_display k @
                  '': the deleted body was not retained, so it cannot be restored. '' @
                  ''Only manifest kinds retain a body (ADR 0029).''))
              | Some kind \<Rightarrow>
                  bindE (liftE (referenced_blobs gp vp kind tomb)) (\<lambda>hs.
                  bindE (missing_blobs bv hs []) (\<lambda>missing.
                  if missing \<noteq> [] then
                    throwE (Invalid (key_display k @ '': cannot restore, '' @
                      show_nat (length missing) @ '' blob(s) the retained body names are gone: '' @
                      join '', '' missing))
                  else
                    bindE (vt_put_raw vt (restored_record H k kind tomb now au)
                        (Some (rec_revision tomb))) (\<lambda>res.
                      case res of
                        Committed rv \<Rightarrow> retE rv
                      | PutConflict c \<Rightarrow>
                          throwE (Invalid (key_display k @ '': the key changed while restoring (now revision '' @
                            show_nat (unat (counter (rec_revision (conf_current c)))) @
                            ''); nothing was written'')))))))"

context full_store
begin

lemma missing_blobs_spec:
  "inv s \<Longrightarrow> \<forall>h \<in> set hs. hv h \<Longrightarrow>
     missing_blobs bv hs acc s = (Inr (acc @ map hash_str (filter (\<lambda>h. blobs s h = None) hs)), s)"
  by (induction hs arbitrary: acc) (auto simp: retE_def bindE_def has_blob)

text \<open>Every outcome of a restore, by what is stored at the key.\<close>

lemma undelete_refused:
  assumes "inv s" "vk k"
    "abs s k = None \<or> (\<exists>r. abs s k = Some r \<and> (\<not> is_tombstone r \<or> rec_deleted_kind r = None))"
  shows "\<exists>e. undelete H gp vp vt bv k t au s = (Inl e, s)"
  using assms by (auto simp: undelete_def bindE_def get_raw throwE_def)

lemma undelete_missing:
  assumes "inv s" "abs s k = Some tomb" "is_tombstone tomb" "rec_deleted_kind tomb = Some kind"
    "referenced_blobs gp vp kind tomb = Inr hs" "\<forall>h \<in> set hs. hv h" "h \<in> set hs" "blobs s h = None"
  shows "\<exists>e. undelete H gp vp vt bv k t au s = (Inl (Invalid e), s)"
proof -
  have "filter (\<lambda>h. blobs s h = None) hs \<noteq> []" using assms(7,8) by (metis (mono_tags, lifting) filter_empty_conv)
  with missing_blobs_spec [OF assms(1,6), of "[]"] get_raw [OF assms(1) stored_valid [OF assms(1,2)]] assms
  show ?thesis by (simp add: undelete_def bindE_def liftE_def throwE_def)
qed

lemma undelete_spec:
  assumes "inv s" "abs s k = Some tomb" "is_tombstone tomb" "rec_deleted_kind tomb = Some kind"
    "referenced_blobs gp vp kind tomb = Inr hs" "\<forall>h \<in> set hs. hv h \<and> blobs s h \<noteq> None"
    "r = restored_record H k kind tomb t au"
  shows "\<exists>s'. undelete H gp vp vt bv k t au s = (Inr (rec_revision r), s') \<and> inv s' \<and>
    abs s' = (abs s)(k \<mapsto> with_folded (Some tomb) cap r) \<and> blobs s' = blobs s"
proof -
  have hv: "\<forall>h \<in> set hs. hv h" and "filter (\<lambda>h. blobs s h = None) hs = []"
    using assms(6) by (auto simp: filter_empty_conv)
  then have miss: "missing_blobs bv hs [] s = (Inr [], s)"
    using missing_blobs_spec [OF assms(1) hv, of "[]"] by simp
  note vk = stored_valid [OF assms(1,2)]
  have key: "rec_key r = k" by (simp add: assms(7) restored_record_def Let_def)
  obtain s' where s': "vt_put_raw vt r (Some (rec_revision tomb)) s = (Inr (Committed (rec_revision r)), s')"
    "inv s'" "abs s' = (abs s)(k \<mapsto> with_folded (Some tomb) cap r)"
    using put_raw_over [OF assms(1), of r tomb] assms(2) key by auto
  then have "blobs s' = blobs s" using put_raw_blobs [OF assms(1) _ s'(1)] vk key by simp
  with s' miss get_raw [OF assms(1) vk] assms(2-5) show ?thesis
    by (simp add: undelete_def bindE_def liftE_def retE_def assms(7))
qed

text \<open>
  Delete a manifest, then restore it: the body, the kind, the creation time and the labels are what
  they were, and the revision is two ahead, so the restore wins over the delete on every peer.
\<close>

lemma delete_undelete:
  assumes "inv s" "abs s k = Some r" "\<not> is_tombstone r" "retains_body (rec_kind r)"
    "referenced_blobs gp vp (rec_kind r) r = Inr hs" "\<forall>h \<in> set hs. hv h \<and> blobs s h \<noteq> None"
  shows "\<exists>s1 rv s2 r2. vt_delete_as vt k None au s = (Inr Deleted, s1) \<and>
    live_only (abs s1 k) = None \<and>
    undelete H gp vp vt bv k t None s1 = (Inr rv, s2) \<and> inv s2 \<and>
    abs s2 = (abs s)(k \<mapsto> r2) \<and> rec_revision r2 = rv \<and> \<not> is_tombstone r2 \<and>
    rec_body r2 = rec_body r \<and> rec_kind r2 = rec_kind r \<and>
    created (rec_meta r2) = created (rec_meta r) \<and> labels (rec_meta r2) = labels (rec_meta r) \<and>
    counter rv = counter (rec_revision r) + 2 \<and> blobs s2 = blobs s"
proof -
  let ?tomb = "tombstone_of H r (now s) cap au"
  obtain s1 where s1: "vt_delete_as vt k None au s = (Inr Deleted, s1)" "inv s1"
    "abs s1 = (abs s)(k \<mapsto> ?tomb)"
    using delete_live [OF assms(1-3)] by blast
  have bl: "blobs s1 = blobs s"
    using delete_as_blobs [OF assms(1) stored_valid [OF assms(1,2)] s1(1)] .
  have "rec_body ?tomb = rec_body r" "rec_deleted_kind ?tomb = Some (rec_kind r)"
    using assms(4) by (simp_all add: tombstone_of_def Let_def)
  then have "referenced_blobs gp vp (rec_kind r) ?tomb = Inr hs"
    using assms(5) by (simp add: referenced_blobs_def cong: record_kind.case_cong)
  from undelete_spec [OF s1(2) _ _ _ this _ refl, of k t None] s1 bl assms(6)
    \<open>rec_deleted_kind ?tomb = Some (rec_kind r)\<close>
  obtain s2 where s2: "undelete H gp vp vt bv k t None s1 =
      (Inr (rec_revision (restored_record H k (rec_kind r) ?tomb t None)), s2)" "inv s2"
    "abs s2 = (abs s)(k \<mapsto> with_folded (Some ?tomb) cap (restored_record H k (rec_kind r) ?tomb t None))"
    "blobs s2 = blobs s"
    by auto
  let ?r2 = "with_folded (Some ?tomb) cap (restored_record H k (rec_kind r) ?tomb t None)"
  have "rec_body ?r2 = rec_body r" "rec_kind ?r2 = rec_kind r" "\<not> is_tombstone ?r2"
    "created (rec_meta ?r2) = created (rec_meta r)" "labels (rec_meta ?r2) = labels (rec_meta r)"
    "counter (rec_revision ?r2) = counter (rec_revision r) + 2"
    using assms(3,4) \<open>rec_body ?tomb = rec_body r\<close>
    by (simp_all add: restored_record_def Let_def is_tombstone_def tombstone_of_def split: option.splits)
  with s1 s2 show ?thesis by (auto simp: live_only_def)
qed

end

end
