(* ===== verification/Gz_Ancestry.thy ===== *)
theory Gz_Ancestry
  imports Gz_Blobs
begin

text \<open>
  The ancestry decorator (\<open>ancestry.rs\<close>): a record store whose committed bodies are also kept in a
  blob store, so that a later divergence finds its merge base. The decorated store meets the same
  contract as the one it wraps (a \<open>sublocale\<close>), and every body it commits is retained.
\<close>

definition on_inner :: "('s, 'e, 'a) io \<Rightarrow> ('s \<times> 'b, 'e, 'a) io" where
  "on_inner m sb = (case m (fst sb) of (r, s') \<Rightarrow> (r, (s', snd sb)))"

definition on_ancestry :: "('b, 'e, 'a) io \<Rightarrow> ('s \<times> 'b, 'e, 'a) io" where
  "on_ancestry m sb = (case m (snd sb) of (r, b') \<Rightarrow> (r, (fst sb, b')))"

text \<open>\<open>put\<close> and \<open>put_raw\<close>: carry the write out, then retain the body if it committed.\<close>

definition retaining ::
  "(rec \<Rightarrow> revision option \<Rightarrow> ('s, core_error, put_result) io) \<Rightarrow> 'b blob_vt \<Rightarrow> rec \<Rightarrow> revision option \<Rightarrow>
   ('s \<times> 'b, core_error, put_result) io" where
  "retaining inner_put bv r ex =
     (let body_bytes = body_bytes (rec_body r) in
      bindE (on_inner (inner_put r ex)) (\<lambda>outcome.
        case outcome of
          Committed _ \<Rightarrow> bindE (on_ancestry (bv_put_blob bv body_bytes)) (\<lambda>_. retE outcome)
        | PutConflict _ \<Rightarrow> retE outcome))"

definition ancestry_vt :: "'s store_vt \<Rightarrow> 'b blob_vt \<Rightarrow> ('s \<times> 'b) store_vt" where
  "ancestry_vt vt bv =
     \<lparr>vt_get = (\<lambda>k. on_inner (vt_get vt k)),
      vt_put = retaining (vt_put vt) bv,
      vt_list = (\<lambda>p. on_inner (vt_list vt p)),
      vt_delete_as = (\<lambda>k ex au. on_inner (vt_delete_as vt k ex au)),
      vt_get_raw = (\<lambda>k. on_inner (vt_get_raw vt k)),
      vt_list_raw = (\<lambda>p. on_inner (vt_list_raw vt p)),
      vt_put_raw = retaining (vt_put_raw vt) bv,
      vt_purge = (\<lambda>k rv. on_inner (vt_purge vt k rv))\<rparr>"

lemma on_inner_eq [simp]: "on_inner m (s, b) = (r, t) \<longleftrightarrow> (\<exists>s'. m s = (r, s') \<and> t = (s', b))"
  by (auto simp: on_inner_def split: prod.splits)

locale ancestry_pair =
  planned_store H cap vk vt abs inv now + blob_store H bv blobs binv hv
  for H :: blake3 and cap :: nat and vk :: "record_key \<Rightarrow> bool" and vt :: "'s store_vt"
    and abs :: "'s \<Rightarrow> store_map" and inv :: "'s \<Rightarrow> bool" and now :: "'s \<Rightarrow> int"
    and bv :: "'b blob_vt" and blobs :: "'b \<Rightarrow> blob_map" and binv :: "'b \<Rightarrow> bool"
    and hv :: "content_hash \<Rightarrow> bool"
begin

definition pinv :: "'s \<times> 'b \<Rightarrow> bool" where
  "pinv sb \<longleftrightarrow> inv (fst sb) \<and> binv (snd sb)"

lemma retaining_spec:
  assumes "binv b" "retaining inner_put bv r ex (s, b) = (res, t)"
  shows "\<exists>s' b'. t = (s', b') \<and> inner_put r ex s = (res, s') \<and> binv b' \<and>
    (case res of
       Inr (Committed _) \<Rightarrow>
         blobs b' (content_hash_of H (body_bytes (rec_body r))) \<noteq> None \<and>
         (\<forall>h. blobs b h \<noteq> None \<longrightarrow> blobs b' h \<noteq> None)
     | _ \<Rightarrow> b' = b)"
proof -
  obtain r0 s0 where run: "inner_put r ex s = (r0, s0)" by (cases "inner_put r ex s")
  obtain b1 c' ms where b1: "bv_put_blob bv (body_bytes (rec_body r)) b =
      (Inr (content_hash_of H (body_bytes (rec_body r))), b1)" "binv b1"
    "blobs b1 = (blobs b)(content_hash_of H (body_bytes (rec_body r)) \<mapsto> (c', ms))"
    using put_blob [OF assms(1)] by blast
  from assms run b1 show ?thesis
    by (auto simp: retaining_def Let_def bindE_def on_inner_def on_ancestry_def retE_def
        split: sum.splits put_result.splits)
qed

end

sublocale ancestry_pair \<subseteq> anc: planned_store H cap vk "ancestry_vt vt bv" "\<lambda>sb. abs (fst sb)" pinv
  "\<lambda>sb. now (fst sb)"
proof (unfold_locales, goal_cases)
  case (1 s k)
  then show ?case by (auto simp: ancestry_vt_def on_inner_def pinv_def get_raw)
next
  case (2 s k)
  then show ?case by (auto simp: ancestry_vt_def on_inner_def pinv_def get)
next
  case (3 s p)
  then have "inv (fst s)" by (simp add: pinv_def)
  from list_raw [OF this, of p] show ?case by (auto simp: ancestry_vt_def on_inner_def)
next
  case (4 s p)
  then have "inv (fst s)" by (simp add: pinv_def)
  from list [OF this, of p] show ?case using 4 by (auto simp: ancestry_vt_def on_inner_def pinv_def)
next
  case (5 s r ex res s')
  obtain s0 b0 where s: "s = (s0, b0)" by (cases s)
  obtain s1 b1 where r: "s' = (s1, b1)" "vt_put vt r ex s0 = (res, s1)" "binv b1"
    using retaining_spec [of b0 "vt_put vt" r ex s0 res s'] 5 s
    by (auto simp: ancestry_vt_def pinv_def)
  then show ?case using put [of s0 r ex res s1] 5 s by (simp add: pinv_def)
next
  case (6 s r ex res s')
  obtain s0 b0 where s: "s = (s0, b0)" by (cases s)
  obtain s1 b1 where r: "s' = (s1, b1)" "vt_put_raw vt r ex s0 = (res, s1)" "binv b1"
    using retaining_spec [of b0 "vt_put_raw vt" r ex s0 res s'] 6 s
    by (auto simp: ancestry_vt_def pinv_def)
  then show ?case using put_raw [of s0 r ex res s1] 6 s by (simp add: pinv_def)
next
  case (7 s k ex au dres s')
  obtain s0 b0 where s: "s = (s0, b0)" by (cases s)
  then obtain s1 where "vt_delete_as vt k ex au s0 = (dres, s1)" "s' = (s1, b0)"
    using 7 by (auto simp: ancestry_vt_def)
  then show ?case using delete_as [of s0 k ex au dres s1] 7 s by (simp add: pinv_def)
next
  case (8 s k rv dres s')
  obtain s0 b0 where s: "s = (s0, b0)" by (cases s)
  then obtain s1 where "vt_purge vt k rv s0 = (dres, s1)" "s' = (s1, b0)"
    using 8 by (auto simp: ancestry_vt_def)
  then show ?case using purge [of s0 k rv dres s1] 8 s by (simp add: pinv_def)
next
  case (9 s k r)
  then show ?case by (auto simp: pinv_def intro: stored_key)
next
  case (10 s k r)
  then show ?case by (auto simp: pinv_def intro: stored_valid)
next
  case (11 s)
  then show ?case by (simp add: pinv_def finite_keys)
qed

context ancestry_pair
begin

text \<open>
  A body committed through the decorator can be fetched back by its content hash, which is the
  hash of its revision: the merge base of any divergence after this write is there.
\<close>

lemma committed_body_retained:
  assumes "pinv t" "unique_preimage H (body_bytes (rec_body r))"
    "vt_put (ancestry_vt vt bv) r ex t = (Inr (Committed rv), t')"
  shows "bv_get_blob bv (content_hash_of H (body_bytes (rec_body r))) (snd t') =
    (Inr (Some (body_bytes (rec_body r))), snd t')"
proof -
  obtain s b where t: "t = (s, b)" by (cases t)
  let ?h = "content_hash_of H (body_bytes (rec_body r))"
  obtain s' b' where t': "t' = (s', b')" "binv b'" "blobs b' ?h \<noteq> None"
    using retaining_spec [of b "vt_put vt" r ex s "Inr (Committed rv)" t'] assms t
    by (auto simp: ancestry_vt_def pinv_def)
  then obtain c ms where c: "blobs b' ?h = Some (c, ms)" by auto
  then have "content_hash_of H c = ?h" using content t'(2) by blast
  then have "c = body_bytes (rec_body r)" using assms(2) by (simp add: content_hash_of_def unique_preimage_def)
  with get_blob [OF t'(2) hash_valid, of "body_bytes (rec_body r)"] c t' show ?thesis by simp
qed

end

end
