(* ===== verification/Gz_MemStore.thy ===== *)
theory Gz_MemStore
  imports Gz_Store
begin

text \<open>
  The reference store (\<open>memstore.rs\<close>). The mutex makes each call one atomic step on the map, so a
  call is a state transformer; the reading of the system clock that \<open>now\<close> falls back to is a
  field of the state, which the environment may change between calls. The store meets the
  contract \<open>planned_store\<close>, and every state it can reach keeps its ancestor lists well formed.
\<close>

record memstore =
  ms_records :: "(record_key, rec) btree"
  ms_cap :: nat
  ms_clock :: "int option"
  ms_wall :: system_time

definition mem_new :: "system_time \<Rightarrow> memstore" where
  "mem_new t = \<lparr>ms_records = [], ms_cap = DEFAULT_ANCESTOR_CAP, ms_clock = None, ms_wall = t\<rparr>"

text \<open>\<open>None\<close> is the panic on a cap of zero.\<close>

definition mem_with_ancestor_cap :: "nat \<Rightarrow> memstore \<Rightarrow> memstore option" where
  "mem_with_ancestor_cap c s =
     (case validate_ancestor_cap c of Inl _ \<Rightarrow> None | Inr n \<Rightarrow> Some (s\<lparr>ms_cap := n\<rparr>))"

definition mem_with_clock :: "int \<Rightarrow> memstore \<Rightarrow> memstore" where
  "mem_with_clock t s = s\<lparr>ms_clock := Some t\<rparr>"

definition mem_now :: "memstore \<Rightarrow> int" where
  "mem_now s = (case ms_clock s of Some t \<Rightarrow> t | None \<Rightarrow> now_ms (ms_wall s))"

type_synonym put_planner = "rec option \<Rightarrow> rec \<Rightarrow> revision option \<Rightarrow> int \<Rightarrow> nat \<Rightarrow> put_plan"

definition mem_write ::
  "put_planner \<Rightarrow> rec \<Rightarrow> revision option \<Rightarrow> (memstore, core_error, put_result) io" where
  "mem_write plan r expected s =
     (let k = rec_key r in
      case plan (bt_get (ms_records s) k) r expected (mem_now s) (ms_cap s) of
        PutWrite stored \<Rightarrow>
          (Inr (Committed (rec_revision stored)),
           s\<lparr>ms_records := bt_insert k stored (ms_records s)\<rparr>)
      | PutPlanConflict c \<Rightarrow> (Inr (PutConflict c), s)
      | PutNotFound \<Rightarrow> (Inl (NotFound k), s)
      | PutRejected reason \<Rightarrow> (Inl (Invalid reason), s))"

definition mem_get :: "record_key \<Rightarrow> (memstore, core_error, rec option) io" where
  "mem_get k s = (Inr (live_only (bt_get (ms_records s) k)), s)"

definition mem_put :: "blake3 \<Rightarrow> rec \<Rightarrow> revision option \<Rightarrow> (memstore, core_error, put_result) io" where
  "mem_put H r expected = mem_write (plan_put H) r expected"

definition mem_list :: "key_prefix \<Rightarrow> (memstore, core_error, record_key list) io" where
  "mem_list p s =
     (Inr (map rec_key (filter (\<lambda>r. \<not> is_tombstone r \<and> kp_matches p (rec_key r))
        (map snd (ms_records s)))), s)"

definition mem_delete_as ::
  "blake3 \<Rightarrow> record_key \<Rightarrow> revision option \<Rightarrow> identity option \<Rightarrow>
   (memstore, core_error, delete_result) io" where
  "mem_delete_as H k expected au s =
     (case plan_delete H (bt_get (ms_records s) k) expected (mem_now s) (ms_cap s) au of
        DelWrite tomb \<Rightarrow> (Inr Deleted, s\<lparr>ms_records := bt_insert k tomb (ms_records s)\<rparr>)
      | DelNoop \<Rightarrow> (Inr Deleted, s)
      | DelPlanConflict c \<Rightarrow> (Inr (DeleteConflict c), s))"

definition mem_get_raw :: "record_key \<Rightarrow> (memstore, core_error, rec option) io" where
  "mem_get_raw k s = (Inr (bt_get (ms_records s) k), s)"

definition mem_list_raw :: "key_prefix \<Rightarrow> (memstore, core_error, record_key list) io" where
  "mem_list_raw p s = (Inr (filter (kp_matches p) (map fst (ms_records s))), s)"

definition mem_put_raw :: "rec \<Rightarrow> revision option \<Rightarrow> (memstore, core_error, put_result) io" where
  "mem_put_raw r expected = mem_write plan_put_raw r expected"

definition mem_purge :: "record_key \<Rightarrow> revision \<Rightarrow> (memstore, core_error, delete_result) io" where
  "mem_purge k expected s =
     (case plan_purge (bt_get (ms_records s) k) expected of
        PurgeRemove \<Rightarrow> (Inr Deleted, s\<lparr>ms_records := bt_remove k (ms_records s)\<rparr>)
      | PurgeNoop \<Rightarrow> (Inr Deleted, s)
      | PurgePlanConflict c \<Rightarrow> (Inr (DeleteConflict c), s))"

definition mem_vt :: "blake3 \<Rightarrow> memstore store_vt" where
  "mem_vt H =
     \<lparr>vt_get = mem_get, vt_put = mem_put H, vt_list = mem_list, vt_delete_as = mem_delete_as H,
      vt_get_raw = mem_get_raw, vt_list_raw = mem_list_raw, vt_put_raw = mem_put_raw,
      vt_purge = mem_purge\<rparr>"

subsection \<open>The contract holds\<close>

definition mem_abs :: "memstore \<Rightarrow> store_map" where
  "mem_abs s = bt_get (ms_records s)"

definition mem_inv :: "nat \<Rightarrow> memstore \<Rightarrow> bool" where
  "mem_inv c s \<longleftrightarrow>
     bt_ok (ms_records s) \<and> (\<forall>(k, r) \<in> set (ms_records s). rec_key r = k) \<and> ms_cap s = c"

lemma mem_inv_key: "mem_inv c s \<Longrightarrow> bt_get (ms_records s) k = Some r \<Longrightarrow> rec_key r = k"
  by (auto simp: mem_inv_def dest!: map_of_SomeD)

lemma set_bt_insert_subset: "set (bt_insert k v m) \<subseteq> insert (k, v) (set m)"
  by (induction k v m rule: bt_insert.induct) auto

lemma mem_inv_insert:
  "mem_inv c s \<Longrightarrow> rec_key r = k \<Longrightarrow> mem_inv c (s\<lparr>ms_records := bt_insert k r (ms_records s)\<rparr>)"
  using set_bt_insert_subset [of k r "ms_records s"] by (fastforce simp: mem_inv_def)

lemma mem_inv_remove: "mem_inv c s \<Longrightarrow> mem_inv c (s\<lparr>ms_records := bt_remove k (ms_records s)\<rparr>)"
  by (auto simp: mem_inv_def) (auto simp: bt_remove_def)

lemma mem_write_correct:
  assumes inv: "mem_inv c s" and run: "mem_write plan r ex s = (res, s')"
    and key: "\<And>r'. plan (mem_abs s (rec_key r)) r ex (mem_now s) c = PutWrite r' \<Longrightarrow>
      rec_key r' = rec_key r"
  shows "mem_inv c s' \<and>
    res = put_outcome (rec_key r) (plan (mem_abs s (rec_key r)) r ex (mem_now s) c) \<and>
    mem_abs s' = put_effect (rec_key r) (plan (mem_abs s (rec_key r)) r ex (mem_now s) c) (mem_abs s)"
proof -
  have cap: "ms_cap s = c" and ok: "bt_ok (ms_records s)" using inv by (auto simp: mem_inv_def)
  define pl where "pl = plan (mem_abs s (rec_key r)) r ex (mem_now s) c"
  have run': "(res, s') = (case pl of
        PutWrite stored \<Rightarrow>
          (Inr (Committed (rec_revision stored)),
           s\<lparr>ms_records := bt_insert (rec_key r) stored (ms_records s)\<rparr>)
      | PutPlanConflict c \<Rightarrow> (Inr (PutConflict c), s)
      | PutNotFound \<Rightarrow> (Inl (NotFound (rec_key r)), s)
      | PutRejected reason \<Rightarrow> (Inl (Invalid reason), s))"
    using run by (simp add: mem_write_def Let_def pl_def mem_abs_def cap)
  show ?thesis
    unfolding pl_def [symmetric]
  proof (cases pl)
    case (PutWrite stored)
    then have "rec_key stored = rec_key r" using key by (simp add: pl_def)
    with PutWrite run' inv ok show "mem_inv c s' \<and> res = put_outcome (rec_key r) pl \<and>
        mem_abs s' = put_effect (rec_key r) pl (mem_abs s)"
      by (simp add: mem_inv_insert mem_abs_def)
  qed (use run' inv in simp_all)
qed

interpretation mem: planned_store H c "\<lambda>_. True" "mem_vt H" mem_abs "mem_inv c" mem_now for H c
proof (unfold_locales, goal_cases)
  case (1 s k)
  then show ?case by (simp add: mem_vt_def mem_get_raw_def mem_abs_def)
next
  case (2 s k)
  then show ?case by (simp add: mem_vt_def mem_get_def mem_abs_def)
next
  case (3 s p)
  then have "distinct (map fst (ms_records s))"
    by (simp add: mem_inv_def bt_ok_distinct)
  moreover have "fst ` set (ms_records s) = {k. mem_abs s k \<noteq> None}"
    by (auto simp: mem_abs_def map_of_eq_None_iff)
  ultimately show ?case
    by (auto simp: mem_vt_def mem_list_raw_def)
next
  case (4 s p)
  let ?l = "filter (\<lambda>r. \<not> is_tombstone r \<and> kp_matches p (rec_key r)) (map snd (ms_records s))"
  have keys: "map rec_key (map snd (ms_records s)) = map fst (ms_records s)"
    using 4 by (auto simp: mem_inv_def)
  then have "distinct (map rec_key (map snd (ms_records s)))"
    unfolding keys using 4 by (simp add: mem_inv_def bt_ok_distinct)
  then have "distinct (map rec_key ?l)"
    by (rule distinct_map_filter)
  moreover have "rec_key r = k \<Longrightarrow> r \<in> snd ` set (ms_records s) \<Longrightarrow> mem_abs s k = Some r" for k r
    using 4 by (auto simp: mem_inv_def mem_abs_def bt_get_in_set)
  then have "set (map rec_key ?l) = {k. live_only (mem_abs s k) \<noteq> None \<and> kp_matches p k}"
    using 4 by (force simp: live_only_eq_Some mem_abs_def dest: mem_inv_key map_of_SomeD)
  ultimately show ?case using 4 by (auto simp: mem_vt_def mem_list_def)
next
  case (5 s r ex res s')
  then show ?case
    using mem_write_correct [of c s "plan_put H" r ex res s']
    by (simp add: mem_vt_def mem_put_def plan_put_key)
next
  case (6 s r ex res s')
  then show ?case
    using mem_write_correct [of c s plan_put_raw r ex res s']
    by (simp add: mem_vt_def mem_put_raw_def plan_put_raw_key)
next
  case (7 s k ex au dres s')
  have cap: "ms_cap s = c" and ok: "bt_ok (ms_records s)" using 7 by (auto simp: mem_inv_def)
  have "rec_key r = k" if "plan_delete H (mem_abs s k) ex (mem_now s) c au = DelWrite r" for r
    using that 7(1) mem_inv_key [of c s k]
    by (cases "mem_abs s k") (auto simp: mem_abs_def plan_delete_def split: if_splits)
  with 7 cap ok show ?case
    by (cases "plan_delete H (mem_abs s k) ex (mem_now s) c au")
      (auto simp: mem_vt_def mem_delete_as_def mem_abs_def mem_inv_insert)
next
  case (8 s k rv dres s')
  have ok: "bt_ok (ms_records s)" using 8 by (auto simp: mem_inv_def)
  with 8 show ?case
    by (cases "plan_purge (mem_abs s k) rv")
      (auto simp: mem_vt_def mem_purge_def mem_abs_def mem_inv_remove)
next
  case (9 s k r)
  then show ?case by (simp add: mem_abs_def mem_inv_key)
next
  case (11 s)
  then show ?case by (simp add: mem_abs_def finite_dom_map_of)
qed simp_all

subsection \<open>Reachable states\<close>

text \<open>
  One step of the store: any call, by anybody, or the system clock moving. The ancestor lists of
  every reachable state are strictly descending, no longer than the cap, and never contain the
  record's own revision; this is what makes \<open>relate\<close> in sync read them as a history.
\<close>

inductive mem_step :: "blake3 \<Rightarrow> memstore \<Rightarrow> memstore \<Rightarrow> bool" for H where
  step_put: "mem_step H s (snd (mem_put H r ex s))"
| step_put_raw: "mem_step H s (snd (mem_put_raw r ex s))"
| step_delete: "mem_step H s (snd (mem_delete_as H k ex au s))"
| step_purge: "mem_step H s (snd (mem_purge k rv s))"
| step_tick: "mem_step H s (s\<lparr>ms_wall := t\<rparr>)"

inductive mem_reachable :: "blake3 \<Rightarrow> nat \<Rightarrow> memstore \<Rightarrow> bool" for H c where
  reach_new: "ms_records s = [] \<Longrightarrow> ms_cap s = c \<Longrightarrow> mem_reachable H c s"
| reach_step: "mem_reachable H c s \<Longrightarrow> mem_step H s s' \<Longrightarrow> mem_reachable H c s'"

inductive_cases mem_stepE: "mem_step H s s'"

definition chain_ok :: "nat \<Rightarrow> rec \<Rightarrow> bool" where
  "chain_ok c r \<longleftrightarrow> sorted_wrt (>) (rec_ancestors r) \<and> length (rec_ancestors r) \<le> c \<and>
     rec_revision r \<notin> set (rec_ancestors r)"

lemma chain_ok_with_folded [simp]: "chain_ok c (with_folded cur c r)"
  using fold_ancestors_sorted fold_ancestors_length fold_ancestors_not_stored
  by (simp add: chain_ok_def with_folded_def)

lemma chain_ok_tombstone_of [simp]: "chain_ok c (tombstone_of H r t c au)"
  using fold_ancestors_sorted fold_ancestors_length fold_ancestors_not_stored
  by (simp add: chain_ok_def tombstone_of_def Let_def)

lemma plan_put_chain: "plan_put H cur r ex t c = PutWrite r' \<Longrightarrow> chain_ok c r'"
  by (auto simp: plan_put_def recreated_def split: if_splits option.splits)

lemma plan_put_raw_chain: "plan_put_raw cur r ex t c = PutWrite r' \<Longrightarrow> chain_ok c r'"
  by (auto simp: plan_put_raw_def split: if_splits option.splits)

lemma plan_delete_chain: "plan_delete H cur ex t c au = DelWrite r' \<Longrightarrow> chain_ok c r'"
  by (auto simp: plan_delete_def split: if_splits option.splits)

definition chains_ok :: "nat \<Rightarrow> store_map \<Rightarrow> bool" where
  "chains_ok c m \<longleftrightarrow> (\<forall>k r. m k = Some r \<longrightarrow> chain_ok c r)"

lemma chains_ok_put_effect:
  "chains_ok c m \<Longrightarrow> (\<And>r. pl = PutWrite r \<Longrightarrow> chain_ok c r) \<Longrightarrow> chains_ok c (put_effect k pl m)"
  by (cases pl) (auto simp: chains_ok_def)

lemma chains_ok_delete_effect:
  "chains_ok c m \<Longrightarrow> (\<And>r. pl = DelWrite r \<Longrightarrow> chain_ok c r) \<Longrightarrow> chains_ok c (delete_effect k pl m)"
  by (cases pl) (auto simp: chains_ok_def)

lemma chains_ok_purge_effect: "chains_ok c m \<Longrightarrow> chains_ok c (purge_effect k pl m)"
  by (cases pl) (auto simp: chains_ok_def)

lemma mem_step_inv:
  assumes "mem_step H s s'" "mem_inv c s" "chains_ok c (mem_abs s)"
  shows "mem_inv c s' \<and> chains_ok c (mem_abs s')"
  using assms(1)
proof (rule mem_stepE)
  fix r ex assume s': "s' = snd (mem_put H r ex s)"
  then have "vt_put (mem_vt H) r ex s = (fst (mem_put H r ex s), s')" by (simp add: mem_vt_def)
  from mem.put [OF assms(2) TrueI this] assms(3) show ?thesis
    by (auto intro!: chains_ok_put_effect dest: plan_put_chain)
next
  fix r ex assume s': "s' = snd (mem_put_raw r ex s)"
  then have "vt_put_raw (mem_vt H) r ex s = (fst (mem_put_raw r ex s), s')" by (simp add: mem_vt_def)
  from mem.put_raw [OF assms(2) TrueI this] assms(3) show ?thesis
    by (auto intro!: chains_ok_put_effect dest: plan_put_raw_chain)
next
  fix k ex au assume s': "s' = snd (mem_delete_as H k ex au s)"
  then have "vt_delete_as (mem_vt H) k ex au s = (fst (mem_delete_as H k ex au s), s')"
    by (simp add: mem_vt_def)
  from mem.delete_as [OF assms(2) TrueI this] assms(3) show ?thesis
    by (auto intro!: chains_ok_delete_effect dest: plan_delete_chain)
next
  fix k rv assume s': "s' = snd (mem_purge k rv s)"
  then have "vt_purge (mem_vt H) k rv s = (fst (mem_purge k rv s), s')" by (simp add: mem_vt_def)
  from mem.purge [OF assms(2) TrueI this] assms(3) show ?thesis
    by (auto intro!: chains_ok_purge_effect)
next
  fix t assume "s' = s\<lparr>ms_wall := t\<rparr>"
  with assms(2,3) show ?thesis by (simp add: mem_inv_def mem_abs_def)
qed

lemma mem_reachable_inv:
  "mem_reachable H c s \<Longrightarrow> mem_inv c s \<and> chains_ok c (mem_abs s)"
proof (induction rule: mem_reachable.induct)
  case (reach_new s)
  then show ?case by (simp add: mem_inv_def chains_ok_def mem_abs_def)
next
  case (reach_step s s')
  then show ?case by (blast dest: mem_step_inv)
qed

end
