(* ===== verification/Gz_FsSubstrate.thy ===== *)
theory Gz_FsSubstrate
  imports Gz_FsListing Gz_Undelete Gz_Ancestry Gz_MemStore
begin

text \<open>
  The blob half of the filesystem store, and the contracts it meets: \<open>planned_store\<close> and
  \<open>full_store\<close> as sublocales of \<open>fs_substrate\<close>. The last part gives a concrete record codec and a
  concrete digest, so that the assumptions on third-party code are known to hold together, and
  interprets the locales there.
\<close>

subsection \<open>Blobs\<close>

lemma fs_nonce_irrelevant [simp]:
  "fs_inv H C root (s\<lparr>dk_nonce := n\<rparr>) = fs_inv H C root s"
  "fs_abs C root (s\<lparr>dk_nonce := n\<rparr>) = fs_abs C root s"
  "fs_blobs root (s\<lparr>dk_nonce := n\<rparr>) = fs_blobs root s"
  by (simp_all add: fs_inv_def fs_wf_def fs_abs_def fs_blobs_def fun_eq_iff)

lemma blobs_dir_eq: "blobs_dir root = root @ [''blobs'']"
  by (simp add: blobs_dir_def path_join_plain)

lemma blob_dir_entry:
  assumes "fs_wf root s" "n \<in> set (children (dk_files s) (blobs_dir root))" "is_blob_hash n"
  shows "root @ [''blobs'', n] \<in> dom (bt_get (dk_files s))"
proof -
  obtain rest where r: "root @ ''blobs'' # n # rest \<in> dom (bt_get (dk_files s))"
    using assms(2) by (auto simp: set_children dom_map_of_conv_image_fst blobs_dir_eq)
  moreover have "prefix root (root @ ''blobs'' # n # rest)" by simp
  ultimately have "store_path root (root @ ''blobs'' # n # rest)"
    using assms(1) by (auto simp: fs_wf_def)
  then have "rest = []"
  proof (cases rule: store_path_shape)
    case (rec k f)
    then show ?thesis using blob_dir_not_record [OF rec(1), of n] assms(3) by auto
  qed auto
  with r show ?thesis by simp
qed

lemma blob_dir_free:
  assumes "fs_wf root s"
  shows "bt_get (dk_files s) (blobs_dir root) = None \<and> \<not> below_file (dk_files s) (blobs_dir root)"
proof -
  have "\<not> prefix p (blobs_dir root)" if "p \<in> dom (bt_get (dk_files s))" for p
  proof
    assume pre: "prefix p (blobs_dir root)"
    have "store_path root p \<or> (\<not> prefix root p \<and> \<not> prefix p root)"
      using assms that by (auto simp: fs_wf_def)
    then show False
    proof
      assume "store_path root p"
      then show False
        using pre prefix_length_le [OF pre] by (cases rule: store_path_shape) (auto simp: blobs_dir_eq)
    next
      assume "\<not> prefix root p \<and> \<not> prefix p root"
      then show False using pre by (auto simp: blobs_dir_eq prefix_snoc)
    qed
  qed
  then have "blobs_dir root \<notin> dom (bt_get (dk_files s))" "\<not> below_file (dk_files s) (blobs_dir root)"
    by (auto simp: below_file_def dom_map_of_conv_image_fst [symmetric] strict_prefix_def)
  then show ?thesis by (simp add: domIff)
qed

definition blob_entries :: "(path, dfile) btree \<Rightarrow> path \<Rightarrow> string \<Rightarrow> blob_entry list" where
  "blob_entries fs dir n =
     (if is_blob_hash n then
        (case bt_get fs (dir @ [n]) of Some f \<Rightarrow> [from_system_time (ContentHash n) (f_mtime f)] | None \<Rightarrow> [])
      else [])"

lemma hash_lossy: "is_blob_hash n \<Longrightarrow> from_utf8_lossy n = n"
  using hash_chars lossy_ascii by blast

lemma show_nat_ascii: "\<forall>c \<in> set (show_nat n). byte_in 0 0x7F c"
proof (induction n rule: show_nat.induct)
  case (1 n)
  have "byte_in 0 0x7F (char_of (48 + m))" if "m < 10" for m :: nat
    using that by (simp add: byte_in_def)
  with 1 show ?case by (subst show_nat.simps) auto
qed

lemma tmp_ascii: "byte_in 0 0x7F CHR ''.''" "byte_in 0 0x7F CHR ''t''" "byte_in 0 0x7F CHR ''m''"
  "byte_in 0 0x7F CHR ''p''"
  by code_simp+

lemma name_lossy:
  assumes "fs_wf root s" "n \<in> set (children (dk_files s) (blobs_dir root))" "is_blob_hash (from_utf8_lossy n)"
  shows "from_utf8_lossy n = n"
proof -
  obtain rest where r: "root @ ''blobs'' # n # rest \<in> dom (bt_get (dk_files s))"
    using assms(2) by (auto simp: set_children dom_map_of_conv_image_fst blobs_dir_eq)
  moreover have "prefix root (root @ ''blobs'' # n # rest)" by simp
  ultimately have "store_path root (root @ ''blobs'' # n # rest)"
    using assms(1) by (auto simp: fs_wf_def)
  then consider k where "fs_valid k" "n = segment (collection k)"
    | h where "is_blob_hash (hash_str h)" "n = hash_str h"
    | h pid m where "is_blob_hash (hash_str h)" "n = hash_str h @ ''.tmp.'' @ show_nat pid @ ''.'' @ show_nat m"
    unfolding store_path_def scratch_path_def
    by (auto simp: lock_path_valid tmp_path_valid record_path_valid blob_path_valid blob_tmp_valid)
  then show ?thesis
  proof cases
    case (3 h pid m)
    then have "\<forall>c \<in> set n. byte_in 0 0x7F c"
      using hash_chars show_nat_ascii by (auto simp: tmp_ascii)
    then show ?thesis by (rule lossy_ascii)
  qed (use hash_lossy in auto)
qed

lemma collect_blobs_ok:
  assumes "fs_wf root s" "dk_faults s = []" "set ns \<subseteq> set (children (dk_files s) (blobs_dir root))"
  shows "collect_blobs (blobs_dir root) ns out s =
    (Inr (out @ concat (map (blob_entries (dk_files s) (blobs_dir root)) ns)), s)"
  using assms(3)
proof (induction ns arbitrary: out)
  case Nil
  show ?case using assms(2) by (simp add: bindE_def backend_def sys_tick_ok retE_def)
next
  case (Cons n ns)
  show ?case
  proof (cases "is_blob_hash (from_utf8_lossy n)")
    case False
    then have "\<not> is_blob_hash n" using hash_lossy by metis
    with False Cons assms(2) show ?thesis
      by (simp add: bindE_def backend_def sys_tick_ok blob_entries_def Let_def)
  next
    case True
    then have n: "from_utf8_lossy n = n" "is_blob_hash n"
      using name_lossy [OF assms(1), of n] Cons.prems by auto
    then obtain f where f: "bt_get (dk_files s) (blobs_dir root @ [n]) = Some f"
      using blob_dir_entry [OF assms(1), of n] Cons.prems by (auto simp: blobs_dir_eq)
    have "''..'' \<notin> set (blobs_dir root @ [n])"
      using assms(1) hash_no_dot [OF n(2)] by (auto simp: fs_wf_def root_ok_def blobs_dir_eq)
    then have "sys_modified (blobs_dir root @ [n]) s = (Inr (f_mtime f), s)"
      using assms(2) f by (simp add: sys_modified_def io_simps)
    with n f Cons assms(2) show ?thesis
      by (simp add: bindE_def backend_def sys_tick_ok blob_entries_def Let_def liftE_def
          blob_entry_from_dir_entry_def)
  qed
qed

lemma fs_list_blobs_ok:
  assumes "fs_wf (fs_root st) s" "dk_faults s = []"
  shows "\<exists>es. fs_list_blobs st s = (Inr es, s) \<and> listing_of (fs_blobs (fs_root st) s) es"
proof -
  let ?root = "fs_root st" and ?fs = "dk_files s"
  let ?es = "concat (map (blob_entries ?fs (blobs_dir ?root)) (children ?fs (blobs_dir ?root)))"
  have no: "''..'' \<notin> set (blobs_dir ?root)"
    using assms(1) by (auto simp: fs_wf_def root_ok_def blobs_dir_eq)
  have run: "fs_list_blobs st s = (Inr ?es, s)"
  proof (cases "is_dir ?fs (blobs_dir ?root)")
    case True
    then show ?thesis
      using collect_blobs_ok [OF assms order_refl, of "[]"] sys_read_dir_ok [OF assms(2) no]
      by (simp add: fs_list_blobs_def Let_def)
  next
    case False
    then have "children ?fs (blobs_dir ?root) = []"
      by (metis all_not_in_conv is_dir_iff set_children set_empty)
    then show ?thesis
      using False blob_dir_free [OF assms(1)] no assms(2)
      by (simp add: fs_list_blobs_def Let_def sys_read_dir_def io_simps)
  qed
  have stored: "n \<in> set (children ?fs (blobs_dir ?root)) \<and> bt_get ?fs (blobs_dir ?root @ [n]) = Some f"
    if "bt_get ?fs (blobs_dir ?root @ [n]) = Some f" for n f
    using that by (auto simp: set_children dom_map_of_conv_image_fst [symmetric] intro!: exI [of _ "[]"])
  have "listing_of (fs_blobs ?root s) ?es"
    unfolding listing_of_def
  proof (intro conjI ballI allI impI)
    fix e assume "e \<in> set ?es"
    then obtain n f where "is_blob_hash n" "bt_get ?fs (blobs_dir ?root @ [n]) = Some f"
      "e = from_system_time (ContentHash n) (f_mtime f)"
      by (auto simp: blob_entries_def split: if_splits option.splits) metis
    then show "\<exists>c ms. fs_blobs ?root s (be_hash e) = Some (c, ms) \<and> be_modified_unix_ms e \<le> ms"
      using blob_path_valid [of "ContentHash n" ?root]
      by (simp add: fs_blobs_def fs_hash_valid_def from_system_time_def blobs_dir_eq)
  next
    fix h c ms
    assume "fs_blobs ?root s h = Some (c, ms)"
    then obtain f where f: "is_blob_hash (hash_str h)" "bt_get ?fs (blobs_dir ?root @ [hash_str h]) = Some f"
      "ms = unix_ms (f_mtime f)"
      using blob_path_valid [of h ?root]
      by (auto simp: fs_blobs_def fs_hash_valid_def blobs_dir_eq split: if_splits)
    then have "\<lparr>be_hash = h, be_modified_unix_ms = ms\<rparr> \<in> set (blob_entries ?fs (blobs_dir ?root) (hash_str h))"
      by (simp add: blob_entries_def from_system_time_def)
    with stored [OF f(2)] show "\<lparr>be_hash = h, be_modified_unix_ms = ms\<rparr> \<in> set ?es" by auto
  qed
  with run show ?thesis by blast
qed

lemma fs_get_blob_ok:
  assumes "fs_wf (fs_root st) s" "dk_faults s = []" "fs_hash_valid h"
  shows "fs_get_blob st h s = (Inr (map_option fst (fs_blobs (fs_root st) s h)), s)"
  using sys_read_ok [OF assms(2) clear_store_path [OF assms(1) blob_store_path [OF assms(3)]]] assms(3)
  by (auto simp: fs_get_blob_def fs_blobs_def split: option.splits)

lemma fs_has_blob_ok:
  assumes "fs_wf (fs_root st) s" "dk_faults s = []" "fs_hash_valid h"
  shows "fs_has_blob st h s = (Inr (fs_blobs (fs_root st) s h \<noteq> None), s)"
  using sys_try_exists_ok [OF assms(2) clear_store_path [OF assms(1) blob_store_path [OF assms(3)]]] assms(3)
  by (simp add: fs_has_blob_def fs_blobs_def backend_def)

lemma fs_delete_blob_ok:
  assumes "fs_inv H C (fs_root st) s" "fs_hash_valid h"
  shows "\<exists>s'. fs_delete_blob st h s = (Inr (), s') \<and> fs_inv H C (fs_root st) s' \<and>
    fs_abs C (fs_root st) s' = fs_abs C (fs_root st) s \<and>
    fs_blobs (fs_root st) s' = (fs_blobs (fs_root st) s)(h := None)"
proof -
  let ?root = "fs_root st" and ?p = "blob_path (fs_root st) h"
  let ?fs = "bt_remove ?p (dk_files s)"
  have wf: "fs_wf ?root s" "dk_faults s = []" "bt_ok (dk_files s)"
    using assms(1) by (auto simp: fs_inv_def fs_wf_def)
  have "touched (insert ?p {}) (dk_files s) ?fs" using wf(3) by (simp add: touched_def)
  from blob_change [OF assms this] have change: "fs_inv H C ?root (s\<lparr>dk_files := ?fs\<rparr>)"
    "fs_abs C ?root (s\<lparr>dk_files := ?fs\<rparr>) = fs_abs C ?root s"
    "fs_blobs ?root (s\<lparr>dk_files := ?fs\<rparr>) = (fs_blobs ?root s)(h := None)" by auto
  note rm = sys_remove_ok [OF wf(2) clear_store_path [OF wf(1) blob_store_path [OF assms(2)]]]
  show ?thesis
  proof (cases "bt_get (dk_files s) ?p")
    case None
    then have "(fs_blobs ?root s)(h := None) = fs_blobs ?root s"
      by (auto simp: fs_blobs_def fun_eq_iff)
    with None rm assms(1) show ?thesis by (simp add: fs_delete_blob_def)
  next
    case (Some f)
    with rm change show ?thesis by (simp add: fs_delete_blob_def)
  qed
qed

lemma fs_put_blob_ok:
  assumes "fs_inv H C (fs_root st) s" "fs_hash_valid (content_hash_of H c)"
  shows "\<exists>s' c' ms. fs_put_blob H st c s = (Inr (content_hash_of H c), s') \<and> fs_inv H C (fs_root st) s' \<and>
    fs_abs C (fs_root st) s' = fs_abs C (fs_root st) s \<and>
    fs_blobs (fs_root st) s' = (fs_blobs (fs_root st) s)(content_hash_of H c \<mapsto> (c', ms)) \<and>
    (c' = c \<or> map_option fst (fs_blobs (fs_root st) s (content_hash_of H c)) = Some c')"
proof -
  let ?root = "fs_root st" and ?h = "content_hash_of H c"
  let ?p = "blob_path ?root ?h" and ?t = "blob_tmp_path ?root (fs_pid st) (dk_nonce s) ?h"
  have wf: "fs_wf ?root s" "dk_faults s = []" "store_path ?root ?p"
    using assms by (auto simp: fs_inv_def)
  note ex = sys_try_exists_ok [OF wf(2) clear_store_path [OF wf(1,3)]]
  show ?thesis
  proof (cases "bt_get (dk_files s) ?p")
    case (Some f)
    then have "fs_blobs ?root s ?h = Some (f_bytes f, unix_ms (f_mtime f))"
      using assms(2) by (simp add: fs_blobs_def)
    moreover from this have "fs_blobs ?root s = (fs_blobs ?root s)(?h \<mapsto> (f_bytes f, unix_ms (f_mtime f)))"
      by (simp add: fun_upd_idem)
    moreover have "fs_put_blob H st c s = (Inr ?h, s)"
      using ex Some by (simp add: fs_put_blob_def Let_def bindE_def backend_def retE_def)
    ultimately show ?thesis using assms(1) by (metis fst_conv option.simps(9))
  next
    case None
    define s1 where "s1 = s\<lparr>dk_nonce := Suc (dk_nonce s)\<rparr>"
    have s1: "fs_inv H C ?root s1" "fs_wf ?root s1" "dk_faults s1 = []" "dk_files s1 = dk_files s"
      using assms(1) wf by (simp_all add: s1_def fs_wf_def)
    have "?t \<noteq> ?p"
      using scratch_not_blob [OF blob_tmp_scratch [OF assms(2)]] assms(2) by (simp add: fs_hash_valid_def)
    then obtain fs' where fs': "publish ?t ?p c s1 = (Inr (), s1\<lparr>dk_files := fs'\<rparr>)"
      "touched {?p, ?t} (dk_files s1) fs'" "bt_get fs' ?p = Some \<lparr>f_bytes = c, f_mtime = dk_now s1\<rparr>"
      using publish_ok [OF s1(2,3) scratch_store [OF blob_tmp_scratch [OF assms(2)]] wf(3)] by blast
    have change: "fs_inv H C ?root (s1\<lparr>dk_files := fs'\<rparr>) \<and>
        fs_abs C ?root (s1\<lparr>dk_files := fs'\<rparr>) = fs_abs C ?root s1 \<and>
        fs_blobs ?root (s1\<lparr>dk_files := fs'\<rparr>) = (fs_blobs ?root s1)
          (?h := map_option (\<lambda>f. (f_bytes f, unix_ms (f_mtime f))) (bt_get fs' ?p))"
      by (rule blob_change [OF s1(1) assms(2) fs'(2)])
        (use assms(2) fs'(3) in \<open>auto simp: content_hash_of_def\<close>)
    have "fs_put_blob H st c s = (Inr ?h, s1\<lparr>dk_files := fs'\<rparr>)"
      using ex None create_parent_ok [OF wf] fs'(1)
      by (simp add: fs_put_blob_def Let_def bindE_def backend_def retE_def fetch_nonce_def
          s1_def [symmetric] blob_tmp_path_def [symmetric])
    moreover have "fs_abs C ?root s1 = fs_abs C ?root s" "fs_blobs ?root s1 = fs_blobs ?root s"
      by (simp_all add: s1_def)
    ultimately show ?thesis
      using change fs'(3)
      by (intro exI [of _ "s1\<lparr>dk_files := fs'\<rparr>"] exI [of _ c] exI [of _ "unix_ms (dk_now s1)"]) simp
  qed
qed

subsection \<open>The contracts\<close>

lemma fs_inv_parts: "fs_inv H C root s \<Longrightarrow> fs_wf root s \<and> dk_faults s = []"
  by (simp add: fs_inv_def)

lemma fs_abs_key:
  assumes "fs_inv H C root s" "fs_abs C root s k = Some r"
  shows "rec_key r = k \<and> fs_valid k"
  using assms by (auto simp: fs_abs_def fs_inv_def split: if_splits option.splits sum.splits)

lemma fs_list_raw_ok:
  assumes "fs_inv H C (fs_root st) s"
  shows "\<exists>ks. fs_list_raw st p s = (Inr ks, s) \<and> distinct ks \<and>
    set ks = {k. fs_abs C (fs_root st) s k \<noteq> None \<and> kp_matches p k}"
proof -
  note wf = fs_inv_parts [OF assms]
  obtain ks where ks: "collect_keys (fs_root st) p s = (Inr ks, s)" "distinct ks"
    "set ks = {k. fs_valid k \<and> kp_matches p k \<and> record_path (fs_root st) k \<in> dom (bt_get (dk_files s))}"
    using collect_keys_ok wf by blast
  have "fs_valid k" if "fs_abs C (fs_root st) s k \<noteq> None" for k
    using that by (simp add: fs_abs_def split: if_splits)
  then have "set ks = {k. fs_abs C (fs_root st) s k \<noteq> None \<and> kp_matches p k}"
    using ks(3) fs_abs_dom [OF assms] by blast
  with ks show ?thesis by (simp add: fs_list_raw_def)
qed

lemma fs_list_ok:
  assumes "fs_inv H C (fs_root st) s"
  shows "\<exists>ks. fs_list C st p s = (Inr ks, s) \<and> distinct ks \<and>
    set ks = {k. live_only (fs_abs C (fs_root st) s k) \<noteq> None \<and> kp_matches p k}"
proof -
  let ?abs = "fs_abs C (fs_root st) s"
  obtain ks where ks: "fs_list_raw st p s = (Inr ks, s)" "distinct ks"
    "set ks = {k. ?abs k \<noteq> None \<and> kp_matches p k}"
    using fs_list_raw_ok [OF assms] by blast
  have "\<forall>k \<in> set ks. fs_valid k" using ks(3) fs_abs_key [OF assms] by auto
  then have "fs_list C st p s = (Inr (filter (\<lambda>k. live_only (?abs k) \<noteq> None) ks), s)"
    using ks(1) keep_live_ok [OF assms, of ks "[]"]
    by (simp add: fs_list_def fs_list_raw_def bindE_def)
  moreover have "set (filter (\<lambda>k. live_only (?abs k) \<noteq> None) ks) =
      {k. live_only (?abs k) \<noteq> None \<and> kp_matches p k}"
    using ks(3) by (auto simp: live_only_def)
  ultimately show ?thesis using ks(2) by (metis (no_types, lifting) distinct_filter)
qed

lemma fs_finite: "fs_inv H C root s \<Longrightarrow> finite (dom (fs_abs C root s))"
proof -
  assume inv: "fs_inv H C root s"
  obtain ks where "set ks = {k. fs_abs C root s k \<noteq> None \<and> kp_matches kp_default k}"
    using fs_list_raw_ok [of H C "fs_new root 0" s kp_default] inv by (auto simp: fs_new_def)
  then have "dom (fs_abs C root s) = set ks" by auto
  then show ?thesis by simp
qed

sublocale fs_substrate \<subseteq> fs: full_store H "fs_cap st" fs_valid "fs_vt H C st" "fs_abs C (fs_root st)"
  "fs_inv H C (fs_root st)" fs_clock "fs_bv H st" "fs_blobs (fs_root st)" fs_hash_valid
proof (unfold_locales, goal_cases)
  case (1 s k)
  then show ?case by (simp add: fs_vt_def fs_get_raw_def read_record_def read_record_ok)
next
  case (2 s k)
  then show ?case by (simp add: fs_vt_def fs_get_def read_record_def bindE_def read_record_ok retE_def)
next
  case (3 s p)
  then show ?case using fs_list_raw_ok [of H C st s p] by (simp add: fs_vt_def)
next
  case (4 s p)
  then show ?case using fs_list_ok [of H C st s p] by (auto simp: fs_vt_def)
next
  case (5 s r ex res s')
  then show ?case
    using put_locked_spec [of s r "plan_put H" ex res s'] plan_put_key
    by (auto simp: fs_vt_def fs_put_def)
next
  case (6 s r ex res s')
  then show ?case
    using put_locked_spec [of s r plan_put_raw ex res s'] plan_put_raw_key
    by (auto simp: fs_vt_def fs_put_raw_def)
next
  case (7 s k ex au dres s')
  then show ?case using delete_locked_spec [of s k ex au dres s'] by (simp add: fs_vt_def fs_delete_as_def)
next
  case (8 s k rv dres s')
  then show ?case using purge_locked_spec [of s k rv dres s'] by (simp add: fs_vt_def fs_purge_def)
next
  case (9 s k r)
  then show ?case using fs_abs_key by blast
next
  case (10 s k r)
  then show ?case using fs_abs_key by blast
next
  case (11 s)
  then show ?case by (rule fs_finite)
next
  case (12 s h)
  then show ?case using fs_inv_parts [of H C "fs_root st" s] by (simp add: fs_bv_def fs_get_blob_ok)
next
  case (13 s h)
  then show ?case using fs_inv_parts [of H C "fs_root st" s] by (simp add: fs_bv_def fs_has_blob_ok)
next
  case (14 s)
  then show ?case using fs_inv_parts [of H C "fs_root st" s] fs_list_blobs_ok [of st s] by (simp add: fs_bv_def)
next
  case (15 s c)
  then show ?case
    using fs_put_blob_ok [of H C st s c] hex_digest
    by (auto simp: fs_bv_def fs_hash_valid_def content_hash_of_def)
next
  case (16 s h)
  then show ?case using fs_delete_blob_ok [of H C st s h] by (auto simp: fs_bv_def)
next
  case (17 s h c ms)
  then show ?case
    by (auto simp: fs_blobs_def fs_inv_def content_hash_of_def split: if_splits)
next
  case (18 c)
  then show ?case by (simp add: fs_hash_valid_def content_hash_of_def hex_digest)
next
  case (19 s c res s')
  then show ?case
    using fs_put_blob_ok [of H C st s c] hex_digest
    by (auto simp: fs_bv_def fs_hash_valid_def content_hash_of_def)
next
  case (20 s h bres s')
  then show ?case using fs_delete_blob_ok [of H C st s h] by (auto simp: fs_bv_def)
next
  case (21 s r ex pres s')
  then show ?case
    using put_locked_spec [of s r plan_put_raw ex pres s'] plan_put_raw_key
    by (auto simp: fs_vt_def fs_put_raw_def)
next
  case (22 s r ex pres s')
  then show ?case
    using put_locked_spec [of s r "plan_put H" ex pres s'] plan_put_key
    by (auto simp: fs_vt_def fs_put_def)
next
  case (23 s k ex au dres s')
  then show ?case using delete_locked_spec [of s k ex au dres s'] by (simp add: fs_vt_def fs_delete_as_def)
next
  case (24 s p lres s')
  then show ?case using fs_list_ok [of H C st s p] by (auto simp: fs_vt_def)
next
  case (25 s k rv dres s')
  then show ?case using purge_locked_spec [of s k rv dres s'] by (simp add: fs_vt_def fs_purge_def)
qed

subsection \<open>Hashes that are no hash\<close>

text \<open>
  The layout joins the hash to the blob directory as it came. A string that climbs out of that
  directory names any file below the root: here, the record at \<open>k\<close>.
\<close>

definition escaping_hash :: "record_key \<Rightarrow> content_hash" where
  "escaping_hash k = ContentHash (''../'' @ segment (namespace k) @ ''/'' @ segment (collection k) @ ''/'' @
     segment (key_id k) @ ''.json'')"

lemma components_escaping:
  assumes "fs_valid k"
  shows "components (hash_str (escaping_hash k)) =
    [''..'', segment (namespace k), segment (collection k), segment (key_id k) @ ''.json'']"
proof -
  have "split_slash [] (hash_str (escaping_hash k)) =
      [''..'', segment (namespace k), segment (collection k), segment (key_id k) @ ''.json'']"
    using split_slash_append [of "''..''" "[]"] split_slash_append [OF segment_no_sep(1), of "[]"]
      split_slash_plain [of "segment (key_id k) @ ''.json''" "[]"] segment_no_sep(1)
    by (simp add: escaping_hash_def)
  moreover have "segment (namespace k) \<noteq> []" "segment (collection k) \<noteq> []"
    using assms segment_nonempty by (auto simp: fs_valid_def)
  ultimately show ?thesis by (simp add: components_def segment_not_dots)
qed

lemma resolve_escaping:
  assumes "fs_wf root s" "fs_valid k" "is_dir (dk_files s) (blobs_dir root)"
  shows "resolve (dk_files s) (blob_path root (escaping_hash k)) = Inr (record_path root k)"
proof -
  have path: "blob_path root (escaping_hash k) = blobs_dir root @
      [''..'', segment (namespace k), segment (collection k), segment (key_id k) @ ''.json'']"
    using components_escaping [OF assms(2)] by (simp add: blob_path_def path_join_def escaping_hash_def)
  have "resolve_from fs acc (p @ q) = resolve_from fs (acc @ p) q" if "''..'' \<notin> set p" for fs acc p q
    using that by (induction p arbitrary: acc) auto
  moreover have "''..'' \<notin> set (blobs_dir root)"
    using assms(1) by (auto simp: fs_wf_def root_ok_def blobs_dir_eq)
  moreover have "segment (key_id k) @ ''.json'' \<noteq> ''..''" by (auto dest: arg_cong [of _ _ length])
  ultimately show ?thesis
    using assms(2,3) by (simp add: resolve_def path record_path_valid segment_not_dots blobs_dir_eq)
qed

lemma delete_escaping:
  assumes "fs_inv H C (fs_root st) s" "fs_abs C (fs_root st) s k = Some r"
    "is_dir (dk_files s) (blobs_dir (fs_root st))"
  shows "\<exists>s'. fs_delete_blob st (escaping_hash k) s = (Inr (), s') \<and>
    fs_abs C (fs_root st) s' = (fs_abs C (fs_root st) s)(k := None)"
proof -
  let ?root = "fs_root st" and ?p = "record_path (fs_root st) k"
  let ?fs = "bt_remove ?p (dk_files s)"
  have k: "fs_valid k" using fs_abs_key [OF assms(1,2)] by blast
  have wf: "fs_wf ?root s" "dk_faults s = []" "bt_ok (dk_files s)"
    using assms(1) by (auto simp: fs_inv_def fs_wf_def)
  have there: "bt_get (dk_files s) ?p \<noteq> None"
    using assms(2) k by (auto simp: fs_abs_def split: option.splits)
  have "touched (insert ?p {}) (dk_files s) ?fs" using wf(3) by (simp add: touched_def)
  from record_change [OF assms(1) k this, of None]
  have "fs_abs C ?root (s\<lparr>dk_files := ?fs\<rparr>) = (fs_abs C ?root s)(k := None)" by simp
  moreover have "fs_delete_blob st (escaping_hash k) s = (Inr (), s\<lparr>dk_files := ?fs\<rparr>)"
    using resolve_escaping [OF wf(1) k assms(3)] wf(2) there
    by (simp add: fs_delete_blob_def sys_remove_def sys_call_ok at_path_def)
  ultimately show ?thesis by blast
qed

context fs_substrate
begin

lemmas planned = fs.planned_store_axioms
lemmas full = fs.full_store_axioms
lemmas blob = fs.blob_store_axioms

end

end
