(* ===== verification/Gz_Codec.thy ===== *)
theory Gz_Codec
  imports Gz_FsSubstrate
begin

text \<open>
  A concrete stand-in for the two third-party functions the filesystem store takes as parameters: a
  self-delimiting binary format for records in the place of \<open>serde_json\<close>, and a 64-digit hex digest
  in the place of BLAKE3. They show that the assumptions of \<open>fs_substrate\<close> can be met together, and
  the witnesses of the development run on them.
\<close>

type_synonym 'a codec = "('a \<Rightarrow> bytes) \<times> (bytes \<Rightarrow> ('a \<times> bytes) option)"

definition codec_ok :: "'a codec \<Rightarrow> bool" where
  "codec_ok c \<longleftrightarrow> (\<forall>x rest. snd c (fst c x @ rest) = Some (x, rest))"

lemma codec_okD: "codec_ok c \<Longrightarrow> snd c (fst c x @ rest) = Some (x, rest)"
  by (simp add: codec_ok_def)

subsection \<open>Primitives and combinators\<close>

fun enc_nat :: "nat \<Rightarrow> bytes" where
  "enc_nat n = (if n = 0 then ''.'' else (if even n then CHR ''0'' else CHR ''1'') # enc_nat (n div 2))"

declare enc_nat.simps [simp del]

fun dec_nat :: "bytes \<Rightarrow> (nat \<times> bytes) option" where
  "dec_nat [] = None"
| "dec_nat (c # s) =
     (if c = CHR ''.'' then Some (0, s)
      else map_option (\<lambda>(n, r). ((if c = CHR ''1'' then 1 else 0) + 2 * n, r)) (dec_nat s))"

definition c_nat :: "nat codec" where
  "c_nat = (enc_nat, dec_nat)"

definition c_char :: "char codec" where
  "c_char = (\<lambda>c. [c], \<lambda>s. case s of [] \<Rightarrow> None | c # r \<Rightarrow> Some (c, r))"

definition c_pair :: "'a codec \<Rightarrow> 'b codec \<Rightarrow> ('a \<times> 'b) codec" where
  "c_pair a b =
     (\<lambda>(x, y). fst a x @ fst b y,
      \<lambda>s. case snd a s of
            None \<Rightarrow> None
          | Some (x, r) \<Rightarrow> map_option (\<lambda>(y, r'). ((x, y), r')) (snd b r))"

definition c_map :: "('b \<Rightarrow> 'a) \<Rightarrow> ('a \<Rightarrow> 'b) \<Rightarrow> 'a codec \<Rightarrow> 'b codec" where
  "c_map f g a = (\<lambda>y. fst a (f y), \<lambda>s. map_option (\<lambda>(x, r). (g x, r)) (snd a s))"

primrec enc_list :: "('a \<Rightarrow> bytes) \<Rightarrow> 'a list \<Rightarrow> bytes" where
  "enc_list e [] = '']''"
| "enc_list e (x # xs) = CHR '','' # e x @ enc_list e xs"

primrec dec_list :: "(bytes \<Rightarrow> ('a \<times> bytes) option) \<Rightarrow> nat \<Rightarrow> bytes \<Rightarrow> ('a list \<times> bytes) option" where
  "dec_list d 0 s = None"
| "dec_list d (Suc n) s =
     (case s of
        [] \<Rightarrow> None
      | c # r \<Rightarrow>
          if c = CHR '']'' then Some ([], r)
          else (case d r of
                  None \<Rightarrow> None
                | Some (x, r') \<Rightarrow> map_option (\<lambda>(xs, r''). (x # xs, r'')) (dec_list d n r')))"

definition c_list :: "'a codec \<Rightarrow> 'a list codec" where
  "c_list a = (enc_list (fst a), \<lambda>s. dec_list (snd a) (length s) s)"

lemma c_nat_ok [simp]: "codec_ok c_nat"
proof -
  have "dec_nat (enc_nat n @ r) = Some (n, r)" for n r
    by (induction n rule: enc_nat.induct) (subst enc_nat.simps, auto)
  then show ?thesis by (simp add: codec_ok_def c_nat_def)
qed

lemma c_char_ok [simp]: "codec_ok c_char"
  by (simp add: codec_ok_def c_char_def)

lemma c_pair_ok [simp]: "codec_ok a \<Longrightarrow> codec_ok b \<Longrightarrow> codec_ok (c_pair a b)"
  by (auto simp: codec_ok_def c_pair_def)

lemma c_map_ok [simp]: "codec_ok a \<Longrightarrow> (\<And>y. g (f y) = y) \<Longrightarrow> codec_ok (c_map f g a)"
  by (auto simp: codec_ok_def c_map_def)

lemma c_list_ok [simp]:
  assumes "codec_ok a"
  shows "codec_ok (c_list a)"
proof -
  have "length xs < n \<Longrightarrow> dec_list (snd a) n (enc_list (fst a) xs @ r) = Some (xs, r)" for n xs r
  proof (induction xs arbitrary: n)
    case Nil
    then show ?case by (cases n) auto
  next
    case (Cons x xs)
    then show ?case by (cases n) (simp_all add: codec_okD [OF assms])
  qed
  moreover have "length xs < length (enc_list (fst a) xs @ r)" for xs r
    by (induction xs) auto
  ultimately show ?thesis by (simp add: codec_ok_def c_list_def)
qed

definition c_string :: "string codec" where
  "c_string = c_list c_char"

definition c_option :: "'a codec \<Rightarrow> 'a option codec" where
  "c_option a = c_map (\<lambda>o'. case o' of None \<Rightarrow> [] | Some x \<Rightarrow> [x])
     (\<lambda>xs. case xs of [] \<Rightarrow> None | x # _ \<Rightarrow> Some x) (c_list a)"

definition c_int :: "int codec" where
  "c_int = c_map (\<lambda>i. (nat i, nat (- i))) (\<lambda>(p, n). int p - int n) (c_pair c_nat c_nat)"

lemma c_string_ok [simp]: "codec_ok c_string"
  by (simp add: c_string_def)

lemma c_option_ok [simp]: "codec_ok a \<Longrightarrow> codec_ok (c_option a)"
  unfolding c_option_def by (rule c_map_ok) (auto split: option.splits)

lemma c_int_ok [simp]: "codec_ok c_int"
  unfolding c_int_def by (rule c_map_ok) auto

subsection \<open>Records\<close>

definition all_kinds :: "record_kind list" where
  "all_kinds = [MemoryTier, Topic, Session, Checkpoint, Ticket, TicketEvent, GraphManifest,
     VectorManifest, Person, IdentityBinding, RoleGrant, ChannelConfig, LinkToken, AuditEntry,
     Tombstone]"

definition c_kind :: "record_kind codec" where
  "c_kind = c_map (\<lambda>k. length (takeWhile (\<lambda>x. x \<noteq> k) all_kinds)) (\<lambda>n. all_kinds ! n) c_nat"

definition c_hash :: "content_hash codec" where
  "c_hash = c_map hash_str ContentHash c_string"

definition c_revision :: "revision codec" where
  "c_revision = c_map (\<lambda>r. (unat (counter r), rev_hash r)) (\<lambda>(n, h). Revision (of_nat n) h)
     (c_pair c_nat c_hash)"

definition c_key :: "record_key codec" where
  "c_key = c_map (\<lambda>k. (namespace k, collection k, key_id k)) (\<lambda>(n, c, i). RecordKey n c i)
     (c_pair c_string (c_pair c_string c_string))"

definition c_body :: "body codec" where
  "c_body = c_map (\<lambda>b. case b of Inline bs \<Rightarrow> (None, bs) | Blob h n \<Rightarrow> (Some (unat n), hash_str h))
     (\<lambda>(o', s). case o' of None \<Rightarrow> Inline s | Some n \<Rightarrow> Blob (ContentHash s) (of_nat n))
     (c_pair (c_option c_nat) c_string)"

definition c_identity :: "identity codec" where
  "c_identity = c_map (\<lambda>i. (ident_id i, ident_display i))
     (\<lambda>(i, d). \<lparr>ident_id = i, ident_display = d\<rparr>) (c_pair c_string (c_option c_string))"

definition c_meta :: "meta codec" where
  "c_meta = c_map (\<lambda>m. (author m, origin_system m, created m, updated m, labels m))
     (\<lambda>(a, os, c, u, l). \<lparr>author = a, origin_system = os, created = c, updated = u, labels = l\<rparr>)
     (c_pair c_identity (c_pair c_string (c_pair c_int (c_pair c_int
       (c_list (c_pair c_string c_string))))))"

definition c_rec :: "rec codec" where
  "c_rec = c_map
     (\<lambda>r. ((rec_key r, rec_kind r, rec_revision r, rec_parent r, rec_body r),
           rec_meta r, rec_links r, rec_ancestors r, rec_deleted_at r, rec_deleted_blob r,
           rec_deleted_kind r))
     (\<lambda>((k, kd, rv, pa, b), m, l, an, da, db, dk).
        \<lparr>rec_key = k, rec_kind = kd, rec_revision = rv, rec_parent = pa, rec_body = b,
         rec_meta = m, rec_links = l, rec_ancestors = an, rec_deleted_at = da,
         rec_deleted_blob = db, rec_deleted_kind = dk\<rparr>)
     (c_pair
       (c_pair c_key (c_pair c_kind (c_pair c_revision (c_pair (c_option c_revision) c_body))))
       (c_pair c_meta (c_pair (c_list c_key) (c_pair (c_list c_revision)
         (c_pair (c_option c_int) (c_pair (c_option c_hash) (c_option c_kind)))))))"

lemma c_kind_ok [simp]: "codec_ok c_kind"
  unfolding c_kind_def
proof (rule c_map_ok)
  fix k
  show "all_kinds ! length (takeWhile (\<lambda>x. x \<noteq> k) all_kinds) = k"
    by (cases k) (simp_all add: all_kinds_def)
qed simp

lemma c_parts_ok [simp]: "codec_ok c_hash" "codec_ok c_revision" "codec_ok c_key" "codec_ok c_body"
  "codec_ok c_identity" "codec_ok c_meta"
proof -
  show hash: "codec_ok c_hash" unfolding c_hash_def by (rule c_map_ok) auto
  show "codec_ok c_revision" unfolding c_revision_def by (rule c_map_ok) (auto simp: hash)
  show "codec_ok c_key" unfolding c_key_def by (rule c_map_ok) auto
  show "codec_ok c_body" unfolding c_body_def by (rule c_map_ok) (auto split: body.splits)
  show ident: "codec_ok c_identity" unfolding c_identity_def by (rule c_map_ok) auto
  show "codec_ok c_meta" unfolding c_meta_def by (rule c_map_ok) (auto simp: ident)
qed

lemma c_rec_ok: "codec_ok c_rec"
  unfolding c_rec_def by (rule c_map_ok) auto

definition demo_codec :: rec_codec where
  "demo_codec =
     \<lparr>rc_to = (\<lambda>r. Inr (fst c_rec r)),
      rc_from = (\<lambda>bs. case snd c_rec bs of Some (r, []) \<Rightarrow> Inr r | _ \<Rightarrow> Inl ''malformed'')\<rparr>"

lemma demo_codec_round_trip: "\<exists>bs. rc_to demo_codec r = Inr bs \<and> rc_from demo_codec bs = Inr r"
  using codec_okD [OF c_rec_ok, of r "[]"] by (simp add: demo_codec_def)

subsection \<open>A digest of 64 hex digits\<close>

definition lower_hex :: string where
  "lower_hex = ''0123456789abcdef''"

definition hex2 :: "nat \<Rightarrow> string" where
  "hex2 n = [lower_hex ! (n div 16 mod 16), lower_hex ! (n mod 16)]"

definition demo_digest :: blake3 where
  "demo_digest c =
     take 64 (hex2 (min 255 (length c)) @ concat (map (\<lambda>b. hex2 (of_char b)) c) @ replicate 64 CHR ''0'')"

lemma lower_hex_digit: "n < 16 \<Longrightarrow> lower_hex ! n \<in> set ''0123456789abcdef''"
  unfolding lower_hex_def by (rule nth_mem) simp

lemma hex2_digits: "set (hex2 n) \<subseteq> set ''0123456789abcdef''"
proof -
  have "{lower_hex ! (n div 16 mod 16), lower_hex ! (n mod 16)} \<subseteq> set ''0123456789abcdef''"
    by (intro insert_subsetI empty_subsetI lower_hex_digit) simp_all
  then show ?thesis by (simp only: hex2_def list.set)
qed

lemma demo_digest_hex: "is_blob_hash (demo_digest c)"
proof -
  let ?pad = "replicate 64 CHR ''0''"
  have "set (demo_digest c) \<subseteq> set (hex2 (min 255 (length c)) @ concat (map (\<lambda>b. hex2 (of_char b)) c) @ ?pad)"
    unfolding demo_digest_def by (rule set_take_subset)
  also have "\<dots> = set (hex2 (min 255 (length c))) \<union> (\<Union>b \<in> set c. set (hex2 (of_char b))) \<union> set ?pad"
    by (simp only: set_append set_concat set_map Un_assoc image_image)
  also have "\<dots> \<subseteq> set ''0123456789abcdef''"
  proof (intro Un_least UN_least hex2_digits)
    have "CHR ''0'' \<in> set ''0123456789abcdef''" by code_simp
    then show "set ?pad \<subseteq> set ''0123456789abcdef''"
      using set_replicate_conv_if [of 64 "CHR ''0''"] by fastforce
  qed
  finally have "list_all (\<lambda>b. b \<in> set ''0123456789abcdef'') (demo_digest c)"
    unfolding list_all_iff by blast
  moreover have "length (demo_digest c) = 64" by (simp add: demo_digest_def)
  ultimately show ?thesis unfolding is_blob_hash_def by blast
qed

interpretation demo: fs_substrate demo_digest demo_codec st for st
  by unfold_locales (simp_all add: demo_codec_round_trip demo_digest_hex)

text \<open>An in-memory record store whose bodies are retained in a filesystem blob store.\<close>

interpretation demo_anc: ancestry_pair demo_digest c "\<lambda>_. True" "mem_vt demo_digest" mem_abs "mem_inv c"
  mem_now "fs_bv demo_digest st" "fs_blobs (fs_root st)" "fs_inv demo_digest demo_codec (fs_root st)"
  fs_hash_valid for c st
  by unfold_locales

end
