(* ===== verification/Gz_FsFaults.thy ===== *)
theory Gz_FsFaults
  imports Gz_FsProofs
begin

text \<open>
  The filesystem store under faults: any system call of a locked section may fail, a write may stop
  half way, and still the record at the key is either what it was or the whole record the planner
  decided on, and no other record or blob is touched. The schedule of faults is arbitrary.
\<close>

definition frame :: "path set \<Rightarrow> disk \<Rightarrow> disk \<Rightarrow> bool" where
  "frame X s s' \<longleftrightarrow> dk_now s' = dk_now s \<and> (bt_ok (dk_files s) \<longrightarrow> touched X (dk_files s) (dk_files s'))"

lemma frame_refl [simp]: "frame X s s"
  by (simp add: frame_def touched_def)

lemma frame_faults [simp]: "frame X s (s'\<lparr>dk_faults := fl\<rparr>) = frame X s s'" "frame X (s\<lparr>dk_faults := fl\<rparr>) s' = frame X s s'"
  by (simp_all add: frame_def touched_def)

lemma frame_trans: "frame X s s' \<Longrightarrow> frame X s' s'' \<Longrightarrow> frame X s s''"
  by (auto simp: frame_def touched_def)

lemma frame_mono: "frame X s s' \<Longrightarrow> X \<subseteq> Y \<Longrightarrow> frame Y s s'"
  by (auto simp: frame_def touched_def)

lemma frame_get: "frame X s s' \<Longrightarrow> bt_ok (dk_files s) \<Longrightarrow> p \<notin> X \<Longrightarrow>
    bt_get (dk_files s') p = bt_get (dk_files s) p"
  by (auto simp: frame_def touched_def)

lemma frame_ok: "frame X s s' \<Longrightarrow> bt_ok (dk_files s) \<Longrightarrow> bt_ok (dk_files s')"
  by (auto simp: frame_def touched_def)

text \<open>A system call fails before it does anything, or behaves as without faults.\<close>

lemma sys_call_cases:
  assumes "sys_call f s = (r, s')"
  obtains (fault) m fl where "r = Inl (IoOther m)" "s' = s\<lparr>dk_faults := fl\<rparr>"
  | (run) fl where "f (s\<lparr>dk_faults := fl\<rparr>) = (r, s')"
proof (cases "dk_faults s")
  case Nil
  then have "f s = (r, s')" using assms by (simp add: sys_call_def)
  then show thesis by (intro run [of "dk_faults s"]) simp
next
  case (Cons x fl)
  then show thesis using assms fault run [of fl] by (cases x) (auto simp: sys_call_def)
qed

lemma self_faults: "\<exists>fl. s = s\<lparr>dk_faults := fl\<rparr>"
  by (rule exI [of _ "dk_faults s"]) simp

lemma backend_cases:
  assumes "backend m s = (r, s')"
  obtains e where "m s = (Inl e, s')" "r = Inl (Backend (io_to_string e))"
  | x where "m s = (Inr x, s')" "r = Inr x"
  using assms by (auto simp: backend_def split: prod.splits sum.splits)

lemma bindE_cases:
  assumes "bindE m f s = (r, s')"
  obtains e where "m s = (Inl e, s')" "r = Inl e"
  | x s1 where "m s = (Inr x, s1)" "f x s1 = (r, s')"
  using assms by (auto simp: bindE_def split: prod.splits sum.splits)

subsection \<open>Each call\<close>

lemma tick_frame: "sys_tick s = (r, s') \<Longrightarrow> \<exists>fl. s' = s\<lparr>dk_faults := fl\<rparr>"
  unfolding sys_tick_def
  by (erule sys_call_cases) (auto simp: retE_def)

lemma mkdir_frame: "sys_create_dir_all p s = (r, s') \<Longrightarrow> \<exists>fl. s' = s\<lparr>dk_faults := fl\<rparr>"
  unfolding sys_create_dir_all_def
  by (erule sys_call_cases) (auto simp: at_path_def split: sum.splits if_splits)

lemma read_frame:
  assumes "sys_read p s = (r, s')" "''..'' \<notin> set p"
  shows "(\<exists>fl. s' = s\<lparr>dk_faults := fl\<rparr>) \<and>
    (\<forall>bs. r = Inr bs \<longrightarrow> (\<exists>f. bt_get (dk_files s) p = Some f \<and> bs = f_bytes f)) \<and>
    (r = Inl IoNotFound \<longrightarrow> bt_get (dk_files s) p = None)"
  using assms(1) unfolding sys_read_def
  by (cases rule: sys_call_cases)
    (use assms(2) in \<open>auto simp: at_path_plain missing_def split: option.splits if_splits\<close>)

lemma open_frame:
  assumes "sys_open tr p s = (r, s')" "''..'' \<notin> set p"
  shows "frame {p} s s' \<and>
    (tr \<longrightarrow> bt_ok (dk_files s) \<longrightarrow> r = Inr () \<longrightarrow> (\<exists>f. bt_get (dk_files s') p = Some f \<and> f_bytes f = []))"
  using assms(1) unfolding sys_open_def
  by (cases rule: sys_call_cases)
    (use assms(2) in \<open>auto simp: at_path_plain frame_def touched_def split: if_splits\<close>)

lemma append_frame:
  "frame {p} s (append_bytes p bs s) \<and>
   (bt_ok (dk_files s) \<longrightarrow> (\<forall>f. bt_get (dk_files s) p = Some f \<longrightarrow>
     (\<exists>f'. bt_get (dk_files (append_bytes p bs s)) p = Some f' \<and> f_bytes f' = f_bytes f @ bs)))"
  by (auto simp: append_bytes_def frame_def touched_def split: option.splits)

lemma write_frame:
  assumes "sys_write_all p bs s = (r, s')" "''..'' \<notin> set p"
  shows "frame {p} s s' \<and>
    (r = Inr () \<longrightarrow> bt_ok (dk_files s) \<longrightarrow> (\<forall>f. bt_get (dk_files s) p = Some f \<longrightarrow>
      (\<exists>f'. bt_get (dk_files s') p = Some f' \<and> f_bytes f' = f_bytes f @ bs)))"
proof -
  have frame: "frame {p} s (append_bytes p cs (s\<lparr>dk_faults := fl\<rparr>))" for cs fl
    using append_frame [of p "s\<lparr>dk_faults := fl\<rparr>" cs] by simp
  show ?thesis
    using assms frame append_frame [of p s bs] append_frame [of p "s\<lparr>dk_faults := tl (dk_faults s)\<rparr>" bs]
    by (auto simp: sys_write_all_def at_path_plain split: list.splits fault.splits)
qed

lemma rename_frame:
  assumes "sys_rename p q s = (r, s')" "''..'' \<notin> set p" "''..'' \<notin> set q" "p \<noteq> q" "bt_ok (dk_files s)"
  shows "frame {p, q} s s' \<and>
    (bt_get (dk_files s') q = bt_get (dk_files s) q \<and> r \<noteq> Inr () \<or>
     r = Inr () \<and> (\<exists>f. bt_get (dk_files s) p = Some f \<and> bt_get (dk_files s') q = Some f))"
  using assms(1) unfolding sys_rename_def
  by (cases rule: sys_call_cases)
    (use assms(2-5) in \<open>auto simp: at_path_plain frame_def touched_def split: option.splits if_splits\<close>)

lemma remove_frame:
  assumes "sys_remove p s = (r, s')" "''..'' \<notin> set p" "bt_ok (dk_files s)"
  shows "frame {p} s s' \<and>
    (bt_get (dk_files s') p = bt_get (dk_files s) p \<or> bt_get (dk_files s') p = None) \<and>
    (r = Inr () \<or> r = Inl IoNotFound \<longrightarrow> bt_get (dk_files s') p = None)"
  using assms(1) unfolding sys_remove_def
  by (cases rule: sys_call_cases)
    (use assms(2,3) in \<open>auto simp: at_path_plain frame_def touched_def missing_def split: option.splits if_splits\<close>)

subsection \<open>The sequences\<close>

lemma fsync_frame: "fsync_parent p s = (r, s') \<Longrightarrow> \<exists>fl. s' = s\<lparr>dk_faults := fl\<rparr>"
  unfolding fsync_parent_def fsync_dir_def
  by (auto simp: retE_def backend_def bindE_def split: option.splits prod.splits sum.splits io_error.splits if_splits
      dest!: tick_frame intro: self_faults)

lemma create_parent_frame: "create_parent p s = (r, s') \<Longrightarrow> \<exists>fl. s' = s\<lparr>dk_faults := fl\<rparr>"
  unfolding create_parent_def
  by (auto simp: retE_def split: option.splits elim!: backend_cases dest: mkdir_frame
      intro: self_faults)

lemma lock_frame:
  assumes "lock_record p s = (r, s')" "''..'' \<notin> set (with_extension ''json.lock'' p)"
  shows "frame {with_extension ''json.lock'' p} s s'"
  using assms(1) unfolding lock_record_def
proof (cases rule: bindE_cases)
  case (1 e)
  then show ?thesis using create_parent_frame by fastforce
next
  case (2 x s1)
  then obtain fl where s1: "s1 = s\<lparr>dk_faults := fl\<rparr>" using create_parent_frame by blast
  from 2(2) show ?thesis
  proof (cases rule: bindE_cases)
    case (1 e)
    then show ?thesis using s1 open_frame [OF _ assms(2), of False s1] by (auto elim!: backend_cases)
  next
    case (2 x s2)
    then obtain fl' where "s' = s2\<lparr>dk_faults := fl'\<rparr>" by (auto elim!: backend_cases dest: tick_frame)
    then show ?thesis
      using 2(1) s1 open_frame [OF _ assms(2), of False s1]
      by (auto elim!: backend_cases intro: frame_trans)
  qed
qed

lemma publish_frame:
  assumes "publish tmp p bs s = (r, s')" "''..'' \<notin> set tmp" "''..'' \<notin> set p" "tmp \<noteq> p"
    "bt_ok (dk_files s)"
  shows "frame {tmp, p} s s' \<and>
    (bt_get (dk_files s') p = bt_get (dk_files s) p \<and> r \<noteq> Inr () \<or>
     (\<exists>f. bt_get (dk_files s') p = Some f \<and> f_bytes f = bs))"
  using assms(1) unfolding publish_def
proof (cases rule: bindE_cases)
  case (1 e)
  then have "frame {tmp} s s'" using open_frame [OF _ assms(2)] by (auto elim!: backend_cases)
  then show ?thesis using 1 assms(4,5) frame_get [of "{tmp}" s s' p] by (auto intro: frame_mono)
next
  case (2 x s1)
  then have s1: "frame {tmp} s s1" "\<exists>f. bt_get (dk_files s1) tmp = Some f \<and> f_bytes f = []"
    using open_frame [OF _ assms(2), of True s] assms(5) by (auto elim!: backend_cases)
  note ok1 = frame_ok [OF s1(1) assms(5)]
  from 2(2) show ?thesis
  proof (cases rule: bindE_cases)
    case (1 e)
    then have "frame {tmp} s1 s'" using write_frame [OF _ assms(2)] by (auto elim!: backend_cases)
    then have "frame {tmp} s s'" using s1(1) frame_trans by blast
    then show ?thesis using 1 assms(4,5) frame_get [of "{tmp}" s s' p] by (auto intro: frame_mono)
  next
    case (2 y s2)
    then have s2: "frame {tmp} s1 s2" "\<exists>f. bt_get (dk_files s2) tmp = Some f \<and> f_bytes f = bs"
      using write_frame [OF _ assms(2), of bs s1] s1(2) ok1 by (fastforce elim!: backend_cases)+
    have f2: "frame {tmp} s s2" using s1(1) s2(1) frame_trans by blast
    note ok2 = frame_ok [OF f2 assms(5)]
    have p2: "bt_get (dk_files s2) p = bt_get (dk_files s) p"
      using frame_get [OF f2 assms(5)] assms(4) by simp
    from 2(2) show ?thesis
    proof (cases rule: bindE_cases)
      case (1 e)
      then have "\<exists>fl. s' = s2\<lparr>dk_faults := fl\<rparr>" by (auto elim!: backend_cases dest: tick_frame)
      then show ?thesis using 1 f2 p2 by (auto intro: frame_mono frame_trans)
    next
      case (2 z s3)
      then obtain fl where s3: "s3 = s2\<lparr>dk_faults := fl\<rparr>" by (auto elim!: backend_cases dest: tick_frame)
      have ren: "frame {tmp, p} s s4 \<and> (bt_get (dk_files s4) p = bt_get (dk_files s) p \<and> r4 \<noteq> Inr () \<or>
          r4 = Inr () \<and> (\<exists>f. bt_get (dk_files s4) p = Some f \<and> f_bytes f = bs))"
        if "sys_rename tmp p s3 = (r4, s4)" for r4 s4
        using rename_frame [OF that assms(2-4)] ok2 s3 s2(2) p2 frame_mono [OF f2, of "{tmp, p}"]
        by (auto intro: frame_trans)
      from 2(2) show ?thesis
      proof (cases rule: bindE_cases)
        case (1 e)
        then show ?thesis using ren by (auto elim!: backend_cases)
      next
        case (2 w s4)
        then obtain fl' where "s' = s4\<lparr>dk_faults := fl'\<rparr>" using fsync_frame by blast
        then show ?thesis using 2(1) ren by (auto elim!: backend_cases intro: frame_trans)
      qed
    qed
  qed
qed

text \<open>What the locked read returns, whatever happened to the calls.\<close>

lemma read_record_frame:
  assumes "read_record_at C p s = (r, s')" "''..'' \<notin> set p"
  shows "(\<exists>fl. s' = s\<lparr>dk_faults := fl\<rparr>) \<and>
    (\<forall>cur. r = Inr cur \<longrightarrow>
      (case bt_get (dk_files s) p of
         None \<Rightarrow> cur = None | Some f \<Rightarrow> \<exists>x. rc_from C (f_bytes f) = Inr x \<and> cur = Some x))"
  using assms(1) read_frame [OF _ assms(2), of s]
  by (auto simp: read_record_at_def split: prod.splits sum.splits io_error.splits)

abbreviation heal :: "disk \<Rightarrow> disk" where
  "heal s \<equiv> s\<lparr>dk_faults := []\<rparr>"

lemma heal_views [simp]:
  "fs_abs C root (s\<lparr>dk_faults := fl\<rparr>) = fs_abs C root s" "fs_blobs root (s\<lparr>dk_faults := fl\<rparr>) = fs_blobs root s"
  "fs_clock (s\<lparr>dk_faults := fl\<rparr>) = fs_clock s"
  by (simp_all add: fs_abs_def fs_blobs_def fs_clock_def fun_eq_iff)

text \<open>The views depend on the files alone, so a change within a frame is a change to the tree.\<close>

lemma fs_inv_files:
  "fs_inv H C root (heal s') = fs_inv H C root ((heal s)\<lparr>dk_files := dk_files s'\<rparr>)"
  "fs_abs C root s' = fs_abs C root ((heal s)\<lparr>dk_files := dk_files s'\<rparr>)"
  "fs_blobs root s' = fs_blobs root ((heal s)\<lparr>dk_files := dk_files s'\<rparr>)"
  by (simp_all add: fs_inv_def fs_wf_def fs_abs_def fs_blobs_def fun_eq_iff)

lemma record_frame:
  assumes "fs_inv H C root (heal s)" "fs_valid k" "frame (insert (record_path root k) X) s s'"
    "\<forall>p \<in> X. scratch_path root p"
    "case bt_get (dk_files s') (record_path root k) of
       None \<Rightarrow> v = None | Some f \<Rightarrow> \<exists>r. rc_from C (f_bytes f) = Inr r \<and> rec_key r = k \<and> v = Some r"
  shows "fs_inv H C root (heal s') \<and> fs_abs C root s' = (fs_abs C root s)(k := v) \<and>
    fs_blobs root s' = fs_blobs root s"
proof -
  have "touched (insert (record_path root k) X) (dk_files (heal s)) (dk_files s')"
    using assms(1,3) by (simp add: frame_def fs_inv_def fs_wf_def)
  from record_change [OF assms(1,2) this assms(4,5)] show ?thesis
    by (subst fs_inv_files(1) [of _ _ _ s' s], subst fs_inv_files(2) [of _ _ s' s],
        subst fs_inv_files(3) [of _ s' s]) simp
qed

lemma record_frame_same:
  assumes "fs_inv H C root (heal s)" "fs_valid k" "frame (insert (record_path root k) X) s s'"
    "\<forall>p \<in> X. scratch_path root p"
    "bt_get (dk_files s') (record_path root k) = bt_get (dk_files s) (record_path root k)"
  shows "fs_inv H C root (heal s') \<and> fs_abs C root s' = fs_abs C root s \<and>
    fs_blobs root s' = fs_blobs root s"
proof -
  have "case bt_get (dk_files s') (record_path root k) of
       None \<Rightarrow> fs_abs C root s k = None
     | Some f \<Rightarrow> \<exists>r. rc_from C (f_bytes f) = Inr r \<and> rec_key r = k \<and> fs_abs C root s k = Some r"
  proof (cases "bt_get (dk_files s) (record_path root k)")
    case (Some f)
    then obtain r where "rc_from C (f_bytes f) = Inr r" "rec_key r = k"
      using assms(1,2) unfolding fs_inv_def by force
    with Some assms(2,5) show ?thesis by (simp add: fs_abs_def)
  qed (use assms(5) in \<open>simp add: fs_abs_def\<close>)
  from record_frame [OF assms(1-4) this] show ?thesis by simp
qed

text \<open>
  The section up to the decision: the lock file may have appeared, nothing else has changed, and if
  the record was read at all it is the stored one.
\<close>

lemma locked_start_frame:
  assumes "fs_inv H C root (heal s)" "fs_valid k"
    "bindE (lock_record (record_path root k)) (\<lambda>_. bindE (read_record_at C (record_path root k)) f) s = (res, s')"
  obtains (stopped) e where "res = Inl e" "frame {lock_path root k} s s'"
  | (decided) s1 where "frame {lock_path root k} s s1" "f (fs_abs C root s k) s1 = (res, s')"
proof -
  let ?p = "record_path root k"
  have ok: "bt_ok (dk_files s)" "root_ok root" using assms(1) by (auto simp: fs_inv_def fs_wf_def)
  have no: "''..'' \<notin> set ?p" "''..'' \<notin> set (lock_path root k)"
    using store_path_no_dots [OF ok(2)] assms(2) scratch_store by auto
  have not: "?p \<notin> {lock_path root k}"
    using scratch_not_record [OF lock_scratch [OF assms(2)] assms(2), of root] by simp
  from assms(3) show thesis
  proof (cases rule: bindE_cases)
    case (1 e)
    then show ?thesis using lock_frame no(2) stopped by (simp add: lock_path_def)
  next
    case (2 u s1)
    then have f1: "frame {lock_path root k} s s1" using lock_frame no(2) by (simp add: lock_path_def)
    have same: "bt_get (dk_files s1) ?p = bt_get (dk_files s) ?p"
      using frame_get [OF f1 ok(1) not] .
    from 2(2) show ?thesis
    proof (cases rule: bindE_cases)
      case (1 e)
      then obtain fl where "s' = s1\<lparr>dk_faults := fl\<rparr>" using read_record_frame no(1) by blast
      then show ?thesis using 1 f1 stopped by (auto intro: frame_trans)
    next
      case (2 cur s2)
      then obtain fl where s2: "s2 = s1\<lparr>dk_faults := fl\<rparr>" using read_record_frame no(1) by blast
      have "cur = fs_abs C root s k"
        using read_record_frame [OF 2(1) no(1)] same assms(2)
        by (auto simp: fs_abs_def split: option.splits)
      moreover have "frame {lock_path root k} s s2" using f1 s2 by (auto intro: frame_trans)
      ultimately show ?thesis using 2(2) decided by blast
    qed
  qed
qed

context fs_substrate
begin

lemma write_durable_frame:
  assumes "fs_inv H C root (heal s)" "fs_valid k" "rec_key r = k"
    "write_durable C (record_path root k) r s = (res, s')"
  shows "fs_inv H C root (heal s') \<and> fs_blobs root s' = fs_blobs root s \<and>
    (fs_abs C root s' = fs_abs C root s \<and> res \<noteq> Inr () \<or>
     fs_abs C root s' = (fs_abs C root s)(k \<mapsto> r))"
proof -
  let ?p = "record_path root k" and ?t = "tmp_path root k"
  have ok: "bt_ok (dk_files s)" "root_ok root" using assms(1) by (auto simp: fs_inv_def fs_wf_def)
  have no: "''..'' \<notin> set ?p" "''..'' \<notin> set ?t" "?t \<noteq> ?p"
    using store_path_no_dots [OF ok(2)] assms(2) scratch_store
      scratch_not_record [OF tmp_scratch [OF assms(2)] assms(2), of root] by auto
  obtain bs where bs: "rc_to C r = Inr bs" "rc_from C bs = Inr r" using round_trip by blast
  have run: "publish ?t ?p bs s = (res, s')"
    using assms(4) bs(1) by (simp add: write_durable_def tmp_path_def)
  have fr: "frame (insert ?p {?t}) s s'" and alt: "bt_get (dk_files s') ?p = bt_get (dk_files s) ?p \<and> res \<noteq> Inr () \<or>
     (\<exists>f. bt_get (dk_files s') ?p = Some f \<and> f_bytes f = bs)"
    using publish_frame [OF run no(2,1,3) ok(1)] by (auto simp: insert_commute)
  from alt show ?thesis
  proof
    assume "bt_get (dk_files s') ?p = bt_get (dk_files s) ?p \<and> res \<noteq> Inr ()"
    then show ?thesis using record_frame_same [OF assms(1,2) fr] assms(2) by simp
  next
    assume "\<exists>f. bt_get (dk_files s') ?p = Some f \<and> f_bytes f = bs"
    then have "fs_inv H C root (heal s') \<and> fs_abs C root s' = (fs_abs C root s)(k := Some r) \<and>
        fs_blobs root s' = fs_blobs root s"
      using assms(2,3) bs(2) by (intro record_frame [OF assms(1,2) fr]) auto
    then show ?thesis by blast
  qed
qed

text \<open>All or nothing, at any fault: \<open>pl\<close> is the plan for what was stored.\<close>

lemma put_locked_atomic:
  assumes "fs_inv H C root (heal s)" "fs_valid (rec_key r)"
    "\<And>cur t r'. plan cur r ex t (fs_cap st) = PutWrite r' \<Longrightarrow> rec_key r' = rec_key r"
    "put_locked C plan st r ex s = (res, s')"
  defines "pl \<equiv> plan (fs_abs C root s (rec_key r)) r ex (fs_clock s) (fs_cap st)"
  shows "fs_inv H C root (heal s') \<and> fs_blobs root s' = fs_blobs root s \<and>
    (fs_abs C root s' = fs_abs C root s \<or>
     fs_abs C root s' = put_effect (rec_key r) pl (fs_abs C root s)) \<and>
    (\<forall>rv. res = Inr (Committed rv) \<longrightarrow>
      fs_abs C root s' = put_effect (rec_key r) pl (fs_abs C root s) \<and>
      res = put_outcome (rec_key r) pl)"
proof -
  let ?k = "rec_key r"
  have same: "fs_inv H C root (heal s1) \<and> fs_abs C root s1 = fs_abs C root s \<and>
      fs_blobs root s1 = fs_blobs root s \<and> fs_clock s1 = fs_clock s"
    if "frame {lock_path root ?k} s s1" for s1
  proof -
    have "bt_get (dk_files s1) (record_path root ?k) = bt_get (dk_files s) (record_path root ?k)"
      using that assms(1,2) scratch_not_record [OF lock_scratch [OF assms(2)] assms(2), of root]
      by (intro frame_get) (auto simp: fs_inv_def fs_wf_def)
    moreover have "frame (insert (record_path root ?k) {lock_path root ?k}) s s1"
      using that by (rule frame_mono) simp
    moreover have "fs_clock s1 = fs_clock s" using that by (simp add: frame_def fs_clock_def)
    ultimately show ?thesis
      using record_frame_same [OF assms(1,2), of "{lock_path root ?k}" s1] assms(2) by simp
  qed
  from assms(1,2) assms(4) [unfolded put_locked_def Let_def] show ?thesis
  proof (cases rule: locked_start_frame)
    case (stopped e)
    then show ?thesis using same [OF stopped(2)] by simp
  next
    case (decided s1)
    note s1 = same [OF decided(1)]
    then have run: "(case pl of
           PutWrite stored \<Rightarrow>
             bindE (write_durable C (record_path root ?k) stored) (\<lambda>_. retE (Committed (rec_revision stored)))
         | PutPlanConflict c \<Rightarrow> retE (PutConflict c)
         | PutNotFound \<Rightarrow> throwE (NotFound ?k)
         | PutRejected m \<Rightarrow> throwE (Invalid m)) s1 = (res, s')"
      using decided(2) by (simp add: pl_def)
    show ?thesis
    proof (cases pl)
      case (PutWrite stored)
      then have key: "rec_key stored = ?k" using assms(3) by (simp add: pl_def)
      from run PutWrite have "bindE (write_durable C (record_path root ?k) stored)
          (\<lambda>_. retE (Committed (rec_revision stored))) s1 = (res, s')" by simp
      then show ?thesis
      proof (cases rule: bindE_cases)
        case (1 e)
        then show ?thesis using write_durable_frame [OF _ assms(2) key 1(1)] s1 PutWrite by auto
      next
        case (2 u s2)
        then show ?thesis using write_durable_frame [OF _ assms(2) key 2(1)] s1 PutWrite
          by (auto simp: retE_def)
      qed
    qed (use run s1 in \<open>auto simp: retE_def throwE_def\<close>)
  qed
qed

end

end
