(* ===== verification/Gz_Reset_Collect.thy ===== *)
theory Gz_Reset_Collect
  imports Gz_MemStore
begin

text \<open>
  Namespace reset (\<open>reset.rs\<close>) and tombstone collection (\<open>collect.rs\<close>), both written against the
  \<open>Store\<close> trait and proved against the store contract: on a store nobody else writes to, reset
  tombstones exactly the live records under the prefix and collection removes exactly the
  tombstones that are old enough.
\<close>

subsection \<open>Reset (\<open>reset.rs\<close>)\<close>

record reset_report =
  rr_deleted :: "record_key list"
  rr_conflicts :: "record_key list"

definition reset_report_default :: reset_report where
  "reset_report_default = \<lparr>rr_deleted = [], rr_conflicts = []\<rparr>"

primrec reset_loop ::
  "'s store_vt \<Rightarrow> key_prefix \<Rightarrow> identity option \<Rightarrow> record_key list \<Rightarrow> reset_report \<Rightarrow>
   ('s, core_error, reset_report) io" where
  "reset_loop vt p au [] rep = retE rep"
| "reset_loop vt p au (k # ks) rep =
     (if \<not> kp_matches p k then reset_loop vt p au ks rep
      else bindE (vt_get vt k) (\<lambda>cur. case cur of
        None \<Rightarrow> reset_loop vt p au ks rep
      | Some c \<Rightarrow>
          bindE (vt_delete_as vt k (Some (rec_revision c)) au) (\<lambda>d. case d of
            Deleted \<Rightarrow> reset_loop vt p au ks (rep\<lparr>rr_deleted := rr_deleted rep @ [k]\<rparr>)
          | DeleteConflict _ \<Rightarrow>
              reset_loop vt p au ks (rep\<lparr>rr_conflicts := rr_conflicts rep @ [k]\<rparr>))))"

definition reset_as ::
  "'s store_vt \<Rightarrow> key_prefix \<Rightarrow> identity option \<Rightarrow> ('s, core_error, reset_report) io" where
  "reset_as vt p au =
     (if kp_namespace p = None then throwE (Backend ''reset requires a namespace'')
      else bindE (vt_list vt p) (\<lambda>ks. reset_loop vt p au ks reset_report_default))"

definition reset :: "'s store_vt \<Rightarrow> key_prefix \<Rightarrow> ('s, core_error, reset_report) io" where
  "reset vt p = reset_as vt p None"

subsection \<open>Collection (\<open>collect.rs\<close>)\<close>

record collect_report =
  cr_purged :: "record_key list"
  cr_unstamped :: nat
  cr_conflicts :: "record_key list"

definition collect_report_default :: collect_report where
  "collect_report_default = \<lparr>cr_purged = [], cr_unstamped = 0, cr_conflicts = []\<rparr>"

definition i128_max :: int where
  "i128_max = 2 ^ 127 - 1"

definition horizon_ms :: "duration \<Rightarrow> int" where
  "horizon_ms h = (if int (as_millis h) \<le> i128_max then int (as_millis h) else i128_max)"

primrec collect_loop ::
  "'s store_vt \<Rightarrow> key_prefix \<Rightarrow> int \<Rightarrow> int \<Rightarrow> record_key list \<Rightarrow> collect_report \<Rightarrow>
   ('s, core_error, collect_report) io" where
  "collect_loop vt p hz now [] rep = retE rep"
| "collect_loop vt p hz now (k # ks) rep =
     (if \<not> kp_matches p k then collect_loop vt p hz now ks rep
      else bindE (vt_get_raw vt k) (\<lambda>cur. case cur of
        None \<Rightarrow> collect_loop vt p hz now ks rep
      | Some r \<Rightarrow>
          if \<not> is_tombstone r then collect_loop vt p hz now ks rep
          else (case rec_deleted_at r of
            None \<Rightarrow> collect_loop vt p hz now ks (rep\<lparr>cr_unstamped := cr_unstamped rep + 1\<rparr>)
          | Some at \<Rightarrow>
              if now - at < hz then collect_loop vt p hz now ks rep
              else bindE (vt_purge vt k (rec_revision r)) (\<lambda>d. case d of
                Deleted \<Rightarrow> collect_loop vt p hz now ks (rep\<lparr>cr_purged := cr_purged rep @ [k]\<rparr>)
              | DeleteConflict _ \<Rightarrow>
                  collect_loop vt p hz now ks (rep\<lparr>cr_conflicts := cr_conflicts rep @ [k]\<rparr>)))))"

definition collect ::
  "'s store_vt \<Rightarrow> key_prefix \<Rightarrow> duration \<Rightarrow> int \<Rightarrow> ('s, core_error, collect_report) io" where
  "collect vt p horizon now =
     bindE (vt_list_raw vt p)
       (\<lambda>ks. collect_loop vt p (horizon_ms horizon) now ks collect_report_default)"

text \<open>A stored record collection may remove: a stamped tombstone at least the horizon old.\<close>

definition collectable :: "int \<Rightarrow> int \<Rightarrow> rec option \<Rightarrow> bool" where
  "collectable hz now o' \<longleftrightarrow>
     (case o' of None \<Rightarrow> False
      | Some r \<Rightarrow> is_tombstone r \<and>
          (case rec_deleted_at r of None \<Rightarrow> False | Some at \<Rightarrow> hz \<le> now - at))"

definition unstamped :: "rec option \<Rightarrow> bool" where
  "unstamped o' \<longleftrightarrow>
     (case o' of None \<Rightarrow> False | Some r \<Rightarrow> is_tombstone r \<and> rec_deleted_at r = None)"

subsection \<open>What they do to a store\<close>

text \<open>What reset leaves at a key: the tombstone of its live record, or what was there.\<close>

definition reset_at :: "blake3 \<Rightarrow> nat \<Rightarrow> identity option \<Rightarrow> bool \<Rightarrow> rec option \<Rightarrow> rec option \<Rightarrow> bool" where
  "reset_at H cap au hit old new \<longleftrightarrow>
     (case live_only old of
        Some c \<Rightarrow> if hit then (\<exists>t. new = Some (tombstone_of H c t cap au)) else new = old
      | None \<Rightarrow> new = old)"

lemma reset_at_refl: "\<not> hit \<or> live_only old = None \<Longrightarrow> reset_at H cap au hit old old"
  by (auto simp: reset_at_def split: option.splits)

context planned_store
begin

lemma reset_loop_spec:
  assumes "inv s" "distinct ks" "\<forall>k \<in> set ks. vk k"
  shows "\<exists>s'. reset_loop vt p au ks rep s =
      (Inr (rep\<lparr>rr_deleted := rr_deleted rep @
        filter (\<lambda>k. kp_matches p k \<and> live_only (abs s k) \<noteq> None) ks\<rparr>), s') \<and> inv s' \<and>
    (\<forall>k. reset_at H cap au (k \<in> set ks \<and> kp_matches p k) (abs s k) (abs s' k))"
  using assms
proof (induction ks arbitrary: s rep)
  case Nil
  then show ?case by (auto simp: retE_def reset_at_refl)
next
  case (Cons k ks)
  note get = get [OF Cons.prems(1), of k]
  have rest: "distinct ks" "\<forall>k \<in> set ks. vk k" and k: "vk k" "k \<notin> set ks" using Cons.prems by auto
  show ?case
  proof (cases "kp_matches p k \<and> live_only (abs s k) \<noteq> None")
    case False
    then have "reset_loop vt p au (k # ks) rep s = reset_loop vt p au ks rep s"
      using get k by (auto simp: bindE_def)
    moreover obtain s' where IH: "reset_loop vt p au ks rep s =
      (Inr (rep\<lparr>rr_deleted := rr_deleted rep @
        filter (\<lambda>k. kp_matches p k \<and> live_only (abs s k) \<noteq> None) ks\<rparr>), s')" "inv s'"
      "\<forall>k. reset_at H cap au (k \<in> set ks \<and> kp_matches p k) (abs s k) (abs s' k)"
      using Cons.IH [OF Cons.prems(1) rest] by blast
    moreover have "reset_at H cap au (k' \<in> set (k # ks) \<and> kp_matches p k') (abs s k') (abs s' k')" for k'
      using IH(3)[rule_format, of k'] False k
      by (cases "k' = k") (auto simp: reset_at_def split: option.splits)
    ultimately show ?thesis using False by auto
  next
    case True
    then obtain c where c: "abs s k = Some c" "\<not> is_tombstone c"
      by (auto simp: live_only_eq_Some)
    obtain s1 where s1: "vt_delete_as vt k (Some (rec_revision c)) au s = (Inr Deleted, s1)"
      "inv s1" "abs s1 = (abs s)(k \<mapsto> tombstone_of H c (now s) cap au)"
      using delete_live [OF Cons.prems(1) c] by blast
    let ?rep = "rep\<lparr>rr_deleted := rr_deleted rep @ [k]\<rparr>"
    have "reset_loop vt p au (k # ks) rep s = reset_loop vt p au ks ?rep s1"
      using get k True c s1(1) by (simp add: bindE_def)
    moreover obtain s' where IH: "reset_loop vt p au ks ?rep s1 =
      (Inr (?rep\<lparr>rr_deleted := rr_deleted ?rep @
        filter (\<lambda>k. kp_matches p k \<and> live_only (abs s1 k) \<noteq> None) ks\<rparr>), s')" "inv s'"
      "\<forall>k. reset_at H cap au (k \<in> set ks \<and> kp_matches p k) (abs s1 k) (abs s' k)"
      using Cons.IH [OF s1(2) rest] by blast
    moreover have "filter (\<lambda>k. kp_matches p k \<and> live_only (abs s1 k) \<noteq> None) ks
        = filter (\<lambda>k. kp_matches p k \<and> live_only (abs s k) \<noteq> None) ks"
      by (rule filter_cong) (use k s1(3) in auto)
    moreover have "reset_at H cap au (k' \<in> set (k # ks) \<and> kp_matches p k') (abs s k') (abs s' k')" for k'
      using IH(3)[rule_format, of k'] True k c s1(3)
      by (cases "k' = k") (auto simp: reset_at_def)
    ultimately show ?thesis using True by auto
  qed
qed

lemma reset_as_spec:
  assumes "inv s" "kp_namespace p \<noteq> None"
  shows "\<exists>ks s'. reset_as vt p au s = (Inr \<lparr>rr_deleted = ks, rr_conflicts = []\<rparr>, s') \<and> inv s' \<and>
    distinct ks \<and> set ks = {k. live_only (abs s k) \<noteq> None \<and> kp_matches p k} \<and>
    (\<forall>k. reset_at H cap au (kp_matches p k) (abs s k) (abs s' k))"
proof -
  obtain ks s0 where ks: "vt_list vt p s = (Inr ks, s0)" "distinct ks"
    "set ks = {k. live_only (abs s k) \<noteq> None \<and> kp_matches p k}" and s0: "inv s0" "abs s0 = abs s"
    using list [OF assms(1)] by blast
  have valid: "\<forall>k \<in> set ks. vk k"
    using ks(3) stored_valid [OF assms(1)] by (auto simp: live_only_eq_Some)
  have "filter (\<lambda>k. kp_matches p k \<and> live_only (abs s k) \<noteq> None) ks = ks"
    using ks(3) by (auto intro: filter_True)
  with reset_loop_spec [OF s0(1) ks(2) valid, of p au reset_report_default] s0(2)
  obtain s' where s': "reset_loop vt p au ks reset_report_default s0 =
      (Inr \<lparr>rr_deleted = ks, rr_conflicts = []\<rparr>, s')" "inv s'"
    "\<forall>k. reset_at H cap au (k \<in> set ks \<and> kp_matches p k) (abs s k) (abs s' k)"
    by (auto simp: reset_report_default_def)
  have "reset_at H cap au (kp_matches p k) (abs s k) (abs s' k)" for k
    using s'(3)[rule_format, of k] ks(3) by (auto simp: reset_at_def split: option.splits if_splits)
  moreover have "reset_as vt p au s = (Inr \<lparr>rr_deleted = ks, rr_conflicts = []\<rparr>, s')"
    using assms(2) ks(1) s'(1) by (auto simp: reset_as_def bindE_def)
  ultimately show ?thesis using ks(2,3) s'(2) by blast
qed

lemma collect_loop_spec:
  assumes "inv s" "distinct ks" "\<forall>k \<in> set ks. vk k"
  shows "\<exists>s'. collect_loop vt p hz t ks rep s =
      (Inr (rep\<lparr>cr_purged := cr_purged rep @
          filter (\<lambda>k. kp_matches p k \<and> collectable hz t (abs s k)) ks,
        cr_unstamped := cr_unstamped rep +
          length (filter (\<lambda>k. kp_matches p k \<and> unstamped (abs s k)) ks)\<rparr>), s') \<and> inv s' \<and>
    abs s' = (\<lambda>k. if k \<in> set ks \<and> kp_matches p k \<and> collectable hz t (abs s k) then None else abs s k)"
  using assms
proof (induction ks arbitrary: s rep)
  case Nil
  then show ?case by (auto simp: retE_def)
next
  case (Cons k ks)
  have rest: "distinct ks" "\<forall>k \<in> set ks. vk k" and k: "vk k" "k \<notin> set ks" using Cons.prems by auto
  note get = get_raw [OF Cons.prems(1) k(1)]
  show ?case
  proof (cases "kp_matches p k \<and> collectable hz t (abs s k)")
    case False
    define rep' where "rep' = (if kp_matches p k \<and> unstamped (abs s k)
      then rep\<lparr>cr_unstamped := cr_unstamped rep + 1\<rparr> else rep)"
    have "collect_loop vt p hz t (k # ks) rep s = collect_loop vt p hz t ks rep' s"
      using get False
      by (auto simp: bindE_def collectable_def unstamped_def rep'_def split: option.splits)
    then show ?thesis
      using Cons.IH [OF Cons.prems(1) rest, of rep'] False k(2)
      by (auto simp: rep'_def fun_eq_iff)
  next
    case True
    then obtain r where r: "abs s k = Some r" by (cases "abs s k") (auto simp: collectable_def)
    obtain s1 where s1: "vt_purge vt k (rec_revision r) s = (Inr Deleted, s1)" "inv s1"
      "abs s1 = (abs s)(k := None)"
      using purge_match [OF Cons.prems(1) r] by blast
    let ?rep = "rep\<lparr>cr_purged := cr_purged rep @ [k]\<rparr>"
    have "collect_loop vt p hz t (k # ks) rep s = collect_loop vt p hz t ks ?rep s1"
      using get True r s1(1)
      by (auto simp: bindE_def collectable_def split: option.splits)
    moreover have "\<not> unstamped (abs s k)"
      using True by (auto simp: collectable_def unstamped_def split: option.splits)
    moreover have "filter (\<lambda>k. kp_matches p k \<and> collectable hz t (abs s1 k)) ks
        = filter (\<lambda>k. kp_matches p k \<and> collectable hz t (abs s k)) ks"
      "filter (\<lambda>k. kp_matches p k \<and> unstamped (abs s1 k)) ks
        = filter (\<lambda>k. kp_matches p k \<and> unstamped (abs s k)) ks"
      by (rule filter_cong; use k s1(3) in auto)+
    ultimately show ?thesis
      using Cons.IH [OF s1(2) rest, of ?rep] True k(2) s1(3) by (auto simp: fun_eq_iff)
  qed
qed

lemma collect_spec:
  assumes "inv s"
  shows "\<exists>ks n s'. collect vt p horizon t s =
      (Inr \<lparr>cr_purged = ks, cr_unstamped = n, cr_conflicts = []\<rparr>, s') \<and> inv s' \<and>
    distinct ks \<and> set ks = {k. kp_matches p k \<and> collectable (horizon_ms horizon) t (abs s k)} \<and>
    n = card {k. kp_matches p k \<and> unstamped (abs s k)} \<and>
    abs s' = (\<lambda>k. if kp_matches p k \<and> collectable (horizon_ms horizon) t (abs s k)
                  then None else abs s k)"
proof -
  let ?hz = "horizon_ms horizon"
  obtain ks where ks: "vt_list_raw vt p s = (Inr ks, s)" "distinct ks"
    "set ks = {k. abs s k \<noteq> None \<and> kp_matches p k}"
    using list_raw [OF assms] by blast
  have valid: "\<forall>k \<in> set ks. vk k" using ks(3) stored_valid [OF assms] by auto
  obtain s' where s': "collect_loop vt p ?hz t ks collect_report_default s =
      (Inr (collect_report_default
        \<lparr>cr_purged := filter (\<lambda>k. kp_matches p k \<and> collectable ?hz t (abs s k)) ks,
         cr_unstamped := length (filter (\<lambda>k. kp_matches p k \<and> unstamped (abs s k)) ks)\<rparr>), s')"
    "inv s'"
    "abs s' = (\<lambda>k. if k \<in> set ks \<and> kp_matches p k \<and> collectable ?hz t (abs s k)
       then None else abs s k)"
    using collect_loop_spec [OF assms ks(2) valid, of p ?hz t collect_report_default]
    by (auto simp: collect_report_default_def)
  have sub: "set (filter (\<lambda>k. kp_matches p k \<and> unstamped (abs s k)) ks)
      = {k. kp_matches p k \<and> unstamped (abs s k)}"
    using ks(3) by (auto simp: unstamped_def split: option.splits)
  have "length (filter (\<lambda>k. kp_matches p k \<and> unstamped (abs s k)) ks)
      = card {k. kp_matches p k \<and> unstamped (abs s k)}"
    unfolding sub [symmetric] using ks(2) by (intro distinct_card [symmetric]) simp
  moreover have "set (filter (\<lambda>k. kp_matches p k \<and> collectable ?hz t (abs s k)) ks)
      = {k. kp_matches p k \<and> collectable ?hz t (abs s k)}"
    using ks(3) by (auto simp: collectable_def split: option.splits)
  moreover have "abs s' = (\<lambda>k. if kp_matches p k \<and> collectable ?hz t (abs s k)
       then None else abs s k)"
    using s'(3) ks(3) by (auto simp: fun_eq_iff)
  moreover have "collect vt p horizon t s = (Inr
       \<lparr>cr_purged = filter (\<lambda>k. kp_matches p k \<and> collectable ?hz t (abs s k)) ks,
        cr_unstamped = length (filter (\<lambda>k. kp_matches p k \<and> unstamped (abs s k)) ks),
        cr_conflicts = []\<rparr>, s')"
    using s'(1) ks(1) by (simp add: collect_def bindE_def collect_report_default_def)
  ultimately show ?thesis using ks(2) s'(2) by (metis (no_types, lifting) distinct_filter)
qed

end

end
