(* ===== verification/Gz_Merge.thy ===== *)
theory Gz_Merge
  imports Complex_Main Gz_Record
begin

text \<open>
  Body merging (\<open>merge.rs\<close>): the strict append-only union of line-based bodies and the
  field-level three-way merge of JSON bodies.

  \<open>serde_json\<close> is a third-party crate: its parser and printer are the parameters \<open>from_slice\<close>
  and \<open>to_vec\<close> (\<open>None\<close> stands for \<open>Err\<close>). Its \<open>Value\<close> is the datatype \<open>json\<close>; the crate is
  built without \<open>preserve_order\<close>, so an object is a \<open>BTreeMap\<close>. A JSON float is a finite \<open>f64\<close>,
  a rational, and \<open>-0.0 = 0.0\<close> holds in both.
\<close>

subsection \<open>JSON values\<close>

datatype json_number = PosInt "64 word" | NegInt int | Float rat

datatype json =
    JNull | JBool bool | JNumber json_number | JString string
  | JArray "json list" | JObject "(string \<times> json) list"

definition as_object :: "json \<Rightarrow> (string \<times> json) list option" where
  "as_object v = (case v of JObject m \<Rightarrow> Some m | _ \<Rightarrow> None)"

lemma as_object_JObject [simp]: "as_object (JObject m) = Some m"
  by (simp add: as_object_def)

lemma as_object_Some [simp]: "as_object v = Some m \<longleftrightarrow> v = JObject m"
  by (auto simp: as_object_def split: json.splits)

lemma as_object_Some_sym [simp]: "Some m = as_object v \<longleftrightarrow> v = JObject m"
  using as_object_Some [of v m] by metis

lemma size_json_get: "bt_get m k = Some v \<Longrightarrow> size v < size (JObject m)"
  by (induction m) (auto split: if_splits)

subsection \<open>Three-way merge of JSON values\<close>

text \<open>
  Every call below descends into \<open>ours\<close> and \<open>theirs\<close>: a field of an object is smaller than the object.
\<close>

definition osize :: "json option \<Rightarrow> nat" where
  "osize v = (case v of None \<Rightarrow> 0 | Some x \<Rightarrow> Suc (size x))"

lemma osize_get: "osize (bt_get m k) < Suc (size (JObject m))"
  using size_json_get [of m k] by (auto simp: osize_def split: option.splits)

lemma osize_get_sum:
  "osize (bt_get oo k) + osize (bt_get tt k) \<le> size (JObject oo) + size (JObject tt)"
  using osize_get [of oo k] osize_get [of tt k] by linarith

text \<open>
  \<open>merge_keys\<close> is the loop over the sorted, deduplicated union of keys, with the output map as its
  accumulator; \<open>None\<close> is the \<open>?\<close> that leaves the loop on a conflict.
\<close>

function merge_value :: "json \<Rightarrow> json \<Rightarrow> json \<Rightarrow> json option"
  and merge_keys ::
    "(string \<times> json) list \<Rightarrow> (string \<times> json) list \<Rightarrow> (string \<times> json) list \<Rightarrow> string list \<Rightarrow>
     (string \<times> json) list \<Rightarrow> (string \<times> json) list option"
  and merge_field :: "json option \<Rightarrow> json option \<Rightarrow> json option \<Rightarrow> json option option"
where
  "merge_value base ours theirs =
     (if ours = theirs then Some ours
      else if ours = base then Some theirs
      else if theirs = base then Some ours
      else case (as_object base, as_object ours, as_object theirs) of
        (Some bo, Some oo, Some tt) \<Rightarrow>
          (case merge_keys bo oo tt
                 (vec_dedup (sort (map fst bo @ map fst oo @ map fst tt))) [] of
             None \<Rightarrow> None
           | Some out \<Rightarrow> Some (JObject out))
      | _ \<Rightarrow> None)"
| "merge_keys bo oo tt [] out = Some out"
| "merge_keys bo oo tt (k # ks) out =
     (case merge_field (bt_get bo k) (bt_get oo k) (bt_get tt k) of
        None \<Rightarrow> None
      | Some (Some v) \<Rightarrow> merge_keys bo oo tt ks (bt_insert k v out)
      | Some None \<Rightarrow> merge_keys bo oo tt ks out)"
| "merge_field base ours theirs =
     (if ours = theirs then Some ours
      else if ours = base then Some theirs
      else if theirs = base then Some ours
      else case (ours, theirs) of
        (Some o', Some t) \<Rightarrow>
          map_option Some (merge_value (case base of None \<Rightarrow> JNull | Some b \<Rightarrow> b) o' t)
      | _ \<Rightarrow> None)"
  by pat_completeness auto

termination
proof (relation "measures
    [\<lambda>x. case x of Inl (b, o', t) \<Rightarrow> 2 * (size o' + size t)
              | Inr (Inl (bo, oo, tt, ks, out)) \<Rightarrow> 2 * (size (JObject oo) + size (JObject tt)) - 1
              | Inr (Inr (b, o', t)) \<Rightarrow> 2 * (osize o' + osize t) - 2,
     \<lambda>x. case x of Inr (Inl (bo, oo, tt, ks, out)) \<Rightarrow> Suc (length ks) | _ \<Rightarrow> 0]", goal_cases)
  case (3 bo oo tt k ks out)
  have "0 < size (JObject oo)" "0 < size (JObject tt)" by simp_all
  then show ?case
    using osize_get_sum [of oo k tt] by (simp del: json.size, linarith)
qed (auto simp: osize_def)

declare merge_value.simps [simp del] merge_field.simps [simp del]

definition structured_merge ::
  "(bytes \<Rightarrow> json option) \<Rightarrow> (json \<Rightarrow> bytes option) \<Rightarrow> body \<Rightarrow> body \<Rightarrow> body \<Rightarrow> body option" where
  "structured_merge from_slice to_vec base ours theirs =
     (case (from_slice (body_bytes base), from_slice (body_bytes ours), from_slice (body_bytes theirs)) of
        (Some b, Some o', Some t) \<Rightarrow>
          (case merge_value b o' t of
             Some merged \<Rightarrow> map_option Inline (to_vec merged)
           | None \<Rightarrow> None)
      | _ \<Rightarrow> None)"

subsection \<open>Append-only merge of line-based bodies\<close>

definition nl :: char where
  "nl = CHR 0x0A"

text \<open>\<open>split_lines\<close>: the loop over the bytes; \<open>cur\<close> is the slice from \<open>start\<close> to the current byte.\<close>

fun split_loop :: "bytes \<Rightarrow> bytes \<Rightarrow> bytes list" where
  "split_loop cur [] = (if cur = [] then [] else [cur])"
| "split_loop cur (b # bs) =
     (if b = nl then (cur @ [b]) # split_loop [] bs else split_loop (cur @ [b]) bs)"

definition split_lines :: "bytes \<Rightarrow> bytes list" where
  "split_lines bs = split_loop [] bs"

definition strip_nl :: "bytes \<Rightarrow> bytes" where
  "strip_nl line = (if line \<noteq> [] \<and> last line = nl then butlast line else line)"

definition shared_lines :: "bytes list \<Rightarrow> bytes list \<Rightarrow> nat" where
  "shared_lines os ts = length (takeWhile (\<lambda>(o', t). strip_nl o' = strip_nl t) (zip os ts))"

definition append_only_bytes :: "bytes \<Rightarrow> bytes \<Rightarrow> bytes" where
  "append_only_bytes ours theirs =
     (let ours_lines = split_lines ours; theirs_lines = split_lines theirs;
          tail = drop (shared_lines ours_lines theirs_lines) theirs_lines;
          out = (if tail \<noteq> [] \<and> ours \<noteq> [] \<and> last ours \<noteq> nl then ours @ [nl] else ours)
      in out @ concat tail)"

definition append_only_merge :: "body \<Rightarrow> body \<Rightarrow> body \<Rightarrow> body option" where
  "append_only_merge base ours theirs =
     Some (Inline (append_only_bytes (body_bytes ours) (body_bytes theirs)))"

text \<open>\<open>merge\<close>: \<open>Some\<close> is \<open>MergeOutcome::Merged\<close>, \<open>None\<close> is \<open>NeedsResolution\<close>.\<close>

fun merge ::
  "(bytes \<Rightarrow> json option) \<Rightarrow> (json \<Rightarrow> bytes option) \<Rightarrow> merge_class_t \<Rightarrow> body \<Rightarrow> body \<Rightarrow> body \<Rightarrow>
   body option" where
  "merge from_slice to_vec AppendOnly base ours theirs = append_only_merge base ours theirs"
| "merge from_slice to_vec Structured base ours theirs =
     structured_merge from_slice to_vec base ours theirs"
| "merge from_slice to_vec Opaque base ours theirs = None"
| "merge from_slice to_vec Derived base ours theirs = Some ours"

subsection \<open>Facts about lines\<close>

lemma concat_split_loop: "concat (split_loop cur bs) = cur @ bs"
  by (induction cur bs rule: split_loop.induct) auto

lemma concat_split_lines: "concat (split_lines bs) = bs"
  by (simp add: split_lines_def concat_split_loop)

lemma split_loop_append_nl:
  "split_loop cur (xs @ nl # ys) = split_loop cur (xs @ [nl]) @ split_loop [] ys"
  by (induction xs arbitrary: cur) auto

lemma split_lines_append:
  assumes "xs = [] \<or> last xs = nl"
  shows "split_lines (xs @ ys) = split_lines xs @ split_lines ys"
proof (cases "xs = []")
  case False
  with assms obtain zs where "xs = zs @ [nl]" by (metis append_butlast_last_id)
  then show ?thesis
    using split_loop_append_nl [of "[]" zs ys] by (simp add: split_lines_def)
qed (simp add: split_lines_def)

text \<open>Terminating an unterminated last line does not change the line contents.\<close>

lemma strip_split_loop_add_nl:
  "cur @ bs \<noteq> [] \<Longrightarrow> last (cur @ bs) \<noteq> nl \<Longrightarrow>
   map strip_nl (split_loop cur (bs @ [nl])) = map strip_nl (split_loop cur bs)"
proof (induction cur bs rule: split_loop.induct)
  case (2 cur b bs)
  show ?case
  proof (cases "b = nl")
    case True
    with 2(4) have "bs \<noteq> []" by auto
    with 2 True show ?thesis by auto
  next
    case False
    with 2 show ?thesis by auto
  qed
qed (simp add: strip_nl_def)

lemma strip_split_lines_add_nl:
  "bs \<noteq> [] \<Longrightarrow> last bs \<noteq> nl \<Longrightarrow>
   map strip_nl (split_lines (bs @ [nl])) = map strip_nl (split_lines bs)"
  using strip_split_loop_add_nl [of "[]" bs] by (simp add: split_lines_def)

text \<open>A suffix of a line list is the line list of its concatenation.\<close>

lemma split_loop_first:
  "cur @ bs \<noteq> [] \<Longrightarrow> \<exists>l rest. split_loop cur bs = l # split_loop [] rest"
proof (induction cur bs rule: split_loop.induct)
  case (1 cur)
  have "split_loop cur [] = cur # split_loop [] []" using 1 by simp
  then show ?case by blast
next
  case (2 cur b bs)
  then show ?case by (cases "b = nl") auto
qed

lemma split_lines_cases:
  assumes "bs \<noteq> []"
  obtains l rest where "split_lines bs = l # split_lines rest"
  using split_loop_first [of "[]" bs] assms by (auto simp: split_lines_def)

lemma split_lines_drop: "split_lines (concat (drop n (split_lines bs))) = drop n (split_lines bs)"
proof (induction n arbitrary: bs)
  case 0
  then show ?case by (simp add: concat_split_lines)
next
  case (Suc n)
  show ?case
  proof (cases "bs = []")
    case True
    then show ?thesis by (simp add: split_lines_def)
  next
    case False
    then obtain l rest where "split_lines bs = l # split_lines rest" by (rule split_lines_cases)
    with Suc.IH [of rest] show ?thesis by simp
  qed
qed

lemma takeWhile_zip_take:
  "map f (take (length (takeWhile (\<lambda>(a, b). f a = f b) (zip xs ys))) xs) =
   map f (take (length (takeWhile (\<lambda>(a, b). f a = f b) (zip xs ys))) ys)"
proof (induction xs arbitrary: ys)
  case (Cons x xs)
  then show ?case by (cases ys) auto
qed simp

text \<open>The line contents of the merge: those of \<open>ours\<close>, then the diverging tail of \<open>theirs\<close>.\<close>

lemma append_only_lines:
  "map strip_nl (split_lines (append_only_bytes ours theirs)) =
     map strip_nl (split_lines ours) @
     drop (shared_lines (split_lines ours) (split_lines theirs)) (map strip_nl (split_lines theirs))"
proof -
  let ?n = "shared_lines (split_lines ours) (split_lines theirs)"
  let ?tail = "drop ?n (split_lines theirs)"
  let ?out = "if ?tail \<noteq> [] \<and> ours \<noteq> [] \<and> last ours \<noteq> nl then ours @ [nl] else ours"
  have bytes: "append_only_bytes ours theirs = ?out @ concat ?tail"
    by (simp add: append_only_bytes_def Let_def)
  show ?thesis
  proof (cases "?tail = []")
    case True
    then show ?thesis by (simp add: bytes drop_map)
  next
    case False
    then have "?out = [] \<or> last ?out = nl" by auto
    then have "split_lines (append_only_bytes ours theirs) = split_lines ?out @ ?tail"
      by (simp only: bytes split_lines_append split_lines_drop)
    moreover have "map strip_nl (split_lines ?out) = map strip_nl (split_lines ours)"
      by (auto simp: strip_split_lines_add_nl)
    ultimately show ?thesis by (simp add: drop_map)
  qed
qed

lemma shared_lines_take:
  "map strip_nl (take (shared_lines os ts) os) = map strip_nl (take (shared_lines os ts) ts)"
  unfolding shared_lines_def by (rule takeWhile_zip_take)

lemma append_only_subseq:
  "subseq (map strip_nl (split_lines theirs)) (map strip_nl (split_lines (append_only_bytes ours theirs)))"
proof -
  let ?o = "split_lines ours" and ?t = "split_lines theirs"
  let ?n = "shared_lines ?o ?t"
  have "map strip_nl ?t = map strip_nl (take ?n ?t) @ drop ?n (map strip_nl ?t)"
    by (simp add: take_map drop_map flip: map_append)
  also have "\<dots> = map strip_nl (take ?n ?o) @ drop ?n (map strip_nl ?t)"
    by (simp only: shared_lines_take [of ?o ?t])
  finally have eq: "map strip_nl ?t = map strip_nl (take ?n ?o) @ drop ?n (map strip_nl ?t)" .
  have "subseq (map strip_nl (take ?n ?o)) (map strip_nl ?o)"
    by (metis prefix_imp_subseq take_is_prefix take_map)
  then show ?thesis
    by (subst eq) (simp add: append_only_lines list_emb_append_mono)
qed

subsection \<open>Facts about the three-way merge\<close>

lemma vec_dedup_sort: "vec_dedup (sort xs) = sorted_list_of_set (set xs)"
proof (rule sorted_wrt_less_unique)
  have "sorted_wrt (\<lambda>a b. a \<le> b \<and> a \<noteq> b) (vec_dedup (sort xs))"
    by (rule sorted_wrt_vec_dedup) auto
  then show "sorted_wrt (<) (vec_dedup (sort xs))"
    by (rule sorted_wrt_mono_rel [rotated]) auto
qed simp_all

text \<open>The merge does not depend on which side is called \<open>ours\<close>.\<close>

lemma merge_sym:
  "merge_value b o' t = merge_value b t o'"
  "merge_keys bo oo tt ks out = merge_keys bo tt oo ks out"
  "merge_field fb fo ft = merge_field fb ft fo"
proof (induction b o' t and bo oo tt ks out and fb fo ft
    rule: merge_value_merge_keys_merge_field.induct)
  case (1 base ours theirs)
  have keys: "vec_dedup (sort (map fst bo @ map fst oo @ map fst tt))
      = vec_dedup (sort (map fst bo @ map fst tt @ map fst oo))"
    for bo oo tt :: "(string \<times> json) list"
    unfolding vec_dedup_sort by (simp add: Un_left_commute Un_commute)
  show ?case
  proof (cases "ours = theirs \<or> ours = base \<or> theirs = base")
    case True
    then show ?thesis by (auto simp: merge_value.simps)
  next
    case False
    show ?thesis
    proof (cases "\<exists>bo oo tt. base = JObject bo \<and> ours = JObject oo \<and> theirs = JObject tt")
      case True
      then obtain bo oo tt where obj: "base = JObject bo" "ours = JObject oo" "theirs = JObject tt"
        by blast
      let ?ks = "vec_dedup (sort (map fst bo @ map fst oo @ map fst tt))"
      have "merge_keys bo oo tt ?ks [] = merge_keys bo tt oo ?ks []"
        using 1 False by (simp add: obj)
      with False show ?thesis
        by (simp add: merge_value.simps [of "JObject bo" "JObject oo"]
            merge_value.simps [of "JObject bo" "JObject tt"] obj keys [of bo tt oo] eq_commute)
    next
      case obj: False
      then have "as_object base = None \<or> as_object ours = None \<or> as_object theirs = None"
        by (metis as_object_Some not_None_eq)
      with False show ?thesis
        by (auto simp: merge_value.simps [of base ours] merge_value.simps [of base theirs]
            split: option.splits)
    qed
  qed
next
  case (3 bo oo tt k ks out)
  then show ?case by (auto split: option.splits)
next
  case (4 base ours theirs)
  show ?case
  proof (cases "ours = theirs \<or> ours = base \<or> theirs = base")
    case True
    then show ?thesis by (auto simp: merge_field.simps)
  next
    case False
    with 4 show ?thesis
      by (cases ours; cases theirs)
        (auto simp: merge_field.simps)
  qed
qed simp

lemma merge_field_same [simp]: "merge_field b x x = Some x"
  by (simp add: merge_field.simps)

lemma merge_field_ours [simp]: "merge_field b x b = Some x"
  by (simp add: merge_field.simps)

lemma merge_field_theirs [simp]: "merge_field b b x = Some x"
  by (simp add: merge_field.simps)

text \<open>The loop over the keys puts exactly the merged fields into the output map.\<close>

lemma merge_keys_spec:
  assumes "merge_keys bo oo tt ks out = Some out'" "bt_ok out" "distinct ks"
    "\<And>k. k \<in> set ks \<Longrightarrow> bt_get out k = None"
  shows "bt_ok out' \<and>
    (\<forall>k. if k \<in> set ks
         then merge_field (bt_get bo k) (bt_get oo k) (bt_get tt k) = Some (bt_get out' k)
         else bt_get out' k = bt_get out k)"
  using assms
proof (induction ks arbitrary: out)
  case (Cons k ks)
  obtain fv where fv: "merge_field (bt_get bo k) (bt_get oo k) (bt_get tt k) = Some fv"
    using Cons.prems(1) by (auto split: option.splits)
  define mid where "mid = (case fv of Some v \<Rightarrow> bt_insert k v out | None \<Rightarrow> out)"
  have step: "merge_keys bo oo tt ks mid = Some out'"
    using Cons.prems(1) fv by (auto simp: mid_def split: option.splits)
  have mid: "bt_ok mid" "bt_get mid = (bt_get out)(k := fv)"
    using Cons.prems(2,4) by (auto simp: mid_def fun_eq_iff split: option.splits)
  have "\<And>k'. k' \<in> set ks \<Longrightarrow> bt_get mid k' = None"
    using Cons.prems(3,4) by (auto simp: mid)
  from Cons.IH [OF step mid(1) _ this] Cons.prems(3)
  show ?case using fv by (auto simp: mid)
qed auto

lemma merge_keys_None:
  "merge_keys bo oo tt ks out = None \<Longrightarrow>
   \<exists>k \<in> set ks. merge_field (bt_get bo k) (bt_get oo k) (bt_get tt k) = None"
  by (induction ks arbitrary: out) (auto split: option.splits)

definition object_keys :: "(string \<times> json) list \<Rightarrow> (string \<times> json) list \<Rightarrow> (string \<times> json) list \<Rightarrow> string set" where
  "object_keys bo oo tt = fst ` set bo \<union> fst ` set oo \<union> fst ` set tt"

lemma merge_value_objects:
  assumes "merge_value (JObject bo) (JObject oo) (JObject tt) = Some m"
  shows "\<exists>out. m = JObject out \<and>
    (\<forall>k. merge_field (bt_get bo k) (bt_get oo k) (bt_get tt k) = Some (bt_get out k))"
proof (cases "oo = tt \<or> oo = bo \<or> tt = bo")
  case True
  with assms show ?thesis by (auto simp: merge_value.simps split: if_splits)
next
  case False
  let ?ks = "vec_dedup (sort (map fst bo @ map fst oo @ map fst tt))"
  have ks: "distinct ?ks" "set ?ks = object_keys bo oo tt"
    unfolding vec_dedup_sort by (auto simp: object_keys_def)
  from assms False obtain out where m: "m = JObject out"
    and run: "merge_keys bo oo tt ?ks [] = Some out"
    by (auto simp: merge_value.simps split: option.splits if_splits)
  have spec: "if k \<in> set ?ks
      then merge_field (bt_get bo k) (bt_get oo k) (bt_get tt k) = Some (bt_get out k)
      else bt_get out k = None" for k
    using merge_keys_spec [OF run _ ks(1)] by simp
  have "merge_field (bt_get bo k) (bt_get oo k) (bt_get tt k) = Some (bt_get out k)" for k
  proof (cases "k \<in> set ?ks")
    case False
    then have "bt_get bo k = None" "bt_get oo k = None" "bt_get tt k = None"
      by (auto simp: ks(2) object_keys_def map_of_eq_None_iff)
    then show ?thesis using spec [of k] False by simp
  qed (use spec [of k] in simp)
  with m show ?thesis by blast
qed

lemma merge_value_conflict:
  assumes "merge_value (JObject bo) (JObject oo) (JObject tt) = None"
  shows "\<exists>k. merge_field (bt_get bo k) (bt_get oo k) (bt_get tt k) = None"
  using assms
  by (auto simp: merge_value.simps split: if_splits option.splits dest!: merge_keys_None)

lemma merge_field_conflict:
  "merge_field b o' t = None \<Longrightarrow> o' \<noteq> b \<and> t \<noteq> b \<and> o' \<noteq> t"
  by auto

end
