(* ===== verification/Gz_Sync.thy ===== *)
theory Gz_Sync
  imports Gz_MemStore Gz_Merge
begin

text \<open>
  Reconciling two stores (\<open>sync.rs\<close>). The state of a run is the triple of the two stores and the
  ancestry blob store; \<open>onA\<close>, \<open>onB\<close> and \<open>onU\<close> run a call on one of them. The stores are arbitrary
  \<open>store_vt\<close>s, so a store whose calls let a concurrent writer in between is covered by the
  definitions; the convergence theorems are for two stores that meet the contract and that only
  sync writes to during the pass.
\<close>

subsection \<open>Reports\<close>

record sync_conflict =
  sc_key :: record_key
  sc_a :: rec
  sc_b :: rec

record sync_report =
  copied_to_a :: "record_key list"
  copied_to_b :: "record_key list"
  fast_forwarded_to_a :: "record_key list"
  fast_forwarded_to_b :: "record_key list"
  merged :: "record_key list"
  conflicts :: "sync_conflict list"
  unconverged :: "record_key list"

definition sync_report_default :: sync_report where
  "sync_report_default =
     \<lparr>copied_to_a = [], copied_to_b = [], fast_forwarded_to_a = [], fast_forwarded_to_b = [],
      merged = [], conflicts = [], unconverged = []\<rparr>"

definition converged :: "sync_report \<Rightarrow> bool" where
  "converged rep \<longleftrightarrow> unconverged rep = []"

definition MAX_SYNC_PASSES :: nat where
  "MAX_SYNC_PASSES = 16"

subsection \<open>The pieces of a pass\<close>

definition onA :: "('s, 'e, 'a) io \<Rightarrow> ('s \<times> 't \<times> 'u, 'e, 'a) io" where
  "onA m = (\<lambda>(s, t, u). case m s of (r, s') \<Rightarrow> (r, (s', t, u)))"

definition onB :: "('t, 'e, 'a) io \<Rightarrow> ('s \<times> 't \<times> 'u, 'e, 'a) io" where
  "onB m = (\<lambda>(s, t, u). case m t of (r, t') \<Rightarrow> (r, (s, t', u)))"

definition onU :: "('u, 'e, 'a) io \<Rightarrow> ('s \<times> 't \<times> 'u, 'e, 'a) io" where
  "onU m = (\<lambda>(s, t, u). case m u of (r, u') \<Rightarrow> (r, (s, t, u')))"

text \<open>The base never fails: a failed or empty lookup falls back to the empty body.\<close>

definition ancestry_base ::
  "'u blob_vt option \<Rightarrow> rec \<Rightarrow> rec \<Rightarrow> 'u \<Rightarrow> body \<times> 'u" where
  "ancestry_base anc a b u =
     (case (anc, rec_parent a, rec_parent b) of
        (Some bv, Some pa, Some pb) \<Rightarrow>
          if pa = pb then
            (case bv_get_blob bv (rev_hash pa) u of
               (Inr (Some bs), u') \<Rightarrow> (Inline bs, u')
             | (_, u') \<Rightarrow> (Inline [], u'))
          else (Inline [], u)
      | _ \<Rightarrow> (Inline [], u))"

datatype relation = InSync | AAhead | BAhead | Diverged

definition relate :: "rec \<Rightarrow> rec \<Rightarrow> relation" where
  "relate a b =
     (if rec_revision a = rec_revision b then InSync
      else if rec_revision b \<in> set (rec_ancestors a) then AAhead
      else if rec_revision a \<in> set (rec_ancestors b) then BAhead
      else Diverged)"

definition lossless_cap :: "rec \<Rightarrow> rec \<Rightarrow> nat" where
  "lossless_cap a b = length (rec_ancestors a) + length (rec_ancestors b) + 2"

definition sync_copy :: "'s store_vt \<Rightarrow> rec \<Rightarrow> ('s, core_error, bool) io" where
  "sync_copy dst r =
     bindE (vt_put_raw dst r None)
       (\<lambda>res. retE (case res of Committed _ \<Rightarrow> True | PutConflict _ \<Rightarrow> False))"

definition overwrite :: "'s store_vt \<Rightarrow> rec \<Rightarrow> revision \<Rightarrow> ('s, core_error, bool) io" where
  "overwrite dst r expected s =
     (case vt_put_raw dst r (Some expected) s of
        (Inr (Committed _), s') \<Rightarrow> (Inr True, s')
      | (Inr (PutConflict _), s') \<Rightarrow> (Inr False, s')
      | (Inl (NotFound _), s') \<Rightarrow> (Inr False, s')
      | (Inl e, s') \<Rightarrow> (Inl e, s'))"

definition build_merged :: "blake3 \<Rightarrow> rec \<Rightarrow> rec \<Rightarrow> body \<Rightarrow> rec" where
  "build_merged H a b bd =
     reconciled_record H a b bd (identity_new ''gonzalo-sync'') ''sync'' (lossless_cap a b)"

type_synonym sync_acc = "sync_report \<times> record_key list"

text \<open>\<open>overwrite(a, ..).await?; overwrite(b, ..).await?\<close>, then \<open>la && lb\<close>.\<close>

definition overwrite_both ::
  "'s store_vt \<Rightarrow> 't store_vt \<Rightarrow> rec \<Rightarrow> revision \<Rightarrow> revision \<Rightarrow>
   ('s \<times> 't \<times> 'u, core_error, bool) io" where
  "overwrite_both A B r reva revb =
     bindE (onA (overwrite A r reva)) (\<lambda>la.
     bindE (onB (overwrite B r revb)) (\<lambda>lb. retE (la \<and> lb)))"

definition sync_diverged ::
  "blake3 \<Rightarrow> (bytes \<Rightarrow> json option) \<Rightarrow> (json \<Rightarrow> bytes option) \<Rightarrow> 's store_vt \<Rightarrow> 't store_vt \<Rightarrow>
   'u blob_vt option \<Rightarrow> record_key \<Rightarrow> rec \<Rightarrow> rec \<Rightarrow> sync_acc \<Rightarrow>
   ('s \<times> 't \<times> 'u, core_error, sync_acc) io" where
  "sync_diverged H fs tv A B anc k a b acc =
     (case acc of (rep, raced) \<Rightarrow>
      if is_tombstone a \<and> is_tombstone b then
        bindE (overwrite_both A B (tombstone_winner a b (lossless_cap a b))
                 (rec_revision a) (rec_revision b)) (\<lambda>ok.
          retE (if ok then (rep\<lparr>merged := merged rep @ [k]\<rparr>, raced) else (rep, raced @ [k])))
      else if is_tombstone a \<or> is_tombstone b then
        retE (rep\<lparr>conflicts := conflicts rep @ [\<lparr>sc_key = k, sc_a = a, sc_b = b\<rparr>]\<rparr>, raced)
      else
        (\<lambda>(s, t, u). case ancestry_base anc a b u of (base, u') \<Rightarrow>
          (case merge fs tv (merge_class (rec_kind a)) base (rec_body a) (rec_body b) of
             Some bd \<Rightarrow>
               bindE (overwrite_both A B (build_merged H a b bd) (rec_revision a) (rec_revision b))
                 (\<lambda>ok. retE (if ok then (rep\<lparr>merged := merged rep @ [k]\<rparr>, raced)
                             else (rep, raced @ [k]))) (s, t, u')
           | None \<Rightarrow>
               retE (rep\<lparr>conflicts := conflicts rep @ [\<lparr>sc_key = k, sc_a = a, sc_b = b\<rparr>]\<rparr>, raced)
                 (s, t, u'))))"

definition sync_key ::
  "blake3 \<Rightarrow> (bytes \<Rightarrow> json option) \<Rightarrow> (json \<Rightarrow> bytes option) \<Rightarrow> 's store_vt \<Rightarrow> 't store_vt \<Rightarrow>
   'u blob_vt option \<Rightarrow> record_key \<Rightarrow> sync_acc \<Rightarrow> ('s \<times> 't \<times> 'u, core_error, sync_acc) io" where
  "sync_key H fs tv A B anc k acc =
     bindE (onA (vt_get_raw A k)) (\<lambda>ra.
     bindE (onB (vt_get_raw B k)) (\<lambda>rb.
       case acc of (rep, raced) \<Rightarrow>
       (case (ra, rb) of
          (Some r, None) \<Rightarrow>
            bindE (onB (sync_copy B r)) (\<lambda>ok.
              retE (if ok then (rep\<lparr>copied_to_b := copied_to_b rep @ [k]\<rparr>, raced)
                    else (rep, raced @ [k])))
        | (None, Some r) \<Rightarrow>
            bindE (onA (sync_copy A r)) (\<lambda>ok.
              retE (if ok then (rep\<lparr>copied_to_a := copied_to_a rep @ [k]\<rparr>, raced)
                    else (rep, raced @ [k])))
        | (Some a, Some b) \<Rightarrow>
            (case relate a b of
               InSync \<Rightarrow> retE (rep, raced)
             | AAhead \<Rightarrow>
                 bindE (onB (overwrite B a (rec_revision b))) (\<lambda>ok.
                   retE (if ok
                     then (rep\<lparr>fast_forwarded_to_b := fast_forwarded_to_b rep @ [k]\<rparr>, raced)
                     else (rep, raced @ [k])))
             | BAhead \<Rightarrow>
                 bindE (onA (overwrite A b (rec_revision a))) (\<lambda>ok.
                   retE (if ok
                     then (rep\<lparr>fast_forwarded_to_a := fast_forwarded_to_a rep @ [k]\<rparr>, raced)
                     else (rep, raced @ [k])))
             | Diverged \<Rightarrow> sync_diverged H fs tv A B anc k a b (rep, raced))
        | (None, None) \<Rightarrow> retE (rep, raced))))"

primrec sync_keys ::
  "blake3 \<Rightarrow> (bytes \<Rightarrow> json option) \<Rightarrow> (json \<Rightarrow> bytes option) \<Rightarrow> 's store_vt \<Rightarrow> 't store_vt \<Rightarrow>
   'u blob_vt option \<Rightarrow> record_key list \<Rightarrow> sync_acc \<Rightarrow> ('s \<times> 't \<times> 'u, core_error, sync_acc) io" where
  "sync_keys H fs tv A B anc [] acc = retE acc"
| "sync_keys H fs tv A B anc (k # ks) acc =
     bindE (sync_key H fs tv A B anc k acc) (\<lambda>acc'. sync_keys H fs tv A B anc ks acc')"

definition sync_pass ::
  "blake3 \<Rightarrow> (bytes \<Rightarrow> json option) \<Rightarrow> (json \<Rightarrow> bytes option) \<Rightarrow> 's store_vt \<Rightarrow> 't store_vt \<Rightarrow>
   'u blob_vt option \<Rightarrow> ('s \<times> 't \<times> 'u, core_error, sync_acc) io" where
  "sync_pass H fs tv A B anc =
     bindE (onA (vt_list_raw A kp_default)) (\<lambda>ka.
     bindE (onB (vt_list_raw B kp_default)) (\<lambda>kb.
       sync_keys H fs tv A B anc (bts_of_list (ka @ kb)) (sync_report_default, [])))"

text \<open>The pass loop of \<open>sync_with_ancestry\<close>, counting the passes left.\<close>

primrec sync_loop ::
  "blake3 \<Rightarrow> (bytes \<Rightarrow> json option) \<Rightarrow> (json \<Rightarrow> bytes option) \<Rightarrow> 's store_vt \<Rightarrow> 't store_vt \<Rightarrow>
   'u blob_vt option \<Rightarrow> nat \<Rightarrow> sync_report \<Rightarrow> ('s \<times> 't \<times> 'u, core_error, sync_report) io" where
  "sync_loop H fs tv A B anc 0 report = retE report"
| "sync_loop H fs tv A B anc (Suc n) report =
     bindE (sync_pass H fs tv A B anc) (\<lambda>(pass, raced).
       if raced = [] then retE pass
       else sync_loop H fs tv A B anc n (pass\<lparr>unconverged := raced\<rparr>))"

definition sync_with_ancestry ::
  "blake3 \<Rightarrow> (bytes \<Rightarrow> json option) \<Rightarrow> (json \<Rightarrow> bytes option) \<Rightarrow> 's store_vt \<Rightarrow> 't store_vt \<Rightarrow>
   'u blob_vt option \<Rightarrow> ('s \<times> 't \<times> 'u, core_error, sync_report) io" where
  "sync_with_ancestry H fs tv A B anc =
     sync_loop H fs tv A B anc MAX_SYNC_PASSES sync_report_default"

definition sync ::
  "blake3 \<Rightarrow> (bytes \<Rightarrow> json option) \<Rightarrow> (json \<Rightarrow> bytes option) \<Rightarrow> 's store_vt \<Rightarrow> 't store_vt \<Rightarrow>
   ('s \<times> 't \<times> unit, core_error, sync_report) io" where
  "sync H fs tv A B = sync_with_ancestry H fs tv A B None"

lemmas sync_io = bindE_def retE_def onA_def onB_def onU_def

text \<open>
  No step of a pass writes \<open>unconverged\<close>: only the loop does, on a pass that lost a race. This holds
  for every pair of stores, whatever happens to them between the calls.
\<close>

lemma sync_diverged_unconverged:
  "sync_diverged H fs tv A B anc k a b (rep, raced) st = (Inr (rep', raced'), st') \<Longrightarrow>
   unconverged rep' = unconverged rep"
  by (auto simp: sync_diverged_def bindE_def retE_def
      split: if_splits prod.splits sum.splits option.splits)

lemma sync_key_unconverged:
  "sync_key H fs tv A B anc k (rep, raced) st = (Inr (rep', raced'), st') \<Longrightarrow>
   unconverged rep' = unconverged rep"
  by (auto simp: sync_key_def bindE_def retE_def dest: sync_diverged_unconverged
      split: if_splits prod.splits sum.splits option.splits relation.splits)

lemma sync_keys_unconverged:
  "sync_keys H fs tv A B anc ks (rep, raced) st = (Inr (rep', raced'), st') \<Longrightarrow>
   unconverged rep' = unconverged rep"
proof (induction ks arbitrary: rep raced st)
  case (Cons k ks)
  then show ?case
    by (auto simp: bindE_def split: prod.splits sum.splits dest!: sync_key_unconverged)
qed (simp add: retE_def)

lemma sync_pass_unconverged:
  "sync_pass H fs tv A B anc st = (Inr (rep, raced), st') \<Longrightarrow> unconverged rep = []"
  by (auto simp: sync_pass_def bindE_def sync_report_default_def
      split: prod.splits sum.splits dest!: sync_keys_unconverged)

lemma sync_loop_converged:
  assumes "sync_loop H fs tv A B anc n rep0 st = (Inr rep, st')" "converged rep"
    "0 < n \<or> \<not> converged rep0"
  shows "\<exists>st1. sync_pass H fs tv A B anc st1 = (Inr (rep, []), st')"
  using assms
proof (induction n arbitrary: rep0 st)
  case (Suc n)
  then obtain pass raced st1 where p: "sync_pass H fs tv A B anc st = (Inr (pass, raced), st1)"
    by (auto simp: bindE_def split: prod.splits sum.splits)
  show ?case
  proof (cases "raced = []")
    case True
    with p Suc.prems(1) have "sync_pass H fs tv A B anc st = (Inr (rep, []), st')"
      by (simp add: bindE_def retE_def)
    then show ?thesis by blast
  next
    case False
    with p Suc.prems(1) have "sync_loop H fs tv A B anc n (pass\<lparr>unconverged := raced\<rparr>) st1 = (Inr rep, st')"
      by (simp add: bindE_def)
    from Suc.IH [OF this Suc.prems(2)] False show ?thesis by (simp add: converged_def)
  qed
qed (auto simp: retE_def)

text \<open>A pass that loses no race ends the run with its own report.\<close>

lemma sync_loop_clean:
  "sync_pass H fs tv A B anc st = (Inr (rep, []), st') \<Longrightarrow> 0 < n \<Longrightarrow>
   sync_loop H fs tv A B anc n rep0 st = (Inr rep, st')"
  by (cases n) (simp_all add: bindE_def retE_def)

subsection \<open>The decision sync makes for one key\<close>

text \<open>
  The abstract specification: from the two stored records and the merge base, the records both
  stores hold afterwards (\<open>Agree\<close>), or the two records neither of which is written (\<open>Clash\<close>).
\<close>

datatype sync_outcome = Agree "rec option" "rec option" | Clash rec rec

definition write_both :: "nat \<Rightarrow> nat \<Rightarrow> rec \<Rightarrow> rec \<Rightarrow> rec \<Rightarrow> sync_outcome" where
  "write_both ca cb a b r =
     Agree (Some (with_folded (Some a) ca r)) (Some (with_folded (Some b) cb r))"

definition reconcile ::
  "blake3 \<Rightarrow> (bytes \<Rightarrow> json option) \<Rightarrow> (json \<Rightarrow> bytes option) \<Rightarrow> nat \<Rightarrow> nat \<Rightarrow> body \<Rightarrow>
   rec option \<Rightarrow> rec option \<Rightarrow> sync_outcome" where
  "reconcile H fs tv ca cb base ra rb =
     (case (ra, rb) of
        (None, None) \<Rightarrow> Agree None None
      | (Some r, None) \<Rightarrow> Agree (Some r) (Some (with_folded None cb r))
      | (None, Some r) \<Rightarrow> Agree (Some (with_folded None ca r)) (Some r)
      | (Some a, Some b) \<Rightarrow>
          (case relate a b of
             InSync \<Rightarrow> Agree (Some a) (Some b)
           | AAhead \<Rightarrow> Agree (Some a) (Some (with_folded (Some b) cb a))
           | BAhead \<Rightarrow> Agree (Some (with_folded (Some a) ca b)) (Some b)
           | Diverged \<Rightarrow>
               if is_tombstone a \<and> is_tombstone b
               then write_both ca cb a b (tombstone_winner a b (lossless_cap a b))
               else if is_tombstone a \<or> is_tombstone b then Clash a b
               else (case merge fs tv (merge_class (rec_kind a)) base (rec_body a) (rec_body b) of
                       Some bd \<Rightarrow> write_both ca cb a b (build_merged H a b bd)
                     | None \<Rightarrow> Clash a b)))"

fun outcome_a :: "rec option \<Rightarrow> sync_outcome \<Rightarrow> rec option" where
  "outcome_a ra (Agree x y) = x"
| "outcome_a ra (Clash a b) = ra"

fun outcome_b :: "rec option \<Rightarrow> sync_outcome \<Rightarrow> rec option" where
  "outcome_b rb (Agree x y) = y"
| "outcome_b rb (Clash a b) = rb"

fun outcome_conflicts :: "record_key \<Rightarrow> sync_outcome \<Rightarrow> sync_conflict list" where
  "outcome_conflicts k (Agree x y) = []"
| "outcome_conflicts k (Clash a b) = [\<lparr>sc_key = k, sc_a = a, sc_b = b\<rparr>]"

text \<open>Two stored records that differ at most in their advisory ancestor list.\<close>

definition same_record :: "rec option \<Rightarrow> rec option \<Rightarrow> bool" where
  "same_record x y \<longleftrightarrow>
     map_option (\<lambda>r. r\<lparr>rec_ancestors := []\<rparr>) x = map_option (\<lambda>r. r\<lparr>rec_ancestors := []\<rparr>) y"

definition same_revision :: "rec option \<Rightarrow> rec option \<Rightarrow> bool" where
  "same_revision x y \<longleftrightarrow> map_option rec_revision x = map_option rec_revision y"

lemma same_record_revision: "same_record x y \<Longrightarrow> same_revision x y"
  by (cases x; cases y) (auto simp: same_record_def same_revision_def dest: arg_cong [of _ _ rec_revision])

lemma same_record_folded [simp]:
  "same_record (Some r) (Some (with_folded cur c r))"
  "same_record (Some (with_folded cur c r)) (Some r)"
  "same_record (Some (with_folded cur c r)) (Some (with_folded cur' c' r))"
  by (simp_all add: same_record_def with_folded_def)

lemma same_record_refl [simp]: "same_record x x"
  by (simp add: same_record_def)

lemma relate_InSync: "relate a b = InSync \<longleftrightarrow> rec_revision a = rec_revision b"
  by (simp add: relate_def)

lemma relate_AAhead:
  "relate a b = AAhead \<longleftrightarrow> rec_revision a \<noteq> rec_revision b \<and> rec_revision b \<in> set (rec_ancestors a)"
  by (simp add: relate_def)

lemma relate_BAhead:
  "relate a b = BAhead \<longleftrightarrow> rec_revision a \<noteq> rec_revision b \<and>
     rec_revision b \<notin> set (rec_ancestors a) \<and> rec_revision a \<in> set (rec_ancestors b)"
  by (simp add: relate_def)

lemma reconcile_agree:
  assumes "reconcile H fs tv ca cb base ra rb = Agree x y"
  shows "same_revision x y \<and> (same_revision ra rb \<or> same_record x y)"
  using assms
  by (auto simp: reconcile_def write_both_def same_revision_def relate_InSync
      split: option.splits relation.splits if_splits)

lemma reconcile_clash:
  assumes "reconcile H fs tv ca cb base ra rb = Clash a b"
  shows "ra = Some a \<and> rb = Some b \<and> relate a b = Diverged \<and>
    (is_tombstone a \<noteq> is_tombstone b \<or>
     \<not> is_tombstone a \<and> \<not> is_tombstone b \<and>
     merge fs tv (merge_class (rec_kind a)) base (rec_body a) (rec_body b) = None)"
  using assms
  by (auto simp: reconcile_def write_both_def split: option.splits relation.splits if_splits)

text \<open>Revisions that already agree are left alone, so a settled key stays settled.\<close>

lemma reconcile_settled:
  "same_revision ra rb \<Longrightarrow> reconcile H fs tv ca cb base ra rb = Agree ra rb"
  by (cases ra; cases rb) (auto simp: reconcile_def same_revision_def relate_def)

subsection \<open>Sync on two stores that meet the contract\<close>

locale store_pair =
  A: planned_store H ca vk vtA absA invA nowA + B: planned_store H cb vk vtB absB invB nowB
  for H ca cb vk vtA absA invA nowA vtB absB invB nowB +
  fixes fs :: "bytes \<Rightarrow> json option" and tv :: "json \<Rightarrow> bytes option"
begin

lemma copy_ok:
  assumes "invB t" "absB t (rec_key r) = None" "vk (rec_key r)"
  shows "\<exists>t'. sync_copy vtB r t = (Inr True, t') \<and> invB t' \<and>
    absB t' = (absB t)(rec_key r \<mapsto> with_folded None cb r)"
  using B.put_raw_create [OF assms] by (auto simp: sync_copy_def bindE_def retE_def)

lemma copyA_ok:
  assumes "invA s" "absA s (rec_key r) = None" "vk (rec_key r)"
  shows "\<exists>s'. sync_copy vtA r s = (Inr True, s') \<and> invA s' \<and>
    absA s' = (absA s)(rec_key r \<mapsto> with_folded None ca r)"
  using A.put_raw_create [OF assms] by (auto simp: sync_copy_def bindE_def retE_def)

lemma overwriteA_ok:
  assumes "invA s" "absA s (rec_key r) = Some c"
  shows "\<exists>s'. overwrite vtA r (rec_revision c) s = (Inr True, s') \<and> invA s' \<and>
    absA s' = (absA s)(rec_key r \<mapsto> with_folded (Some c) ca r)"
  using A.put_raw_over [OF assms] by (auto simp: overwrite_def)

lemma overwriteB_ok:
  assumes "invB t" "absB t (rec_key r) = Some c"
  shows "\<exists>t'. overwrite vtB r (rec_revision c) t = (Inr True, t') \<and> invB t' \<and>
    absB t' = (absB t)(rec_key r \<mapsto> with_folded (Some c) cb r)"
  using B.put_raw_over [OF assms] by (auto simp: overwrite_def)

lemma overwrite_both_ok:
  assumes "invA s" "invB t" "absA s k = Some a" "absB t k = Some b" "rec_key r = k"
  shows "\<exists>s' t'. overwrite_both vtA vtB r (rec_revision a) (rec_revision b) (s, t, u) =
      (Inr True, (s', t', u)) \<and> invA s' \<and> invB t' \<and>
    absA s' = (absA s)(k \<mapsto> with_folded (Some a) ca r) \<and>
    absB t' = (absB t)(k \<mapsto> with_folded (Some b) cb r)"
  using overwriteA_ok [of s r a] overwriteB_ok [of t r b] assms
  by (auto simp: overwrite_both_def sync_io)

text \<open>
  \<open>settles k s t s' t' out\<close>: the step from \<open>(s, t)\<close> to \<open>(s', t')\<close> changed key \<open>k\<close> only, and changed it
  as the decision \<open>out\<close> says.
\<close>

definition settles where
  "settles k s t s' t' out \<longleftrightarrow>
     invA s' \<and> invB t' \<and>
     absA s' = (absA s)(k := outcome_a (absA s k) out) \<and>
     absB t' = (absB t)(k := outcome_b (absB t k) out)"

text \<open>The part of the step that needs a decision about two present records.\<close>

definition decided where
  "decided k s t u a b anc rep raced res \<longleftrightarrow>
     (\<exists>rep' s' t' u' base. res = (Inr (rep', raced), (s', t', u')) \<and>
       (let out = reconcile H fs tv ca cb base (Some a) (Some b) in
         settles k s t s' t' out \<and> conflicts rep' = conflicts rep @ outcome_conflicts k out \<and>
         unconverged rep' = unconverged rep \<and> (anc = None \<longrightarrow> base = Inline [] \<and> u' = u)))"

lemma decidedI:
  assumes "res = (Inr (rep', raced), (s', t', u'))"
    "settles k s t s' t' (reconcile H fs tv ca cb base (Some a) (Some b))"
    "conflicts rep' = conflicts rep @
       outcome_conflicts k (reconcile H fs tv ca cb base (Some a) (Some b))"
    "unconverged rep' = unconverged rep" "anc = None \<longrightarrow> base = Inline [] \<and> u' = u"
  shows "decided k s t u a b anc rep raced res"
  unfolding decided_def Let_def using assms by blast

lemma sync_diverged_spec:
  assumes inv: "invA s" "invB t" and ab: "absA s k = Some a" "absB t k = Some b"
    and keys: "rec_key a = k" "rec_key b = k" and div: "relate a b = Diverged"
  shows "decided k s t u a b anc rep raced
    (sync_diverged H fs tv vtA vtB anc k a b (rep, raced) (s, t, u))"
proof -
  obtain base u' where base: "ancestry_base anc a b u = (base, u')" by (cases "ancestry_base anc a b u")
  have none: "anc = None \<longrightarrow> base = Inline [] \<and> u' = u" using base by (auto simp: ancestry_base_def)
  have both: "decided k s t u a b anc rep raced (sync_diverged H fs tv vtA vtB anc k a b (rep, raced) (s, t, u))"
    if r: "rec_key r = k" "reconcile H fs tv ca cb base (Some a) (Some b) = write_both ca cb a b r"
      and run: "sync_diverged H fs tv vtA vtB anc k a b (rep, raced) (s, t, u) =
        bindE (overwrite_both vtA vtB r (rec_revision a) (rec_revision b)) (\<lambda>ok.
          retE (if ok then (rep\<lparr>merged := merged rep @ [k]\<rparr>, raced) else (rep, raced @ [k])))
          (s, t, w)"
      and w: "anc = None \<longrightarrow> w = u" for r w
  proof -
    obtain s' t' where "overwrite_both vtA vtB r (rec_revision a) (rec_revision b) (s, t, w) =
        (Inr True, (s', t', w))" "invA s'" "invB t'"
      "absA s' = (absA s)(k \<mapsto> with_folded (Some a) ca r)"
      "absB t' = (absB t)(k \<mapsto> with_folded (Some b) cb r)"
      using overwrite_both_ok [OF inv ab r(1), of w] by auto
    then show ?thesis
      by (intro decidedI [where base = base and s' = s' and t' = t' and u' = w
            and rep' = "rep\<lparr>merged := merged rep @ [k]\<rparr>"])
        (use run r none w in \<open>auto simp: bindE_def retE_def settles_def write_both_def\<close>)
  qed
  consider "is_tombstone a \<and> is_tombstone b" | "is_tombstone a \<noteq> is_tombstone b"
    | "\<not> is_tombstone a \<and> \<not> is_tombstone b" by blast
  then show ?thesis
  proof cases
    case 1
    then show ?thesis
      by (intro both [of "tombstone_winner a b (lossless_cap a b)" u])
        (use keys div in \<open>auto simp: sync_diverged_def reconcile_def\<close>)
  next
    case 2
    then show ?thesis
      by (intro decidedI [where base = base and s' = s and t' = t and u' = u
            and rep' = "rep\<lparr>conflicts := conflicts rep @ [\<lparr>sc_key = k, sc_a = a, sc_b = b\<rparr>]\<rparr>"])
        (use inv ab div none in \<open>auto simp: sync_diverged_def reconcile_def retE_def settles_def\<close>)
  next
    case 3
    show ?thesis
    proof (cases "merge fs tv (merge_class (rec_kind a)) base (rec_body a) (rec_body b)")
      case None
      with 3 show ?thesis
        by (intro decidedI [where base = base and s' = s and t' = t and u' = u'
              and rep' = "rep\<lparr>conflicts := conflicts rep @ [\<lparr>sc_key = k, sc_a = a, sc_b = b\<rparr>]\<rparr>"])
          (use inv ab div none base in \<open>auto simp: sync_diverged_def reconcile_def retE_def settles_def\<close>)
    next
      case (Some bd)
      with 3 show ?thesis
        by (intro both [of "build_merged H a b bd" u'])
          (use keys div base none in \<open>auto simp: sync_diverged_def reconcile_def build_merged_def\<close>)
    qed
  qed
qed

lemma sync_key_both:
  assumes inv: "invA s" "invB t" and k: "vk k" and ab: "absA s k = Some a" "absB t k = Some b"
    and keys: "rec_key a = k" "rec_key b = k"
  shows "decided k s t u a b anc rep raced
    (sync_key H fs tv vtA vtB anc k (rep, raced) (s, t, u))"
proof -
  note raw = A.get_raw [OF inv(1) k] B.get_raw [OF inv(2) k]
  show ?thesis
  proof (cases "relate a b")
    case InSync
    then show ?thesis
      by (intro decidedI [where base = "Inline []" and s' = s and t' = t and u' = u and rep' = rep])
        (use inv ab raw in \<open>auto simp: sync_key_def sync_io reconcile_def settles_def\<close>)
  next
    case AAhead
    obtain t' where "overwrite vtB a (rec_revision b) t = (Inr True, t')" "invB t'"
      "absB t' = (absB t)(k \<mapsto> with_folded (Some b) cb a)"
      using overwriteB_ok [OF inv(2), of a b] ab keys by auto
    with AAhead show ?thesis
      by (intro decidedI [where base = "Inline []" and s' = s and t' = t' and u' = u
            and rep' = "rep\<lparr>fast_forwarded_to_b := fast_forwarded_to_b rep @ [k]\<rparr>"])
        (use inv ab raw in \<open>auto simp: sync_key_def sync_io reconcile_def settles_def\<close>)
  next
    case BAhead
    obtain s' where "overwrite vtA b (rec_revision a) s = (Inr True, s')" "invA s'"
      "absA s' = (absA s)(k \<mapsto> with_folded (Some a) ca b)"
      using overwriteA_ok [OF inv(1), of b a] ab keys by auto
    with BAhead show ?thesis
      by (intro decidedI [where base = "Inline []" and s' = s' and t' = t and u' = u
            and rep' = "rep\<lparr>fast_forwarded_to_a := fast_forwarded_to_a rep @ [k]\<rparr>"])
        (use inv ab raw in \<open>auto simp: sync_key_def sync_io reconcile_def settles_def\<close>)
  next
    case Diverged
    then have "sync_key H fs tv vtA vtB anc k (rep, raced) (s, t, u) =
        sync_diverged H fs tv vtA vtB anc k a b (rep, raced) (s, t, u)"
      using raw ab by (simp add: sync_key_def sync_io)
    with sync_diverged_spec [OF inv ab keys Diverged] show ?thesis by simp
  qed
qed

lemma sync_key_spec:
  assumes inv: "invA s" "invB t" and k: "vk k"
  shows "\<exists>rep' s' t' u' base. sync_key H fs tv vtA vtB anc k (rep, raced) (s, t, u) =
      (Inr (rep', raced), (s', t', u')) \<and>
    (let out = reconcile H fs tv ca cb base (absA s k) (absB t k) in
       settles k s t s' t' out \<and> conflicts rep' = conflicts rep @ outcome_conflicts k out \<and>
       unconverged rep' = unconverged rep \<and> (anc = None \<longrightarrow> base = Inline [] \<and> u' = u))"
proof -
  note raw = A.get_raw [OF inv(1) k] B.get_raw [OF inv(2) k]
  show ?thesis
  proof (cases "absA s k")
    case None
    show ?thesis
    proof (cases "absB t k")
      case None
      with \<open>absA s k = None\<close> raw inv show ?thesis
        by (auto simp: sync_key_def sync_io reconcile_def settles_def Let_def fun_upd_idem)
    next
      case (Some r)
      then have "rec_key r = k" using B.stored_key inv(2) by blast
      with copyA_ok [OF inv(1), of r] k \<open>absA s k = None\<close> obtain s' where
        "sync_copy vtA r s = (Inr True, s')" "invA s'"
        "absA s' = (absA s)(k \<mapsto> with_folded None ca r)" by auto
      with raw inv Some \<open>absA s k = None\<close> show ?thesis
        by (auto simp: sync_key_def sync_io reconcile_def settles_def Let_def fun_upd_idem)
    qed
  next
    case (Some a)
    note a = Some
    then have ka: "rec_key a = k" using A.stored_key inv(1) by blast
    show ?thesis
    proof (cases "absB t k")
      case None
      from copy_ok [OF inv(2), of a] k None ka obtain t' where
        "sync_copy vtB a t = (Inr True, t')" "invB t'"
        "absB t' = (absB t)(k \<mapsto> with_folded None cb a)" by auto
      with raw inv a None show ?thesis
        by (auto simp: sync_key_def sync_io reconcile_def settles_def Let_def fun_upd_idem)
    next
      case (Some b)
      note b = Some
      then have kb: "rec_key b = k" using B.stored_key inv(2) by blast
      show ?thesis
        using sync_key_both [OF inv k a b ka kb] by (simp add: a b decided_def)
    qed
  qed
qed

text \<open>The decision for key \<open>k\<close> in the state \<open>(s, t)\<close> with the merge base \<open>base k\<close>.\<close>

definition out_at where
  "out_at base s t k = reconcile H fs tv ca cb (base k) (absA s k) (absB t k)"

lemma sync_keys_spec:
  assumes "invA s" "invB t" "distinct ks" "\<forall>k \<in> set ks. vk k"
  shows "\<exists>rep' s' t' u' base. sync_keys H fs tv vtA vtB anc ks (rep, raced) (s, t, u) =
      (Inr (rep', raced), (s', t', u')) \<and> invA s' \<and> invB t' \<and>
    unconverged rep' = unconverged rep \<and>
    (\<forall>k. absA s' k = (if k \<in> set ks then outcome_a (absA s k) (out_at base s t k) else absA s k)) \<and>
    (\<forall>k. absB t' k = (if k \<in> set ks then outcome_b (absB t k) (out_at base s t k) else absB t k)) \<and>
    conflicts rep' = conflicts rep @ concat (map (\<lambda>k. outcome_conflicts k (out_at base s t k)) ks) \<and>
    (anc = None \<longrightarrow> base = (\<lambda>_. Inline []) \<and> u' = u)"
  using assms
proof (induction ks arbitrary: s t u rep)
  case Nil
  then show ?case by (auto simp: retE_def)
next
  case (Cons k ks)
  obtain rep1 s1 t1 u1 bk where step:
    "sync_key H fs tv vtA vtB anc k (rep, raced) (s, t, u) = (Inr (rep1, raced), (s1, t1, u1))"
    and st: "settles k s t s1 t1 (reconcile H fs tv ca cb bk (absA s k) (absB t k))"
    and c1: "conflicts rep1 = conflicts rep @
      outcome_conflicts k (reconcile H fs tv ca cb bk (absA s k) (absB t k))"
    and n1: "unconverged rep1 = unconverged rep" "anc = None \<longrightarrow> bk = Inline [] \<and> u1 = u"
    using sync_key_spec [OF Cons.prems(1,2), of k anc rep raced u] Cons.prems(4)
    by (auto simp: Let_def)
  have inv1: "invA s1" "invB t1" using st by (auto simp: settles_def)
  obtain rep' s' t' u' base where IH:
    "sync_keys H fs tv vtA vtB anc ks (rep1, raced) (s1, t1, u1) = (Inr (rep', raced), (s', t', u'))"
    and inv': "invA s'" "invB t'" and n': "unconverged rep' = unconverged rep1"
    and A: "\<forall>k. absA s' k = (if k \<in> set ks then outcome_a (absA s1 k) (out_at base s1 t1 k) else absA s1 k)"
    and B: "\<forall>k. absB t' k = (if k \<in> set ks then outcome_b (absB t1 k) (out_at base s1 t1 k) else absB t1 k)"
    and C: "conflicts rep' = conflicts rep1 @ concat (map (\<lambda>k. outcome_conflicts k (out_at base s1 t1 k)) ks)"
    and N: "anc = None \<longrightarrow> base = (\<lambda>_. Inline []) \<and> u' = u1"
    using Cons.IH [OF inv1, of rep1 u1] Cons.prems(3,4)
    by simp (elim exE conjE, rule that; assumption)
  define nb where "nb = base(k := bk)"
  have frame: "absA s1 k' = absA s k'" "absB t1 k' = absB t k'" if "k' \<noteq> k" for k'
    using st that by (auto simp: settles_def)
  have same: "out_at nb s t k' = out_at base s1 t1 k'" if "k' \<in> set ks" for k'
    using that Cons.prems(3) frame [of k'] by (auto simp: out_at_def nb_def)
  have at_k: "out_at nb s t k = reconcile H fs tv ca cb bk (absA s k) (absB t k)"
    by (simp add: out_at_def nb_def)
  have "absA s' k' = (if k' \<in> set (k # ks) then outcome_a (absA s k') (out_at nb s t k') else absA s k')"
    "absB t' k' = (if k' \<in> set (k # ks) then outcome_b (absB t k') (out_at nb s t k') else absB t k')" for k'
    using A B Cons.prems(3) st at_k same [of k'] frame [of k']
    by (cases "k' = k"; auto simp: settles_def)+
  moreover have "conflicts rep' =
      conflicts rep @ concat (map (\<lambda>k. outcome_conflicts k (out_at nb s t k)) (k # ks))"
    using C c1 at_k same by (simp cong: map_cong)
  moreover have "sync_keys H fs tv vtA vtB anc (k # ks) (rep, raced) (s, t, u) =
      (Inr (rep', raced), (s', t', u'))"
    using step IH by (simp add: bindE_def)
  moreover have "anc = None \<longrightarrow> nb = (\<lambda>_. Inline []) \<and> u' = u"
    using n1(2) N by (auto simp: nb_def)
  ultimately show ?case using inv' n' n1(1)
    by (intro exI [of _ rep'] exI [of _ s'] exI [of _ t'] exI [of _ u'] exI [of _ nb]) simp
qed

definition all_keys where
  "all_keys s t = sorted_list_of_set (dom (absA s) \<union> dom (absB t))"

lemma sync_spec:
  assumes "invA s" "invB t"
  shows "\<exists>rep s' t' u' base. sync_with_ancestry H fs tv vtA vtB anc (s, t, u) =
      (Inr rep, (s', t', u')) \<and> invA s' \<and> invB t' \<and> unconverged rep = [] \<and>
    (\<forall>k. absA s' k = outcome_a (absA s k) (out_at base s t k)) \<and>
    (\<forall>k. absB t' k = outcome_b (absB t k) (out_at base s t k)) \<and>
    conflicts rep = concat (map (\<lambda>k. outcome_conflicts k (out_at base s t k)) (all_keys s t)) \<and>
    (anc = None \<longrightarrow> base = (\<lambda>_. Inline []) \<and> u' = u)"
proof -
  obtain ka kb where la: "vt_list_raw vtA kp_default s = (Inr ka, s)" "set ka = dom (absA s)"
    and lb: "vt_list_raw vtB kp_default t = (Inr kb, t)" "set kb = dom (absB t)"
    using A.list_raw [OF assms(1), of kp_default] B.list_raw [OF assms(2), of kp_default]
    by (auto simp: dom_def)
  have ks: "bts_of_list (ka @ kb) = all_keys s t"
    unfolding all_keys_def bts_of_list_def using la(2) lb(2)
    by (metis set_append sorted_list_of_set_sort_remdups)
  have fin: "finite (dom (absA s) \<union> dom (absB t))"
    using A.finite_keys B.finite_keys assms by simp
  have dist: "distinct (all_keys s t)" and set: "set (all_keys s t) = dom (absA s) \<union> dom (absB t)"
    using fin by (simp_all add: all_keys_def)
  have valid: "\<forall>k \<in> set (all_keys s t). vk k"
    using set A.stored_valid [OF assms(1)] B.stored_valid [OF assms(2)] by auto
  obtain rep s' t' u' base where run:
    "sync_keys H fs tv vtA vtB anc (all_keys s t) (sync_report_default, []) (s, t, u) =
      (Inr (rep, []), (s', t', u'))" and inv': "invA s'" "invB t'"
    and n: "unconverged rep = unconverged sync_report_default"
    and A': "\<forall>k. absA s' k = (if k \<in> set (all_keys s t) then outcome_a (absA s k) (out_at base s t k) else absA s k)"
    and B': "\<forall>k. absB t' k = (if k \<in> set (all_keys s t) then outcome_b (absB t k) (out_at base s t k) else absB t k)"
    and C: "conflicts rep = conflicts sync_report_default @ concat (map (\<lambda>k. outcome_conflicts k (out_at base s t k)) (all_keys s t))"
    and N: "anc = None \<longrightarrow> base = (\<lambda>_. Inline []) \<and> u' = u"
    using sync_keys_spec [OF assms dist valid, of anc sync_report_default "[]" u]
    by (elim exE conjE) (rule that; assumption)
  have absent: "out_at base s t k = Agree None None" if "k \<notin> set (all_keys s t)" for k
    using that set by (auto simp: out_at_def reconcile_def split: option.splits)
  have pass: "sync_pass H fs tv vtA vtB anc (s, t, u) = (Inr (rep, []), (s', t', u'))"
    using la(1) lb(1) run ks by (simp add: sync_pass_def sync_io)
  have "sync_with_ancestry H fs tv vtA vtB anc (s, t, u) = (Inr rep, (s', t', u'))"
    unfolding sync_with_ancestry_def
    by (rule sync_loop_clean [OF pass]) (simp add: MAX_SYNC_PASSES_def)
  moreover have "\<forall>k. absA s' k = outcome_a (absA s k) (out_at base s t k)"
    using A' absent set by (metis domIff outcome_a.simps(1) UnCI)
  moreover have "\<forall>k. absB t' k = outcome_b (absB t k) (out_at base s t k)"
    using B' absent set by (metis domIff outcome_b.simps(1) UnCI)
  ultimately show ?thesis
    using inv' n C N by (auto simp: sync_report_default_def)
qed

lemma sync_converges:
  assumes "invA s" "invB t"
  shows "\<exists>rep s' t' u'. sync_with_ancestry H fs tv vtA vtB anc (s, t, u) = (Inr rep, (s', t', u')) \<and>
    invA s' \<and> invB t' \<and> converged rep \<and>
    (\<forall>k. k \<notin> sc_key ` set (conflicts rep) \<longrightarrow>
       same_revision (absA s' k) (absB t' k) \<and>
       (same_revision (absA s k) (absB t k) \<or> same_record (absA s' k) (absB t' k))) \<and>
    (\<forall>c \<in> set (conflicts rep).
       absA s (sc_key c) = Some (sc_a c) \<and> absB t (sc_key c) = Some (sc_b c) \<and>
       absA s' (sc_key c) = Some (sc_a c) \<and> absB t' (sc_key c) = Some (sc_b c))"
proof -
  obtain rep s' t' u' base where run:
    "sync_with_ancestry H fs tv vtA vtB anc (s, t, u) = (Inr rep, (s', t', u'))"
    "invA s'" "invB t'" "unconverged rep = []"
    and A: "\<forall>k. absA s' k = outcome_a (absA s k) (out_at base s t k)"
    and B: "\<forall>k. absB t' k = outcome_b (absB t k) (out_at base s t k)"
    and C: "conflicts rep = concat (map (\<lambda>k. outcome_conflicts k (out_at base s t k)) (all_keys s t))"
    using sync_spec [OF assms, of anc u] by (elim exE conjE) (rule that; assumption)
  have keys: "set (all_keys s t) = dom (absA s) \<union> dom (absB t)"
    using A.finite_keys B.finite_keys assms by (simp add: all_keys_def)
  have clash: "k \<in> set (all_keys s t) \<and> absA s k = Some a \<and> absB t k = Some b"
    if "out_at base s t k = Clash a b" for k a b
    using reconcile_clash [of H fs tv ca cb "base k" "absA s k" "absB t k" a b] that keys
    by (auto simp: out_at_def)
  have listed: "c \<in> set (conflicts rep) \<longleftrightarrow> out_at base s t (sc_key c) = Clash (sc_a c) (sc_b c)" for c
  proof
    assume "c \<in> set (conflicts rep)"
    then obtain k where "c \<in> set (outcome_conflicts k (out_at base s t k))" by (auto simp: C)
    then show "out_at base s t (sc_key c) = Clash (sc_a c) (sc_b c)"
      by (cases "out_at base s t k") auto
  next
    assume "out_at base s t (sc_key c) = Clash (sc_a c) (sc_b c)"
    then show "c \<in> set (conflicts rep)"
      using clash by (auto simp: C intro!: bexI [of _ "sc_key c"])
  qed
  have "same_revision (absA s' k) (absB t' k) \<and>
      (same_revision (absA s k) (absB t k) \<or> same_record (absA s' k) (absB t' k))"
    if "k \<notin> sc_key ` set (conflicts rep)" for k
  proof (cases "out_at base s t k")
    case (Agree x y)
    then show ?thesis
      using reconcile_agree [of H fs tv ca cb "base k" "absA s k" "absB t k" x y] A B
      by (simp add: out_at_def)
  next
    case (Clash a b)
    then have "\<lparr>sc_key = k, sc_a = a, sc_b = b\<rparr> \<in> set (conflicts rep)" by (simp add: listed)
    then show ?thesis using that by (force simp: image_iff)
  qed
  moreover have "absA s (sc_key c) = Some (sc_a c) \<and> absB t (sc_key c) = Some (sc_b c) \<and>
      absA s' (sc_key c) = Some (sc_a c) \<and> absB t' (sc_key c) = Some (sc_b c)"
    if "c \<in> set (conflicts rep)" for c
    using that clash A B by (simp add: listed)
  ultimately show ?thesis using run by (auto simp: converged_def)
qed

text \<open>Without an ancestry store the decision is a function of the two records, so it is stable.\<close>

lemma reconcile_stable:
  assumes "out = reconcile H fs tv ca cb base ra rb"
  shows "reconcile H fs tv ca cb base (outcome_a ra out) (outcome_b rb out) =
    (case out of Agree x y \<Rightarrow> Agree x y | Clash a b \<Rightarrow> Clash a b)"
proof (cases out)
  case (Agree x y)
  then have "same_revision x y" using reconcile_agree assms by metis
  with Agree show ?thesis by (simp add: reconcile_settled)
next
  case (Clash a b)
  then show ?thesis using assms by simp
qed

lemma sync_idempotent:
  assumes "invA s" "invB t" "sync_with_ancestry H fs tv vtA vtB None (s, t, u) = (Inr rep, (s1, t1, u1))"
  shows "\<exists>rep' s2 t2. sync_with_ancestry H fs tv vtA vtB None (s1, t1, u1) = (Inr rep', (s2, t2, u1)) \<and>
    absA s2 = absA s1 \<and> absB t2 = absB t1 \<and> conflicts rep' = conflicts rep \<and> converged rep'"
proof -
  let ?o = "out_at (\<lambda>_. Inline [])"
  have first: "invA s1" "invB t1"
    "\<forall>k. absA s1 k = outcome_a (absA s k) (?o s t k)" "\<forall>k. absB t1 k = outcome_b (absB t k) (?o s t k)"
    "conflicts rep = concat (map (\<lambda>k. outcome_conflicts k (?o s t k)) (all_keys s t))"
    using sync_spec [OF assms(1,2), of None u] assms(3) by auto
  obtain rep' s2 t2 where second:
    "sync_with_ancestry H fs tv vtA vtB None (s1, t1, u1) = (Inr rep', (s2, t2, u1))"
    "unconverged rep' = []"
    "\<forall>k. absA s2 k = outcome_a (absA s1 k) (?o s1 t1 k)" "\<forall>k. absB t2 k = outcome_b (absB t1 k) (?o s1 t1 k)"
    "conflicts rep' = concat (map (\<lambda>k. outcome_conflicts k (?o s1 t1 k)) (all_keys s1 t1))"
    using sync_spec [OF first(1,2), of None u1] by auto
  have same: "?o s1 t1 k = ?o s t k" for k
    using reconcile_stable [OF refl, of "Inline []" "absA s k" "absB t k"] first(3,4)
    by (auto simp: out_at_def split: sync_outcome.splits)
  have dom: "dom (absA s1) \<union> dom (absB t1) = dom (absA s) \<union> dom (absB t)"
  proof -
    have "(absA s1 k = None \<and> absB t1 k = None) \<longleftrightarrow> (absA s k = None \<and> absB t k = None)" for k
      using first(3,4)
      by (cases "absA s k"; cases "absB t k")
        (auto simp: out_at_def reconcile_def write_both_def
          split: relation.splits option.splits if_splits)
    then show ?thesis unfolding set_eq_iff Un_iff domIff by metis
  qed
  have "absA s2 k = absA s1 k" "absB t2 k = absB t1 k" for k
    using second(3,4) first(3,4) same [of k] by (cases "?o s t k"; simp)+
  moreover have "conflicts rep' = conflicts rep"
    unfolding second(5) first(5) all_keys_def dom by (simp add: same)
  ultimately show ?thesis using second(1,2) by (auto simp: converged_def)
qed

text \<open>A delete the peer has not seen yet replaces the peer's live record, never the other way.\<close>

lemma sync_no_resurrection:
  assumes "invA s" "invB t" "absA s k = Some ta" "is_tombstone ta" "absB t k = Some b"
    "rec_revision b \<in> set (rec_ancestors ta)" "rec_revision b \<noteq> rec_revision ta"
    "sync_with_ancestry H fs tv vtA vtB anc (s, t, u) = (Inr rep, (s', t', u'))"
  shows "absA s' k = Some ta \<and>
    (\<exists>tb. absB t' k = Some tb \<and> is_tombstone tb \<and> rec_revision tb = rec_revision ta)"
proof -
  have "relate ta b = AAhead" using assms(6,7) by (simp add: relate_def)
  then have out: "out_at base s t k = Agree (Some ta) (Some (with_folded (Some b) cb ta))" for base
    using assms(3,5) by (simp add: out_at_def reconcile_def)
  obtain base where "\<forall>k. absA s' k = outcome_a (absA s k) (out_at base s t k)"
    "\<forall>k. absB t' k = outcome_b (absB t k) (out_at base s t k)"
    using sync_spec [OF assms(1,2), of anc u] assms(8) by auto
  with out assms(4) show ?thesis by simp
qed

end

subsection \<open>The reference stores as peers\<close>

interpretation mem2: store_pair H ca cb "\<lambda>_. True" "mem_vt H" mem_abs "mem_inv ca" mem_now
    "mem_vt H" mem_abs "mem_inv cb" mem_now fs tv for H ca cb fs tv
  by unfold_locales

end
