(* ===== verification/Gz_Demo.thy ===== *)
theory Gz_Demo
  imports Gz_Codec Gz_FsFaults Gz_Reset_Collect Gz_Sync
begin

text \<open>
  Concrete inputs the witnesses of the development share: a small record, a filesystem store, disks
  with and without faults and in-memory stores built by the operations themselves.
\<close>

definition demo_meta :: meta where
  "demo_meta = meta_new (identity_new ''ana'') ''cli''"

definition demo_key :: record_key where
  "demo_key = RecordKey ''team'' ''notes'' ''a''"

definition demo_rec :: rec where
  "demo_rec = record_create demo_digest demo_key Topic (Inline ''hello'') demo_meta"

definition demo_edit :: "bytes \<Rightarrow> rec" where
  "demo_edit b = record_update demo_digest demo_rec (Inline b) demo_meta"

definition demo_fs :: fs_store where
  "demo_fs = fs_new [''srv'', ''gonzalo''] 7"

definition demo_disk :: "fault list \<Rightarrow> disk" where
  "demo_disk fl = \<lparr>dk_files = [], dk_now = 1700000000000000000, dk_faults = fl, dk_nonce = 0,
     dk_dir_mtime = (\<lambda>_. 0)\<rparr>"

definition demo_mem0 :: memstore where
  "demo_mem0 = mem_with_clock 1000 (mem_new 0)"

definition demo_mem :: memstore where
  "demo_mem = snd (mem_put demo_digest demo_rec None demo_mem0)"

text \<open>The same store after one more edit.\<close>

definition demo_mem_edited :: memstore where
  "demo_mem_edited =
     snd (mem_put demo_digest (demo_edit ''hello\<newline>world'') (Some (rec_revision demo_rec)) demo_mem)"

text \<open>The same store after the record was deleted.\<close>

definition demo_mem_deleted :: memstore where
  "demo_mem_deleted = snd (mem_delete_as demo_digest demo_key None None demo_mem)"

lemma demo_key_valid: "fs_valid demo_key"
  by code_simp

lemma demo_rec_key [simp]: "rec_key demo_rec = demo_key" "rec_key (demo_edit b) = demo_key"
  by (simp_all add: demo_rec_def demo_edit_def record_create_def record_update_def)

lemma demo_disk_inv: "fs_inv demo_digest demo_codec (fs_root demo_fs) (demo_disk [])"
  by (simp add: fs_inv_def fs_wf_def demo_disk_def demo_fs_def fs_new_def root_ok_def)

lemma demo_disk_heal: "heal (demo_disk fl) = demo_disk []"
  by (simp add: demo_disk_def)

lemma demo_mem_inv: "mem_inv DEFAULT_ANCESTOR_CAP demo_mem0" "mem_inv DEFAULT_ANCESTOR_CAP demo_mem"
  "mem_inv DEFAULT_ANCESTOR_CAP demo_mem_edited" "mem_inv DEFAULT_ANCESTOR_CAP demo_mem_deleted"
  by code_simp+

text \<open>The empty disk after one record was created on it.\<close>

definition demo_with :: "rec \<Rightarrow> disk" where
  "demo_with r = snd (fs_put demo_digest demo_codec demo_fs r None (demo_disk []))"

lemma demo_with:
  assumes "fs_valid (rec_key r)" "\<not> is_tombstone r"
  shows "fs_inv demo_digest demo_codec (fs_root demo_fs) (demo_with r)"
    "fs_abs demo_codec (fs_root demo_fs) (demo_with r) =
       [rec_key r \<mapsto> with_folded None 32 (stamp 1700000000000 1700000000000 r)]"
proof -
  have "fs_put demo_digest demo_codec demo_fs r None (demo_disk []) =
      (fst (fs_put demo_digest demo_codec demo_fs r None (demo_disk [])), demo_with r)"
    by (simp add: demo_with_def)
  note p = planned_store.put [OF fs_substrate.planned [OF demo.fs_substrate_axioms] demo_disk_inv,
      of r None, unfolded fs_vt_def, simplified, OF assms(1) this]
  from p show "fs_inv demo_digest demo_codec (fs_root demo_fs) (demo_with r)" by blast
  have "fs_abs demo_codec (fs_root demo_fs) (demo_disk []) = Map.empty"
    by (simp add: fs_abs_def demo_disk_def fun_eq_iff)
  moreover have "fs_clock (demo_disk []) = 1700000000000" "fs_cap demo_fs = 32" by code_simp+
  ultimately show "fs_abs demo_codec (fs_root demo_fs) (demo_with r) =
      [rec_key r \<mapsto> with_folded None 32 (stamp 1700000000000 1700000000000 r)]"
    using p assms(2) by (simp add: plan_put_def)
qed

definition demo_created :: disk where
  "demo_created = demo_with demo_rec"

definition demo_manifest :: rec where
  "demo_manifest = record_create demo_digest (RecordKey ''repo'' ''graph-manifest'' ''main'')
     GraphManifest (Inline ''{}'') demo_meta"

lemma demo_live: "\<not> is_tombstone demo_rec" "\<not> is_tombstone (demo_edit b)"
  by (simp_all add: demo_rec_def demo_edit_def is_tombstone_def record_create_def record_update_def)

lemma demo_created:
  "fs_inv demo_digest demo_codec (fs_root demo_fs) demo_created"
  "fs_abs demo_codec (fs_root demo_fs) demo_created =
     [demo_key \<mapsto> with_folded None 32 (stamp 1700000000000 1700000000000 demo_rec)]"
  using demo_with [of demo_rec] demo_key_valid demo_live by (simp_all add: demo_created_def)

lemma demo_manifest:
  "fs_inv demo_digest demo_codec (fs_root demo_fs) (demo_with demo_manifest)"
  "fs_abs demo_codec (fs_root demo_fs) (demo_with demo_manifest) =
     [rec_key demo_manifest \<mapsto> with_folded None 32 (stamp 1700000000000 1700000000000 demo_manifest)]"
proof -
  have "fs_valid (rec_key demo_manifest)" "\<not> is_tombstone demo_manifest" by code_simp+
  from demo_with [OF this] show
    "fs_inv demo_digest demo_codec (fs_root demo_fs) (demo_with demo_manifest)"
    "fs_abs demo_codec (fs_root demo_fs) (demo_with demo_manifest) =
     [rec_key demo_manifest \<mapsto> with_folded None 32 (stamp 1700000000000 1700000000000 demo_manifest)]" .
qed

text \<open>A content of up to 31 bytes has a digest of its own.\<close>

definition undigit :: "char \<Rightarrow> nat" where
  "undigit c = length (takeWhile (\<lambda>x. x \<noteq> c) lower_hex)"

definition dehex2 :: "string \<Rightarrow> nat" where
  "dehex2 s = 16 * undigit (s ! 0) + undigit (s ! 1)"

lemma undigit: "n < 16 \<Longrightarrow> undigit (lower_hex ! n) = n"
proof -
  have "list_all (\<lambda>n. undigit (lower_hex ! n) = n) [0, 1, 2, 3, 4, 5, 6, 7, 8, 9, 10, 11, 12, 13, 14, 15]" by code_simp
  moreover assume "n < 16"
  then have "n \<in> {0, 1, 2, 3, 4, 5, 6, 7, 8, 9, 10, 11, 12, 13, 14, 15}" by (simp; presburger)
  ultimately show ?thesis by (auto simp: list_all_iff)
qed

lemma of_char_lt: "(of_char c :: nat) < 256"
  by simp

lemma length_hex2 [simp]: "length (hex2 n) = 2"
  by (simp add: hex2_def)

lemma dehex2: "n < 256 \<Longrightarrow> dehex2 (hex2 n) = n"
  by (simp add: dehex2_def hex2_def undigit)

lemma demo_digest_take:
  assumes "length c \<le> 31"
  shows "take (2 + 2 * length c) (demo_digest c) = hex2 (length c) @ concat (map (\<lambda>b. hex2 (of_char b)) c)"
proof -
  have len: "length (concat (map (\<lambda>b. hex2 (of_char b)) c)) = 2 * length c" by (induction c) simp_all
  then show ?thesis using assms len by (simp add: demo_digest_def min_def)
qed

lemma hexes_inj:
  "length c = length c' \<Longrightarrow> concat (map (\<lambda>b. hex2 (of_char b)) c) = concat (map (\<lambda>b. hex2 (of_char b)) c') \<Longrightarrow> c = c'"
proof (induction c c' rule: list_induct2)
  case (Cons x xs y ys)
  let ?f = "\<lambda>c. concat (map (\<lambda>b. hex2 (of_char b)) c)"
  have "hex2 (of_char x) @ ?f xs = hex2 (of_char y) @ ?f ys" using Cons.prems unfolding list.map concat.simps .
  then have "hex2 (of_char x) = hex2 (of_char y)" "?f xs = ?f ys" 
    by simp_all
  moreover from this(1) have "(of_char x :: nat) = of_char y"
    by (metis dehex2 of_char_lt)
  ultimately show ?case using Cons.IH by (metis of_char_eq_iff)
qed simp

lemma demo_unique_short: 
  assumes "length c \<le> 31"
  shows "unique_preimage demo_digest c"
  unfolding unique_preimage_def
proof (intro allI impI)
  fix c'
  assume eq: "demo_digest c' = demo_digest c"
  have two: "take 2 (demo_digest c) = hex2 (min 255 (length c))" for c
    by (simp add: demo_digest_def hex2_def)
  have "hex2 (min 255 (length c')) = hex2 (min 255 (length c))"
    using two [of c] two [of c'] eq by simp
  then have "dehex2 (hex2 (min 255 (length c'))) = dehex2 (hex2 (min 255 (length c)))" by simp
  then have "min 255 (length c') = min 255 (length c)" by (simp add: dehex2)
  with assms have len: "length c' = length c" by (simp add: min_def split: if_splits)
  with demo_digest_take [of c] demo_digest_take [of c'] assms eq
  have "concat (map (\<lambda>b. hex2 (of_char b)) c') = concat (map (\<lambda>b. hex2 (of_char b)) c)" by simp
  then show "c' = c" by (rule hexes_inj [OF len])
qed

lemma demo_unique: "unique_preimage demo_digest []"
  by (rule demo_unique_short) simp

text \<open>A sync run of two in-memory stores without ancestry.\<close>

definition demo_sync :: "memstore \<Rightarrow> memstore \<Rightarrow> (core_error + sync_report) \<times> (memstore \<times> memstore \<times> unit)" where
  "demo_sync a b = sync_with_ancestry demo_digest (\<lambda>_. None) (\<lambda>_. None) (mem_vt demo_digest)
     (mem_vt demo_digest) None (a, b, ())"

lemma demo_sync_run:
  assumes "mem_inv DEFAULT_ANCESTOR_CAP a" "mem_inv DEFAULT_ANCESTOR_CAP b"
  obtains rep s t where "demo_sync a b = (Inr rep, (s, t, ()))" "converged rep"
proof -
  have "\<exists>rep s' t' u'. demo_sync a b = (Inr rep, (s', t', u')) \<and> converged rep"
    using mem2.sync_converges [OF assms, of demo_digest "\<lambda>_. None" "\<lambda>_. None" None "()"]
    unfolding demo_sync_def by (elim exE conjE) (intro exI conjI, assumption+)
  then show thesis using that by auto
qed

end
