(* ===== verification/Gz_Auth.thy ===== *)
theory Gz_Auth
  imports Gz_Record
begin

text \<open>
  Namespace-scoped principals of the daemon (\<open>gonzalo-server/src/auth.rs\<close>): what a bearer token may
  read and write, who counts as an admin, whose name a write or a delete is stamped with, and how
  the token registry is built from the environment. The TOML deserializer is a parameter: a function
  from the file's text to its \<open>[[principal]]\<close> tables, in order, or an error message.
\<close>

subsection \<open>Principals\<close>

datatype access = Read | Write

record principal =
  p_name :: string
  p_read :: "string list"
  p_write :: "string list"
  p_authenticated :: bool

definition principal_new :: "string \<Rightarrow> string list \<Rightarrow> string list \<Rightarrow> principal" where
  "principal_new nm rd wr = \<lparr>p_name = nm, p_read = rd, p_write = wr, p_authenticated = True\<rparr>"

definition principal_admin :: "string \<Rightarrow> principal" where
  "principal_admin nm = principal_new nm [''*''] [''*'']"

definition principal_open :: principal where
  "principal_open = (principal_admin ''local'')\<lparr>p_authenticated := False\<rparr>"

definition is_admin :: "principal \<Rightarrow> bool" where
  "is_admin p \<longleftrightarrow> (\<exists>s \<in> set (p_read p). s = ''*'') \<and> (\<exists>s \<in> set (p_write p). s = ''*'')"

text \<open>\<open>claimed.or_else(..)\<close>: a claimed author is honoured for an admin only.\<close>

definition delete_author :: "principal \<Rightarrow> identity option \<Rightarrow> identity option" where
  "delete_author p claimed =
     (if \<not> is_admin p then Some (identity_new (p_name p))
      else case claimed of
          Some i \<Rightarrow> Some i
        | None \<Rightarrow> if p_authenticated p then Some (identity_new (p_name p)) else None)"

definition scopes :: "principal \<Rightarrow> access \<Rightarrow> string list" where
  "scopes p a = (case a of Read \<Rightarrow> p_read p | Write \<Rightarrow> p_write p)"

definition allows :: "principal \<Rightarrow> access \<Rightarrow> string \<Rightarrow> bool" where
  "allows p a ns \<longleftrightarrow> (\<exists>s \<in> set (scopes p a). s = ''*'' \<or> s = ns)"

subsection \<open>The token registry\<close>

datatype auth = Disabled | Enabled "string \<rightharpoonup> principal"

definition authenticate :: "auth \<Rightarrow> string option \<Rightarrow> principal option" where
  "authenticate a token =
     (case a of
        Disabled \<Rightarrow> Some principal_open
      | Enabled by_token \<Rightarrow> Option.bind token by_token)"

record principal_def =
  d_name :: string
  d_token :: string
  d_read :: "string list"
  d_write :: "string list"

fun register_all :: "(string \<rightharpoonup> principal) \<Rightarrow> principal_def list \<Rightarrow> string + (string \<rightharpoonup> principal)" where
  "register_all by_token [] = Inr by_token"
| "register_all by_token (d # ds) =
     (let old = by_token (d_token d);
          by_token' = by_token(d_token d \<mapsto> principal_new (d_name d) (d_read d) (d_write d))
      in if old \<noteq> None then Inl ''duplicate token in auth file'' else register_all by_token' ds)"

definition parse_toml :: "(string \<Rightarrow> string + principal_def list) \<Rightarrow> string \<Rightarrow> string + auth" where
  "parse_toml toml s = bindR (toml s) (\<lambda>ds. bindR (register_all Map.empty ds) (\<lambda>m. Inr (Enabled m)))"

text \<open>\<open>Option::filter\<close> with \<open>!s.is_empty()\<close>.\<close>

definition non_empty_var :: "string option \<Rightarrow> string option" where
  "non_empty_var v = (case v of Some s \<Rightarrow> if s \<noteq> [] then Some s else None | None \<Rightarrow> None)"

definition auth_from_env ::
  "(string \<Rightarrow> string + principal_def list) \<Rightarrow> (string \<Rightarrow> string option) \<Rightarrow> (string \<Rightarrow> string + string) \<Rightarrow>
   string + auth" where
  "auth_from_env toml get read_file =
     (case non_empty_var (get ''GONZALO_AUTH_FILE'') of
        Some path \<Rightarrow> bindR (read_file path) (parse_toml toml)
      | None \<Rightarrow>
          (case non_empty_var (get ''GONZALO_TOKEN'') of
             Some token \<Rightarrow> Inr (Enabled [token \<mapsto> principal_admin ''root''])
           | None \<Rightarrow> Inr Disabled))"

subsection \<open>What the registry grants\<close>

lemma is_admin_allows: "is_admin p \<Longrightarrow> allows p a ns"
  by (cases a) (auto simp: is_admin_def allows_def scopes_def)

lemma is_admin_iff: "is_admin p \<longleftrightarrow> allows p Read ''*'' \<and> allows p Write ''*''"
  by (auto simp: is_admin_def allows_def scopes_def)

lemma principal_admin_is_admin [simp]: "is_admin (principal_admin nm)" "is_admin principal_open"
  by (simp_all add: is_admin_def principal_admin_def principal_new_def principal_open_def)

lemma allows_star: "allows p a ''*'' \<Longrightarrow> allows p a ns"
  by (auto simp: allows_def)

abbreviation table_of :: "principal_def list \<Rightarrow> string \<rightharpoonup> principal" where
  "table_of ds \<equiv> map_of (map (\<lambda>d. (d_token d, principal_new (d_name d) (d_read d) (d_write d))) ds)"

lemma fresh_upd:
  "(\<forall>x \<in> set ds. (m(t \<mapsto> v)) (d_token x) = None) \<longleftrightarrow>
     t \<notin> d_token ` set ds \<and> (\<forall>x \<in> set ds. m (d_token x) = None)"
  by (simp add: image_iff Ball_def) blast

lemma table_of_None: "table_of ds t = None \<longleftrightarrow> t \<notin> d_token ` set ds"
  by (auto simp: map_of_eq_None_iff image_iff)

lemma register_all_eq:
  "register_all m ds =
     (if distinct (map d_token ds) \<and> (\<forall>d \<in> set ds. m (d_token d) = None) then Inr (m ++ table_of ds)
      else Inl ''duplicate token in auth file'')"
proof (induction ds arbitrary: m)
  case (Cons d ds)
  let ?v = "principal_new (d_name d) (d_read d) (d_write d)"
  let ?m = "m(d_token d \<mapsto> ?v)"
  have swap: "?m ++ table_of ds = m ++ table_of (d # ds)" if "d_token d \<notin> d_token ` set ds"
    using that table_of_None [of ds "d_token d"]
    by (auto simp: map_add_def fun_eq_iff split: option.splits)
  have "distinct (map d_token (d # ds)) \<and> (\<forall>x \<in> set (d # ds). m (d_token x) = None) \<longleftrightarrow>
      m (d_token d) = None \<and> distinct (map d_token ds) \<and> (\<forall>x \<in> set ds. ?m (d_token x) = None)"
    unfolding fresh_upd by auto
  then show ?case
    using swap by (cases "d_token d \<in> d_token ` set ds"; cases "m (d_token d)")
      (simp_all only: register_all.simps Let_def Cons.IH fresh_upd, simp_all)
qed simp

text \<open>
  A parsed registry hands out exactly the principals of the file: a token that some table names gets
  that table's name and scopes, every other token nothing.
\<close>

lemma authenticate_parsed:
  assumes "toml s = Inr ds" "parse_toml toml s = Inr a"
  shows "distinct (map d_token ds) \<and> authenticate a None = None \<and>
    (\<forall>d \<in> set ds. authenticate a (Some (d_token d)) = Some (principal_new (d_name d) (d_read d) (d_write d))) \<and>
    (\<forall>t. t \<notin> d_token ` set ds \<longrightarrow> authenticate a (Some t) = None)"
proof -
  let ?es = "map (\<lambda>d. (d_token d, principal_new (d_name d) (d_read d) (d_write d))) ds"
  from assms have dist: "distinct (map d_token ds)" and a: "a = Enabled (table_of ds)"
    by (auto simp: parse_toml_def bindR_Inr register_all_eq split: if_splits)
  have "distinct (map fst ?es)" using dist by (simp add: comp_def)
  then have "table_of ds (d_token d) = Some (principal_new (d_name d) (d_read d) (d_write d))" if "d \<in> set ds" for d
    by (rule map_of_is_SomeI) (use that in auto)
  then show ?thesis using dist by (simp add: a authenticate_def table_of_None)
qed

lemma parse_toml_duplicate:
  assumes "toml s = Inr ds" "\<not> distinct (map d_token ds)"
  shows "parse_toml toml s = Inl ''duplicate token in auth file''"
  using assms by (simp add: parse_toml_def register_all_eq)

text \<open>Auth is off only when neither variable is set to something.\<close>

lemma auth_from_env_Disabled:
  "auth_from_env toml get rf = Inr Disabled \<longleftrightarrow>
     non_empty_var (get ''GONZALO_AUTH_FILE'') = None \<and> non_empty_var (get ''GONZALO_TOKEN'') = None"
  by (auto simp: auth_from_env_def parse_toml_def bindR_Inr split: option.splits)

end
