(* ===== verification/Gz_Service.thy ===== *)
theory Gz_Service
  imports Gz_Blobs Gz_Auth Gz_Manifest
begin

text \<open>
  The transport-agnostic service layer of the daemon (\<open>gonzalo-server/src/service.rs\<close>) and the JSON
  bodies both ends of the wire share (\<open>gonzalo-proto/src/http.rs\<close>). The service holds a record store
  and a blob store and forwards to them; \<open>purge\<close> alone has a rule of its own: it refuses to remove
  the live record whose revision it names. Views are found through their manifests; the graph
  queries themselves are answered by the code-graph crates and are not part of this theory, and
  whether a view has an indexed SQLite graph is a parameter (\<open>has_db\<close>, a question to the disk outside
  the stores).
\<close>

subsection \<open>The wire bodies\<close>

record put_body =
  pb_record :: rec
  pb_expected :: "revision option"

datatype put_outcome_dto = OCommitted revision | OConflict conflict

record delete_body =
  db_expected :: "revision option"
  db_author :: "identity option"

datatype delete_outcome_dto = ODeleted | ODeleteConflict conflict

record raw_record_body =
  rb_record :: "rec option"

record purge_body =
  ub_expected :: revision

definition DEFAULT_MAX_BLOB_SIZE :: nat where
  "DEFAULT_MAX_BLOB_SIZE = 64 * 1024 * 1024"

subsection \<open>The service\<close>

record 's service =
  sv_store :: "'s store_vt"
  sv_blobs :: "'s blob_vt"
  sv_graph_root :: "string option"
  sv_max_blob_size :: nat

definition service_new :: "'s store_vt \<Rightarrow> 's blob_vt \<Rightarrow> 's service" where
  "service_new store blobs =
     \<lparr>sv_store = store, sv_blobs = blobs, sv_graph_root = None, sv_max_blob_size = DEFAULT_MAX_BLOB_SIZE\<rparr>"

definition with_max_blob_size :: "nat \<Rightarrow> 's service \<Rightarrow> 's service" where
  "with_max_blob_size n svc = svc\<lparr>sv_max_blob_size := n\<rparr>"

definition with_graph_root :: "string \<Rightarrow> 's service \<Rightarrow> 's service" where
  "with_graph_root root svc = svc\<lparr>sv_graph_root := Some root\<rparr>"

definition sv_get_blob :: "'s service \<Rightarrow> content_hash \<Rightarrow> ('s, core_error, bytes option) io" where
  "sv_get_blob svc h = bv_get_blob (sv_blobs svc) h"

definition sv_put_blob :: "'s service \<Rightarrow> bytes \<Rightarrow> ('s, core_error, content_hash) io" where
  "sv_put_blob svc c = bv_put_blob (sv_blobs svc) c"

definition sv_list_blobs :: "'s service \<Rightarrow> ('s, core_error, blob_entry list) io" where
  "sv_list_blobs svc = bv_list_blobs (sv_blobs svc)"

definition sv_delete_blob :: "'s service \<Rightarrow> content_hash \<Rightarrow> ('s, core_error, unit) io" where
  "sv_delete_blob svc h = bv_delete_blob (sv_blobs svc) h"

definition sv_has_blob :: "'s service \<Rightarrow> content_hash \<Rightarrow> ('s, core_error, bool) io" where
  "sv_has_blob svc h = bv_has_blob (sv_blobs svc) h"

definition sv_get :: "'s service \<Rightarrow> record_key \<Rightarrow> ('s, core_error, rec option) io" where
  "sv_get svc k = vt_get (sv_store svc) k"

definition PROBE_KEY :: record_key where
  "PROBE_KEY = RecordKey ''_gonzalo'' ''_health'' ''_probe''"

text \<open>\<open>.is_ok()\<close>: any answer of the store counts, only an error does not.\<close>

definition sv_ready :: "'s service \<Rightarrow> 's \<Rightarrow> bool \<times> 's" where
  "sv_ready svc s = (case vt_get (sv_store svc) PROBE_KEY s of (Inr _, s') \<Rightarrow> (True, s') | (Inl _, s') \<Rightarrow> (False, s'))"

definition sv_put :: "'s service \<Rightarrow> rec \<Rightarrow> revision option \<Rightarrow> ('s, core_error, put_result) io" where
  "sv_put svc r ex = vt_put (sv_store svc) r ex"

definition sv_list :: "'s service \<Rightarrow> key_prefix \<Rightarrow> ('s, core_error, record_key list) io" where
  "sv_list svc p = vt_list (sv_store svc) p"

definition sv_delete_as ::
  "'s service \<Rightarrow> record_key \<Rightarrow> revision option \<Rightarrow> identity option \<Rightarrow> ('s, core_error, delete_result) io" where
  "sv_delete_as svc k ex au = vt_delete_as (sv_store svc) k ex au"

definition sv_get_raw :: "'s service \<Rightarrow> record_key \<Rightarrow> ('s, core_error, rec option) io" where
  "sv_get_raw svc k = vt_get_raw (sv_store svc) k"

definition sv_list_raw :: "'s service \<Rightarrow> key_prefix \<Rightarrow> ('s, core_error, record_key list) io" where
  "sv_list_raw svc p = vt_list_raw (sv_store svc) p"

definition sv_put_raw :: "'s service \<Rightarrow> rec \<Rightarrow> revision option \<Rightarrow> ('s, core_error, put_result) io" where
  "sv_put_raw svc r ex = vt_put_raw (sv_store svc) r ex"

definition purge_live_refusal :: "record_key \<Rightarrow> rec \<Rightarrow> string" where
  "purge_live_refusal k current =
     key_display k @ '' is live at revision '' @ show_nat (unat (counter (rec_revision current))) @
     ''; purge only discards an existing tombstone. To remove the record use `gonzalo delete`: it keeps '' @
     ''a restore window for manifest kinds, and purging that tombstone would discard it.''"

definition sv_purge :: "'s service \<Rightarrow> record_key \<Rightarrow> revision \<Rightarrow> ('s, core_error, delete_result) io" where
  "sv_purge svc k expected =
     bindE (vt_get_raw (sv_store svc) k) (\<lambda>current.
       case current of
         None \<Rightarrow> vt_purge (sv_store svc) k expected
       | Some c \<Rightarrow>
           if \<not> is_tombstone c \<and> rec_revision c = expected then throwE (Invalid (purge_live_refusal k c))
           else vt_purge (sv_store svc) k expected)"

subsection \<open>Views\<close>

record view_summary =
  vs_repo :: string
  vs_view_id :: string
  vs_files :: nat
  vs_base_commit :: "string option"

definition load_manifest ::
  "entries_parser \<Rightarrow> 's service \<Rightarrow> string \<Rightarrow> string \<Rightarrow> ('s, core_error, manifest) io" where
  "load_manifest gp svc repo view_id =
     (let key = manifest_key repo view_id in
      bindE (vt_get (sv_store svc) key) (\<lambda>r.
        case r of
          Some record \<Rightarrow> liftE (manifest_from_body gp (rec_body record))
        | None \<Rightarrow> throwE (NotFound key)))"

definition view_exists ::
  "(string \<Rightarrow> string \<Rightarrow> string \<Rightarrow> bool) \<Rightarrow> 's service \<Rightarrow> string \<Rightarrow> string \<Rightarrow> ('s, core_error, bool) io" where
  "view_exists has_db svc repo view_id =
     (if (case sv_graph_root svc of Some root \<Rightarrow> has_db root repo view_id | None \<Rightarrow> False) then retE True
      else bindE (vt_get (sv_store svc) (manifest_key repo view_id)) (\<lambda>r. retE (r \<noteq> None)))"

text \<open>
  \<open>graph_views\<close> walks the manifests; a key that is listed and then gone is skipped, a manifest that
  does not parse fails the call. \<open>base\<close> is \<open>recorded_base\<close>, the side file next to the SQLite graph.
\<close>

fun view_rows ::
  "entries_parser \<Rightarrow> (string \<Rightarrow> string \<Rightarrow> string option) \<Rightarrow> 's service \<Rightarrow> record_key list \<Rightarrow>
   ('s, core_error, view_summary list) io" where
  "view_rows gp base svc [] = retE []"
| "view_rows gp base svc (k # ks) =
     bindE (vt_get (sv_store svc) k) (\<lambda>r.
       case r of
         None \<Rightarrow> view_rows gp base svc ks
       | Some record \<Rightarrow>
           bindE (liftE (manifest_from_body gp (rec_body record))) (\<lambda>m.
           bindE (view_rows gp base svc ks) (\<lambda>rows.
             retE (\<lparr>vs_repo = namespace k, vs_view_id = key_id k, vs_files = length (mf_entries m),
                    vs_base_commit = base (namespace k) (key_id k)\<rparr> # rows))))"

definition view_order :: "view_summary \<Rightarrow> string \<times> string" where
  "view_order v = (vs_repo v, vs_view_id v)"

definition graph_views ::
  "entries_parser \<Rightarrow> (string \<Rightarrow> string \<Rightarrow> string option) \<Rightarrow> 's service \<Rightarrow>
   ('s, core_error, view_summary list) io" where
  "graph_views gp base svc =
     bindE (vt_list (sv_store svc) \<lparr>kp_namespace = None, kp_collection = Some GRAPH_MANIFEST_COLLECTION\<rparr>)
       (\<lambda>ks. bindE (view_rows gp base svc ks) (\<lambda>rows. retE (sort_key view_order rows)))"


subsection \<open>What the service adds\<close>

text \<open>The store contract, with a service in front of that store.\<close>

locale served_store = planned_store H cap vk vt abs inv now
  for H :: blake3 and cap :: nat and vk :: "record_key \<Rightarrow> bool" and vt :: "'s store_vt"
    and abs :: "'s \<Rightarrow> store_map" and inv :: "'s \<Rightarrow> bool" and now :: "'s \<Rightarrow> int" +
  fixes svc :: "'s service"
  assumes backing: "sv_store svc = vt"
begin

lemma sv_purge_spec:
  assumes "inv s" "vk k" "sv_purge svc k rv s = (res, s')"
  shows "inv s' \<and>
    (case abs s k of
       None \<Rightarrow> res = Inr Deleted \<and> abs s' = abs s
     | Some c \<Rightarrow>
         if rec_revision c \<noteq> rv then
           res = Inr (DeleteConflict \<lparr>conf_key = k, conf_expected = Some rv, conf_current = c\<rparr>) \<and> abs s' = abs s
         else if is_tombstone c then res = Inr Deleted \<and> abs s' = (abs s)(k := None)
         else res = Inl (Invalid (purge_live_refusal k c)) \<and> abs s' = abs s)"
proof (cases "\<exists>c. abs s k = Some c \<and> \<not> is_tombstone c \<and> rec_revision c = rv")
  case True
  then obtain c where "abs s k = Some c" "\<not> is_tombstone c" "rec_revision c = rv" by blast
  with assms show ?thesis
    by (auto simp: sv_purge_def backing bindE_def get_raw throwE_def)
next
  case False
  then have "vt_purge vt k rv s = (res, s')"
    using assms(3) get_raw [OF assms(1,2)]
    by (auto simp: sv_purge_def backing bindE_def split: option.splits)
  from purge [OF assms(1,2) this] False show ?thesis
    by (auto simp: plan_purge_def stored_key [OF assms(1)] split: option.splits if_splits)
qed

text \<open>A live record survives every purge the daemon accepts.\<close>

lemma sv_purge_keeps_live:
  assumes "inv s" "vk k" "sv_purge svc k rv s = (res, s')"
  shows "live_only (abs s' k') = live_only (abs s k')"
  using sv_purge_spec [OF assms] by (auto simp: live_only_def split: option.splits if_splits)

lemma load_manifest_spec:
  assumes "inv s" "vk (manifest_key repo view)"
  shows "load_manifest gp svc repo view s =
    (case live_only (abs s (manifest_key repo view)) of
       None \<Rightarrow> Inl (NotFound (manifest_key repo view))
     | Some r \<Rightarrow> manifest_from_body gp (rec_body r), s)"
  using get [OF assms]
  by (simp add: load_manifest_def backing Let_def bindE_def liftE_def throwE_def split: option.splits)

lemma view_rows_spec:
  assumes "inv s"
  shows "\<lbrakk>\<forall>k \<in> set ks. vk k;
      \<forall>k \<in> set ks. \<exists>r m. live_only (abs s k) = Some r \<and> manifest_from_body gp (rec_body r) = Inr m\<rbrakk> \<Longrightarrow>
    \<exists>rows. view_rows gp base svc ks s = (Inr rows, s) \<and>
      map view_order rows = map (\<lambda>k. (namespace k, key_id k)) ks"
proof (induction ks)
  case (Cons k ks)
  then obtain r m rows where *: "live_only (abs s k) = Some r" "manifest_from_body gp (rec_body r) = Inr m"
    "view_rows gp base svc ks s = (Inr rows, s)" "map view_order rows = map (\<lambda>k. (namespace k, key_id k)) ks"
    by auto
  let ?row = "\<lparr>vs_repo = namespace k, vs_view_id = key_id k, vs_files = length (mf_entries m),
    vs_base_commit = base (namespace k) (key_id k)\<rparr>"
  have "view_rows gp base svc (k # ks) s = (Inr (?row # rows), s)"
    using * Cons.prems get [OF assms, of k] by (simp add: backing bindE_def liftE_def retE_def)
  moreover have "view_order ?row = (namespace k, key_id k)" by (simp add: view_order_def)
  ultimately show ?case using *(4) by simp
qed (simp add: retE_def)

text \<open>Discovery names each live view once, in order, when every stored manifest parses.\<close>

lemma graph_views_spec:
  assumes "inv s" "\<And>k r. live_only (abs s k) = Some r \<Longrightarrow> collection k = GRAPH_MANIFEST_COLLECTION \<Longrightarrow>
    \<exists>m. manifest_from_body gp (rec_body r) = Inr m"
  shows "\<exists>rows s'. graph_views gp base svc s = (Inr rows, s') \<and> inv s' \<and> abs s' = abs s \<and> sorted (map view_order rows) \<and>
    distinct (map view_order rows) \<and>
    set (map view_order rows) = {(repo, view). live_only (abs s (manifest_key repo view)) \<noteq> None}"
proof -
  let ?p = "\<lparr>kp_namespace = None, kp_collection = Some GRAPH_MANIFEST_COLLECTION\<rparr>"
  obtain ks s0 where ks: "vt_list vt ?p s = (Inr ks, s0)" "distinct ks"
    "set ks = {k. live_only (abs s k) \<noteq> None \<and> kp_matches ?p k}" and s0: "inv s0" "abs s0 = abs s"
    using list [OF assms(1)] by blast
  have col: "collection k = GRAPH_MANIFEST_COLLECTION" if "k \<in> set ks" for k
    using that by (simp add: ks(3) kp_matches_def is_none_or_def)
  have "\<forall>k \<in> set ks. vk k"
    using stored_valid [OF assms(1)] by (auto simp: ks(3) live_only_eq_Some)
  moreover have "\<forall>k \<in> set ks. \<exists>r m. live_only (abs s k) = Some r \<and> manifest_from_body gp (rec_body r) = Inr m"
    using assms(2) col by (fastforce simp: ks(3))
  ultimately obtain rows where rows: "view_rows gp base svc ks s0 = (Inr rows, s0)"
    "map view_order rows = map (\<lambda>k. (namespace k, key_id k)) ks"
    using view_rows_spec [OF s0(1), unfolded s0(2)] by blast
  have "inj_on (\<lambda>k. (namespace k, key_id k)) (set ks)"
  proof (rule inj_onI)
    fix a b assume "a \<in> set ks" "b \<in> set ks" "(namespace a, key_id a) = (namespace b, key_id b)"
    then show "a = b" using col [of a] col [of b] record_key.expand [of a b] by simp
  qed
  then have dist: "distinct (map view_order rows)" by (simp add: rows(2) distinct_map ks(2))
  have mem: "k \<in> set ks \<longleftrightarrow> live_only (abs s k) \<noteq> None \<and> collection k = GRAPH_MANIFEST_COLLECTION" for k
    by (auto simp: ks(3) kp_matches_def is_none_or_def)
  have "set (map view_order rows) = {(repo, view). live_only (abs s (manifest_key repo view)) \<noteq> None}"
  proof (rule set_eqI)
    fix p :: "string \<times> string"
    obtain repo view where p: "p = (repo, view)" by (cases p)
    have "p \<in> set (map view_order rows) \<longleftrightarrow> (\<exists>k \<in> set ks. namespace k = repo \<and> key_id k = view)"
      by (auto simp: rows(2) p)
    also have "\<dots> \<longleftrightarrow> manifest_key repo view \<in> set ks"
    proof
      assume "\<exists>k \<in> set ks. namespace k = repo \<and> key_id k = view"
      then obtain k where "k \<in> set ks" "namespace k = repo" "key_id k = view" by blast
      then show "manifest_key repo view \<in> set ks" using col [of k] record_key.collapse [of k]
        by (simp add: manifest_key_def)
    qed (force simp: manifest_key_def)
    finally show "p \<in> set (map view_order rows) \<longleftrightarrow>
        p \<in> {(repo, view). live_only (abs s (manifest_key repo view)) \<noteq> None}"
      by (simp add: mem p manifest_key_def)
  qed
  moreover have "graph_views gp base svc s = (Inr (sort_key view_order rows), s0)"
    by (simp add: graph_views_def backing bindE_def ks(1) rows(1) retE_def)
  moreover have "distinct (map view_order (sort_key view_order rows))"
    using dist by (simp add: distinct_map)
  moreover have "set (map view_order (sort_key view_order rows)) = set (map view_order rows)" by simp
  ultimately show ?thesis using sorted_sort_key s0 by metis
qed

end

end
