(* ===== verification/Gz_Http.thy ===== *)
theory Gz_Http
  imports Gz_Service
begin

text \<open>
  The HTTP transport of the daemon (\<open>gonzalo-server/src/http.rs\<close>): the authentication layer, the
  authorization each handler does, and the mapping of results to status codes, for every route of
  the record, replication and blob surface. Routing, percent-decoding and JSON extraction belong to
  axum and serde: an \<open>http_call\<close> is what they hand to a handler. A request
  that skips the authentication layer carries no principal, so that every handler but the two probes
  would answer \<open>500\<close> (axum's answer to a missing extension). The JSON parse of a purge body happens
  inside the handler, so it is a parameter (\<open>from_slice\<close>), as is the check that a header value is
  visible ASCII (\<open>to_str\<close>). A formatted refusal is kept as the values that are printed in it. The
  ticket and code-graph routes are not part of the model.
\<close>

subsection \<open>Requests and responses\<close>

definition BLOB_NS :: string where
  "BLOB_NS = ''_blobs''"

record list_query =
  lq_namespace :: "string option"
  lq_collection :: "string option"

datatype http_call =
    Healthz
  | Readyz
  | GetRecord string string string
  | PutRecord "string \<times> string \<times> string" put_body
  | DeleteRecord string string string "delete_body option"
  | ListKeys list_query
  | GetRawRecord string string string
  | PutRawRecord "string \<times> string \<times> string" put_body
  | ListRawKeys list_query
  | PurgeRecord string string string bytes
  | GetBlob string
  | HeadBlob string
  | PutBlob string bytes
  | DeleteBlob string
  | ListBlobs

record http_request =
  rq_path :: string
  rq_authorization :: "bytes option"
  rq_call :: http_call

datatype http_body =
    Empty
  | Text string
  | LacksAccess string access string
  | NotAdmin string string
  | RecordJson rec
  | KeysJson "record_key list"
  | RawRecordJson raw_record_body
  | PutOutcomeJson put_outcome_dto
  | DeleteOutcomeJson delete_outcome_dto
  | BlobEntriesJson "blob_entry list"
  | Octets bytes

record http_response =
  rs_status :: nat
  rs_body :: http_body

definition resp :: "nat \<Rightarrow> http_body \<Rightarrow> http_response" where
  "resp st b = \<lparr>rs_status = st, rs_body = b\<rparr>"

definition forbidden :: "principal \<Rightarrow> access \<Rightarrow> string \<Rightarrow> http_response" where
  "forbidden p a ns = resp 403 (LacksAccess (p_name p) a ns)"

definition forbidden_admin :: "principal \<Rightarrow> string \<Rightarrow> http_response" where
  "forbidden_admin p operation = resp 403 (NotAdmin (p_name p) operation)"

definition path_key_mismatch :: "string \<times> string \<times> string \<Rightarrow> record_key \<Rightarrow> http_response option" where
  "path_key_mismatch path k =
     (case path of (ns, col, i) \<Rightarrow>
       if ns \<noteq> namespace k \<or> col \<noteq> collection k \<or> i \<noteq> key_id k
       then Some (resp 400 (Text ''URL path does not match record key'')) else None)"

definition server_error :: http_response where
  "server_error = resp 500 (Text ''internal error'')"

fun put_outcome_response :: "put_result result \<Rightarrow> http_response" where
  "put_outcome_response (Inr (Committed rv)) = resp 200 (PutOutcomeJson (OCommitted rv))"
| "put_outcome_response (Inr (PutConflict c)) = resp 409 (PutOutcomeJson (OConflict c))"
| "put_outcome_response (Inl (NotFound k)) = resp 412 (Text (''record not found: '' @ key_display k))"
| "put_outcome_response (Inl (Invalid reason)) = resp 400 (Text reason)"
| "put_outcome_response (Inl _) = server_error"

fun delete_outcome_response :: "delete_result result \<Rightarrow> http_response" where
  "delete_outcome_response (Inr Deleted) = resp 200 (DeleteOutcomeJson ODeleted)"
| "delete_outcome_response (Inr (DeleteConflict c)) = resp 409 (DeleteOutcomeJson (ODeleteConflict c))"
| "delete_outcome_response (Inl (Invalid reason)) = resp 400 (Text reason)"
| "delete_outcome_response (Inl _) = server_error"

definition is_probe_path :: "string \<Rightarrow> bool" where
  "is_probe_path path \<longleftrightarrow> path = ''/healthz'' \<or> path = ''/readyz''"

definition healthz :: http_response where
  "healthz = resp 200 (Text ''ok'')"

definition readyz :: "'s service \<Rightarrow> 's \<Rightarrow> http_response \<times> 's" where
  "readyz svc s =
     (case sv_ready svc s of
        (True, s') \<Rightarrow> (resp 200 (Text ''ready''), s')
      | (False, s') \<Rightarrow> (resp 503 (Text ''not ready''), s'))"

definition bearer :: "(bytes \<Rightarrow> string option) \<Rightarrow> bytes option \<Rightarrow> string option" where
  "bearer to_str h = Option.bind (Option.bind h to_str) (strip_prefix ''Bearer '')"

subsection \<open>The handlers\<close>

text \<open>Run a service call and turn its result into a response.\<close>

definition respond :: "('a result \<Rightarrow> http_response) \<Rightarrow> ('s, core_error, 'a) io \<Rightarrow> 's \<Rightarrow> http_response \<times> 's" where
  "respond f m s = (case m s of (r, s') \<Rightarrow> (f r, s'))"

definition ok_or_500 :: "('a \<Rightarrow> http_response) \<Rightarrow> 'a result \<Rightarrow> http_response" where
  "ok_or_500 f r = (case r of Inr x \<Rightarrow> f x | Inl _ \<Rightarrow> server_error)"

definition get_record :: "'s service \<Rightarrow> principal \<Rightarrow> string \<Rightarrow> string \<Rightarrow> string \<Rightarrow> 's \<Rightarrow> http_response \<times> 's" where
  "get_record svc p ns col i s =
     (if \<not> allows p Read ns then (forbidden p Read ns, s)
      else respond (ok_or_500 (\<lambda>r. case r of Some x \<Rightarrow> resp 200 (RecordJson x) | None \<Rightarrow> resp 404 Empty))
             (sv_get svc (RecordKey ns col i)) s)"

text \<open>Authorship is stamped from the authenticated principal; open mode leaves it as it is.\<close>

definition stamp_author :: "principal \<Rightarrow> rec \<Rightarrow> rec" where
  "stamp_author p r =
     (if p_authenticated p then r\<lparr>rec_meta := (rec_meta r)\<lparr>author := identity_new (p_name p)\<rparr>\<rparr> else r)"

definition put_record ::
  "'s service \<Rightarrow> principal \<Rightarrow> string \<times> string \<times> string \<Rightarrow> put_body \<Rightarrow> 's \<Rightarrow> http_response \<times> 's" where
  "put_record svc p path body s =
     (case path_key_mismatch path (rec_key (pb_record body)) of
        Some bad \<Rightarrow> (bad, s)
      | None \<Rightarrow>
          let ns = namespace (rec_key (pb_record body)) in
          if \<not> allows p Write ns then (forbidden p Write ns, s)
          else respond put_outcome_response (sv_put svc (stamp_author p (pb_record body)) (pb_expected body)) s)"

definition delete_record ::
  "'s service \<Rightarrow> principal \<Rightarrow> string \<Rightarrow> string \<Rightarrow> string \<Rightarrow> delete_body option \<Rightarrow> 's \<Rightarrow> http_response \<times> 's" where
  "delete_record svc p ns col i body s =
     (if \<not> allows p Write ns then (forbidden p Write ns, s)
      else
        let (expected, claimed) = (case body of Some b \<Rightarrow> (db_expected b, db_author b) | None \<Rightarrow> (None, None));
            au = delete_author p claimed;
            key = RecordKey ns col i
        in respond delete_outcome_response (sv_delete_as svc key expected au) s)"

definition list_prefix :: "principal \<Rightarrow> list_query \<Rightarrow> http_response + key_prefix" where
  "list_prefix p q =
     (let ns = (case lq_namespace q of Some n \<Rightarrow> n | None \<Rightarrow> ''*'') in
      if \<not> allows p Read ns then Inl (forbidden p Read ns)
      else Inr \<lparr>kp_namespace = lq_namespace q, kp_collection = lq_collection q\<rparr>)"

definition list_keys :: "'s service \<Rightarrow> principal \<Rightarrow> list_query \<Rightarrow> 's \<Rightarrow> http_response \<times> 's" where
  "list_keys svc p q s =
     (case list_prefix p q of
        Inl denied \<Rightarrow> (denied, s)
      | Inr pre \<Rightarrow> respond (ok_or_500 (\<lambda>ks. resp 200 (KeysJson ks))) (sv_list svc pre) s)"

definition get_raw_record :: "'s service \<Rightarrow> principal \<Rightarrow> string \<Rightarrow> string \<Rightarrow> string \<Rightarrow> 's \<Rightarrow> http_response \<times> 's" where
  "get_raw_record svc p ns col i s =
     (if \<not> allows p Read ns then (forbidden p Read ns, s)
      else respond (ok_or_500 (\<lambda>r. resp 200 (RawRecordJson \<lparr>rb_record = r\<rparr>)))
             (sv_get_raw svc (RecordKey ns col i)) s)"

definition put_raw_record ::
  "'s service \<Rightarrow> principal \<Rightarrow> string \<times> string \<times> string \<Rightarrow> put_body \<Rightarrow> 's \<Rightarrow> http_response \<times> 's" where
  "put_raw_record svc p path body s =
     (if \<not> is_admin p then (forbidden_admin p ''a raw record write'', s)
      else
        case path_key_mismatch path (rec_key (pb_record body)) of
          Some bad \<Rightarrow> (bad, s)
        | None \<Rightarrow> respond put_outcome_response (sv_put_raw svc (pb_record body) (pb_expected body)) s)"

definition list_raw_keys :: "'s service \<Rightarrow> principal \<Rightarrow> list_query \<Rightarrow> 's \<Rightarrow> http_response \<times> 's" where
  "list_raw_keys svc p q s =
     (case list_prefix p q of
        Inl denied \<Rightarrow> (denied, s)
      | Inr pre \<Rightarrow> respond (ok_or_500 (\<lambda>ks. resp 200 (KeysJson ks))) (sv_list_raw svc pre) s)"

definition purge_record ::
  "(bytes \<Rightarrow> string + purge_body) \<Rightarrow> 's service \<Rightarrow> principal \<Rightarrow> string \<Rightarrow> string \<Rightarrow> string \<Rightarrow> bytes \<Rightarrow> 's \<Rightarrow>
   http_response \<times> 's" where
  "purge_record from_slice svc p ns col i body s =
     (if \<not> is_admin p then (forbidden_admin p ''purge'', s)
      else
        case from_slice body of
          Inl e \<Rightarrow> (resp 400 (Text (''invalid purge body: '' @ e)), s)
        | Inr b \<Rightarrow> respond delete_outcome_response (sv_purge svc (RecordKey ns col i) (ub_expected b)) s)"

definition get_blob :: "'s service \<Rightarrow> principal \<Rightarrow> string \<Rightarrow> 's \<Rightarrow> http_response \<times> 's" where
  "get_blob svc p h s =
     (if \<not> allows p Read BLOB_NS then (forbidden p Read BLOB_NS, s)
      else respond (ok_or_500 (\<lambda>r. case r of Some b \<Rightarrow> resp 200 (Octets b) | None \<Rightarrow> resp 404 Empty))
             (sv_get_blob svc (ContentHash h)) s)"

definition head_blob :: "'s service \<Rightarrow> principal \<Rightarrow> string \<Rightarrow> 's \<Rightarrow> http_response \<times> 's" where
  "head_blob svc p h s =
     (if \<not> allows p Read BLOB_NS then (forbidden p Read BLOB_NS, s)
      else respond (ok_or_500 (\<lambda>b. if b then resp 200 Empty else resp 404 Empty))
             (sv_has_blob svc (ContentHash h)) s)"

definition put_blob :: "blake3 \<Rightarrow> 's service \<Rightarrow> principal \<Rightarrow> string \<Rightarrow> bytes \<Rightarrow> 's \<Rightarrow> http_response \<times> 's" where
  "put_blob H svc p h body s =
     (if \<not> allows p Write BLOB_NS then (forbidden p Write BLOB_NS, s)
      else if hash_str (content_hash_of H body) \<noteq> h
      then (resp 400 (Text ''blob content does not match the URL hash''), s)
      else respond (ok_or_500 (\<lambda>_. resp 200 Empty)) (sv_put_blob svc body) s)"

definition delete_blob :: "'s service \<Rightarrow> principal \<Rightarrow> string \<Rightarrow> 's \<Rightarrow> http_response \<times> 's" where
  "delete_blob svc p h s =
     (if \<not> allows p Write BLOB_NS then (forbidden p Write BLOB_NS, s)
      else respond (ok_or_500 (\<lambda>_. resp 200 Empty)) (sv_delete_blob svc (ContentHash h)) s)"

definition list_blobs :: "'s service \<Rightarrow> principal \<Rightarrow> 's \<Rightarrow> http_response \<times> 's" where
  "list_blobs svc p s =
     (if \<not> allows p Read BLOB_NS then (forbidden p Read BLOB_NS, s)
      else respond (ok_or_500 (\<lambda>es. resp 200 (BlobEntriesJson es))) (sv_list_blobs svc) s)"

subsection \<open>The router\<close>

text \<open>
  The handlers behind the authentication layer. On the blob routes a body over the size ceiling is
  answered \<open>413\<close> by the route's \<open>DefaultBodyLimit\<close> before the handler runs.
\<close>

fun dispatch ::
  "blake3 \<Rightarrow> (bytes \<Rightarrow> string + purge_body) \<Rightarrow> 's service \<Rightarrow> principal \<Rightarrow> http_call \<Rightarrow> 's \<Rightarrow> http_response \<times> 's" where
  "dispatch H fs svc p Healthz s = (healthz, s)"
| "dispatch H fs svc p Readyz s = readyz svc s"
| "dispatch H fs svc p (GetRecord ns col i) s = get_record svc p ns col i s"
| "dispatch H fs svc p (PutRecord path body) s = put_record svc p path body s"
| "dispatch H fs svc p (DeleteRecord ns col i body) s = delete_record svc p ns col i body s"
| "dispatch H fs svc p (ListKeys q) s = list_keys svc p q s"
| "dispatch H fs svc p (GetRawRecord ns col i) s = get_raw_record svc p ns col i s"
| "dispatch H fs svc p (PutRawRecord path body) s = put_raw_record svc p path body s"
| "dispatch H fs svc p (ListRawKeys q) s = list_raw_keys svc p q s"
| "dispatch H fs svc p (PurgeRecord ns col i body) s = purge_record fs svc p ns col i body s"
| "dispatch H fs svc p (GetBlob h) s = get_blob svc p h s"
| "dispatch H fs svc p (HeadBlob h) s = head_blob svc p h s"
| "dispatch H fs svc p (PutBlob h body) s =
     (if sv_max_blob_size svc < length body then (resp 413 Empty, s) else put_blob H svc p h body s)"
| "dispatch H fs svc p (DeleteBlob h) s = delete_blob svc p h s"
| "dispatch H fs svc p ListBlobs s = list_blobs svc p s"

definition router ::
  "blake3 \<Rightarrow> (bytes \<Rightarrow> string option) \<Rightarrow> (bytes \<Rightarrow> string + purge_body) \<Rightarrow> auth \<Rightarrow> 's service \<Rightarrow>
   http_request \<Rightarrow> 's \<Rightarrow> http_response \<times> 's" where
  "router H to_str fs au svc rq s =
     (if is_probe_path (rq_path rq) then
        (case rq_call rq of
           Healthz \<Rightarrow> (healthz, s)
         | Readyz \<Rightarrow> readyz svc s
         | _ \<Rightarrow> (resp 500 Empty, s))
      else
        (case authenticate au (bearer to_str (rq_authorization rq)) of
           Some p \<Rightarrow> dispatch H fs svc p (rq_call rq) s
         | None \<Rightarrow> (resp 401 Empty, s)))"

end
