(* ===== verification/Gz_HttpProofs.thy ===== *)
theory Gz_HttpProofs
  imports Gz_Http
begin

text \<open>
  What the HTTP surface guarantees in front of any store that meets \<open>full_store\<close>: a request changes
  records and blobs only where its principal may write, shows records only where it may read (a
  conflict shows the current record to a writer), stamps the caller's name, and leaves the
  replication writes to admins.
\<close>

subsection \<open>The planners keep to the key and the author\<close>

lemma put_effect_other: "k' \<noteq> k \<Longrightarrow> put_effect k plan m k' = m k'"
  by (cases plan) auto

lemma delete_effect_other: "k' \<noteq> k \<Longrightarrow> delete_effect k plan m k' = m k'"
  by (cases plan) auto

lemma put_effect_dom: "m k \<noteq> None \<Longrightarrow> put_effect k0 plan m k \<noteq> None"
  by (cases plan) auto

lemma delete_effect_dom: "m k \<noteq> None \<Longrightarrow> delete_effect k0 plan m k \<noteq> None"
  by (cases plan) auto

lemma plan_put_author:
  "plan_put H cur r ex now cap = PutWrite stored \<Longrightarrow> author (rec_meta stored) = author (rec_meta r)"
  by (auto simp: plan_put_def with_folded_def stamp_def recreated_def split: if_splits option.splits)

lemma plan_put_conflict_current:
  "plan_put H cur r ex now cap = PutPlanConflict c \<Longrightarrow> cur = Some (conf_current c) \<and> \<not> is_tombstone (conf_current c)"
  by (auto simp: plan_put_def split: if_splits option.splits)

lemma plan_put_raw_conflict_current:
  "plan_put_raw cur r ex now cap = PutPlanConflict c \<Longrightarrow> cur = Some (conf_current c)"
  by (auto simp: plan_put_raw_def split: if_splits option.splits)

lemma plan_delete_conflict_current:
  "plan_delete H cur ex now cap au = DelPlanConflict c \<Longrightarrow> cur = Some (conf_current c)"
  by (auto simp: plan_delete_def split: if_splits option.splits)

lemma plan_delete_author:
  "plan_delete H cur ex now cap (Some a) = DelWrite t \<Longrightarrow> author (rec_meta t) = a"
  by (auto simp: plan_delete_def tombstone_of_def Let_def split: if_splits option.splits)

lemma delete_author_non_admin: "\<not> is_admin p \<Longrightarrow> delete_author p claimed = Some (identity_new (p_name p))"
  by (simp add: delete_author_def)

lemma stamp_author_key [simp]: "rec_key (stamp_author p r) = rec_key r"
  by (simp add: stamp_author_def)

lemma stamp_author_author: "p_authenticated p \<Longrightarrow> author (rec_meta (stamp_author p r)) = identity_new (p_name p)"
  by (simp add: stamp_author_def)

subsection \<open>What a request addresses and what a response shows\<close>

fun call_valid :: "(record_key \<Rightarrow> bool) \<Rightarrow> (content_hash \<Rightarrow> bool) \<Rightarrow> http_call \<Rightarrow> bool" where
  "call_valid vk hv (GetRecord ns col i) = vk (RecordKey ns col i)"
| "call_valid vk hv (PutRecord path b) = vk (rec_key (pb_record b))"
| "call_valid vk hv (DeleteRecord ns col i b) = vk (RecordKey ns col i)"
| "call_valid vk hv (GetRawRecord ns col i) = vk (RecordKey ns col i)"
| "call_valid vk hv (PutRawRecord path b) = vk (rec_key (pb_record b))"
| "call_valid vk hv (PurgeRecord ns col i b) = vk (RecordKey ns col i)"
| "call_valid vk hv (GetBlob h) = hv (ContentHash h)"
| "call_valid vk hv (HeadBlob h) = hv (ContentHash h)"
| "call_valid vk hv (DeleteBlob h) = hv (ContentHash h)"
| "call_valid vk hv c = True"

fun body_keys :: "http_body \<Rightarrow> record_key set" where
  "body_keys (RecordJson r) = {rec_key r}"
| "body_keys (RawRecordJson b) = (case rb_record b of Some r \<Rightarrow> {rec_key r} | None \<Rightarrow> {})"
| "body_keys (KeysJson ks) = set ks"
| "body_keys (PutOutcomeJson (OConflict c)) = {rec_key (conf_current c)}"
| "body_keys (DeleteOutcomeJson (ODeleteConflict c)) = {rec_key (conf_current c)}"
| "body_keys _ = {}"

lemma path_key_mismatch_None:
  "path_key_mismatch path k = None \<longleftrightarrow> path = (namespace k, collection k, key_id k)"
  by (cases path) (auto simp: path_key_mismatch_def)

lemma path_key_mismatch_Some:
  "path_key_mismatch path k = Some bad \<Longrightarrow> bad = resp 400 (Text ''URL path does not match record key'')"
  by (cases path) (auto simp: path_key_mismatch_def split: if_splits)

lemma respond_eq: "respond f m s = (r, s') \<longleftrightarrow> (\<exists>x. m s = (x, s') \<and> r = f x)"
  by (auto simp: respond_def split: prod.splits)

lemma rs_body_resp [simp]: "rs_body (resp st b) = b" "rs_status (resp st b) = st"
  by (simp_all add: resp_def)

lemma server_error_body [simp]: "rs_body server_error = Text ''internal error''"
  by (simp add: server_error_def)

lemma forbidden_simps [simp]:
  "rs_body (forbidden p a ns) = LacksAccess (p_name p) a ns" "rs_status (forbidden p a ns) = 403"
  "rs_body (forbidden_admin p oper) = NotAdmin (p_name p) oper" "rs_status (forbidden_admin p oper) = 403"
  by (simp_all add: forbidden_def forbidden_admin_def)

lemma body_keys_put_outcome:
  "body_keys (rs_body (put_outcome_response res)) =
     (case res of Inr (PutConflict c) \<Rightarrow> {rec_key (conf_current c)} | _ \<Rightarrow> {})"
  by (cases res rule: put_outcome_response.cases) simp_all

lemma body_keys_delete_outcome:
  "body_keys (rs_body (delete_outcome_response res)) =
     (case res of Inr (DeleteConflict c) \<Rightarrow> {rec_key (conf_current c)} | _ \<Rightarrow> {})"
  by (cases res rule: delete_outcome_response.cases) simp_all

lemma list_prefix_matches:
  assumes "list_prefix p q = Inr pre" "kp_matches pre k"
  shows "allows p Read (namespace k)"
  using assms
  by (auto simp: list_prefix_def Let_def kp_matches_def is_none_or_def allows_star split: option.splits if_splits)

subsection \<open>The handlers in front of a store\<close>

locale http_service = full_store H cap vk vt abs inv now bv blobs hv
  for H :: blake3 and cap :: nat and vk :: "record_key \<Rightarrow> bool" and vt :: "'s store_vt"
    and abs :: "'s \<Rightarrow> store_map" and inv :: "'s \<Rightarrow> bool" and now :: "'s \<Rightarrow> int"
    and bv :: "'s blob_vt" and blobs :: "'s \<Rightarrow> blob_map" and hv :: "content_hash \<Rightarrow> bool" +
  fixes svc :: "'s service"
  assumes store_is: "sv_store svc = vt" and blobs_is: "sv_blobs svc = bv"

sublocale http_service \<subseteq> sv: served_store H cap vk vt abs inv now svc
  by unfold_locales (rule store_is)

context http_service
begin

text \<open>
  One request, seen from outside: what it may change, that it turns a live record into another one or
  into a tombstone but never into nothing, and what it may show.
\<close>

definition confined :: "principal \<Rightarrow> http_response \<Rightarrow> 's \<Rightarrow> 's \<Rightarrow> bool" where
  "confined p r s s' \<longleftrightarrow> inv s' \<and>
     (\<forall>k. allows p Write (namespace k) \<or> abs s' k = abs s k) \<and>
     (\<forall>k. live_only (abs s k) \<noteq> None \<longrightarrow> abs s' k \<noteq> None) \<and>
     (allows p Write BLOB_NS \<or> blobs s' = blobs s) \<and>
     (\<forall>k \<in> body_keys (rs_body r). allows p Read (namespace k) \<or>
        allows p Write (namespace k) \<and> rs_status r = 409)"

lemma live_stored: "live_only m \<noteq> None \<Longrightarrow> m \<noteq> None"
  by (cases m) (auto simp: live_only_def)

lemma confined_same: "inv s \<Longrightarrow> body_keys (rs_body r) = {} \<Longrightarrow> confined p r s s"
  using live_stored by (auto simp: confined_def)

lemma confined_at:
  assumes "inv s'" "\<And>k. k \<noteq> k0 \<Longrightarrow> abs s' k = abs s k"
    "abs s k0 \<noteq> None \<Longrightarrow> abs s' k0 \<noteq> None" "blobs s' = blobs s" "allows p Write (namespace k0)"
    "\<And>k. k \<in> body_keys (rs_body r) \<Longrightarrow> k = k0 \<and> rs_status r = 409"
  shows "confined p r s s'"
proof -
  have "allows p Write (namespace k) \<or> abs s' k = abs s k" for k
    using assms(2,5) by (cases "k = k0") auto
  moreover have "abs s' k \<noteq> None" if "live_only (abs s k) \<noteq> None" for k
    using assms(2,3) live_stored [OF that] by (cases "k = k0") auto
  moreover have "allows p Write (namespace k) \<and> rs_status r = 409" if "k \<in> body_keys (rs_body r)" for k
    using assms(5,6) that by blast
  ultimately show ?thesis using assms(1,4) by (simp add: confined_def)
qed

lemma put_record_confined:
  assumes "inv s" "vk (rec_key (pb_record b))" "put_record svc p path b s = (r, s')"
  shows "confined p r s s'"
proof (cases "path_key_mismatch path (rec_key (pb_record b)) = None \<and>
    allows p Write (namespace (rec_key (pb_record b)))")
  case True
  let ?r = "stamp_author p (pb_record b)"
  obtain res where run: "vt_put vt ?r (pb_expected b) s = (res, s')" and r: "r = put_outcome_response res"
    using assms(3) True by (auto simp: put_record_def Let_def respond_eq sv_put_def store_is)
  let ?plan = "plan_put H (abs s (rec_key ?r)) ?r (pb_expected b) (now s) cap"
  have "vk (rec_key ?r)" using assms(2) by simp
  note P = put [OF assms(1) this run] and B = put_blobs [OF assms(1) this run]
  have shown: "k = rec_key (pb_record b) \<and> rs_status r = 409" if "k \<in> body_keys (rs_body r)" for k
  proof -
    from that obtain c where c: "res = Inr (PutConflict c)" "k = rec_key (conf_current c)"
      by (auto simp: r body_keys_put_outcome split: sum.splits put_result.splits)
    then have "?plan = PutPlanConflict c" using P by (cases ?plan) auto
    from plan_put_conflict_current [OF this] stored_key [OF assms(1)] c show ?thesis by (auto simp: r)
  qed
  show ?thesis
    by (rule confined_at [of s' "rec_key (pb_record b)"])
      (use P B True shown put_effect_other put_effect_dom in \<open>simp_all\<close>)
next
  case False
  then have "s' = s \<and> body_keys (rs_body r) = {}"
    using assms(3) path_key_mismatch_Some
    by (fastforce simp: put_record_def Let_def split: option.splits if_splits)
  with assms(1) show ?thesis by (simp add: confined_same)
qed

lemma put_raw_record_confined:
  assumes "inv s" "vk (rec_key (pb_record b))" "put_raw_record svc p path b s = (r, s')"
  shows "confined p r s s'"
proof (cases "is_admin p")
  case True
  show ?thesis
  proof (cases "path_key_mismatch path (rec_key (pb_record b))")
    case None
    then obtain res where run: "vt_put_raw vt (pb_record b) (pb_expected b) s = (res, s')"
      using assms(3) True by (auto simp: put_raw_record_def respond_eq sv_put_raw_def store_is)
    from put_raw [OF assms(1,2) run] True is_admin_allows show ?thesis
      using live_stored put_effect_dom by (auto simp: confined_def)
  next
    case (Some bad)
    with assms True path_key_mismatch_Some [OF Some] show ?thesis
      by (auto simp: put_raw_record_def intro: confined_same)
  qed
qed (use assms in \<open>auto simp: put_raw_record_def intro: confined_same\<close>)

lemma delete_record_confined:
  assumes "inv s" "vk (RecordKey ns col i)" "delete_record svc p ns col i b s = (r, s')"
  shows "confined p r s s'"
proof (cases "allows p Write ns")
  case True
  let ?k = "RecordKey ns col i"
  obtain ex au res where run: "vt_delete_as vt ?k ex au s = (res, s')" and r: "r = delete_outcome_response res"
    using assms(3) True
    by (auto simp: delete_record_def Let_def respond_eq sv_delete_as_def store_is split: prod.splits)
  let ?plan = "plan_delete H (abs s ?k) ex (now s) cap au"
  note P = delete_as [OF assms(1,2) run] and B = delete_as_blobs [OF assms(1,2) run]
  have shown: "k = ?k \<and> rs_status r = 409" if "k \<in> body_keys (rs_body r)" for k
  proof -
    from that obtain c where c: "res = Inr (DeleteConflict c)" "k = rec_key (conf_current c)"
      by (auto simp: r body_keys_delete_outcome split: sum.splits delete_result.splits)
    then have "?plan = DelPlanConflict c" using P by (cases ?plan) auto
    from plan_delete_conflict_current [OF this] stored_key [OF assms(1)] c show ?thesis by (auto simp: r)
  qed
  show ?thesis
    by (rule confined_at [of s' ?k]) (use P B True shown delete_effect_other delete_effect_dom in \<open>simp_all\<close>)
qed (use assms in \<open>auto simp: delete_record_def intro: confined_same\<close>)

lemma purge_record_confined:
  assumes "inv s" "vk (RecordKey ns col i)" "purge_record fs svc p ns col i b s = (r, s')"
  shows "confined p r s s'"
proof (cases "is_admin p")
  case True
  show ?thesis
  proof (cases "fs b")
    case (Inr u)
    then obtain res where "sv_purge svc (RecordKey ns col i) (ub_expected u) s = (res, s')"
      using assms(3) True by (auto simp: purge_record_def respond_eq)
    note run = this
    have "abs s' k \<noteq> None" if "live_only (abs s k) \<noteq> None" for k
      by (rule live_stored) (use sv.sv_purge_keeps_live [OF assms(1,2) run, of k] that in simp)
    with sv.sv_purge_spec [OF assms(1,2) run] True is_admin_allows show ?thesis by (simp add: confined_def)
  qed (use assms True in \<open>auto simp: purge_record_def intro: confined_same\<close>)
qed (use assms in \<open>auto simp: purge_record_def intro: confined_same\<close>)

lemma read_confined:
  assumes "inv s"
  shows "vk (RecordKey ns col i) \<Longrightarrow> get_record svc p ns col i s = (r, s') \<Longrightarrow> confined p r s s'"
    and "vk (RecordKey ns col i) \<Longrightarrow> get_raw_record svc p ns col i s = (r, s') \<Longrightarrow> confined p r s s'"
    and "list_keys svc p q s = (r, s') \<Longrightarrow> confined p r s s'"
    and "list_raw_keys svc p q s = (r, s') \<Longrightarrow> confined p r s s'"
proof -
  let ?k = "RecordKey ns col i"
  have key: "rec_key x = ?k" if "abs s ?k = Some x" for x using stored_key [OF assms that] .
  note live = live_stored
  show "confined p r s s'" if "vk ?k" "get_record svc p ns col i s = (r, s')"
    using that get [OF assms that(1)] assms key live
    by (auto simp: get_record_def respond_eq sv_get_def store_is ok_or_500_def confined_def live_only_eq_Some
        split: if_splits option.splits)
  show "confined p r s s'" if "vk ?k" "get_raw_record svc p ns col i s = (r, s')"
    using that get_raw [OF assms that(1)] assms key live
    by (auto simp: get_raw_record_def respond_eq sv_get_raw_def store_is ok_or_500_def confined_def
        split: if_splits option.splits)
  show "confined p r s s'" if run: "list_keys svc p q s = (r, s')"
  proof (cases "list_prefix p q")
    case (Inr pre)
    obtain ks s0 where ks: "vt_list vt pre s = (Inr ks, s0)" "set ks = {k. live_only (abs s k) \<noteq> None \<and> kp_matches pre k}"
      "inv s0" "abs s0 = abs s"
      using list [OF assms] by blast
    with list_keeps_blobs [OF assms ks(1)] run Inr assms list_prefix_matches [OF Inr] live_stored show ?thesis
      by (auto simp: list_keys_def respond_eq sv_list_def store_is ok_or_500_def confined_def)
  qed (use run assms in \<open>auto simp: list_keys_def list_prefix_def Let_def split: if_splits intro: confined_same\<close>)
  show "confined p r s s'" if run: "list_raw_keys svc p q s = (r, s')"
  proof (cases "list_prefix p q")
    case (Inr pre)
    obtain ks where "vt_list_raw vt pre s = (Inr ks, s)" "set ks = {k. abs s k \<noteq> None \<and> kp_matches pre k}"
      using list_raw [OF assms] by blast
    with run Inr assms list_prefix_matches [OF Inr] live_stored show ?thesis
      by (auto simp: list_raw_keys_def respond_eq sv_list_raw_def store_is ok_or_500_def confined_def)
  qed (use run assms in \<open>auto simp: list_raw_keys_def list_prefix_def Let_def split: if_splits intro: confined_same\<close>)
qed

lemma blob_confined:
  assumes "inv s"
  shows "hv (ContentHash h) \<Longrightarrow> get_blob svc p h s = (r, s') \<Longrightarrow> confined p r s s'"
    and "hv (ContentHash h) \<Longrightarrow> head_blob svc p h s = (r, s') \<Longrightarrow> confined p r s s'"
    and "hv (ContentHash h) \<Longrightarrow> delete_blob svc p h s = (r, s') \<Longrightarrow> confined p r s s'"
    and "put_blob H svc p h c s = (r, s') \<Longrightarrow> confined p r s s'"
    and "list_blobs svc p s = (r, s') \<Longrightarrow> confined p r s s'"
proof -
  show "confined p r s s'" if "hv (ContentHash h)" "get_blob svc p h s = (r, s')"
    using that get_blob [OF assms that(1)] assms live_stored
    by (auto simp: Gz_Http.get_blob_def respond_eq sv_get_blob_def blobs_is ok_or_500_def confined_def
        split: if_splits option.splits)
  show "confined p r s s'" if "hv (ContentHash h)" "head_blob svc p h s = (r, s')"
    using that has_blob [OF assms that(1)] assms live_stored
    by (auto simp: head_blob_def respond_eq sv_has_blob_def blobs_is ok_or_500_def confined_def
        split: if_splits)
  show "confined p r s s'" if run: "hv (ContentHash h)" "delete_blob svc p h s = (r, s')"
  proof (cases "allows p Write BLOB_NS")
    case True
    obtain t where t: "bv_delete_blob bv (ContentHash h) s = (Inr (), t)" "inv t"
      using delete_blob [OF assms run(1)] by blast
    have "abs t = abs s" by (rule delete_blob_records [OF assms run(1) t(1)])
    with t run(2) True live_stored show ?thesis
      by (auto simp: Gz_Http.delete_blob_def respond_eq sv_delete_blob_def blobs_is ok_or_500_def confined_def)
  qed (use run assms in \<open>auto simp: Gz_Http.delete_blob_def intro: confined_same\<close>)
  show "confined p r s s'" if run: "put_blob H svc p h c s = (r, s')"
  proof (cases "allows p Write BLOB_NS \<and> hash_str (content_hash_of H c) = h")
    case True
    obtain t where t: "bv_put_blob bv c s = (Inr (content_hash_of H c), t)" "inv t"
      using put_blob [OF assms, of c] by blast
    have "abs t = abs s" by (rule put_blob_records [OF assms t(1)])
    with t run True live_stored show ?thesis
      by (auto simp: Gz_Http.put_blob_def respond_eq sv_put_blob_def blobs_is ok_or_500_def confined_def)
  qed (use run assms in \<open>auto simp: Gz_Http.put_blob_def intro: confined_same split: if_splits\<close>)
  show "confined p r s s'" if run: "list_blobs svc p s = (r, s')"
  proof (cases "allows p Read BLOB_NS")
    case True
    obtain es where "bv_list_blobs bv s = (Inr es, s)" using list_blobs [OF assms] by blast
    with run assms True live_stored show ?thesis
      by (auto simp: Gz_Http.list_blobs_def respond_eq sv_list_blobs_def blobs_is ok_or_500_def confined_def)
  qed (use run assms in \<open>auto simp: Gz_Http.list_blobs_def intro: confined_same\<close>)
qed

lemma readyz_same: "inv s \<Longrightarrow> vk PROBE_KEY \<Longrightarrow> readyz svc s = (resp 200 (Text ''ready''), s)"
  by (simp add: readyz_def sv_ready_def store_is get)

lemmas handlers_confined = put_record_confined put_raw_record_confined delete_record_confined
  purge_record_confined read_confined blob_confined

lemma dispatch_confined:
  assumes "inv s" "vk PROBE_KEY" "call_valid vk hv call" "dispatch H fs svc p call s = (r, s')"
  shows "confined p r s s'"
  using assms handlers_confined [OF assms(1)] readyz_same [OF assms(1,2)]
  by (cases call) (auto simp: healthz_def intro: confined_same split: if_splits)

lemma router_confined:
  assumes "inv s" "vk PROBE_KEY" "call_valid vk hv (rq_call rq)" "router H to_str fs au svc rq s = (r, s')"
    "authenticate au (bearer to_str (rq_authorization rq)) = Some p"
  shows "confined p r s s'"
proof (cases "is_probe_path (rq_path rq)")
  case True
  with assms(4) readyz_same [OF assms(1,2)] have "s' = s \<and> body_keys (rs_body r) = {}"
    by (auto simp: router_def healthz_def split: http_call.splits)
  with assms(1) show ?thesis by (simp add: confined_same)
next
  case False
  with assms(4,5) have "dispatch H fs svc p (rq_call rq) s = (r, s')" by (simp add: router_def)
  then show ?thesis by (rule dispatch_confined [OF assms(1-3)])
qed

text \<open>Without a principal there is nothing but the probes.\<close>

lemma router_unauthenticated:
  assumes "inv s" "vk PROBE_KEY" "authenticate au (bearer to_str (rq_authorization rq)) = None"
    "router H to_str fs au svc rq s = (r, s')"
  shows "s' = s \<and> body_keys (rs_body r) = {} \<and> (\<not> is_probe_path (rq_path rq) \<longrightarrow> r = resp 401 Empty)"
  using assms readyz_same [OF assms(1,2)]
  by (auto simp: router_def healthz_def split: http_call.splits if_splits)

text \<open>Authorship: what is stored by a consumer's write or delete carries the caller's name.\<close>

lemma put_record_author:
  assumes "inv s" "vk (rec_key (pb_record b))" "p_authenticated p"
    "put_record svc p path b s = (r, s')" "abs s' k \<noteq> abs s k"
  shows "\<exists>x. abs s' k = Some x \<and> author (rec_meta x) = identity_new (p_name p)"
proof -
  let ?r' = "stamp_author p (pb_record b)"
  obtain res where run: "vt_put vt ?r' (pb_expected b) s = (res, s')"
    using assms(3-5)
    by (auto simp: put_record_def Let_def respond_eq sv_put_def store_is split: option.splits if_splits)
  have "vk (rec_key ?r')" using assms(2) by simp
  note P = put [OF assms(1) this run]
  let ?plan = "plan_put H (abs s (rec_key ?r')) ?r' (pb_expected b) (now s) cap"
  have "abs s' = put_effect (rec_key ?r') ?plan (abs s)" using P by blast
  then have "k = rec_key ?r'" using assms(5) put_effect_other by metis
  moreover obtain x where x: "?plan = PutWrite x" using P assms(5) by (cases ?plan) auto
  ultimately show ?thesis using P plan_put_author [OF x] stamp_author_author [OF assms(3)] by simp
qed

lemma delete_record_author:
  assumes "inv s" "vk (RecordKey ns col i)" "\<not> is_admin p"
    "delete_record svc p ns col i b s = (r, s')" "abs s' k \<noteq> abs s k"
  shows "\<exists>x. abs s' k = Some x \<and> is_tombstone x \<and> author (rec_meta x) = identity_new (p_name p)"
proof -
  let ?k = "RecordKey ns col i"
  obtain ex res where run: "vt_delete_as vt ?k ex (Some (identity_new (p_name p))) s = (res, s')"
    using assms(3-5)
    by (auto simp: delete_record_def Let_def respond_eq sv_delete_as_def store_is delete_author_non_admin
        split: prod.splits if_splits)
  note P = delete_as [OF assms(1,2) run]
  let ?plan = "plan_delete H (abs s ?k) ex (now s) cap (Some (identity_new (p_name p)))"
  have "abs s' = delete_effect ?k ?plan (abs s)" using P by blast
  then have "k = ?k" using assms(5) delete_effect_other by metis
  moreover obtain x where x: "?plan = DelWrite x" using P assms(5) by (cases ?plan) auto
  moreover have "is_tombstone x"
    using x by (auto simp: plan_delete_def tombstone_of_def is_tombstone_def Let_def split: option.splits if_splits)
  ultimately show ?thesis using P plan_delete_author [OF x] by simp
qed


end

end
