(* ===== verification/Gz_Daemon.thy ===== *)
theory Gz_Daemon
  imports Gz_HttpProofs Gz_FsSubstrate
begin

text \<open>
  The daemon as it is started: the substrate selection and the ancestor cap read from the environment
  (\<open>gonzalo-server/src/config.rs\<close>) and the service over the filesystem store that \<open>gonzalod\<close> builds
  (\<open>bin/gonzalod.rs\<close>), with the HTTP guarantees carried over to that store. The S3 substrate and the
  gRPC listener are not modelled.
\<close>

subsection \<open>Configuration\<close>

text \<open>The error texts; the unknown substrate is kept as the value that is printed in its message.\<close>

datatype config_error = MissingBucket | UnknownStore string

datatype store_config = CfgFs string | CfgS3 string "string option" "string option"

definition store_config_from_env :: "(string \<Rightarrow> string option) \<Rightarrow> config_error + store_config" where
  "store_config_from_env get =
     (let fs = Inr (CfgFs (case get ''GONZALO_ROOT'' of Some r \<Rightarrow> r | None \<Rightarrow> ''./gonzalo-data'')) in
      case get ''GONZALO_STORE'' of
        None \<Rightarrow> fs
      | Some v \<Rightarrow>
          if v = [] \<or> v = ''fs'' then fs
          else if v = ''s3'' then
            (case non_empty_var (get ''GONZALO_S3_BUCKET'') of
               None \<Rightarrow> Inl MissingBucket
             | Some bucket \<Rightarrow>
                 Inr (CfgS3 bucket (non_empty_var (get ''GONZALO_S3_ENDPOINT'')) (non_empty_var (get ''GONZALO_S3_REGION''))))
          else Inl (UnknownStore v))"

fun core_error_display :: "core_error \<Rightarrow> string" where
  "core_error_display (NotFound k) = ''record not found: '' @ key_display k"
| "core_error_display (Serde e) = ''serialization error: '' @ e"
| "core_error_display (Backend e) = ''backend error: '' @ e"
| "core_error_display (Invalid e) = ''invalid request: '' @ e"

definition ancestor_cap_from_env :: "(string \<Rightarrow> string option) \<Rightarrow> string + nat" where
  "ancestor_cap_from_env get =
     (case non_empty_var (get ''GONZALO_ANCESTOR_CAP'') of
        None \<Rightarrow> Inr DEFAULT_ANCESTOR_CAP
      | Some raw \<Rightarrow>
          (case parse_usize raw of
             Inl e \<Rightarrow> Inl (''GONZALO_ANCESTOR_CAP must be a positive integer: '' @ e)
           | Inr cap \<Rightarrow>
               (case validate_ancestor_cap cap of
                  Inl e \<Rightarrow> Inl (''GONZALO_ANCESTOR_CAP: '' @ core_error_display e)
                | Inr c \<Rightarrow> Inr c)))"

subsection \<open>The daemon over the filesystem store\<close>

definition max_blob_size_from_env :: "(string \<Rightarrow> string option) \<Rightarrow> string + nat" where
  "max_blob_size_from_env get =
     (case get ''GONZALO_MAX_BLOB_SIZE'' of
        Some v \<Rightarrow>
          if v \<noteq> [] then
            (case parse_usize v of
               Inl e \<Rightarrow> Inl (''GONZALO_MAX_BLOB_SIZE must be a byte count: '' @ e)
             | Inr n \<Rightarrow> Inr n)
          else Inr DEFAULT_MAX_BLOB_SIZE
      | None \<Rightarrow> Inr DEFAULT_MAX_BLOB_SIZE)"

definition daemon_service :: "blake3 \<Rightarrow> rec_codec \<Rightarrow> fs_store \<Rightarrow> nat \<Rightarrow> string \<Rightarrow> disk service" where
  "daemon_service H C st max_blob graph_root =
     with_graph_root graph_root (with_max_blob_size max_blob (service_new (fs_vt H C st) (fs_bv H st)))"

lemma daemon_service_sel [simp]:
  "sv_store (daemon_service H C st n g) = fs_vt H C st" "sv_blobs (daemon_service H C st n g) = fs_bv H st"
  by (simp_all add: daemon_service_def with_graph_root_def with_max_blob_size_def service_new_def)

lemma probe_key_valid: "fs_valid PROBE_KEY"
  by code_simp

sublocale fs_substrate \<subseteq> http: http_service H "fs_cap st" fs_valid "fs_vt H C st" "fs_abs C (fs_root st)"
  "fs_inv H C (fs_root st)" fs_clock "fs_bv H st" "fs_blobs (fs_root st)" fs_hash_valid
  "daemon_service H C st n g" for n g
  by unfold_locales simp_all

context fs_substrate
begin

lemmas served = http.http_service_axioms

end

end
