(* ===== verification/Gz_HttpProps.thy ===== *)
theory Gz_HttpProps
  imports Gz_Daemon Gz_Demo
begin

text \<open>
  The properties of the daemon's HTTP surface over the filesystem store: confinement to the caller's
  scopes, authorship, the admin-only writes, and the way out of those scopes that an unchecked blob
  hash opens.
\<close>

subsection \<open>Concrete principals and requests\<close>

definition demo_scoped :: principal where
  "demo_scoped = principal_new ''bob'' [''team''] [''team'']"

definition demo_blobber :: principal where
  "demo_blobber = principal_new ''ci'' [] [''_blobs'']"



definition demo_daemon :: "disk service" where
  "demo_daemon = daemon_service demo_digest demo_codec demo_fs 1000 ''graphs''"


lemma demo_scopes:
  "\<not> is_admin demo_scoped" "p_authenticated demo_scoped" "allows demo_scoped Write ''team''"
  "\<not> allows demo_scoped Write ''_blobs''" "allows demo_blobber Write BLOB_NS" "\<not> is_admin demo_blobber"
  "\<not> allows demo_blobber Write ''team''" "\<not> allows demo_blobber Read ''team''"
  by code_simp+

lemma blob_dir_exists:
  assumes "fs_blobs rt s h \<noteq> None"
  shows "is_dir (dk_files s) (blobs_dir rt)"
proof -
  have "is_blob_hash (hash_str h)" "bt_get (dk_files s) (blob_path rt h) \<noteq> None"
    using assms by (auto simp: fs_blobs_def fs_hash_valid_def split: if_splits)
  then obtain f where "(rt @ [''blobs'', hash_str h], f) \<in> set (dk_files s)"
    using map_of_SomeD by (fastforce simp: blob_path_valid)
  then show ?thesis
    unfolding is_dir_def blobs_dir_eq by (force simp: strict_prefix_def intro: bexI rev_image_eqI)
qed

lemma demo_with_blob:
  obtains s where "fs_inv demo_digest demo_codec (fs_root demo_fs) s"
    "fs_abs demo_codec (fs_root demo_fs) s = fs_abs demo_codec (fs_root demo_fs) demo_created"
    "fs_blobs (fs_root demo_fs) s (content_hash_of demo_digest []) \<noteq> None"
proof -
  note fs = fs_substrate.full [OF demo.fs_substrate_axioms, of demo_fs]
  obtain s c ms where s: "bv_put_blob (fs_bv demo_digest demo_fs) [] demo_created =
      (Inr (content_hash_of demo_digest []), s)" "fs_inv demo_digest demo_codec (fs_root demo_fs) s"
    "fs_blobs (fs_root demo_fs) s = (fs_blobs (fs_root demo_fs) demo_created)(content_hash_of demo_digest [] \<mapsto> (c, ms))"
    using blob_store.put_blob [OF fs_substrate.blob [OF demo.fs_substrate_axioms, of demo_fs] demo_created(1), of "[]"]
    by blast
  from full_store.put_blob_records [OF fs demo_created(1) s(1)] that [OF s(2)] s(3) show thesis by simp
qed

section \<open>Authorization\<close>



text \<open>
  Without a principal there is nothing to see or change: a request whose token is missing or
  unknown leaves the store exactly as it was, is answered \<open>401\<close> unless it is a health probe, and a
  probe's answer shows no record.
\<close>

lemma http_unauthenticated:
  assumes "fs_substrate H C" "fs_inv H C (fs_root st) s"
    "authenticate au (bearer to_str (rq_authorization rq)) = None"
    "router H to_str from_slice au (daemon_service H C st n g) rq s = (r, s')"
  shows "s' = s \<and> body_keys (rs_body r) = {} \<and> (\<not> is_probe_path (rq_path rq) \<longrightarrow> r = resp 401 Empty)"
  by (rule http_service.router_unauthenticated
      [OF fs_substrate.served [OF assms(1)] assms(2) probe_key_valid assms(3,4)])



text \<open>
  C16. Purge is for admins and for tombstones. A principal that is not an admin gets \<open>403\<close> from the
  purge and the raw write, and nothing changes. For an admin, purge removes exactly the tombstone
  whose revision it names; a revision that no longer matches is a \<open>409\<close>, a key that is already gone a
  \<open>200\<close>, and a matching live record a \<open>400\<close>, each without a change.
\<close>

theorem http_purge_exact:
  assumes "fs_substrate H C" "fs_inv H C (fs_root st) s" "fs_valid (RecordKey ns col i)" "from_slice body = Inr u"
    "purge_record from_slice (daemon_service H C st n g) p ns col i body s = (r, s')"
  shows "if \<not> is_admin p then
      r = resp 403 (NotAdmin (p_name p) ''purge'') \<and> s' = s \<and>
      put_raw_record (daemon_service H C st n g) p path b s =
        (resp 403 (NotAdmin (p_name p) ''a raw record write''), s)
    else (case fs_abs C (fs_root st) s (RecordKey ns col i) of
        None \<Rightarrow> rs_status r = 200 \<and> fs_abs C (fs_root st) s' = fs_abs C (fs_root st) s
      | Some c \<Rightarrow>
          if rec_revision c \<noteq> ub_expected u then
            rs_status r = 409 \<and> fs_abs C (fs_root st) s' = fs_abs C (fs_root st) s
          else if is_tombstone c then
            rs_status r = 200 \<and> fs_abs C (fs_root st) s' = (fs_abs C (fs_root st) s)(RecordKey ns col i := None)
          else rs_status r = 400 \<and> fs_abs C (fs_root st) s' = fs_abs C (fs_root st) s)"
proof (cases "is_admin p")
  case True
  obtain res where res: "sv_purge (daemon_service H C st n g) (RecordKey ns col i) (ub_expected u) s = (res, s')"
    "r = delete_outcome_response res"
    using assms(4,5) True by (auto simp: purge_record_def respond_eq)
  have "served_store H (fs_cap st) fs_valid (fs_vt H C st) (fs_abs C (fs_root st)) (fs_inv H C (fs_root st))
      fs_clock (daemon_service H C st n g)"
    by (intro served_store.intro served_store_axioms.intro fs_substrate.planned [OF assms(1)]) simp
  from served_store.sv_purge_spec [OF this assms(2,3) res(1)] True res(2) show ?thesis
    by (auto split: option.splits if_splits)
next
  case False
  with assms(5) show ?thesis by (simp add: purge_record_def put_raw_record_def forbidden_admin_def)
qed

theorem http_purge_exact_witness:
  "\<exists>r s'. purge_record (\<lambda>_. Inr \<lparr>ub_expected = rec_revision demo_rec\<rparr>) demo_daemon (principal_admin ''root'')
      ''team'' ''notes'' ''a'' [] demo_created = (r, s') \<and> rs_status r = 400 \<and>
    fs_abs demo_codec (fs_root demo_fs) s' = fs_abs demo_codec (fs_root demo_fs) demo_created"
proof -
  let ?u = "\<lparr>ub_expected = rec_revision demo_rec\<rparr>"
  obtain r s' where run: "purge_record (\<lambda>_. Inr ?u) demo_daemon (principal_admin ''root'') ''team'' ''notes'' ''a'' []
      demo_created = (r, s')" by (rule prod.exhaust)
  have valid: "fs_valid (RecordKey ''team'' ''notes'' ''a'')" using demo_key_valid by (simp add: demo_key_def)
  have rev: "rec_revision (with_folded None 32 (stamp 1700000000000 1700000000000 demo_rec)) = rec_revision demo_rec"
    by (simp add: with_folded_def stamp_def)
  have key: "RecordKey ''team'' ''notes'' ''a'' = demo_key" by (simp add: demo_key_def)
  show ?thesis
    using http_purge_exact [OF demo.fs_substrate_axioms demo_created(1) valid _ run [unfolded demo_daemon_def],
        where u = ?u] run
    by (simp add: demo_created(2) demo_live rev key)
qed

text \<open>
  C17. The scopes do not hold against a crafted blob hash. The blob routes take the hash from the URL
  as it comes and the filesystem store joins it to the blob directory, so a principal whose only
  scope is write on \<open>_blobs\<close> removes the record of any other namespace, physically and without a
  tombstone, by asking to delete the blob whose hash is the way from the blob directory to the record
  (once there is any blob at all).
\<close>

theorem http_blob_delete_escapes:
  assumes "fs_inv H C (fs_root st) s" "fs_abs C (fs_root st) s k = Some x" "fs_blobs (fs_root st) s h \<noteq> None"
    "allows p Write BLOB_NS"
  shows "\<exists>s'. dispatch H from_slice (daemon_service H C st n g) p (DeleteBlob (hash_str (escaping_hash k))) s =
      (resp 200 Empty, s') \<and>
    fs_abs C (fs_root st) s' = (fs_abs C (fs_root st) s)(k := None)"
proof -
  obtain s' where "fs_delete_blob st (escaping_hash k) s = (Inr (), s')"
    "fs_abs C (fs_root st) s' = (fs_abs C (fs_root st) s)(k := None)"
    using delete_escaping [OF assms(1,2) blob_dir_exists [OF assms(3)]] by blast
  with assms(4) show ?thesis
    by (simp add: delete_blob_def respond_def sv_delete_blob_def fs_bv_def ok_or_500_def)
qed

theorem http_blob_delete_escapes_witness:
  "\<exists>s s'. fs_abs demo_codec (fs_root demo_fs) s demo_key \<noteq> None \<and> \<not> allows demo_blobber Write (namespace demo_key) \<and>
    dispatch demo_digest (\<lambda>_. Inl []) demo_daemon demo_blobber (DeleteBlob ''../team/notes/a.json'') s =
      (resp 200 Empty, s') \<and> fs_abs demo_codec (fs_root demo_fs) s' demo_key = None"
proof -
  obtain s where s: "fs_inv demo_digest demo_codec (fs_root demo_fs) s"
    "fs_abs demo_codec (fs_root demo_fs) s = fs_abs demo_codec (fs_root demo_fs) demo_created"
    "fs_blobs (fs_root demo_fs) s (content_hash_of demo_digest []) \<noteq> None"
    by (rule demo_with_blob)
  have k: "hash_str (escaping_hash demo_key) = ''../team/notes/a.json''" "namespace demo_key = ''team''" by code_simp+
  have "fs_abs demo_codec (fs_root demo_fs) s demo_key =
      Some (with_folded None 32 (stamp 1700000000000 1700000000000 demo_rec))"
    by (simp add: s(2) demo_created(2))
  from http_blob_delete_escapes [OF s(1) this s(3) demo_scopes(5)] this
  show ?thesis using demo_scopes(7) unfolding k demo_daemon_def by (metis fun_upd_same option.distinct(1))
qed

end
