(* ===== verification/Gz_Fleet.thy ===== *)
theory Gz_Fleet
  imports Gz_Merge
begin

text \<open>
  Fleet access-control records (\<open>gonzalo-domain/src/fleet\<close>): the record ids built from escaped
  components (\<open>keys.rs\<close>), one-time link tokens (\<open>link.rs\<close>), the configuration records and their keys
  (\<open>records.rs\<close>, \<open>audit.rs\<close>), and the one-element array that makes a field merge as a whole
  (\<open>atomic.rs\<close>). Strings are byte strings, as everywhere in this development.
\<close>

subsection \<open>Roles, scopes, actors\<close>

datatype fleet_role = Viewer | Operator | Admin

definition role_rank :: "fleet_role \<Rightarrow> nat" where
  "role_rank r = (case r of Viewer \<Rightarrow> 0 | Operator \<Rightarrow> 1 | Admin \<Rightarrow> 2)"

lemma role_rank_inj: "role_rank a = role_rank b \<longleftrightarrow> a = b"
  by (cases a; cases b) (simp_all add: role_rank_def)

instantiation fleet_role :: linorder
begin

definition less_eq_fleet_role :: "fleet_role \<Rightarrow> fleet_role \<Rightarrow> bool" where
  "less_eq_fleet_role a b \<longleftrightarrow> role_rank a \<le> role_rank b"

definition less_fleet_role :: "fleet_role \<Rightarrow> fleet_role \<Rightarrow> bool" where
  "less_fleet_role a b \<longleftrightarrow> role_rank a < role_rank b"

instance
  by standard (auto simp: less_eq_fleet_role_def less_fleet_role_def role_rank_inj [symmetric])

end

datatype grant_scope = FleetScope | Workspace string

datatype authenticator = Discord | Slack | Teams | Oidc string | OtherAuth string

datatype fleet_actor = PersonActor string | Unlinked authenticator string | ServiceActor string

definition FLEET_NAMESPACE :: string where "FLEET_NAMESPACE = ''fleet''"
definition FLEET_AUDIT_NAMESPACE :: string where "FLEET_AUDIT_NAMESPACE = ''fleet-audit''"
definition PEOPLE_COLLECTION :: string where "PEOPLE_COLLECTION = ''people''"
definition IDENTITY_BINDINGS_COLLECTION :: string where "IDENTITY_BINDINGS_COLLECTION = ''identity-bindings''"
definition ROLE_GRANTS_COLLECTION :: string where "ROLE_GRANTS_COLLECTION = ''role-grants''"
definition CHANNELS_COLLECTION :: string where "CHANNELS_COLLECTION = ''channels''"
definition LINK_TOKENS_COLLECTION :: string where "LINK_TOKENS_COLLECTION = ''link-tokens''"
definition AUDIT_ENTRIES_COLLECTION :: string where "AUDIT_ENTRIES_COLLECTION = ''entries''"

subsection \<open>Record ids\<close>

datatype fleet_key_error =
    InvalidPersonId string
  | InvalidNonce string
  | NegativeTimestamp int
  | EmptyComponent string

text \<open>\<open>str::replace\<close> of one character.\<close>

definition replace_char :: "char \<Rightarrow> string \<Rightarrow> string \<Rightarrow> string" where
  "replace_char c to s = concat (map (\<lambda>x. if x = c then to else [x]) s)"

definition escape :: "string \<Rightarrow> string" where
  "escape component = replace_char CHR '':'' ''%3A'' (replace_char CHR ''%'' ''%25'' component)"

definition is_id_char :: "char \<Rightarrow> bool" where
  "is_id_char c \<longleftrightarrow>
     (let n = (of_char c :: nat) in
      48 \<le> n \<and> n \<le> 57 \<or> 65 \<le> n \<and> n \<le> 90 \<or> 97 \<le> n \<and> n \<le> 122 \<or> c = CHR ''_'' \<or> c = CHR ''-'')"

definition non_empty :: "string \<Rightarrow> string \<Rightarrow> fleet_key_error + unit" where
  "non_empty v component = (if v = [] then Inl (EmptyComponent component) else Inr ())"

definition validate_person_id :: "string \<Rightarrow> fleet_key_error + unit" where
  "validate_person_id i =
     (if 1 \<le> length i \<and> length i \<le> 64 \<and> list_all is_id_char i then Inr () else Inl (InvalidPersonId i))"

definition validate_nonce :: "string \<Rightarrow> fleet_key_error + unit" where
  "validate_nonce n =
     (if 1 \<le> length n \<and> length n \<le> 32 \<and> list_all is_id_char n then Inr () else Inl (InvalidNonce n))"

fun authenticator_segment :: "authenticator \<Rightarrow> fleet_key_error + string" where
  "authenticator_segment Discord = Inr ''discord''"
| "authenticator_segment Slack = Inr ''slack''"
| "authenticator_segment Teams = Inr ''teams''"
| "authenticator_segment (Oidc issuer) =
     bindR (non_empty issuer ''issuer'') (\<lambda>_. Inr (''oidc:'' @ escape issuer))"
| "authenticator_segment (OtherAuth name) =
     bindR (non_empty name ''authenticator name'') (\<lambda>_. Inr (''other:'' @ escape name))"

fun scope_segment :: "grant_scope \<Rightarrow> fleet_key_error + string" where
  "scope_segment FleetScope = Inr ''fleet''"
| "scope_segment (Workspace w) =
     bindR (non_empty w ''workspace'') (\<lambda>_. Inr (''workspace:'' @ escape w))"

definition binding_id :: "authenticator \<Rightarrow> string \<Rightarrow> fleet_key_error + string" where
  "binding_id a subject =
     bindR (non_empty subject ''subject'') (\<lambda>_.
     bindR (authenticator_segment a) (\<lambda>seg. Inr (seg @ '':'' @ escape subject)))"

definition grant_id :: "string \<Rightarrow> grant_scope \<Rightarrow> fleet_key_error + string" where
  "grant_id person scope =
     bindR (validate_person_id person) (\<lambda>_.
     bindR (scope_segment scope) (\<lambda>seg. Inr (person @ '':'' @ seg)))"

definition channel_id :: "string \<Rightarrow> string \<Rightarrow> string \<Rightarrow> fleet_key_error + string" where
  "channel_id provider tenant channel =
     bindR (non_empty provider ''provider'') (\<lambda>_.
     bindR (non_empty tenant ''tenant'') (\<lambda>_.
     bindR (non_empty channel ''channel id'') (\<lambda>_.
       Inr (escape provider @ '':'' @ escape tenant @ '':'' @ escape channel))))"

text \<open>\<open>{at:013}\<close>: padded with zeros on the left to at least 13 digits.\<close>

definition pad13 :: "nat \<Rightarrow> string" where
  "pad13 n = (let s = show_nat n in replicate (13 - length s) (CHR ''0'') @ s)"

definition audit_id :: "int \<Rightarrow> string \<Rightarrow> fleet_key_error + string" where
  "audit_id ts nonce =
     (if ts < 0 then Inl (NegativeTimestamp ts)
      else bindR (validate_nonce nonce) (\<lambda>_. Inr (pad13 (nat ts) @ ''-'' @ nonce)))"

subsection \<open>Link tokens\<close>

datatype link_secret = LinkSecret "8 word list"

datatype link_secret_error = LinkSecretError

text \<open>The hex digits of one byte, \<open>{byte:02x}\<close>, and \<open>u8::from_str_radix(pair, 16)\<close> on two checked digits.\<close>

definition hex_digit :: "nat \<Rightarrow> char" where
  "hex_digit n = char_of (if n < 10 then 48 + n else 87 + n)"

definition unhex_digit :: "char \<Rightarrow> nat" where
  "unhex_digit c = (let n = of_char c in if n \<le> 57 then n - 48 else n - 87)"

definition is_lower_hex :: "char \<Rightarrow> bool" where
  "is_lower_hex c \<longleftrightarrow> (let n = (of_char c :: nat) in 48 \<le> n \<and> n \<le> 57 \<or> 97 \<le> n \<and> n \<le> 102)"

fun hex_bytes :: "string \<Rightarrow> 8 word list" where
  "hex_bytes (h # l # rest) = word_of_nat (16 * unhex_digit h + unhex_digit l) # hex_bytes rest"
| "hex_bytes _ = []"

definition secret_parse :: "string \<Rightarrow> link_secret_error + link_secret" where
  "secret_parse hex =
     (if length hex \<noteq> 64 \<or> \<not> list_all is_lower_hex hex then Inl LinkSecretError
      else Inr (LinkSecret (hex_bytes hex)))"

fun secret_to_hex :: "link_secret \<Rightarrow> string" where
  "secret_to_hex (LinkSecret bs) =
     concat (map (\<lambda>b. [hex_digit (unat b div 16), hex_digit (unat b mod 16)]) bs)"

definition LINK_TOKEN_HASH_DOMAIN :: bytes where
  "LINK_TOKEN_HASH_DOMAIN = ''gonzalo:link-token:v1''"

fun secret_hash :: "blake3 \<Rightarrow> link_secret \<Rightarrow> string" where
  "secret_hash H (LinkSecret bs) =
     hash_str (content_hash_of H (LINK_TOKEN_HASH_DOMAIN @ map (\<lambda>b. char_of (unat b)) bs))"

record consumption =
  cs_person :: string
  cs_binding :: record_key
  cs_at :: int

record link_token =
  lt_token_hash :: string
  lt_role :: fleet_role
  lt_scope :: grant_scope
  lt_person :: "string option"
  lt_minted_by :: fleet_actor
  lt_minted_at :: int
  lt_expires_at :: int
  lt_consumed :: "consumption option"

datatype redeem_error = WrongSecret | Expired | AlreadyConsumed | PersonMismatch

definition token_new ::
  "blake3 \<Rightarrow> link_secret \<Rightarrow> fleet_role \<Rightarrow> grant_scope \<Rightarrow> string option \<Rightarrow> fleet_actor \<Rightarrow> int \<Rightarrow> int \<Rightarrow> link_token" where
  "token_new H secret role scope person minted_by minted_at expires_at =
     \<lparr>lt_token_hash = secret_hash H secret, lt_role = role, lt_scope = scope, lt_person = person,
      lt_minted_by = minted_by, lt_minted_at = minted_at, lt_expires_at = expires_at, lt_consumed = None\<rparr>"

definition token_key :: "link_token \<Rightarrow> record_key" where
  "token_key t = RecordKey FLEET_NAMESPACE LINK_TOKENS_COLLECTION (lt_token_hash t)"

definition key_for_secret :: "blake3 \<Rightarrow> link_secret \<Rightarrow> record_key" where
  "key_for_secret H secret = RecordKey FLEET_NAMESPACE LINK_TOKENS_COLLECTION (secret_hash H secret)"

definition redeem ::
  "blake3 \<Rightarrow> link_token \<Rightarrow> link_secret \<Rightarrow> string \<Rightarrow> record_key \<Rightarrow> int \<Rightarrow> redeem_error + link_token" where
  "redeem H t secret person binding now =
     (if secret_hash H secret \<noteq> lt_token_hash t then Inl WrongSecret
      else if now \<ge> lt_expires_at t then Inl Expired
      else if lt_consumed t \<noteq> None then Inl AlreadyConsumed
      else if (case lt_person t of Some intended \<Rightarrow> intended \<noteq> person | None \<Rightarrow> False) then Inl PersonMismatch
      else Inr (t\<lparr>lt_consumed := Some \<lparr>cs_person = person, cs_binding = binding, cs_at = now\<rparr>\<rparr>))"

subsection \<open>Configuration records and audit entries\<close>

record person =
  pe_display_name :: string
  pe_email :: "string option"

definition person_key :: "string \<Rightarrow> fleet_key_error + record_key" where
  "person_key i =
     bindR (validate_person_id i) (\<lambda>_. Inr (RecordKey FLEET_NAMESPACE PEOPLE_COLLECTION i))"

record verified_email =
  ve_address :: string
  ve_verified :: bool

datatype binding_origin = FromLinkToken string | FromOperator fleet_actor

record identity_binding =
  ib_authenticator :: authenticator
  ib_subject :: string
  ib_person :: string
  ib_handle :: "string option"
  ib_email :: "verified_email option"
  ib_bound_at :: int
  ib_bound_by :: binding_origin

definition binding_key_for :: "authenticator \<Rightarrow> string \<Rightarrow> fleet_key_error + record_key" where
  "binding_key_for a subject =
     bindR (binding_id a subject) (\<lambda>i. Inr (RecordKey FLEET_NAMESPACE IDENTITY_BINDINGS_COLLECTION i))"

definition binding_key :: "identity_binding \<Rightarrow> fleet_key_error + record_key" where
  "binding_key b = binding_key_for (ib_authenticator b) (ib_subject b)"

record role_grant =
  rg_person :: string
  rg_scope :: grant_scope
  rg_role :: fleet_role
  rg_granted_by :: fleet_actor
  rg_granted_at :: int

definition grant_key_for :: "string \<Rightarrow> grant_scope \<Rightarrow> fleet_key_error + record_key" where
  "grant_key_for p scope =
     bindR (grant_id p scope) (\<lambda>i. Inr (RecordKey FLEET_NAMESPACE ROLE_GRANTS_COLLECTION i))"

definition grant_key :: "role_grant \<Rightarrow> fleet_key_error + record_key" where
  "grant_key g = grant_key_for (rg_person g) (rg_scope g)"

text \<open>\<open>BTreeSet<String>\<close> is its sorted element list; no reachable value has an empty set.\<close>

datatype follows = FollowsFleet | FollowsWorkspaces "string list"

datatype empty_follow_set = EmptyFollowSet

definition follows_workspaces :: "string list \<Rightarrow> empty_follow_set + follows" where
  "follows_workspaces names =
     (let ns = bts_of_list names in if ns = [] then Inl EmptyFollowSet else Inr (FollowsWorkspaces ns))"

datatype follows_wire = WireFleet | WireWorkspaces "string list"

definition follows_of_wire :: "follows_wire \<Rightarrow> empty_follow_set + follows" where
  "follows_of_wire w =
     (case w of
        WireFleet \<Rightarrow> Inr FollowsFleet
      | WireWorkspaces names \<Rightarrow>
          let ns = bts_of_list names in if ns = [] then Inl EmptyFollowSet else Inr (FollowsWorkspaces ns))"

datatype notify_preset = NotifyAll | NotifyTerminal | NotifyFailures

record channel_config =
  cc_provider :: string
  cc_tenant :: string
  cc_channel :: string
  cc_follows :: follows
  cc_notify :: notify_preset
  cc_ceiling :: fleet_role

definition channel_key_for :: "string \<Rightarrow> string \<Rightarrow> string \<Rightarrow> fleet_key_error + record_key" where
  "channel_key_for provider tenant channel =
     bindR (channel_id provider tenant channel) (\<lambda>i. Inr (RecordKey FLEET_NAMESPACE CHANNELS_COLLECTION i))"

definition channel_key :: "channel_config \<Rightarrow> fleet_key_error + record_key" where
  "channel_key c = channel_key_for (cc_provider c) (cc_tenant c) (cc_channel c)"

datatype audit_result = Succeeded | Denied | Failed string

record audit_entry =
  ae_actor :: fleet_actor
  ae_action :: string
  ae_target :: string
  ae_at :: int
  ae_surface_ref :: "string option"
  ae_result :: audit_result

definition audit_key :: "audit_entry \<Rightarrow> string \<Rightarrow> fleet_key_error + record_key" where
  "audit_key e nonce =
     bindR (audit_id (ae_at e) nonce) (\<lambda>i. Inr (RecordKey FLEET_AUDIT_NAMESPACE AUDIT_ENTRIES_COLLECTION i))"

subsection \<open>Atomic fields\<close>

text \<open>\<open>#[serde(with = "super::atomic")]\<close>: a value is written as a one-element array.\<close>

definition atomic_serialize :: "json \<Rightarrow> json" where
  "atomic_serialize v = JArray [v]"

definition atomic_deserialize :: "(json \<Rightarrow> 'a option) \<Rightarrow> json \<Rightarrow> 'a option" where
  "atomic_deserialize de v = (case v of JArray [x] \<Rightarrow> de x | _ \<Rightarrow> None)"

end
