(* ===== verification/Gz_FleetProofs.thy ===== *)
theory Gz_FleetProofs
  imports Gz_Fleet
begin

text \<open>
  Fleet ids name what they are built from: escaping is injective and leaves no separator, so equal
  ids have equal components; audit ids sort by time; a secret's hex form parses back to it, and a
  token is redeemed at most once.
\<close>

subsection \<open>Escaping\<close>

lemma escape_Nil [simp]: "escape [] = []"
  by (simp add: escape_def replace_char_def)

lemma escape_Cons [simp]:
  "escape (c # s) =
     (if c = CHR ''%'' then ''%25'' else if c = CHR '':'' then ''%3A'' else [c]) @ escape s"
  by (simp add: escape_def replace_char_def)

lemma escape_no_colon [simp]: "CHR '':'' \<notin> set (escape s)"
  by (induction s) auto

lemma escape_inj [simp]: "escape a = escape b \<longleftrightarrow> a = b"
proof (induction a arbitrary: b)
  case Nil
  show ?case by (cases b) auto
next
  case (Cons c a)
  show ?case
  proof (cases b)
    case (Cons d b')
    then show ?thesis using Cons.IH [of b'] by auto
  qed auto
qed

lemma colon_split:
  "CHR '':'' \<notin> set a \<Longrightarrow> CHR '':'' \<notin> set b \<Longrightarrow>
   a @ CHR '':'' # x = b @ CHR '':'' # y \<longleftrightarrow> a = b \<and> x = y"
proof (induction a arbitrary: b)
  case Nil
  then show ?case by (cases b) auto
next
  case (Cons c a)
  then show ?case by (cases b) auto
qed

lemma colon_end: "CHR '':'' \<notin> set a \<Longrightarrow> a \<noteq> b @ CHR '':'' # y"
  by auto

lemma non_empty_Inr [simp]: "non_empty v w = Inr u \<longleftrightarrow> v \<noteq> []"
  by (simp add: non_empty_def)

lemma binding_id_inj:
  assumes "binding_id a s = Inr i" "binding_id a' s' = Inr i"
  shows "a = a' \<and> s = s'"
proof -
  have colon: "\<And>x y z. x @ CHR '':'' # y = escape z \<longleftrightarrow> False" "\<And>x y z. escape z = x @ CHR '':'' # y \<longleftrightarrow> False"
    using escape_no_colon by (metis in_set_conv_decomp)+
  show ?thesis
    using assms
    by (cases a; cases a') (auto simp: binding_id_def bindR_Inr colon_split colon)
qed

lemma id_char_no_colon: "list_all is_id_char s \<Longrightarrow> CHR '':'' \<notin> set s"
proof -
  have "\<not> is_id_char CHR '':''" by code_simp
  then show "list_all is_id_char s \<Longrightarrow> CHR '':'' \<notin> set s" by (auto simp: list_all_iff)
qed

lemma validate_person_id_Inr:
  "validate_person_id p = Inr u \<longleftrightarrow> p \<noteq> [] \<and> length p \<le> 64 \<and> list_all is_id_char p"
  by (cases p) (auto simp: validate_person_id_def)

lemma grant_id_inj:
  assumes "grant_id p c = Inr i" "grant_id p' c' = Inr i"
  shows "p = p' \<and> c = c'"
proof -
  obtain seg where 1: "list_all is_id_char p" "scope_segment c = Inr seg" "i = p @ CHR '':'' # seg"
    using assms(1) by (auto simp: grant_id_def bindR_Inr validate_person_id_Inr)
  obtain seg' where 2: "list_all is_id_char p'" "scope_segment c' = Inr seg'" "i = p' @ CHR '':'' # seg'"
    using assms(2) by (auto simp: grant_id_def bindR_Inr validate_person_id_Inr)
  from 1(3) 2(3) have "p = p' \<and> seg = seg'"
    using colon_split [OF id_char_no_colon [OF 1(1)] id_char_no_colon [OF 2(1)], of seg seg'] by simp
  with 1(2) 2(2) show ?thesis by (cases c; cases c') (auto simp: bindR_Inr)
qed

lemma channel_id_inj:
  assumes "channel_id p t c = Inr i" "channel_id p' t' c' = Inr i"
  shows "p = p' \<and> t = t' \<and> c = c'"
  using assms by (auto simp: channel_id_def bindR_Inr colon_split)

subsection \<open>Audit ids sort by time\<close>

definition is_digit :: "char \<Rightarrow> bool" where
  "is_digit c \<longleftrightarrow> 48 \<le> (of_char c :: nat) \<and> (of_char c :: nat) \<le> 57"

fun digits_val :: "string \<Rightarrow> nat" where
  "digits_val [] = 0"
| "digits_val (c # s) = (of_char c - 48) * 10 ^ length s + digits_val s"

lemma digits_val_append: "digits_val (s @ t) = digits_val s * 10 ^ length t + digits_val t"
  by (induction s) (simp_all add: power_add algebra_simps)

lemma digits_val_zeros [simp]: "digits_val (replicate n CHR ''0'') = 0"
  by (induction n) simp_all

lemma is_digit_char: "(d :: nat) < 10 \<Longrightarrow> is_digit (char_of (48 + d))"
  by (simp add: is_digit_def)

lemma show_nat_digits: "list_all is_digit (show_nat n) \<and> digits_val (show_nat n) = n"
proof (induction n rule: show_nat.induct)
  case (1 n)
  show ?case
  proof (cases "n < 10")
    case True
    then show ?thesis using is_digit_char [of n] by (subst (1 2) show_nat.simps) simp
  next
    case False
    have eq: "show_nat n = show_nat (n div 10) @ [char_of (48 + n mod 10)]"
      using False by (subst show_nat.simps) simp
    show ?thesis
      unfolding eq using 1 [OF False] is_digit_char [of "n mod 10"] by (simp add: digits_val_append)
  qed
qed

lemma digits_val_bound: "list_all is_digit s \<Longrightarrow> digits_val s < 10 ^ length s"
proof (induction s)
  case (Cons c s)
  then have "of_char c - 48 \<le> (9 :: nat)" "digits_val s < 10 ^ length s" by (auto simp: is_digit_def)
  then have "(of_char c - 48) * 10 ^ length s + digits_val s < 9 * 10 ^ length s + 10 ^ length s"
    by (meson add_le_less_mono mult_le_mono1)
  then show ?case by simp
qed simp

lemma digits_less_iff:
  "length s = length t \<Longrightarrow> list_all is_digit s \<Longrightarrow> list_all is_digit t \<Longrightarrow> s < t \<longleftrightarrow> digits_val s < digits_val t"
proof (induction s t rule: list_induct2)
  case (Cons c s d t)
  let ?p = "10 ^ length t :: nat"
  have b: "digits_val s < ?p" "digits_val t < ?p"
    using digits_val_bound [of s] digits_val_bound [of t] Cons by simp_all
  have IH: "s < t \<longleftrightarrow> digits_val s < digits_val t" using Cons by simp
  let ?c = "of_char c :: nat" and ?d = "of_char d :: nat"
  have cd: "48 \<le> ?c" "48 \<le> ?d" using Cons.prems by (simp_all add: is_digit_def)
  have lex: "c # s < d # t \<longleftrightarrow> ?c < ?d \<or> ?c = ?d \<and> s < t"
    by (auto simp: less_char_def)
  consider "?c < ?d" | "?c = ?d" | "?d < ?c" by linarith
  then show ?case
  proof cases
    case 1
    then have "Suc (?c - 48) \<le> ?d - 48" using cd by linarith
    then have "Suc (?c - 48) * ?p \<le> (?d - 48) * ?p" by (rule mult_le_mono1)
    then show ?thesis using b 1 lex Cons.hyps by simp
  next
    case 2
    then show ?thesis using lex IH Cons.hyps by simp
  next
    case 3
    then have "Suc (?d - 48) \<le> ?c - 48" using cd by linarith
    then have "Suc (?d - 48) * ?p \<le> (?c - 48) * ?p" by (rule mult_le_mono1)
    moreover have "c \<noteq> d" using 3 by auto
    ultimately show ?thesis using b 3 lex Cons.hyps by simp
  qed
qed simp

lemma show_nat_length: "n < 10 ^ m \<Longrightarrow> 0 < m \<Longrightarrow> length (show_nat n) \<le> m"
proof (induction n arbitrary: m rule: show_nat.induct)
  case (1 n)
  show ?case
  proof (cases "n < 10")
    case True
    then show ?thesis using 1(3) by (subst show_nat.simps) simp
  next
    case False
    then obtain m' where m: "m = Suc m'" "0 < m'"
      using 1(2,3) by (cases m; cases "m - 1") auto
    then have "n div 10 < 10 ^ m'" using 1(2) by (simp add: less_mult_imp_div_less)
    from 1(1) [OF False this m(2)] show ?thesis using False m(1) by (subst show_nat.simps) simp
  qed
qed

lemma pad13_props:
  "list_all is_digit (pad13 n)" "digits_val (pad13 n) = n" "n < 10 ^ 13 \<Longrightarrow> length (pad13 n) = 13"
proof -
  have "is_digit CHR ''0''" by code_simp
  then show "list_all is_digit (pad13 n)" using show_nat_digits [of n]
    by (auto simp: pad13_def Let_def list_all_iff)
  show "digits_val (pad13 n) = n" using show_nat_digits [of n] by (simp add: pad13_def Let_def digits_val_append)
  show "n < 10 ^ 13 \<Longrightarrow> length (pad13 n) = 13" using show_nat_length [of n 13] by (simp add: pad13_def Let_def)
qed

lemma append_less_same_length: "length s = length t \<Longrightarrow> s < t \<Longrightarrow> s @ x < t @ (y :: string)"
  by (induction s t rule: list_induct2) auto

lemma audit_id_ordered:
  assumes "audit_id a n = Inr i" "audit_id b m = Inr j" "a < b" "b < 10 ^ 13"
  shows "i < j"
proof -
  have ab: "nat a < nat b" "nat b < 10 ^ 13" "0 \<le> a"
    using assms by (auto simp: audit_id_def split: if_splits)
  have "nat a < 10 ^ 13" using ab by linarith
  then have "length (pad13 (nat a)) = length (pad13 (nat b))" using pad13_props(3) ab(2) by metis
  moreover from this have "pad13 (nat a) < pad13 (nat b)"
    using digits_less_iff [OF _ pad13_props(1) pad13_props(1)] pad13_props(2) ab(1) by simp
  ultimately have "pad13 (nat a) @ ''-'' @ n < pad13 (nat b) @ ''-'' @ m"
    by (rule append_less_same_length)
  then show ?thesis using assms by (auto simp: audit_id_def bindR_Inr split: if_splits)
qed

subsection \<open>Secrets\<close>

lemma unhex_hex: "n < 16 \<Longrightarrow> unhex_digit (hex_digit n) = n"
  by (auto simp: unhex_digit_def hex_digit_def Let_def)

lemma hex_is_lower: "n < 16 \<Longrightarrow> is_lower_hex (hex_digit n)"
  by (auto simp: is_lower_hex_def hex_digit_def Let_def)

lemma hex_unhex: "is_lower_hex c \<Longrightarrow> hex_digit (unhex_digit c) = c \<and> unhex_digit c < 16"
  by (auto simp: is_lower_hex_def unhex_digit_def hex_digit_def Let_def)

lemma hex_bytes_hex: "hex_bytes (secret_to_hex (LinkSecret bs)) = bs"
proof (induction bs)
  case (Cons b bs)
  have "unat b < 256" using unsigned_less [of b] by simp
  then have "unat b div 16 < 16" "unat b mod 16 < 16" by auto
  with Cons show ?case by (simp add: unhex_hex)
qed simp

lemma hex_of_hex_bytes:
  "even (length s) \<Longrightarrow> list_all is_lower_hex s \<Longrightarrow>
   secret_to_hex (LinkSecret (hex_bytes s)) = s \<and> 2 * length (hex_bytes s) = length s"
proof (induction s rule: hex_bytes.induct)
  case (1 h l rest)
  let ?n = "16 * unhex_digit h + unhex_digit l"
  have hl: "unhex_digit h < 16" "unhex_digit l < 16"
    "hex_digit (unhex_digit h) = h" "hex_digit (unhex_digit l) = l"
    using 1 hex_unhex by auto
  define m where "m = ?n"
  have m: "m div 16 = unhex_digit h" "m mod 16 = unhex_digit l" "m < 256" using hl by (simp_all add: m_def)
  then have "unat (word_of_nat m :: 8 word) = m" by (simp add: unsigned_of_nat take_bit_nat_eq_self)
  with 1 hl m(1,2) show ?case by (simp del: of_nat_add of_nat_mult add: m_def [symmetric])
qed auto

lemma secret_to_hex_length: "length (secret_to_hex (LinkSecret bs)) = 2 * length bs"
  by (induction bs) auto

lemma secret_to_hex_lower: "list_all is_lower_hex (secret_to_hex (LinkSecret bs))"
proof (induction bs)
  case (Cons b bs)
  have "unat b < 256" using unsigned_less [of b] by simp
  then have "unat b div 16 < 16" "unat b mod 16 < 16" by auto
  with Cons show ?case by (simp add: hex_is_lower)
qed simp

lemma redeem_Inr:
  "redeem H t secret person binding now = Inr t' \<longleftrightarrow>
     secret_hash H secret = lt_token_hash t \<and> now < lt_expires_at t \<and> lt_consumed t = None \<and>
     (lt_person t = None \<or> lt_person t = Some person) \<and>
     t' = t\<lparr>lt_consumed := Some \<lparr>cs_person = person, cs_binding = binding, cs_at = now\<rparr>\<rparr>"
  by (auto simp: redeem_def split: option.splits)

subsection \<open>Atomic fields\<close>

lemma atomic_round_trip: "atomic_deserialize de (atomic_serialize v) = de v"
  by (simp add: atomic_deserialize_def atomic_serialize_def)

lemma atomic_serialize_inj [simp]: "atomic_serialize x = atomic_serialize y \<longleftrightarrow> x = y"
  by (simp add: atomic_serialize_def)

lemma merge_value_atomic:
  "merge_value b (atomic_serialize x) (atomic_serialize y) =
     (if x = y then Some (atomic_serialize x)
      else if atomic_serialize x = b then Some (atomic_serialize y)
      else if atomic_serialize y = b then Some (atomic_serialize x)
      else None)"
  by (simp add: merge_value.simps atomic_serialize_def as_object_def split: option.splits)

lemma merge_field_atomic:
  "merge_field b (Some (atomic_serialize x)) (Some (atomic_serialize y)) =
     (if x = y then Some (Some (atomic_serialize x))
      else if b = Some (atomic_serialize x) then Some (Some (atomic_serialize y))
      else if b = Some (atomic_serialize y) then Some (Some (atomic_serialize x))
      else None)"
  by (cases b) (auto simp: merge_field.simps merge_value_atomic, auto simp: atomic_serialize_def)

end
