(* ===== verification/Gz_Ticket.thy ===== *)
theory Gz_Ticket
  imports Gz_MemStore Gz_Merge
begin

text \<open>
  Tickets: the normalized work item (\<open>gonzalo-domain/src/ticket.rs\<close>), its record key
  (\<open>gonzalo-ticket/src/lib.rs\<close>), the per-connection state mapping (\<open>mapping.rs\<close>), the provider boundary
  (\<open>source.rs\<close>) and the ingest engine that upserts tickets into a store (\<open>ingest.rs\<close>).

  The JSON encoding of a ticket is a parameter (\<open>to_vec\<close>), and so is Unicode lower-casing
  (\<open>lower\<close>). A source is the two reading methods of the \<open>TicketSource\<close> trait as functions on a state of
  its own, which a fetch may change. The page loop ends when the source says so and not before: it is
  a partial function, and what makes it return is a theorem.
\<close>

subsection \<open>The ticket model\<close>

datatype provider = GitHub | Jira | Linear | GitLab | Asana | AzureDevOps | Bugzilla | OtherProvider string

datatype state_category = Triage | Backlog | Open | InProgress | Pending | Done | Canceled

datatype resolution = RDone | WontDo | Duplicate | RInvalid | CannotReproduce | Moved | OtherResolution string

record ticket_state =
  ts_category :: state_category
  ts_resolution :: "resolution option"
  ts_raw_name :: string
  ts_raw_id :: "string option"

datatype actor_role = Requester | Assignee | Submitter | Follower

record actor =
  ac_role :: actor_role
  ac_handle :: string
  ac_display :: "string option"

record container =
  co_kind :: string
  co_id :: string
  co_name :: "string option"
  co_primary :: bool

datatype link_kind = Blocks | BlockedBy | Relates | ParentOf | ChildOf | DuplicateOf

datatype link_target = LRecord record_key | LExternal string

record tlink =
  tl_kind :: link_kind
  tl_target :: link_target

datatype body_format = Markdown | Adf | Html | PlainText

record ticket_body =
  tb_markdown :: string
  tb_format :: body_format
  tb_raw :: "string option"

datatype priority_level = PNone | PLow | PMedium | PHigh | PUrgent

record priority =
  pr_level :: priority_level
  pr_raw :: "string option"

record ticket =
  tk_provider :: provider
  tk_uid :: string
  tk_display :: string
  tk_item_type :: string
  tk_title :: string
  tk_state :: ticket_state
  tk_priority :: "priority option"
  tk_actors :: "actor list"
  tk_labels :: "string list"
  tk_containers :: "container list"
  tk_links :: "tlink list"
  tk_body :: ticket_body
  tk_fields :: "(string, json) btree"

subsection \<open>Keys\<close>

fun provider_slug :: "(string \<Rightarrow> string) \<Rightarrow> provider \<Rightarrow> string" where
  "provider_slug lower GitHub = ''github''"
| "provider_slug lower Jira = ''jira''"
| "provider_slug lower Linear = ''linear''"
| "provider_slug lower GitLab = ''gitlab''"
| "provider_slug lower Asana = ''asana''"
| "provider_slug lower AzureDevOps = ''azure-devops''"
| "provider_slug lower Bugzilla = ''bugzilla''"
| "provider_slug lower (OtherProvider name) = lower name"

definition scoped_uid :: "string \<Rightarrow> string option \<Rightarrow> string" where
  "scoped_uid uid scope = (case scope of Some board \<Rightarrow> board @ ''/'' @ uid | None \<Rightarrow> uid)"

definition ticket_key :: "(string \<Rightarrow> string) \<Rightarrow> ticket \<Rightarrow> string option \<Rightarrow> record_key" where
  "ticket_key lower t scope =
     RecordKey ''tickets'' (provider_slug lower (tk_provider t)) (scoped_uid (tk_uid t) scope)"

subsection \<open>The state mapping\<close>

datatype state_signal =
    IntrinsicState | NativeStatus | ScopedLabel string | Section | CustomField string | Completed

record state_mapping =
  sm_signal :: state_signal
  sm_by_value :: "(string, state_category) btree"
  sm_default :: state_category

datatype reverse_error = Unmapped state_category | Ambiguous state_category "string list"

text \<open>\<open>str::eq_ignore_ascii_case\<close>.\<close>

definition ascii_lower :: "char \<Rightarrow> char" where
  "ascii_lower c =
     (if 65 \<le> (of_char c :: nat) \<and> (of_char c :: nat) \<le> 90 then char_of ((of_char c :: nat) + 32) else c)"

definition eq_ignore_ascii_case :: "string \<Rightarrow> string \<Rightarrow> bool" where
  "eq_ignore_ascii_case a b \<longleftrightarrow> map ascii_lower a = map ascii_lower b"

definition category_of :: "state_mapping \<Rightarrow> string \<Rightarrow> state_category" where
  "category_of m raw =
     (case bt_get (sm_by_value m) raw of
        Some cat \<Rightarrow> cat
      | None \<Rightarrow>
          (case find (\<lambda>(k, _). eq_ignore_ascii_case k raw) (sm_by_value m) of
             Some (_, cat) \<Rightarrow> cat
           | None \<Rightarrow> sm_default m))"

definition column_for ::
  "state_mapping \<Rightarrow> state_category \<Rightarrow> (state_category \<rightharpoonup> string) \<Rightarrow> reverse_error + string" where
  "column_for m cat overrides =
     (case overrides cat of
        Some col \<Rightarrow> Inr col
      | None \<Rightarrow>
          let matches = sort (map fst (filter (\<lambda>(_, c). c = cat) (sm_by_value m))) in
          (case matches of
             [] \<Rightarrow> Inl (Unmapped cat)
           | [col] \<Rightarrow> Inr col
           | _ \<Rightarrow> Inl (Ambiguous cat matches)))"

subsection \<open>The provider boundary\<close>

datatype cursor = Cursor "string option"

record page =
  pg_tickets :: "ticket list"
  pg_next :: cursor

datatype source_error = Unsupported string | SourceBackend string

type_synonym ('x, 'a) source_io = "'x \<Rightarrow> (source_error + 'a) \<times> 'x"

subsection \<open>Ingest\<close>

record ingest_summary =
  is_imported :: nat
  is_updated :: nat
  is_unchanged :: nat

datatype ingest_error = ISource source_error | IStore core_error | IConflict conflict

datatype upsert_outcome = Imported | Updated | Unchanged

definition summary_default :: ingest_summary where
  "summary_default = \<lparr>is_imported = 0, is_updated = 0, is_unchanged = 0\<rparr>"

fun tally :: "upsert_outcome \<Rightarrow> ingest_summary \<Rightarrow> ingest_summary" where
  "tally Imported s = s\<lparr>is_imported := is_imported s + 1\<rparr>"
| "tally Updated s = s\<lparr>is_updated := is_updated s + 1\<rparr>"
| "tally Unchanged s = s\<lparr>is_unchanged := is_unchanged s + 1\<rparr>"

text \<open>\<open>RecordCodec::to_body\<close> and \<open>from_body\<close> (\<open>gonzalo-domain/src/codec.rs\<close>).\<close>

definition codec_to_body :: "('a \<Rightarrow> string + bytes) \<Rightarrow> 'a \<Rightarrow> body result" where
  "codec_to_body to_vec x = (case to_vec x of Inl e \<Rightarrow> Inl (Serde e) | Inr bs \<Rightarrow> Inr (Inline bs))"

definition codec_from_body :: "(bytes \<Rightarrow> string + 'a) \<Rightarrow> body \<Rightarrow> 'a result" where
  "codec_from_body from_slice b =
     (case b of
        Inline bs \<Rightarrow> (case from_slice bs of Inl e \<Rightarrow> Inl (Serde e) | Inr x \<Rightarrow> Inr x)
      | Blob _ _ \<Rightarrow> Inl (Backend ''cannot decode a blob-backed body without a BlobStore''))"

text \<open>\<open>?\<close> with the \<open>From\<close> conversion of a store error.\<close>

definition store_call :: "('s, core_error, 'a) io \<Rightarrow> ('s, ingest_error, 'a) io" where
  "store_call m s = (case m s of (Inl e, s') \<Rightarrow> (Inl (IStore e), s') | (Inr x, s') \<Rightarrow> (Inr x, s'))"

definition upsert ::
  "blake3 \<Rightarrow> (ticket \<Rightarrow> string + bytes) \<Rightarrow> (string \<Rightarrow> string) \<Rightarrow> 's store_vt \<Rightarrow> string \<Rightarrow> string option \<Rightarrow>
   ticket \<Rightarrow> ('s, ingest_error, upsert_outcome) io" where
  "upsert H to_vec lower vt au scope t =
     (let key = ticket_key lower t scope in
      bindE (store_call (liftE (codec_to_body to_vec t))) (\<lambda>body.
      let new_hash = content_hash_of H (body_bytes body) in
      bindE (store_call (vt_get vt key)) (\<lambda>existing.
      if (case existing of Some r \<Rightarrow> rev_hash (rec_revision r) = new_hash | None \<Rightarrow> False) then retE Unchanged
      else
        let expected = map_option rec_revision existing;
            meta = meta_new (identity_new au) ''ticket-ingest'';
            record = (case existing of
                Some current \<Rightarrow> record_update H current body meta
              | None \<Rightarrow> record_create H key Ticket body meta)
        in bindE (store_call (vt_put vt record expected)) (\<lambda>res.
             case res of
               Committed _ \<Rightarrow> retE (if existing \<noteq> None then Updated else Imported)
             | PutConflict c \<Rightarrow> throwE (IConflict c)))))"

fun ingest_page ::
  "('t \<Rightarrow> ('s, ingest_error, upsert_outcome) io) \<Rightarrow> 't list \<Rightarrow> ingest_summary \<Rightarrow> ('s, ingest_error, ingest_summary) io" where
  "ingest_page up [] summary = retE summary"
| "ingest_page up (t # ts) summary = bindE (up t) (\<lambda>o'. ingest_page up ts (tally o' summary))"

text \<open>The page loop, over the state of the source and the store.\<close>

partial_function (option) ingest_loop ::
  "(cursor \<Rightarrow> ('x, page) source_io) \<Rightarrow> (ticket \<Rightarrow> ('s, ingest_error, upsert_outcome) io) \<Rightarrow>
   ingest_summary \<Rightarrow> cursor \<Rightarrow> 'x \<times> 's \<Rightarrow> ((ingest_error + ingest_summary) \<times> ('x \<times> 's)) option" where
  "ingest_loop fetch up summary cur xs =
     (case fetch cur (fst xs) of
        (Inl e, x') \<Rightarrow> Some (Inl (ISource e), (x', snd xs))
      | (Inr page, x') \<Rightarrow>
          (case ingest_page up (pg_tickets page) summary (snd xs) of
             (Inl e, s') \<Rightarrow> Some (Inl e, (x', s'))
           | (Inr summary', s') \<Rightarrow>
               if pg_next page = Cursor None \<or> pg_next page = cur then Some (Inr summary', (x', s'))
               else ingest_loop fetch up summary' (pg_next page) (x', s')))"

declare ingest_loop.simps [code]

definition ingest ::
  "blake3 \<Rightarrow> (ticket \<Rightarrow> string + bytes) \<Rightarrow> (string \<Rightarrow> string) \<Rightarrow> (cursor \<Rightarrow> ('x, page) source_io) \<Rightarrow> 's store_vt \<Rightarrow>
   string \<Rightarrow> string option \<Rightarrow> 'x \<times> 's \<Rightarrow> ((ingest_error + ingest_summary) \<times> ('x \<times> 's)) option" where
  "ingest H to_vec lower fetch vt au scope xs =
     ingest_loop fetch (upsert H to_vec lower vt au scope) summary_default (Cursor None) xs"

text \<open>The in-memory source (\<open>mock.rs\<close>): one page, whatever the cursor.\<close>

definition mem_fetch :: "ticket list \<Rightarrow> cursor \<Rightarrow> (unit, page) source_io" where
  "mem_fetch tickets c x = (Inr \<lparr>pg_tickets = tickets, pg_next = Cursor None\<rparr>, x)"

definition mem_source_get :: "ticket list \<Rightarrow> string \<Rightarrow> source_error + ticket" where
  "mem_source_get tickets uid =
     (case find (\<lambda>t. tk_uid t = uid) tickets of
        Some t \<Rightarrow> Inr t
      | None \<Rightarrow> Inl (SourceBackend (''no ticket with uid '' @ uid)))"

subsection \<open>The mapping read and written\<close>

text \<open>A column chosen for a category, without an override, reads back as that category.\<close>

lemma column_for_category:
  assumes "bt_ok (sm_by_value m)" "ov cat = None" "column_for m cat ov = Inr col"
  shows "category_of m col = cat"
proof -
  have "sort (map fst (filter (\<lambda>(_, c). c = cat) (sm_by_value m))) = [col]"
    using assms(2,3) by (auto simp: column_for_def Let_def split: list.splits)
  then have "col \<in> set (sort (map fst (filter (\<lambda>(_, c). c = cat) (sm_by_value m))))" by simp
  then have "(col, cat) \<in> set (sm_by_value m)" by auto
  then have "bt_get (sm_by_value m) col = Some cat" using bt_get_in_set [OF assms(1)] by blast
  then show ?thesis by (simp add: category_of_def)
qed

subsection \<open>Ingest is idempotent\<close>

lemma store_call_Inr: "store_call m s = (Inr x, s') \<longleftrightarrow> m s = (Inr x, s')"
  by (auto simp: store_call_def split: prod.splits sum.splits)

lemma record_hashes:
  "rev_hash (rec_revision (record_create H k kd (Inline bs) m)) = content_hash_of H bs"
  "rev_hash (rec_revision (record_update H c (Inline bs) m)) = content_hash_of H bs"
  "rec_body (record_create H k kd (Inline bs) m) = Inline bs" "rec_body (record_update H c (Inline bs) m) = Inline bs"
  "rec_key (record_create H k kd (Inline bs) m) = k" "rec_key (record_update H c (Inline bs) m) = rec_key c"
  by (simp_all add: record_create_def record_update_def revision_initial_def revision_next_def)

lemma plan_put_write_hash:
  assumes "plan_put H cur r ex now cap = PutWrite stored"
    "rev_hash (rec_revision r) = content_hash_of H (body_bytes (rec_body r))"
  shows "rev_hash (rec_revision stored) = rev_hash (rec_revision r) \<and> \<not> is_tombstone stored"
  using assms
  by (auto simp: plan_put_def with_folded_def stamp_def recreated_def is_tombstone_def
      split: if_splits option.splits)

context planned_store
begin

definition settled :: "(ticket \<Rightarrow> string + bytes) \<Rightarrow> (string \<Rightarrow> string) \<Rightarrow> string option \<Rightarrow> store_map \<Rightarrow> ticket \<Rightarrow> bool" where
  "settled to_vec lower scope m t \<longleftrightarrow>
     (\<exists>r bs. to_vec t = Inr bs \<and> live_only (m (ticket_key lower t scope)) = Some r \<and>
        rev_hash (rec_revision r) = content_hash_of H bs)"

lemma upsert_settled:
  assumes "inv s" "vk (ticket_key lower t scope)" "settled to_vec lower scope (abs s) t"
  shows "upsert H to_vec lower vt au scope t s = (Inr Unchanged, s)"
  using assms get [OF assms(1,2)]
  by (auto simp: settled_def upsert_def Let_def codec_to_body_def store_call_def liftE_def bindE_def retE_def)

lemma upsert_settles:
  assumes "inv s" "vk (ticket_key lower t scope)" "upsert H to_vec lower vt au scope t s = (Inr o', s')"
  shows "inv s' \<and> settled to_vec lower scope (abs s') t \<and>
    (\<forall>k. k \<noteq> ticket_key lower t scope \<longrightarrow> abs s' k = abs s k)"
proof -
  let ?k = "ticket_key lower t scope" and ?ex = "live_only (abs s (ticket_key lower t scope))"
  obtain bs where bs: "to_vec t = Inr bs"
    using assms(3) by (auto simp: upsert_def Let_def codec_to_body_def store_call_def liftE_def bindE_def split: sum.splits)
  note run = assms(3) [unfolded upsert_def Let_def codec_to_body_def store_call_def liftE_def bindE_def bs]
  show ?thesis
  proof (cases "\<exists>r. ?ex = Some r \<and> rev_hash (rec_revision r) = content_hash_of H bs")
    case True
    then have "settled to_vec lower scope (abs s) t" using bs by (auto simp: settled_def)
    from upsert_settled [OF assms(1,2) this] assms(1,3) this show ?thesis by simp
  next
    case False
    define r where "r = (case ?ex of
        Some c \<Rightarrow> record_update H c (Inline bs) (meta_new (identity_new au) ''ticket-ingest'')
      | None \<Rightarrow> record_create H ?k Ticket (Inline bs) (meta_new (identity_new au) ''ticket-ingest''))"
    have key: "rec_key r = ?k"
      using stored_key [OF assms(1)] by (auto simp: r_def record_hashes live_only_eq_Some split: option.splits)
    have hash: "rev_hash (rec_revision r) = content_hash_of H bs" "body_bytes (rec_body r) = bs"
      by (auto simp: r_def record_hashes split: option.splits)
    obtain res t' where put: "vt_put vt r (map_option rec_revision ?ex) s = (res, t')" by (rule prod.exhaust)
    have "vk (rec_key r)" using assms(2) key by simp
    note P = Gz_Store.planned_store.put [OF planned_store_axioms assms(1) this put]
    let ?plan = "plan_put H (abs s (rec_key r)) r (map_option rec_revision ?ex) (now s) cap"
    have "s' = t' \<and> (\<exists>rv. res = Inr (Committed rv))"
      using run put False get [OF assms(1,2)]
      by (auto simp: r_def retE_def throwE_def split: option.splits sum.splits put_result.splits if_splits)
    then obtain rv where s': "s' = t'" "res = Inr (Committed rv)" by blast
    then obtain stored where w: "?plan = PutWrite stored" using P by (cases ?plan) auto
    have "rev_hash (rec_revision stored) = content_hash_of H bs \<and> \<not> is_tombstone stored"
      using plan_put_write_hash [OF w] hash by simp
    moreover have "abs s' = (abs s)(?k \<mapsto> stored)" using P w s'(1) key by simp
    ultimately show ?thesis using P s'(1) bs by (auto simp: settled_def live_only_def)
  qed
qed

lemma ingest_page_settles:
  assumes "\<forall>t \<in> set ts. vk (ticket_key lower t scope)" "distinct (map (\<lambda>t. ticket_key lower t scope) ts)"
  shows "inv s \<Longrightarrow> ingest_page (upsert H to_vec lower vt au scope) ts sm s = (Inr sm', s') \<Longrightarrow>
    inv s' \<and> (\<forall>t \<in> set ts. settled to_vec lower scope (abs s') t) \<and>
    (\<forall>k. k \<notin> (\<lambda>t. ticket_key lower t scope) ` set ts \<longrightarrow> abs s' k = abs s k)"
  using assms
proof (induction ts arbitrary: s sm)
  case Nil
  then show ?case by (simp add: retE_def)
next
  case (Cons t ts)
  obtain o' s1 where up: "upsert H to_vec lower vt au scope t s = (Inr o', s1)"
    and rest: "ingest_page (upsert H to_vec lower vt au scope) ts (tally o' sm) s1 = (Inr sm', s')"
    using Cons.prems(2) by (auto simp: bindE_def split: prod.splits sum.splits)
  have 1: "inv s1" "settled to_vec lower scope (abs s1) t"
    "\<And>k. k \<noteq> ticket_key lower t scope \<Longrightarrow> abs s1 k = abs s k"
    using upsert_settles [OF Cons.prems(1) _ up] Cons.prems(3) by auto
  have 2: "inv s'" "\<forall>t \<in> set ts. settled to_vec lower scope (abs s') t"
    "\<And>k. k \<notin> (\<lambda>t. ticket_key lower t scope) ` set ts \<Longrightarrow> abs s' k = abs s1 k"
    using Cons.IH [OF 1(1) rest] Cons.prems(3,4) by auto
  have "abs s' (ticket_key lower t scope) = abs s1 (ticket_key lower t scope)"
    by (rule 2(3)) (use Cons.prems(4) in auto)
  then have "settled to_vec lower scope (abs s') t" using 1(2) by (simp add: settled_def)
  then show ?case using 1(3) 2 by auto
qed

lemma ingest_page_settled:
  assumes "inv s" "\<forall>t \<in> set ts. vk (ticket_key lower t scope)" "\<forall>t \<in> set ts. settled to_vec lower scope (abs s) t"
  shows "ingest_page (upsert H to_vec lower vt au scope) ts sm s =
    (Inr (sm\<lparr>is_unchanged := is_unchanged sm + length ts\<rparr>), s)"
  using assms
proof (induction ts arbitrary: sm)
  case (Cons t ts)
  then have "upsert H to_vec lower vt au scope t s = (Inr Unchanged, s)" by (intro upsert_settled) auto
  with Cons show ?case by (simp add: bindE_def)
qed (simp add: retE_def)

end

text \<open>
  The page loop returns as soon as some rank of the cursor falls on every page that does not end it;
  a source that keeps alternating between two cursors has no such rank and is never left.
\<close>

lemma ingest_loop_returns:
  assumes "\<And>c x pg x'. fetch c x = (Inr pg, x') \<Longrightarrow> pg_next pg \<noteq> Cursor None \<Longrightarrow> pg_next pg \<noteq> c \<Longrightarrow>
    rank (pg_next pg) < (rank c :: nat)"
  shows "\<exists>res. ingest_loop fetch up summary c xs = Some res"
proof (induction "rank c" arbitrary: c summary xs rule: less_induct)
  case less
  obtain f x' where f: "fetch c (fst xs) = (f, x')" by (rule prod.exhaust)
  show ?case
  proof (cases f)
    case (Inl e)
    then show ?thesis using f by (subst ingest_loop.simps) simp
  next
    case (Inr pg)
    obtain r s' where r: "ingest_page up (pg_tickets pg) summary (snd xs) = (r, s')" by (rule prod.exhaust)
    show ?thesis
    proof (cases "r = Inr (projr r) \<and> pg_next pg \<noteq> Cursor None \<and> pg_next pg \<noteq> c")
      case True
      then have "rank (pg_next pg) < rank c" using assms f Inr by auto
      from less [OF this, of "projr r" "(x', s')"] show ?thesis
        using f Inr r True by (subst ingest_loop.simps) (auto split: sum.splits)
    next
      case False
      then show ?thesis using f Inr r by (subst ingest_loop.simps) (auto split: sum.splits)
    qed
  qed
qed

lemma ingest_mem_fetch:
  "ingest H to_vec lower (mem_fetch ts) vt au scope (x, s) =
     (case ingest_page (upsert H to_vec lower vt au scope) ts summary_default s of
        (r, s') \<Rightarrow> Some (r, (x, s')))"
  unfolding ingest_def by (subst ingest_loop.simps) (simp add: mem_fetch_def split: prod.splits sum.splits)

end
