(* ===== verification/Gz_Graph.thy ===== *)
theory Gz_Graph
  imports Gz_Blobs Gz_Manifest "HOL-Library.While_Combinator"
begin

text \<open>
  The code graph of a view (\<open>gonzalo-graph\<close>): the path-agnostic slice of one file (\<open>model.rs\<close>), the
  queries over an assembled view and the in-memory store that answers them (\<open>store.rs\<close>), assembly
  from a manifest and its blobs (\<open>assembly.rs\<close>) and the structural diff of two views (\<open>diff.rs\<close>).
  Extraction of slices from source text (tree-sitter) is not modelled: a view is given by its slices.

  The \<open>GraphStore\<close> trait is a record of the queries an implementation provides; the provided methods
  are functions of it. The two graph walks are loops over a work list that only ends because every
  name is visited once: they are \<open>while_option\<close>, and that they return is proved.
\<close>

subsection \<open>Text helpers of the standard library\<close>

fun str_split :: "char \<Rightarrow> string \<Rightarrow> string list" where
  "str_split c [] = [[]]"
| "str_split c (x # xs) =
     (if x = c then [] # str_split c xs
      else (case str_split c xs of w # ws \<Rightarrow> (x # w) # ws | [] \<Rightarrow> [[x]]))"

definition rsplit_once :: "char \<Rightarrow> string \<Rightarrow> (string \<times> string) option" where
  "rsplit_once c s =
     (let t = takeWhile (\<lambda>x. x \<noteq> c) (rev s) in
      if length t = length s then None else Some (rev (drop (Suc (length t)) (rev s)), rev t))"

definition str_contains :: "string \<Rightarrow> string \<Rightarrow> bool" where
  "str_contains needle s \<longleftrightarrow> (\<exists>i \<in> set [0..<Suc (length s)]. take (length needle) (drop i s) = needle)"

definition starts_with :: "string \<Rightarrow> string \<Rightarrow> bool" where
  "starts_with pre s \<longleftrightarrow> take (length pre) s = pre"

text \<open>\<open>Path::extension\<close>.\<close>

definition path_extension :: "string \<Rightarrow> string option" where
  "path_extension path =
     (case rev (filter (\<lambda>c. c \<noteq> [] \<and> c \<noteq> ''.'') (str_split CHR ''/'' path)) of
        [] \<Rightarrow> None
      | name # _ \<Rightarrow>
          if name = ''..'' then None
          else (case rsplit_once CHR ''.'' name of
              Some (stem, ext) \<Rightarrow> if stem = [] then None else Some ext
            | None \<Rightarrow> None))"

text \<open>\<open>Vec::sort\<close> and \<open>Vec::dedup\<close> of strings, and \<open>BTreeSet::insert\<close> on the sorted element list.\<close>

definition sort_dedup :: "'a::linorder list \<Rightarrow> 'a list" where
  "sort_dedup xs = vec_dedup (sort xs)"

definition bts_insert :: "'a::linorder \<Rightarrow> 'a list \<Rightarrow> 'a list" where
  "bts_insert x xs = (if x \<in> set xs then xs else insort x xs)"

subsection \<open>The slice of a file\<close>

datatype symbol_kind =
  Function | Struct | Enum | Trait | Impl | Module | Const | Static | TypeAlias | Class | Interface

fun symbol_kind_str :: "symbol_kind \<Rightarrow> string" where
  "symbol_kind_str Function = ''function''"
| "symbol_kind_str Struct = ''struct''"
| "symbol_kind_str Enum = ''enum''"
| "symbol_kind_str Trait = ''trait''"
| "symbol_kind_str Impl = ''impl''"
| "symbol_kind_str Module = ''module''"
| "symbol_kind_str Const = ''const''"
| "symbol_kind_str Static = ''static''"
| "symbol_kind_str TypeAlias = ''type_alias''"
| "symbol_kind_str Class = ''class''"
| "symbol_kind_str Interface = ''interface''"

record symbol =
  sy_name :: string
  sy_kind :: symbol_kind
  sy_start_line :: nat
  sy_end_line :: nat
  sy_owner :: "string option"

datatype from_scope = FunctionScope | ModuleScope

fun from_scope_str :: "from_scope \<Rightarrow> string" where
  "from_scope_str FunctionScope = ''function''"
| "from_scope_str ModuleScope = ''module''"

definition from_str_or_function :: "string \<Rightarrow> from_scope" where
  "from_str_or_function raw = (if raw = ''module'' then ModuleScope else FunctionScope)"

datatype ref_kind = Free | Method | Value

fun ref_kind_str :: "ref_kind \<Rightarrow> string" where
  "ref_kind_str Free = ''free''"
| "ref_kind_str Method = ''method''"
| "ref_kind_str Value = ''value''"

definition from_str_or_free :: "string \<Rightarrow> ref_kind" where
  "from_str_or_free raw = (if raw = ''method'' then Method else if raw = ''value'' then Value else Free)"

record reference =
  rf_name :: string
  rf_from :: "string option"
  rf_line :: nat
  rf_kind :: ref_kind
  rf_qualifier :: "string option"
  rf_from_scope :: from_scope

record 'a located =
  lo_path :: string
  lo_item :: 'a

record import =
  im_name :: string
  im_path :: "string list"
  im_depth :: nat
  im_line :: nat

definition brings_whole_file :: "import \<Rightarrow> bool" where
  "brings_whole_file i \<longleftrightarrow> im_name i = []"

record code_graph =
  cg_symbols :: "symbol list"
  cg_references :: "reference list"
  cg_imports :: "import list"

record 'a gpage =
  gp_items :: "'a list"
  gp_total :: nat
  gp_truncated :: bool

definition page_new :: "'a list \<Rightarrow> nat \<Rightarrow> 'a gpage" where
  "page_new items limit =
     (let total = length items; items' = take limit items in
      \<lparr>gp_items = items', gp_total = total, gp_truncated = (length items' < total)\<rparr>)"

record symbol_filter =
  sf_path_prefix :: "string option"
  sf_kind :: "symbol_kind option"
  sf_name_contains :: "string option"

definition filter_matches :: "symbol_filter \<Rightarrow> symbol located \<Rightarrow> bool" where
  "filter_matches f l \<longleftrightarrow>
     is_none_or (\<lambda>p. starts_with p (lo_path l)) (sf_path_prefix f) \<and>
     is_none_or (\<lambda>k. sy_kind (lo_item l) = k) (sf_kind f) \<and>
     is_none_or (\<lambda>n. str_contains n (sy_name (lo_item l))) (sf_name_contains f)"

datatype ranking = FanIn | FanOut | Definitions

record ranked_symbol =
  rk_name :: string
  rk_score :: nat
  rk_paths :: "string list"

record file_summary =
  fm_path :: string
  fm_symbols :: nat

record view_overview =
  vo_files :: nat
  vo_symbols :: nat
  vo_references :: nat
  vo_by_kind :: "(string, nat) btree"
  vo_by_language :: "(string, nat) btree"
  vo_largest_files :: "file_summary list"

datatype language =
  Rust | Python | JavaScript | TypeScript | Tsx | Go | Java | CSharp | CLang | Cpp | Ruby | Php | Bash |
  Kotlin | Swift | Lua | Scala | Elixir

definition language_from_extension :: "string \<Rightarrow> language option" where
  "language_from_extension ext =
     (if ext = ''rs'' then Some Rust
      else if ext = ''py'' then Some Python
      else if ext \<in> {''js'', ''jsx'', ''mjs'', ''cjs''} then Some JavaScript
      else if ext \<in> {''ts'', ''mts'', ''cts''} then Some TypeScript
      else if ext = ''tsx'' then Some Tsx
      else if ext = ''go'' then Some Go
      else if ext = ''java'' then Some Java
      else if ext = ''cs'' then Some CSharp
      else if ext = ''c'' then Some CLang
      else if ext \<in> {''h'', ''cpp'', ''cc'', ''cxx'', ''hpp'', ''hh''} then Some Cpp
      else if ext = ''rb'' then Some Ruby
      else if ext = ''php'' then Some Php
      else if ext \<in> {''sh'', ''bash''} then Some Bash
      else if ext \<in> {''kt'', ''kts''} then Some Kotlin
      else if ext = ''swift'' then Some Swift
      else if ext = ''lua'' then Some Lua
      else if ext \<in> {''scala'', ''sc''} then Some Scala
      else if ext \<in> {''ex'', ''exs''} then Some Elixir
      else None)"

fun language_str :: "language \<Rightarrow> string" where
  "language_str Rust = ''rust''"
| "language_str Python = ''python''"
| "language_str JavaScript = ''javascript''"
| "language_str TypeScript = ''typescript''"
| "language_str Tsx = ''tsx''"
| "language_str Go = ''go''"
| "language_str Java = ''java''"
| "language_str CSharp = ''csharp''"
| "language_str CLang = ''c''"
| "language_str Cpp = ''cpp''"
| "language_str Ruby = ''ruby''"
| "language_str Php = ''php''"
| "language_str Bash = ''bash''"
| "language_str Kotlin = ''kotlin''"
| "language_str Swift = ''swift''"
| "language_str Lua = ''lua''"
| "language_str Scala = ''scala''"
| "language_str Elixir = ''elixir''"

definition language_of :: "string \<Rightarrow> string" where
  "language_of path =
     (case Option.bind (path_extension path) language_from_extension of
        Some l \<Rightarrow> language_str l | None \<Rightarrow> ''unknown'')"

subsection \<open>The queries a store provides\<close>

record graph_view =
  gv_definitions :: "string \<Rightarrow> symbol located list"
  gv_references_to :: "string \<Rightarrow> reference located list"
  gv_imports_in_file :: "string \<Rightarrow> import list"
  gv_callers_of :: "string \<Rightarrow> string list"
  gv_callees :: "string \<Rightarrow> string list"
  gv_all_symbols :: "symbol located list"
  gv_all_references :: "reference located list"

definition scope_rank :: "from_scope \<Rightarrow> nat" where
  "scope_rank s = (case s of FunctionScope \<Rightarrow> 0 | ModuleScope \<Rightarrow> 1)"

definition callers_scoped :: "graph_view \<Rightarrow> string \<Rightarrow> (string \<times> from_scope) list" where
  "callers_scoped g name =
     vec_dedup (sort_key (\<lambda>(f, s). (f, scope_rank s))
       (List.map_filter (\<lambda>l. map_option (\<lambda>f. (f, rf_from_scope (lo_item l))) (rf_from (lo_item l)))
         (filter (\<lambda>l. rf_kind (lo_item l) \<noteq> Value) (gv_references_to g name))))"

text \<open>\<open>impact\<close>: breadth first over the callers, each name enqueued when it is first seen.\<close>

fun enqueue_new :: "string list \<Rightarrow> string list \<times> string list \<Rightarrow> string list \<times> string list" where
  "enqueue_new [] vq = vq"
| "enqueue_new (c # cs) (visited, queue) =
     (if c \<in> set visited then enqueue_new cs (visited, queue)
      else enqueue_new cs (bts_insert c visited, queue @ [c]))"

definition impact_step :: "graph_view \<Rightarrow> string list \<times> string list \<Rightarrow> string list \<times> string list" where
  "impact_step g vq =
     (case vq of
        (visited, current # queue) \<Rightarrow> enqueue_new (gv_callers_of g current) (visited, queue)
      | (visited, []) \<Rightarrow> (visited, []))"

definition impact :: "graph_view \<Rightarrow> string \<Rightarrow> string list option" where
  "impact g name =
     map_option (\<lambda>(visited, _). filter (\<lambda>x. x \<noteq> name) visited)
       (while_option (\<lambda>(_, queue). queue \<noteq> []) (impact_step g)
         (enqueue_new (gv_callers_of g name) ([name], [])))"

text \<open>\<open>*map.entry(k).or_default() += 1\<close> over a list.\<close>

definition count_by :: "('a \<Rightarrow> string) \<Rightarrow> 'a list \<Rightarrow> (string, nat) btree" where
  "count_by f xs =
     fold (\<lambda>x m. bt_insert (f x) (case bt_get m (f x) of Some n \<Rightarrow> n + 1 | None \<Rightarrow> 1) m) xs []"

definition overview :: "graph_view \<Rightarrow> nat \<Rightarrow> view_overview" where
  "overview g largest =
     (let symbols = gv_all_symbols g;
          references = gv_all_references g;
          per_file = count_by lo_path symbols;
          files = bts_of_list (map lo_path symbols @ map lo_path references);
          summaries = map (\<lambda>(p, n). \<lparr>fm_path = p, fm_symbols = n\<rparr>) per_file
      in \<lparr>vo_files = length files, vo_symbols = length symbols, vo_references = length references,
          vo_by_kind = count_by (\<lambda>l. symbol_kind_str (sy_kind (lo_item l))) symbols,
          vo_by_language = count_by (\<lambda>l. language_of (lo_path l)) symbols,
          vo_largest_files = take largest (sort_key (\<lambda>f. (- int (fm_symbols f), fm_path f)) summaries)\<rparr>)"

text \<open>\<open>map.entry(k).or_default().insert(v)\<close> over a list: the values of a key as a sorted set.\<close>

definition group_by :: "('a \<Rightarrow> (string \<times> string) option) \<Rightarrow> 'a list \<Rightarrow> (string, string list) btree" where
  "group_by f xs =
     fold (\<lambda>x m. case f x of
             None \<Rightarrow> m
           | Some (k, v) \<Rightarrow> bt_insert k (bts_insert v (case bt_get m k of Some vs \<Rightarrow> vs | None \<Rightarrow> [])) m) xs []"

definition top :: "graph_view \<Rightarrow> ranking \<Rightarrow> nat \<Rightarrow> ranked_symbol gpage" where
  "top g ranking limit =
     (let definitions = group_by (\<lambda>l. Some (sy_name (lo_item l), lo_path l)) (gv_all_symbols g);
          references = filter (\<lambda>l. rf_kind (lo_item l) \<noteq> Value) (gv_all_references g);
          scores = (case ranking of
              Definitions \<Rightarrow> map (\<lambda>(n, ps). (n, length ps)) definitions
            | FanIn \<Rightarrow> count_by (\<lambda>l. rf_name (lo_item l)) references
            | FanOut \<Rightarrow> map (\<lambda>(n, cs). (n, length cs))
                (group_by (\<lambda>l. map_option (\<lambda>f. (f, rf_name (lo_item l))) (rf_from (lo_item l))) references));
          ranked = map (\<lambda>(n, s). \<lparr>rk_name = n, rk_score = s,
              rk_paths = (case bt_get definitions n of Some ps \<Rightarrow> ps | None \<Rightarrow> [])\<rparr>) scores
      in page_new (sort_key (\<lambda>r. (- int (rk_score r), rk_name r)) ranked) limit)"

definition list_symbols :: "graph_view \<Rightarrow> symbol_filter \<Rightarrow> nat \<Rightarrow> symbol located gpage" where
  "list_symbols g f limit = page_new (filter (filter_matches f) (gv_all_symbols g)) limit"

definition is_test_scope_name :: "string \<Rightarrow> bool" where
  "is_test_scope_name n \<longleftrightarrow> n = ''tests'' \<or> n = ''test''"

definition in_tests_dir :: "string \<Rightarrow> bool" where
  "in_tests_dir path \<longleftrightarrow> (\<exists>part \<in> set (str_split CHR ''/'' path). part = ''tests'')"

definition in_test_scope :: "symbol located list \<Rightarrow> symbol located \<Rightarrow> bool" where
  "in_test_scope symbols l \<longleftrightarrow>
     in_tests_dir (lo_path l) \<or>
     (\<exists>m \<in> set symbols. sy_kind (lo_item m) = Module \<and> is_test_scope_name (sy_name (lo_item m)) \<and>
        lo_path m = lo_path l \<and> sy_start_line (lo_item m) \<le> sy_start_line (lo_item l) \<and>
        sy_end_line (lo_item l) \<le> sy_end_line (lo_item m))"

definition unreferenced :: "graph_view \<Rightarrow> symbol_filter \<Rightarrow> bool \<Rightarrow> nat \<Rightarrow> symbol located gpage" where
  "unreferenced g f exclude_tests limit =
     (let referenced = map (\<lambda>l. rf_name (lo_item l)) (gv_all_references g);
          symbols = gv_all_symbols g;
          matched = filter (\<lambda>l. sy_name (lo_item l) \<notin> set referenced \<and> filter_matches f l \<and>
                      (\<not> exclude_tests \<or> \<not> in_test_scope symbols l)) symbols
      in page_new (sort_key (\<lambda>l. (lo_path l, sy_start_line (lo_item l))) matched) limit)"

subsection \<open>The in-memory store\<close>

type_synonym mem_graph = "(string, code_graph) btree"

definition mg_insert :: "string \<Rightarrow> code_graph \<Rightarrow> mem_graph \<Rightarrow> mem_graph" where
  "mg_insert path g s = bt_insert path g s"

definition mg_symbols_in_file :: "mem_graph \<Rightarrow> string \<Rightarrow> symbol list" where
  "mg_symbols_in_file s path = (case bt_get s path of Some g \<Rightarrow> cg_symbols g | None \<Rightarrow> [])"

definition mg_imports_in_file :: "mem_graph \<Rightarrow> string \<Rightarrow> import list" where
  "mg_imports_in_file s path = (case bt_get s path of Some g \<Rightarrow> cg_imports g | None \<Rightarrow> [])"

definition locate :: "string \<Rightarrow> 'a \<Rightarrow> 'a located" where
  "locate p x = \<lparr>lo_path = p, lo_item = x\<rparr>"

definition mg_definitions :: "mem_graph \<Rightarrow> string \<Rightarrow> symbol located list" where
  "mg_definitions s name =
     concat (map (\<lambda>(path, g). map (locate path) (filter (\<lambda>y. sy_name y = name) (cg_symbols g))) s)"

definition mg_references_to :: "mem_graph \<Rightarrow> string \<Rightarrow> reference located list" where
  "mg_references_to s name =
     concat (map (\<lambda>(path, g). map (locate path) (filter (\<lambda>r. rf_name r = name) (cg_references g))) s)"

definition mg_callers_of :: "mem_graph \<Rightarrow> string \<Rightarrow> string list" where
  "mg_callers_of s name =
     sort_dedup (List.map_filter rf_from
       (filter (\<lambda>r. rf_name r = name \<and> rf_kind r \<noteq> Value) (concat (map (\<lambda>(_, g). cg_references g) s))))"

definition mg_callees :: "mem_graph \<Rightarrow> string \<Rightarrow> string list" where
  "mg_callees s name =
     sort_dedup (map rf_name
       (filter (\<lambda>r. rf_from r = Some name \<and> rf_kind r \<noteq> Value) (concat (map (\<lambda>(_, g). cg_references g) s))))"

definition mg_all_symbols :: "mem_graph \<Rightarrow> symbol located list" where
  "mg_all_symbols s = concat (map (\<lambda>(path, g). map (locate path) (cg_symbols g)) s)"

definition mg_all_references :: "mem_graph \<Rightarrow> reference located list" where
  "mg_all_references s = concat (map (\<lambda>(path, g). map (locate path) (cg_references g)) s)"

definition mem_view :: "mem_graph \<Rightarrow> graph_view" where
  "mem_view s =
     \<lparr>gv_definitions = mg_definitions s, gv_references_to = mg_references_to s,
      gv_imports_in_file = mg_imports_in_file s, gv_callers_of = mg_callers_of s, gv_callees = mg_callees s,
      gv_all_symbols = mg_all_symbols s, gv_all_references = mg_all_references s\<rparr>"

subsection \<open>Assembly\<close>

fun assemble_entries ::
  "(bytes \<Rightarrow> string + code_graph) \<Rightarrow> 's blob_vt \<Rightarrow> (string \<times> content_hash) list \<Rightarrow> mem_graph \<Rightarrow>
   ('s, core_error, mem_graph) io" where
  "assemble_entries from_slice bv [] store = retE store"
| "assemble_entries from_slice bv ((path, h) # es) store =
     bindE (bv_get_blob bv h) (\<lambda>blob.
       case blob of
         None \<Rightarrow> assemble_entries from_slice bv es store
       | Some bytes \<Rightarrow>
           (case from_slice bytes of
              Inl e \<Rightarrow> throwE (Serde e)
            | Inr g \<Rightarrow> assemble_entries from_slice bv es (mg_insert path g store)))"

definition assemble ::
  "(bytes \<Rightarrow> string + code_graph) \<Rightarrow> manifest \<Rightarrow> 's blob_vt \<Rightarrow> ('s, core_error, mem_graph) io" where
  "assemble from_slice m bv = assemble_entries from_slice bv (mf_entries m) []"

subsection \<open>Structural diff\<close>

record graph_diff =
  gd_added_symbols :: "symbol located list"
  gd_removed_symbols :: "symbol located list"
  gd_added_references :: "reference located list"
  gd_removed_references :: "reference located list"

definition diff_is_empty :: "graph_diff \<Rightarrow> bool" where
  "diff_is_empty d \<longleftrightarrow> gd_added_symbols d = [] \<and> gd_removed_symbols d = [] \<and>
     gd_added_references d = [] \<and> gd_removed_references d = []"

definition symbol_key :: "symbol located \<Rightarrow> string \<times> string \<times> symbol_kind" where
  "symbol_key l = (lo_path l, sy_name (lo_item l), sy_kind (lo_item l))"

definition reference_key :: "reference located \<Rightarrow> string \<times> string option \<times> string" where
  "reference_key l = (lo_path l, rf_from (lo_item l), rf_name (lo_item l))"

fun dedup_by_key :: "('a \<Rightarrow> bool) \<Rightarrow> ('a \<Rightarrow> 'k) \<Rightarrow> 'k list \<Rightarrow> 'a list \<Rightarrow> 'a list" where
  "dedup_by_key keep key seen [] = []"
| "dedup_by_key keep key seen (x # xs) =
     (if keep x \<and> key x \<notin> set seen then x # dedup_by_key keep key (key x # seen) xs
      else dedup_by_key keep key seen xs)"

definition graph_diff_of :: "graph_view \<Rightarrow> graph_view \<Rightarrow> graph_diff" where
  "graph_diff_of a b =
     (let a_syms = gv_all_symbols a; b_syms = gv_all_symbols b;
          a_refs = gv_all_references a; b_refs = gv_all_references b;
          a_sym_keys = map symbol_key a_syms; b_sym_keys = map symbol_key b_syms;
          a_ref_keys = map reference_key a_refs; b_ref_keys = map reference_key b_refs
      in \<lparr>gd_added_symbols = dedup_by_key (\<lambda>l. symbol_key l \<notin> set a_sym_keys) symbol_key [] b_syms,
          gd_removed_symbols = dedup_by_key (\<lambda>l. symbol_key l \<notin> set b_sym_keys) symbol_key [] a_syms,
          gd_added_references = dedup_by_key (\<lambda>l. reference_key l \<notin> set a_ref_keys) reference_key [] b_refs,
          gd_removed_references = dedup_by_key (\<lambda>l. reference_key l \<notin> set b_ref_keys) reference_key [] a_refs\<rparr>)"

end
