(* ===== verification/Gz_Resolve.thy ===== *)
theory Gz_Resolve
  imports Gz_Graph
begin

text \<open>
  Best-effort name resolution over a view and the resolution-gated impact walk
  (\<open>gonzalo-graph/src/resolve.rs\<close>): which definition a reference means, decided from the qualifier, the
  referencing file, the number of definitions and the imports, and the transitive closure of callers
  along the references that resolve to a definite file.
\<close>

subsection \<open>Resolutions\<close>

datatype gresolution = Qualified | Local | UniqueGlobal | ImportedFrom | AmbiguousRef | ReceiverUnknown | UnresolvedRef

record resolved_reference =
  rr_reference :: "reference located"
  rr_target :: "string option"
  rr_resolution :: gresolution

subsection \<open>Paths and imports\<close>

text \<open>Segments compare with \<open>-\<close> and \<open>_\<close> alike.\<close>

definition dashy :: "char \<Rightarrow> bool" where
  "dashy c \<longleftrightarrow> c = CHR ''-'' \<or> c = CHR ''_''"

definition same_segment :: "string \<Rightarrow> string \<Rightarrow> bool" where
  "same_segment a b \<longleftrightarrow>
     length a = length b \<and> list_all (\<lambda>(x, y). x = y \<or> dashy x \<and> dashy y) (zip a b)"

definition file_stem :: "string \<Rightarrow> string" where
  "file_stem name = (case rsplit_once CHR ''.'' name of Some (stem, _) \<Rightarrow> stem | None \<Rightarrow> name)"

definition path_components :: "string \<Rightarrow> string list" where
  "path_components p = filter (\<lambda>c. c \<noteq> []) (str_split CHR ''/'' p)"

text \<open>The components with the file name replaced by its stem, which an entry file does not contribute.\<close>

definition stem_components :: "string list \<Rightarrow> string list \<Rightarrow> string list" where
  "stem_components entry_names cs =
     (case rev cs of
        [] \<Rightarrow> []
      | name # up \<Rightarrow> (let stem = file_stem name in if stem \<in> set entry_names then rev up else rev up @ [stem]))"

definition path_ends_with_module :: "string \<Rightarrow> string list \<Rightarrow> bool" where
  "path_ends_with_module file module =
     (let cs = stem_components [''mod'', ''lib'', ''main'', ''__init__'', ''index'']
                 (filter (\<lambda>c. c \<noteq> ''src'') (path_components file))
      in length module \<le> length cs \<and>
         list_all (\<lambda>(c, m). same_segment c m) (zip (drop (length cs - length module) cs) module))"

definition path_under :: "string \<Rightarrow> string list \<Rightarrow> bool" where
  "path_under file anchor =
     (let cs = stem_components [''__init__''] (path_components file) in
      length anchor \<le> length cs \<and> list_all (\<lambda>(c, m). same_segment c m) (zip cs anchor))"

text \<open>\<open>Vec::pop\<close> the given number of times, \<open>None\<close> when the path has fewer levels.\<close>

fun pop_n :: "nat \<Rightarrow> string list \<Rightarrow> string list option" where
  "pop_n 0 cs = Some cs"
| "pop_n (Suc n) cs = (if cs = [] then None else pop_n n (butlast cs))"

definition relative_anchor :: "string \<Rightarrow> nat \<Rightarrow> string list \<Rightarrow> string list option" where
  "relative_anchor from_path depth module =
     Option.bind (pop_n 1 (path_components from_path)) (\<lambda>cs.
       map_option (\<lambda>up. up @ module) (pop_n (depth - 1) cs))"

fun shared_prefix :: "string list \<Rightarrow> string list \<Rightarrow> nat" where
  "shared_prefix (a # as) (b # bs) = (if same_segment a b then Suc (shared_prefix as bs) else 0)"
| "shared_prefix _ _ = 0"

definition nearest_to :: "string list \<Rightarrow> string \<Rightarrow> string option" where
  "nearest_to candidates from_path =
     (let own = path_components from_path;
          shared = (\<lambda>p. shared_prefix (path_components p) own)
      in if candidates = [] then None
         else
           let best = Max (shared ` set candidates) in
           if best = 0 then None
           else (case filter (\<lambda>p. shared p = best) candidates of [only] \<Rightarrow> Some only | _ \<Rightarrow> None))"

definition pick_matched :: "string list \<Rightarrow> string \<Rightarrow> string option" where
  "pick_matched matched from_path =
     (case matched of [] \<Rightarrow> None | [only] \<Rightarrow> Some only | several \<Rightarrow> nearest_to several from_path)"

definition included_target :: "import list \<Rightarrow> string \<Rightarrow> string list \<Rightarrow> string option" where
  "included_target imports from_path candidates =
     (let included = filter (\<lambda>i. brings_whole_file i \<and> im_path i \<noteq> []) imports in
      if included = [] then None
      else pick_matched (filter (\<lambda>p. list_ex (\<lambda>i. path_ends_with_module p (im_path i)) included) candidates)
             from_path)"

definition imported_target :: "import list \<Rightarrow> string \<Rightarrow> string \<Rightarrow> string list \<Rightarrow> string option" where
  "imported_target imports name from_path candidates =
     (case find (\<lambda>i. im_name i = name) imports of
        None \<Rightarrow> included_target imports from_path candidates
      | Some i \<Rightarrow>
          if im_depth i > 0 then
            Option.bind (relative_anchor from_path (im_depth i) (im_path i)) (\<lambda>anchor.
              pick_matched (filter (\<lambda>p. path_under p anchor) candidates) from_path)
          else if im_path i = [] then None
          else pick_matched (filter (\<lambda>p. path_ends_with_module p (im_path i)) candidates) from_path)"

subsection \<open>Resolving references\<close>

definition resolve_one ::
  "graph_view \<Rightarrow> string \<Rightarrow> symbol located list \<Rightarrow> string list \<Rightarrow> reference located \<Rightarrow> string option \<times> gresolution" where
  "resolve_one g name defs def_paths l =
     (let qualified = (case rf_qualifier (lo_item l) of
            Some q \<Rightarrow> bts_of_list (map lo_path (filter (\<lambda>d. sy_owner (lo_item d) = Some q) defs))
          | None \<Rightarrow> [])
      in if length qualified = 1 then (Some (hd qualified), Qualified)
         else if qualified \<noteq> [] then (None, AmbiguousRef)
         else if lo_path l \<in> set def_paths then (Some (lo_path l), Local)
         else if def_paths = [] then (None, UnresolvedRef)
         else if rf_kind (lo_item l) = Method then (None, ReceiverUnknown)
         else if length def_paths = 1 then (Some (hd def_paths), UniqueGlobal)
         else (case imported_target (gv_imports_in_file g (lo_path l)) name (lo_path l) def_paths of
             Some p \<Rightarrow> (Some p, ImportedFrom)
           | None \<Rightarrow> (None, AmbiguousRef)))"

definition resolve_references_to :: "graph_view \<Rightarrow> string \<Rightarrow> resolved_reference list" where
  "resolve_references_to g name =
     (let defs = gv_definitions g name;
          def_paths = bts_of_list (map lo_path defs)
      in map (\<lambda>l. let (t, r) = resolve_one g name defs def_paths l in
                  \<lparr>rr_reference = l, rr_target = t, rr_resolution = r\<rparr>) (gv_references_to g name))"

definition resolved_callers_of :: "graph_view \<Rightarrow> string \<Rightarrow> string \<Rightarrow> string list" where
  "resolved_callers_of g defining_path name =
     sort_dedup (List.map_filter (\<lambda>r. rf_from (lo_item (rr_reference r)))
       (filter (\<lambda>r. rr_target r = Some defining_path) (resolve_references_to g name)))"

subsection \<open>The impact walk\<close>

text \<open>An \<open>ImpactNode\<close> is its \<open>(name, path)\<close> pair, ordered that way by the derived \<open>Ord\<close>.\<close>

type_synonym impact_node = "string \<times> string"

record impact_report =
  ir_reached :: "impact_node list"
  ir_ambiguous_edges :: nat
  ir_receiver_unknown_edges :: nat
  ir_value_edges :: nat
  ir_truncated :: bool

definition report_default :: impact_report where
  "report_default = \<lparr>ir_reached = [], ir_ambiguous_edges = 0, ir_receiver_unknown_edges = 0,
     ir_value_edges = 0, ir_truncated = False\<rparr>"

record walk =
  wk_visited :: "impact_node list"
  wk_next :: "impact_node list"
  wk_report :: impact_report

definition visit_edge :: "impact_node \<Rightarrow> resolved_reference \<Rightarrow> walk \<Rightarrow> walk" where
  "visit_edge node r w =
     (let rep = wk_report w; item = lo_item (rr_reference r) in
      if rf_kind item = Value then w\<lparr>wk_report := rep\<lparr>ir_value_edges := ir_value_edges rep + 1\<rparr>\<rparr>
      else if rr_resolution r = AmbiguousRef
      then w\<lparr>wk_report := rep\<lparr>ir_ambiguous_edges := ir_ambiguous_edges rep + 1\<rparr>\<rparr>
      else if rr_resolution r = ReceiverUnknown
      then w\<lparr>wk_report := rep\<lparr>ir_receiver_unknown_edges := ir_receiver_unknown_edges rep + 1\<rparr>\<rparr>
      else if rr_target r \<noteq> Some (snd node) then w
      else (case rf_from item of
          None \<Rightarrow> w
        | Some from \<Rightarrow>
            let caller = (from, lo_path (rr_reference r)) in
            if caller \<in> set (wk_visited w) then w
            else w\<lparr>wk_visited := bts_insert caller (wk_visited w), wk_next := wk_next w @ [caller]\<rparr>))"

definition visit_node :: "graph_view \<Rightarrow> impact_node \<Rightarrow> walk \<Rightarrow> walk" where
  "visit_node g node w = fold (visit_edge node) (resolve_references_to g (fst node)) w"

record walk_state =
  ws_visited :: "impact_node list"
  ws_frontier :: "impact_node list"
  ws_report :: impact_report
  ws_depth :: nat

definition depth_reached :: "nat option \<Rightarrow> nat \<Rightarrow> bool" where
  "depth_reached max_depth depth = (case max_depth of Some m \<Rightarrow> m \<le> depth | None \<Rightarrow> False)"

text \<open>One level: every node of the frontier is asked for its callers; the new ones are the next level.\<close>

definition walk_level :: "graph_view \<Rightarrow> walk_state \<Rightarrow> walk_state" where
  "walk_level g s =
     (let w = fold (visit_node g) (ws_frontier s)
                \<lparr>wk_visited = ws_visited s, wk_next = [], wk_report = ws_report s\<rparr>
      in \<lparr>ws_visited = wk_visited w, ws_frontier = wk_next w, ws_report = wk_report w, ws_depth = ws_depth s + 1\<rparr>)"

definition impact_seeds :: "graph_view \<Rightarrow> string \<Rightarrow> impact_node list" where
  "impact_seeds g name = map (\<lambda>d. (name, lo_path d)) (gv_definitions g name)"

definition resolved_impact :: "graph_view \<Rightarrow> string \<Rightarrow> nat option \<Rightarrow> impact_report option" where
  "resolved_impact g name max_depth =
     (let seeds = impact_seeds g name in
      map_option (\<lambda>s. (ws_report s)
          \<lparr>ir_truncated := (ws_frontier s \<noteq> [] \<and> depth_reached max_depth (ws_depth s)),
           ir_reached := filter (\<lambda>n. n \<notin> set seeds) (ws_visited s)\<rparr>)
        (while_option (\<lambda>s. ws_frontier s \<noteq> [] \<and> \<not> depth_reached max_depth (ws_depth s)) (walk_level g)
          \<lparr>ws_visited = bts_of_list seeds, ws_frontier = seeds, ws_report = report_default, ws_depth = 0\<rparr>))"

end
