(* ===== verification/Gz_GraphProofs.thy ===== *)
theory Gz_GraphProofs
  imports Gz_Resolve
begin

text \<open>
  Correctness of the graph queries. What a store has to provide for the walks is the locale
  \<open>call_graph\<close>: finitely many callers, and callers that are the sources of the call references. The
  walks then return, and what they return is reachability along the caller relation: \<open>impact\<close> over
  names, \<open>resolved_impact\<close> over definitions, up to the depth bound.
\<close>

subsection \<open>Sorted sets as lists\<close>

lemma set_bts_insert [simp]: "set (bts_insert x xs) = insert x (set xs)"
  by (auto simp: bts_insert_def set_insort_key)

lemma strict_sorted_distinct: "sorted_wrt (<) (xs :: 'a::linorder list) \<longleftrightarrow> sorted xs \<and> distinct xs"
  using strict_sorted_iff by blast

lemma sorted_bts_insert [simp]: "sorted_wrt (<) xs \<Longrightarrow> sorted_wrt (<) (bts_insert x xs)"
  by (auto simp: bts_insert_def strict_sorted_distinct sorted_insort distinct_insort)

lemma set_map_filter': "set (List.map_filter f xs) = {y. \<exists>x \<in> set xs. f x = Some y}"
  by (force simp: List.map_filter_def)

lemma set_sort_dedup [simp]: "set (sort_dedup xs) = set xs"
  by (simp add: sort_dedup_def)

subsection \<open>Reachability within a number of steps\<close>

definition within_steps :: "('a \<times> 'a) set \<Rightarrow> 'a set \<Rightarrow> nat \<Rightarrow> 'a set" where
  "within_steps E S d = {y. \<exists>x \<in> S. \<exists>i \<le> d. (x, y) \<in> E ^^ i}"

lemma within_steps_0 [simp]: "within_steps E S 0 = S"
  by (auto simp: within_steps_def)

lemma within_steps_Suc: "within_steps E S (Suc d) = within_steps E S d \<union> E `` within_steps E S d"
proof
  show "within_steps E S (Suc d) \<subseteq> within_steps E S d \<union> E `` within_steps E S d"
  proof
    fix y
    assume "y \<in> within_steps E S (Suc d)"
    then obtain x i where x: "x \<in> S" "i \<le> Suc d" "(x, y) \<in> E ^^ i" by (auto simp: within_steps_def)
    show "y \<in> within_steps E S d \<union> E `` within_steps E S d"
    proof (cases "i \<le> d")
      case True
      then show ?thesis using x by (auto simp: within_steps_def)
    next
      case False
      then obtain z where "(x, z) \<in> E ^^ d" "(z, y) \<in> E" using x by (auto simp: le_Suc_eq)
      then have "z \<in> within_steps E S d" using x(1) by (auto simp: within_steps_def)
      with \<open>(z, y) \<in> E\<close> show ?thesis by blast
    qed
  qed
  show "within_steps E S d \<union> E `` within_steps E S d \<subseteq> within_steps E S (Suc d)"
  proof
    fix y
    assume "y \<in> within_steps E S d \<union> E `` within_steps E S d"
    then consider "y \<in> within_steps E S d" | z where "z \<in> within_steps E S d" "(z, y) \<in> E" by blast
    then show "y \<in> within_steps E S (Suc d)"
    proof cases
      case 1
      then show ?thesis by (auto simp: within_steps_def intro: le_SucI)
    next
      case 2
      then obtain x i where "x \<in> S" "i \<le> d" "(x, z) \<in> E ^^ i" by (auto simp: within_steps_def)
      with 2(2) have "(x, y) \<in> E ^^ Suc i" "Suc i \<le> Suc d" by auto
      with \<open>x \<in> S\<close> show ?thesis unfolding within_steps_def by blast
    qed
  qed
qed

lemma within_steps_reachable: "within_steps E S d \<subseteq> E\<^sup>* `` S"
  by (auto simp: within_steps_def dest: relpow_imp_rtrancl)

lemma within_steps_mono: "d \<le> e \<Longrightarrow> within_steps E S d \<subseteq> within_steps E S e"
  by (auto simp: within_steps_def) (meson le_trans)

lemma image_split: "E `` (V - F) \<subseteq> V \<Longrightarrow> F \<subseteq> V \<Longrightarrow> V \<union> E `` V = V \<union> E `` F"
  by blast

lemma image_next: "C = E `` F \<Longrightarrow> E `` (V - F) \<subseteq> V \<Longrightarrow> F \<subseteq> V \<Longrightarrow> E `` ((V \<union> C) - (C - V)) \<subseteq> V \<union> C"
  by blast

lemma closed_reachable: "S \<subseteq> V \<Longrightarrow> E `` V \<subseteq> V \<Longrightarrow> E\<^sup>* `` S \<subseteq> V"
proof
  fix y
  assume V: "S \<subseteq> V" "E `` V \<subseteq> V" and "y \<in> E\<^sup>* `` S"
  then obtain x where "(x, y) \<in> E\<^sup>*" "x \<in> S" by blast
  then show "y \<in> V" using V by (induction rule: rtrancl_induct) auto
qed

subsection \<open>The contract\<close>

definition node_callers :: "graph_view \<Rightarrow> impact_node \<Rightarrow> impact_node set" where
  "node_callers g n =
     {(f, lo_path (rr_reference r)) | f r. r \<in> set (resolve_references_to g (fst n)) \<and>
        rf_kind (lo_item (rr_reference r)) \<noteq> Value \<and>
        rr_resolution r \<noteq> AmbiguousRef \<and> rr_resolution r \<noteq> ReceiverUnknown \<and>
        rr_target r = Some (snd n) \<and> rf_from (lo_item (rr_reference r)) = Some f}"

definition caller_edges :: "graph_view \<Rightarrow> (impact_node \<times> impact_node) set" where
  "caller_edges g = {(n, c). c \<in> node_callers g n}"

locale call_graph =
  fixes g :: graph_view
  assumes finite_refs: "finite {(f, lo_path l) | f l. \<exists>n. l \<in> set (gv_references_to g n) \<and> rf_from (lo_item l) = Some f}"
    and callers: "set (gv_callers_of g n) =
      {f. \<exists>l \<in> set (gv_references_to g n). rf_kind (lo_item l) \<noteq> Value \<and> rf_from (lo_item l) = Some f}"
begin

definition caller_rel :: "(string \<times> string) set" where
  "caller_rel = {(n, c). c \<in> set (gv_callers_of g n)}"

lemma finite_callers: "finite (\<Union>n. set (gv_callers_of g n))"
proof (rule finite_subset [OF _ finite_imageI [OF finite_refs, of fst]])
  show "(\<Union>n. set (gv_callers_of g n)) \<subseteq> fst ` {(f, lo_path l) | f l. \<exists>n. l \<in> set (gv_references_to g n) \<and> rf_from (lo_item l) = Some f}"
    by (force simp: callers)
qed

subsection \<open>\<open>impact\<close>\<close>

lemma enqueue_new_spec:
  "enqueue_new cs (v, q) = (v', q') \<Longrightarrow> sorted_wrt (<) v \<Longrightarrow>
     sorted_wrt (<) v' \<and> set v' = set v \<union> set cs \<and>
     (\<exists>new. q' = q @ new \<and> distinct new \<and> set new = set cs - set v)"
proof (induction cs "(v, q)" arbitrary: v q rule: enqueue_new.induct)
  case (2 c cs v q)
  show ?case
  proof (cases "c \<in> set v")
    case True
    then show ?thesis using 2 by auto
  next
    case False
    then obtain new where IH: "sorted_wrt (<) v'" "set v' = insert c (set v) \<union> set cs"
      "q' = (q @ [c]) @ new" "distinct new" "set new = set cs - insert c (set v)"
      using 2 by auto
    then have "q' = q @ c # new" "distinct (c # new)" "set (c # new) = set (c # cs) - set v"
      using False by auto
    with IH(1,2) show ?thesis by fastforce
  qed
qed auto

definition impact_inv :: "string \<Rightarrow> string list \<times> string list \<Rightarrow> bool" where
  "impact_inv name vq \<longleftrightarrow>
     (case vq of (v, q) \<Rightarrow> sorted_wrt (<) v \<and> name \<in> set v \<and> set v \<subseteq> caller_rel\<^sup>* `` {name} \<and> set q \<subseteq> set v \<and>
        (\<forall>x \<in> set v - set q. set (gv_callers_of g x) \<subseteq> set v))"

definition impact_measure :: "string \<Rightarrow> string list \<times> string list \<Rightarrow> nat" where
  "impact_measure name vq = 2 * card ((\<Union>n. set (gv_callers_of g n)) - set (fst vq)) + length (snd vq)"

lemma impact_enqueue:
  assumes "impact_inv name (v, q)" "x \<in> set v" "enqueue_new (gv_callers_of g x) (v, q') = (w, r)"
    "set q = insert x (set q') \<or> set q = set q'" "set q' \<subseteq> set v"
  shows "impact_inv name (w, r) \<and> impact_measure name (w, r) \<le> impact_measure name (v, q')"
proof -
  let ?U = "\<Union>n. set (gv_callers_of g n)"
  obtain new where n: "sorted_wrt (<) w" "set w = set v \<union> set (gv_callers_of g x)" "r = q' @ new"
    "distinct new" "set new = set (gv_callers_of g x) - set v"
    using enqueue_new_spec [OF assms(3)] assms(1) by (auto simp: impact_inv_def)
  have "(name, c) \<in> caller_rel\<^sup>*" if "c \<in> set (gv_callers_of g x)" for c
    using assms(1,2) that by (auto simp: impact_inv_def caller_rel_def intro: rtrancl_into_rtrancl)
  then have "impact_inv name (w, r)"
    using assms(1,4,5) n by (auto simp: impact_inv_def)
  moreover have "card (?U - set w) + length new = card (?U - set v)"
  proof -
    have "?U - set v = (?U - set w) \<union> set new" "(?U - set w) \<inter> set new = {}" using n by auto
    then show ?thesis
      using finite_callers by (simp add: card_Un_disjoint distinct_card [OF n(4)])
  qed
  ultimately show ?thesis by (simp add: impact_measure_def n(3))
qed

lemma impact_start: "impact_inv name (enqueue_new (gv_callers_of g name) ([name], []))"
proof -
  obtain v q where r: "enqueue_new (gv_callers_of g name) ([name], []) = (v, q)" by (rule prod.exhaust)
  then obtain new where n: "sorted_wrt (<) v" "set v = insert name (set (gv_callers_of g name))" "q = new"
    "set new = set (gv_callers_of g name) - {name}"
    using enqueue_new_spec [OF r] by auto
  then have "impact_inv name (v, q)" by (auto simp: impact_inv_def caller_rel_def)
  with r show ?thesis by simp
qed

lemma impact_step_inv:
  assumes "impact_inv name vq" "snd vq \<noteq> []"
  shows "impact_inv name (impact_step g vq) \<and> impact_measure name (impact_step g vq) < impact_measure name vq"
proof -
  obtain v x q where vq: "vq = (v, x # q)" using assms(2) by (cases vq; cases "snd vq") auto
  obtain w r where e: "enqueue_new (gv_callers_of g x) (v, q) = (w, r)" by (rule prod.exhaust)
  have "x \<in> set v" "set q \<subseteq> set v" using assms(1) by (auto simp: vq impact_inv_def)
  from impact_enqueue [OF assms(1) [unfolded vq] this(1) e _ this(2)]
  show ?thesis by (simp add: vq impact_step_def e impact_measure_def)
qed

lemma impact_spec:
  "impact g name = Some (sorted_list_of_set (caller_rel\<^sup>+ `` {name} - {name}))"
proof -
  let ?b = "\<lambda>vq :: string list \<times> string list. snd vq \<noteq> []"
  let ?s = "enqueue_new (gv_callers_of g name) ([name], [])"
  have "\<exists>t. while_option ?b (impact_step g) ?s = Some t"
    by (rule measure_while_option_Some [where P = "impact_inv name" and f = "impact_measure name"])
      (use impact_step_inv impact_start in auto)
  then obtain v q where t: "while_option ?b (impact_step g) ?s = Some (v, q)" by auto
  have inv: "impact_inv name (v, q)"
    by (rule while_option_rule [OF _ t, where P = "impact_inv name"]) (use impact_step_inv impact_start in auto)
  have q: "q = []" using while_option_stop [OF t] by simp
  have "caller_rel `` set v \<subseteq> set v" using inv q by (auto simp: impact_inv_def caller_rel_def)
  then have v: "set v = caller_rel\<^sup>* `` {name}"
    using inv closed_reachable [of "{name}" "set v" caller_rel] by (auto simp: impact_inv_def)
  let ?r = "filter (\<lambda>x. x \<noteq> name) v"
  have "set ?r = caller_rel\<^sup>+ `` {name} - {name}"
    by (auto simp: v rtrancl_eq_or_trancl)
  moreover have "sorted_wrt (<) ?r" using inv by (simp add: impact_inv_def sorted_wrt_filter)
  ultimately have "?r = sorted_list_of_set (caller_rel\<^sup>+ `` {name} - {name})"
    by (metis strict_sorted_distinct sorted_list_of_set.idem_if_sorted_distinct)
  moreover have "(\<lambda>(_, queue). queue \<noteq> []) = ?b" by (auto simp: fun_eq_iff)
  ultimately show ?thesis by (simp add: impact_def t)
qed

subsection \<open>\<open>resolved_impact\<close>\<close>

lemma rr_reference_mem:
  "r \<in> set (resolve_references_to g n) \<Longrightarrow> rr_reference r \<in> set (gv_references_to g n)"
  by (auto simp: resolve_references_to_def Let_def split: prod.splits)

definition universe :: "impact_node set" where
  "universe = {(f, lo_path l) | f l. \<exists>n. l \<in> set (gv_references_to g n) \<and> rf_from (lo_item l) = Some f}"

lemma node_callers_universe: "node_callers g n \<subseteq> universe"
  using rr_reference_mem by (fastforce simp: node_callers_def universe_def)

lemma finite_universe: "finite universe"
  using finite_refs by (simp add: universe_def)

text \<open>The part of a node's callers that comes from a list of its resolved references.\<close>

definition edge_callers :: "impact_node \<Rightarrow> resolved_reference list \<Rightarrow> impact_node set" where
  "edge_callers n rs =
     {(f, lo_path (rr_reference r)) | f r. r \<in> set rs \<and> rf_kind (lo_item (rr_reference r)) \<noteq> Value \<and>
        rr_resolution r \<noteq> AmbiguousRef \<and> rr_resolution r \<noteq> ReceiverUnknown \<and>
        rr_target r = Some (snd n) \<and> rf_from (lo_item (rr_reference r)) = Some f}"

definition grown :: "impact_node set \<Rightarrow> walk \<Rightarrow> walk \<Rightarrow> bool" where
  "grown C w w' \<longleftrightarrow> sorted_wrt (<) (wk_visited w') \<and> set (wk_visited w') = set (wk_visited w) \<union> C \<and>
     set (wk_next w') = set (wk_next w) \<union> (C - set (wk_visited w))"

lemma grown_trans: "grown C w w' \<Longrightarrow> grown D w' w'' \<Longrightarrow> grown (C \<union> D) w w''"
  by (auto simp: grown_def)

lemma visit_edge_grown:
  "sorted_wrt (<) (wk_visited w) \<Longrightarrow> grown (edge_callers n [r]) w (visit_edge n r w)"
  by (auto simp: grown_def visit_edge_def edge_callers_def Let_def split: option.splits)

lemma visit_edges_grown:
  "sorted_wrt (<) (wk_visited w) \<Longrightarrow> grown (edge_callers n rs) w (fold (visit_edge n) rs w)"
proof (induction rs arbitrary: w)
  case Nil
  then show ?case by (simp add: grown_def edge_callers_def)
next
  case (Cons r rs)
  have 1: "grown (edge_callers n [r]) w (visit_edge n r w)" by (rule visit_edge_grown [OF Cons.prems])
  then have "grown (edge_callers n rs) (visit_edge n r w) (fold (visit_edge n) rs (visit_edge n r w))"
    by (intro Cons.IH) (simp add: grown_def)
  from grown_trans [OF 1 this] have "grown (edge_callers n [r] \<union> edge_callers n rs) w (fold (visit_edge n) (r # rs) w)"
    by simp
  moreover have "edge_callers n [r] \<union> edge_callers n rs = edge_callers n (r # rs)"
    by (auto simp: edge_callers_def)
  ultimately show ?case by simp
qed

lemma visit_node_grown:
  "sorted_wrt (<) (wk_visited w) \<Longrightarrow> grown (node_callers g n) w (visit_node g n w)"
  using visit_edges_grown [of w n "resolve_references_to g (fst n)"]
  by (simp add: visit_node_def edge_callers_def node_callers_def)

lemma visit_nodes_grown:
  "sorted_wrt (<) (wk_visited w) \<Longrightarrow> grown (\<Union>n \<in> set ns. node_callers g n) w (fold (visit_node g) ns w)"
proof (induction ns arbitrary: w)
  case Nil
  then show ?case by (simp add: grown_def)
next
  case (Cons n ns)
  have 1: "grown (node_callers g n) w (visit_node g n w)" by (rule visit_node_grown [OF Cons.prems])
  then have "grown (\<Union>n \<in> set ns. node_callers g n) (visit_node g n w) (fold (visit_node g) ns (visit_node g n w))"
    by (intro Cons.IH) (simp add: grown_def)
  from grown_trans [OF 1 this] show ?case by simp
qed

definition walk_inv :: "impact_node set \<Rightarrow> walk_state \<Rightarrow> bool" where
  "walk_inv S s \<longleftrightarrow> sorted_wrt (<) (ws_visited s) \<and> set (ws_visited s) = within_steps (caller_edges g) S (ws_depth s) \<and>
     set (ws_frontier s) \<subseteq> set (ws_visited s) \<and>
     caller_edges g `` (set (ws_visited s) - set (ws_frontier s)) \<subseteq> set (ws_visited s)"

definition walk_measure :: "walk_state \<Rightarrow> nat" where
  "walk_measure s = 2 * card (universe - set (ws_visited s)) + (if ws_frontier s = [] then 0 else 1)"

lemma walk_level_inv:
  assumes "walk_inv S s" "ws_frontier s \<noteq> []"
  shows "walk_inv S (walk_level g s) \<and> walk_measure (walk_level g s) < walk_measure s"
proof -
  let ?w = "\<lparr>wk_visited = ws_visited s, wk_next = [], wk_report = ws_report s\<rparr>"
  let ?C = "\<Union>n \<in> set (ws_frontier s). node_callers g n"
  let ?V = "set (ws_visited s)"
  have gr: "grown ?C ?w (fold (visit_node g) (ws_frontier s) ?w)"
    by (rule visit_nodes_grown) (use assms(1) in \<open>simp add: walk_inv_def\<close>)
  let ?s = "walk_level g s"
  have s': "sorted_wrt (<) (ws_visited ?s)" "set (ws_visited ?s) = ?V \<union> ?C" "set (ws_frontier ?s) = ?C - ?V"
    "ws_depth ?s = Suc (ws_depth s)"
    using gr by (simp_all add: walk_level_def Let_def grown_def)
  have C: "?C = caller_edges g `` set (ws_frontier s)" by (auto simp: caller_edges_def)
  have "within_steps (caller_edges g) S (Suc (ws_depth s)) = ?V \<union> caller_edges g `` ?V"
    using assms(1) by (simp add: walk_inv_def within_steps_Suc)
  also have "\<dots> = ?V \<union> ?C"
    unfolding C by (rule image_split) (use assms(1) in \<open>auto simp: walk_inv_def\<close>)
  finally have grow: "within_steps (caller_edges g) S (Suc (ws_depth s)) = ?V \<union> ?C" .
  have "caller_edges g `` (?V - set (ws_frontier s)) \<subseteq> ?V" "set (ws_frontier s) \<subseteq> ?V"
    using assms(1) unfolding walk_inv_def by blast+
  from image_next [OF C this] have "walk_inv S ?s"
    unfolding walk_inv_def s'(2-4)
    using s'(1) grow by blast
  moreover have "walk_measure ?s < walk_measure s"
  proof (cases "ws_frontier ?s = []")
    case True
    have "card (universe - (?V \<union> ?C)) \<le> card (universe - ?V)"
      by (rule card_mono) (use finite_universe in auto)
    then show ?thesis using True assms(2) by (simp add: walk_measure_def s'(2))
  next
    case False
    then have "?C - ?V \<noteq> {}" using s'(3) by (metis set_empty)
    moreover have "?C \<subseteq> universe" using node_callers_universe by blast
    ultimately have "universe - (?V \<union> ?C) \<subset> universe - ?V" by blast
    then have "card (universe - (?V \<union> ?C)) < card (universe - ?V)"
      by (rule psubset_card_mono [rotated]) (use finite_universe in auto)
    then show ?thesis using False assms(2) by (simp add: walk_measure_def s'(2))
  qed
  ultimately show ?thesis by blast
qed

text \<open>
  The walk returns. Without a bound it reaches exactly the definitions the seeds are reachable from
  along resolved calls; with a bound, those within that many calls; and it says so when it stopped
  early.
\<close>

lemma resolved_impact_spec:
  fixes name :: string
  defines "S \<equiv> set (impact_seeds g name)"
  shows "\<exists>rep. resolved_impact g name md = Some rep \<and> sorted_wrt (<) (ir_reached rep) \<and>
    set (ir_reached rep) =
      (case md of None \<Rightarrow> (caller_edges g)\<^sup>* `` S | Some m \<Rightarrow> within_steps (caller_edges g) S m) - S \<and>
    (\<not> ir_truncated rep \<longrightarrow> set (ir_reached rep) = (caller_edges g)\<^sup>* `` S - S)"
proof -
  let ?E = "caller_edges g" and ?seeds = "impact_seeds g name"
  let ?b = "\<lambda>s. ws_frontier s \<noteq> [] \<and> \<not> depth_reached md (ws_depth s)"
  let ?P = "\<lambda>s. walk_inv S s \<and> (\<forall>m. md = Some m \<longrightarrow> ws_depth s \<le> m)"
  let ?s0 = "\<lparr>ws_visited = bts_of_list ?seeds, ws_frontier = ?seeds, ws_report = report_default, ws_depth = 0\<rparr>"
  have P0: "?P ?s0" by (auto simp: walk_inv_def S_def)
  have step: "?P (walk_level g s) \<and> walk_measure (walk_level g s) < walk_measure s" if "?P s" "?b s" for s
    using walk_level_inv [of S s] that
    by (auto simp: walk_level_def Let_def depth_reached_def Suc_le_eq split: option.splits)
  have "\<exists>t. while_option ?b (walk_level g) ?s0 = Some t"
    by (rule measure_while_option_Some [where P = ?P and f = walk_measure]) (use step P0 in blast)+
  then obtain t where t: "while_option ?b (walk_level g) ?s0 = Some t" ..
  have P: "?P t" by (rule while_option_rule [OF _ t, where P = ?P]) (use step P0 in blast)+
  have stop: "ws_frontier t = [] \<or> depth_reached md (ws_depth t)" using while_option_stop [OF t] by blast
  have closed: "set (ws_visited t) = ?E\<^sup>* `` S" if "ws_frontier t = []"
  proof -
    have "?E `` set (ws_visited t) \<subseteq> set (ws_visited t)" using P that unfolding walk_inv_def
      by (metis Diff_empty empty_set)
    moreover have "S \<subseteq> set (ws_visited t)" using P within_steps_mono [of 0 "ws_depth t" ?E S] by (simp add: walk_inv_def)
    ultimately have "?E\<^sup>* `` S \<subseteq> set (ws_visited t)" by (intro closed_reachable)
    moreover have "set (ws_visited t) \<subseteq> ?E\<^sup>* `` S" using P within_steps_reachable unfolding walk_inv_def by metis
    ultimately show ?thesis by blast
  qed
  have vis: "set (ws_visited t) = (case md of None \<Rightarrow> ?E\<^sup>* `` S | Some m \<Rightarrow> within_steps ?E S m)"
  proof (cases md)
    case None
    then show ?thesis using closed stop by (simp add: depth_reached_def)
  next
    case (Some m)
    show ?thesis
    proof (cases "ws_frontier t = []")
      case True
      have "ws_depth t \<le> m" using P Some by blast
      then have "within_steps ?E S (ws_depth t) \<subseteq> within_steps ?E S m" by (rule within_steps_mono)
      then have le: "set (ws_visited t) \<subseteq> within_steps ?E S m" using P by (simp add: walk_inv_def)
      have "within_steps ?E S m \<subseteq> set (ws_visited t)" unfolding closed [OF True] by (rule within_steps_reachable)
      with le show ?thesis using Some by simp
    next
      case False
      then have "ws_depth t = m" using stop P Some by (simp add: depth_reached_def)
      then show ?thesis using P Some by (simp add: walk_inv_def)
    qed
  qed
  let ?rep = "(ws_report t)\<lparr>ir_truncated := (ws_frontier t \<noteq> [] \<and> depth_reached md (ws_depth t)),
      ir_reached := filter (\<lambda>n. n \<notin> set ?seeds) (ws_visited t)\<rparr>"
  have "resolved_impact g name md = Some ?rep" by (simp add: resolved_impact_def Let_def t)
  moreover have reached: "set (ir_reached ?rep) = set (ws_visited t) - S" by (auto simp: S_def)
  moreover have "sorted_wrt (<) (ir_reached ?rep)" using P by (simp add: walk_inv_def sorted_wrt_filter)
  moreover have "set (ir_reached ?rep) = ?E\<^sup>* `` S - S" if "\<not> ir_truncated ?rep"
    using that stop closed reached by auto
  ultimately show ?thesis using vis by (intro exI [of _ ?rep]) simp
qed

end

text \<open>The in-memory store meets the contract, whatever slices it holds.\<close>

lemma mg_references_mem:
  "l \<in> set (mg_references_to s n) \<longleftrightarrow>
     (\<exists>p c r. (p, c) \<in> set s \<and> r \<in> set (cg_references c) \<and> rf_name r = n \<and> l = locate p r)"
  by (auto simp: mg_references_to_def)

lemma mg_references_bex:
  "(\<exists>l \<in> set (mg_references_to s n). P l) \<longleftrightarrow>
     (\<exists>p c r. (p, c) \<in> set s \<and> r \<in> set (cg_references c) \<and> rf_name r = n \<and> P (locate p r))"
  unfolding Bex_def mg_references_mem by blast

lemma mg_callers_mem:
  "f \<in> set (mg_callers_of s n) \<longleftrightarrow>
     (\<exists>p c r. (p, c) \<in> set s \<and> r \<in> set (cg_references c) \<and> rf_name r = n \<and> rf_kind r \<noteq> Value \<and> rf_from r = Some f)"
  by (auto simp: mg_callers_of_def set_map_filter')

lemma locate_sel [simp]: "lo_path (locate p x) = p" "lo_item (locate p x) = x"
  by (simp_all add: locate_def)

interpretation mg: call_graph "mem_view s" for s
proof
  let ?froms = "\<Union>(p, c) \<in> set s. (\<lambda>r. (the (rf_from r), p)) ` set (cg_references c)"
  have "{(f, lo_path l) | f l. \<exists>n. l \<in> set (gv_references_to (mem_view s) n) \<and> rf_from (lo_item l) = Some f} \<subseteq> ?froms"
    by (force simp: mem_view_def mg_references_mem)
  moreover have "finite ?froms" by auto
  ultimately show "finite {(f, lo_path l) | f l. \<exists>n. l \<in> set (gv_references_to (mem_view s) n) \<and>
      rf_from (lo_item l) = Some f}" by (rule finite_subset)
  show "set (gv_callers_of (mem_view s) n) = {f. \<exists>l \<in> set (gv_references_to (mem_view s) n).
      rf_kind (lo_item l) \<noteq> Value \<and> rf_from (lo_item l) = Some f}" for n
    by (rule set_eqI) (simp add: mem_view_def mg_callers_mem mg_references_bex)
qed

subsection \<open>What a resolution may claim\<close>

lemma pick_matched_mem: "pick_matched matched p = Some t \<Longrightarrow> t \<in> set matched"
proof -
  have "nearest_to cs p = Some t \<Longrightarrow> t \<in> set cs" for cs
    by (auto simp: nearest_to_def Let_def split: if_splits list.splits)
      (metis filter_is_subset list.set_intros(1) subsetD)+
  then show "pick_matched matched p = Some t \<Longrightarrow> t \<in> set matched"
    by (auto simp: pick_matched_def split: list.splits) (metis list.set_intros set_ConsD)
qed

lemma imported_target_mem: "imported_target imports n p cs = Some t \<Longrightarrow> t \<in> set cs"
  by (auto simp: imported_target_def included_target_def Let_def Option.bind_eq_Some_conv
      split: option.splits if_splits dest!: pick_matched_mem)

lemma bts_singleton: "length xs = 1 \<Longrightarrow> hd xs \<in> set xs"
  by (cases xs) auto

text \<open>
  A target is always a file that defines the name; a qualified one defines it under the named owner;
  and a method call without a matching qualifier is only ever attributed to its own file.
\<close>

lemma resolve_target:
  assumes "r \<in> set (resolve_references_to g n)" "rr_target r = Some p"
  shows "(\<exists>d \<in> set (gv_definitions g n). lo_path d = p \<and>
      (rr_resolution r = Qualified \<longrightarrow> sy_owner (lo_item d) = rf_qualifier (lo_item (rr_reference r)))) \<and>
    (rf_kind (lo_item (rr_reference r)) = Method \<longrightarrow>
      rr_resolution r = Qualified \<or> rr_resolution r = Local \<and> p = lo_path (rr_reference r))"
proof -
  let ?defs = "gv_definitions g n"
  let ?paths = "bts_of_list (map lo_path ?defs)"
  obtain l where l: "rr_reference r = l" "(Some p, rr_resolution r) = resolve_one g n ?defs ?paths l"
    using assms by (auto simp: resolve_references_to_def Let_def split: prod.splits)
  let ?q = "case rf_qualifier (lo_item l) of
      Some q \<Rightarrow> bts_of_list (map lo_path (filter (\<lambda>d. sy_owner (lo_item d) = Some q) ?defs)) | None \<Rightarrow> []"
  show ?thesis
  proof (cases "length ?q = 1")
    case True
    then have "p = hd ?q" "rr_resolution r = Qualified" using l by (simp_all add: resolve_one_def Let_def)
    moreover have "hd ?q \<in> set ?q" by (rule bts_singleton [OF True])
    ultimately show ?thesis using l(1) by (auto split: option.splits)
  next
    case False
    then have "rr_resolution r \<noteq> Qualified" "p \<in> set ?paths"
      "rf_kind (lo_item l) = Method \<longrightarrow> rr_resolution r = Local \<and> p = lo_path l"
      using l(2) bts_singleton [of ?paths]
      by (auto simp: resolve_one_def Let_def split: if_splits option.splits dest!: imported_target_mem)
    then show ?thesis using l(1) by auto
  qed
qed

subsection \<open>Structural diff\<close>

lemma dedup_by_key_spec:
  "set (dedup_by_key keep key seen xs) \<subseteq> {x \<in> set xs. keep x} \<and>
   key ` set (dedup_by_key keep key seen xs) = key ` {x \<in> set xs. keep x \<and> key x \<notin> set seen} \<and>
   distinct (map key (dedup_by_key keep key seen xs)) \<and>
   key ` set (dedup_by_key keep key seen xs) \<inter> set seen = {}"
proof (induction xs arbitrary: seen)
  case (Cons x xs)
  show ?case
  proof (cases "keep x \<and> key x \<notin> set seen")
    case True
    then show ?thesis using Cons [of "key x # seen"] by auto
  next
    case False
    then show ?thesis using Cons [of seen] by auto
  qed
qed simp

lemma dedup_by_key_sub:
  "set (dedup_by_key keep key [] xs) \<subseteq> set xs" "distinct (map key (dedup_by_key keep key [] xs))"
  using dedup_by_key_spec [of keep key "[]" xs] by auto

lemma dedup_by_key_keys:
  "key ` set (dedup_by_key (\<lambda>l. key l \<notin> K) key [] xs) = key ` set xs - K"
  using dedup_by_key_spec [of "\<lambda>l. key l \<notin> K" key "[]" xs] by auto

lemma dedup_by_key_Nil: "dedup_by_key (\<lambda>l. key l \<notin> K) key [] xs = [] \<longleftrightarrow> key ` set xs \<subseteq> K"
  using dedup_by_key_keys [of key K xs] by (metis Diff_eq_empty_iff image_is_empty set_empty)

end
