(* ===== verification/Gz_DomainProps.thy ===== *)
theory Gz_DomainProps
  imports Gz_FleetProofs Gz_Ticket Gz_GraphProofs Gz_Demo
begin

text \<open>
  The properties of what is stored rather than of how: record ids and paths, fleet records and link
  tokens, ticket ingest, and the code-graph queries.
\<close>

section \<open>Keys and paths\<close>

text \<open>
  C28. Distinct records have distinct places. The object key of a record determines it, and a path
  segment decodes to the text it came from; on the filesystem this holds as long as neither the
  namespace nor the collection is empty. An empty one drops out of the path, so two different keys
  then share one file.
\<close>

theorem key_paths_injective:
  assumes "utf8_valid txt" "fs_valid a" "fs_valid b"
  shows "(object_key k = object_key k' \<longleftrightarrow> k = k') \<and> decode_segment (segment txt) = txt \<and>
    (record_path rt a = record_path rt b \<longleftrightarrow> a = b) \<and>
    record_path rt (RecordKey [] ns i) = record_path rt (RecordKey ns [] i)"
proof -
  have "path_join (path_join rt []) (segment ns) = path_join (path_join rt (segment ns)) []"
    using segment_no_sep(1) [of ns] by (cases "segment ns") (auto simp: path_join_def components_def)
  moreover have "segment [] = []" by (simp add: segment_def)
  ultimately have "record_path rt (RecordKey [] ns i) = record_path rt (RecordKey ns [] i)"
    by (simp add: record_path_def record_components_def)
  then show ?thesis using object_key_inj record_path_inj [OF assms(2,3)] decode_segment_valid [OF assms(1)] by simp
qed

theorem key_paths_injective_witness:
  "decode_segment (segment ''a/b'') = ''a/b'' \<and>
   (record_path [''srv''] demo_key = record_path [''srv''] demo_key \<longleftrightarrow> demo_key = demo_key) \<and>
   record_path [''srv''] (RecordKey [] ''team'' ''a'') = record_path [''srv''] (RecordKey ''team'' [] ''a'') \<and>
   RecordKey [] ''team'' ''a'' \<noteq> RecordKey ''team'' [] ''a''"
proof -
  have "utf8_valid ''a/b''" by code_simp
  from key_paths_injective [OF this demo_key_valid demo_key_valid, of demo_key demo_key "[''srv'']" "''team''" "''a''"]
  show ?thesis by simp
qed

section \<open>Merging typed records\<close>

text \<open>
  An append-only merge of two one-line bodies glues them: two different bodies without a line
  break become the one body, a line break, and the other. Topics, sessions and ticket events are
  stored as one line of JSON each and merge in this class, so the merge of two diverged ones is two
  JSON documents, which their codec does not read back.
\<close>

lemma append_only_glues_documents:
  assumes "nl \<notin> set ours" "nl \<notin> set theirs" "ours \<noteq> []" "theirs \<noteq> []" "ours \<noteq> theirs"
    "merge_class kind = AppendOnly"
  shows "merge from_slice to_vec (merge_class kind) base (Inline ours) (Inline theirs) =
      Some (Inline (ours @ nl # theirs)) \<and>
    (kind = Topic \<or> kind = Session \<or> kind = TicketEvent)"
proof -
  have one: "split_lines s = [s]" if "nl \<notin> set s" "s \<noteq> []" for s :: bytes
  proof -
    have "split_loop cur s = [cur @ s]" if "nl \<notin> set s" "cur @ s \<noteq> []" for cur
      using that by (induction cur s rule: split_loop.induct) auto
    from this [of "[]"] that show ?thesis by (simp add: split_lines_def)
  qed
  have strip: "strip_nl s = s" if "nl \<notin> set s" for s :: bytes
    using that by (cases s rule: rev_cases) (auto simp: strip_nl_def)
  have "last ours \<noteq> nl" using assms(1,3) by (metis last_in_set)
  then have "append_only_bytes ours theirs = ours @ nl # theirs"
    using assms(3,5) by (simp add: append_only_bytes_def one [OF assms(1,3)] one [OF assms(2,4)] shared_lines_def
        strip [OF assms(1)] strip [OF assms(2)])
  moreover have "kind = Topic \<or> kind = Session \<or> kind = TicketEvent" using assms(6) by (cases kind) auto
  ultimately show ?thesis using assms(6) by (auto simp: append_only_merge_def)
qed

text \<open>
  A field stored as a one-element array merges as a whole: when two sides wrote the field, the
  merge is one of the two written values, never a mixture, so it decodes to what one side wrote; and
  it is a conflict exactly when both sides changed it, to different values.
\<close>

lemma atomic_field_merges_whole:
  "case merge_field base (Some (atomic_serialize x)) (Some (atomic_serialize y)) of
     None \<Rightarrow> x \<noteq> y \<and> base \<noteq> Some (atomic_serialize x) \<and> base \<noteq> Some (atomic_serialize y)
   | Some m \<Rightarrow> \<exists>v \<in> {x, y}. m = Some (atomic_serialize v) \<and> (\<forall>de. atomic_deserialize de (atomic_serialize v) = de v)"
proof -
  have rt: "\<forall>de. atomic_deserialize de (atomic_serialize v) = de v" for v by (simp add: atomic_round_trip)
  consider "x = y" | "x \<noteq> y" "base = Some (atomic_serialize x)" | "x \<noteq> y" "base = Some (atomic_serialize y)"
    | "x \<noteq> y" "base \<noteq> Some (atomic_serialize x)" "base \<noteq> Some (atomic_serialize y)" by blast
  then show ?thesis
    by cases (use rt in \<open>simp_all add: merge_field_atomic\<close>)
qed

section \<open>Fleet records\<close>

text \<open>
  Fleet ids are unambiguous. Two account bindings with the same id are the same account at the
  same authenticator, two grants with the same id are the same person and scope, two channels with
  the same id are the same provider, tenant and channel, whatever separators the components contain.
\<close>

lemma fleet_ids_injective:
  "(\<forall>a s a' s' i. binding_id a s = Inr i \<and> binding_id a' s' = Inr i \<longrightarrow> a = a' \<and> s = s') \<and>
   (\<forall>p c p' c' i. grant_id p c = Inr i \<and> grant_id p' c' = Inr i \<longrightarrow> p = p' \<and> c = c') \<and>
   (\<forall>p t c p' t' c' i. channel_id p t c = Inr i \<and> channel_id p' t' c' = Inr i \<longrightarrow> p = p' \<and> t = t' \<and> c = c')"
  using binding_id_inj grant_id_inj channel_id_inj by blast

text \<open>
  C40. Audit ids sort by time. For timestamps below ten to the thirteenth milliseconds, where the
  zero padding is wide enough, the id of an earlier entry comes before the id of a later one,
  whatever the nonces, in the order the stores list keys in.
\<close>

theorem audit_ids_chronological:
  assumes "audit_id a n = Inr i" "audit_id b m = Inr j" "a < b" "b < 10 ^ 13"
  shows "i < j \<and> RecordKey FLEET_AUDIT_NAMESPACE AUDIT_ENTRIES_COLLECTION i
    < RecordKey FLEET_AUDIT_NAMESPACE AUDIT_ENTRIES_COLLECTION j"
  using audit_id_ordered [OF assms] by (simp add: less_record_key_def key_tuple_def less_prod_def less_eq_prod_def)

theorem audit_ids_chronological_witness:
  "audit_id 5 ''x'' = Inr ''0000000000005-x'' \<and> audit_id 41 ''a'' = Inr ''0000000000041-a'' \<and>
   ''0000000000005-x'' < ''0000000000041-a''"
proof -
  have ids: "audit_id 5 ''x'' = Inr ''0000000000005-x''" "audit_id 41 ''a'' = Inr ''0000000000041-a''" by code_simp+
  from audit_ids_chronological [OF ids] ids show ?thesis by simp
qed

text \<open>
  The hex form of a link secret round-trips: a 32-byte secret is read back from its hex form,
  and every text that is accepted is the hex form of the secret it is read as, so no secret has two
  spellings.
\<close>

lemma link_secret_round_trip:
  "(length bs = 32 \<longrightarrow> secret_parse (secret_to_hex (LinkSecret bs)) = Inr (LinkSecret bs)) \<and>
   (secret_parse h = Inr s \<longrightarrow> secret_to_hex s = h \<and> (\<exists>bs'. s = LinkSecret bs' \<and> length bs' = 32))"
proof -
  have "secret_parse (secret_to_hex (LinkSecret bs)) = Inr (LinkSecret bs)" if "length bs = 32"
    using secret_to_hex_length [of bs] secret_to_hex_lower [of bs] hex_bytes_hex [of bs] that
    by (simp add: secret_parse_def del: secret_to_hex.simps)
  moreover have "secret_to_hex s = h \<and> (\<exists>bs'. s = LinkSecret bs' \<and> length bs' = 32)" if "secret_parse h = Inr s"
    using that hex_of_hex_bytes [of h] by (auto simp: secret_parse_def split: if_splits)
  ultimately show ?thesis by blast
qed

text \<open>
  C21. A link token is redeemed at most once, in time, with its secret, by the person it was minted
  for. A redemption that succeeds had the right secret, an unexpired and unconsumed token and the
  intended person, changes nothing of the token but the consumption, and every later attempt on the
  result fails.
\<close>

theorem link_token_once:
  assumes "redeem H t secret who bnd ts = Inr t'"
  shows "secret_hash H secret = lt_token_hash t \<and> ts < lt_expires_at t \<and> lt_consumed t = None \<and>
    (lt_person t = None \<or> lt_person t = Some who) \<and>
    t' = t\<lparr>lt_consumed := Some \<lparr>cs_person = who, cs_binding = bnd, cs_at = ts\<rparr>\<rparr> \<and> token_key t' = token_key t \<and>
    (\<forall>secret2 who2 bnd2 ts2. \<exists>e. redeem H t' secret2 who2 bnd2 ts2 = Inl e)"
proof -
  have r: "redeem H t' secret2 who2 bnd2 ts2 \<noteq> Inr t2" for secret2 who2 bnd2 ts2 t2
    using assms by (auto simp: redeem_Inr)
  have "\<exists>e. redeem H t' secret2 who2 bnd2 ts2 = Inl e" for secret2 who2 bnd2 ts2
    using r by (cases "redeem H t' secret2 who2 bnd2 ts2") auto
  then show ?thesis using assms by (auto simp: redeem_Inr token_key_def)
qed

theorem link_token_once_witness:
  "\<exists>t'. redeem demo_digest (token_new demo_digest (LinkSecret []) Operator FleetScope None (ServiceActor ''cli'') 0 10)
      (LinkSecret []) ''p1'' demo_key 5 = Inr t' \<and>
    (\<exists>e. redeem demo_digest t' (LinkSecret []) ''p2'' demo_key 6 = Inl e)"
proof -
  let ?t = "token_new demo_digest (LinkSecret []) Operator FleetScope None (ServiceActor ''cli'') 0 10"
  have run: "redeem demo_digest ?t (LinkSecret []) ''p1'' demo_key 5 =
      Inr (?t\<lparr>lt_consumed := Some \<lparr>cs_person = ''p1'', cs_binding = demo_key, cs_at = 5\<rparr>\<rparr>)"
    by (simp add: redeem_def token_new_def)
  from link_token_once [OF run] run show ?thesis by blast
qed

section \<open>Tickets\<close>





text \<open>
  Within one scope, and between scopes whose names contain no slash, a ticket id determines the
  scope and the uid. A slash in the scope breaks this: scope and uid are joined by a plain slash, so
  distinct pairs, and a scoped and an unscoped ticket, then share one record key.
\<close>

lemma scoped_uid_ambiguity:
  "(CHR ''/'' \<notin> set b \<and> CHR ''/'' \<notin> set b' \<and> scoped_uid u (Some b) = scoped_uid u' (Some b') \<longrightarrow> b = b' \<and> u = u') \<and>
   (scoped_uid u sc = scoped_uid u' sc \<longrightarrow> u = u') \<and>
   scoped_uid (v @ ''/'' @ w) (Some x) = scoped_uid w (Some (x @ ''/'' @ v)) \<and>
   scoped_uid (x @ ''/'' @ w) None = scoped_uid w (Some x)"
proof -
  have "b = b' \<and> u = u'" if "CHR ''/'' \<notin> set b" "CHR ''/'' \<notin> set b'" "b @ CHR ''/'' # u = b' @ CHR ''/'' # u'"
    using that
  proof (induction b arbitrary: b')
    case Nil
    then show ?case by (cases b') auto
  next
    case (Cons c b)
    then show ?case by (cases b') auto
  qed
  then show ?thesis by (auto simp: scoped_uid_def split: option.splits)
qed

section \<open>The code graph\<close>

text \<open>
  C19. The resolution-gated impact walk returns on every graph, recursive and mutually recursive code
  included. Without a depth bound it reports exactly the definitions that reach one of the seeds along
  resolved calls, with a bound those within that many calls; the seeds are left out, nothing is
  reported twice, and a report that is not marked truncated is the whole closure.
\<close>

theorem resolved_impact_exact:
  "\<exists>rep. resolved_impact (mem_view s) name md = Some rep \<and> sorted_wrt (<) (ir_reached rep) \<and>
     set (ir_reached rep) =
       (case md of
          None \<Rightarrow> (caller_edges (mem_view s))\<^sup>* `` set (impact_seeds (mem_view s) name)
        | Some m \<Rightarrow> within_steps (caller_edges (mem_view s)) (set (impact_seeds (mem_view s) name)) m) -
       set (impact_seeds (mem_view s) name) \<and>
     (ir_truncated rep \<or> set (ir_reached rep) =
       (caller_edges (mem_view s))\<^sup>* `` set (impact_seeds (mem_view s) name) - set (impact_seeds (mem_view s) name))"
  using mg.resolved_impact_spec [of s name md] by blast

text \<open>
  A resolution never invents a target: a target is a file that defines the name, a qualified one
  defines it under the owner the reference names, and a method call on a receiver of unknown type is
  attributed to no file but its own.
\<close>

lemma resolve_target_defined:
  assumes "r \<in> set (resolve_references_to g n)" "rr_target r = Some p"
  shows "(\<exists>d \<in> set (gv_definitions g n). lo_path d = p \<and>
      (rr_resolution r = Qualified \<longrightarrow> sy_owner (lo_item d) = rf_qualifier (lo_item (rr_reference r)))) \<and>
    (rf_kind (lo_item (rr_reference r)) = Method \<longrightarrow>
      rr_resolution r = Qualified \<or> rr_resolution r = Local \<and> p = lo_path (rr_reference r))"
  by (rule resolve_target [OF assms])

definition demo_symbol :: "string \<Rightarrow> symbol" where
  "demo_symbol n = \<lparr>sy_name = n, sy_kind = Function, sy_start_line = 1, sy_end_line = 3, sy_owner = None\<rparr>"

definition demo_call :: "string \<Rightarrow> string \<Rightarrow> reference" where
  "demo_call f n = \<lparr>rf_name = n, rf_from = Some f, rf_line = 2, rf_kind = Free, rf_qualifier = None,
     rf_from_scope = FunctionScope\<rparr>"

definition demo_graph :: mem_graph where
  "demo_graph = [(''a.rs'', \<lparr>cg_symbols = [demo_symbol ''f''], cg_references = [], cg_imports = []\<rparr>),
     (''b.rs'', \<lparr>cg_symbols = [demo_symbol ''g''], cg_references = [demo_call ''g'' ''f''], cg_imports = []\<rparr>)]"

text \<open>
  The structural diff of two views is the pair of set differences of their keys: what it lists
  as added (removed) are items of the second (first) view, one per key, whose key the other lacks, and
  every such key is listed. It is empty exactly when both views have the same keys, and swapping the
  views swaps added and removed.
\<close>

lemma graph_diff_exact:
  "symbol_key ` set (gd_added_symbols (graph_diff_of a b)) =
     symbol_key ` set (gv_all_symbols b) - symbol_key ` set (gv_all_symbols a) \<and>
   set (gd_added_symbols (graph_diff_of a b)) \<subseteq> set (gv_all_symbols b) \<and>
   distinct (map symbol_key (gd_added_symbols (graph_diff_of a b))) \<and>
   reference_key ` set (gd_added_references (graph_diff_of a b)) =
     reference_key ` set (gv_all_references b) - reference_key ` set (gv_all_references a) \<and>
   set (gd_added_references (graph_diff_of a b)) \<subseteq> set (gv_all_references b) \<and>
   distinct (map reference_key (gd_added_references (graph_diff_of a b))) \<and>
   gd_removed_symbols (graph_diff_of a b) = gd_added_symbols (graph_diff_of b a) \<and>
   gd_removed_references (graph_diff_of a b) = gd_added_references (graph_diff_of b a) \<and>
   (diff_is_empty (graph_diff_of a b) \<longleftrightarrow>
      symbol_key ` set (gv_all_symbols a) = symbol_key ` set (gv_all_symbols b) \<and>
      reference_key ` set (gv_all_references a) = reference_key ` set (gv_all_references b))"
proof -
  note parts = graph_diff_of_def Let_def graph_diff.simps set_map
  have "diff_is_empty (graph_diff_of a b) \<longleftrightarrow>
      symbol_key ` set (gv_all_symbols a) = symbol_key ` set (gv_all_symbols b) \<and>
      reference_key ` set (gv_all_references a) = reference_key ` set (gv_all_references b)"
    unfolding diff_is_empty_def parts dedup_by_key_Nil set_eq_subset by argo
  moreover have "gd_removed_symbols (graph_diff_of a b) = gd_added_symbols (graph_diff_of b a)"
    "gd_removed_references (graph_diff_of a b) = gd_added_references (graph_diff_of b a)"
    unfolding parts by (rule refl)+
  ultimately show ?thesis unfolding parts by (simp add: dedup_by_key_sub dedup_by_key_keys)
qed

end
