(* ===== verification/Gz_Client.thy ===== *)
theory Gz_Client
  imports Gz_Http
begin

text \<open>
  The remote store (\<open>gonzalo-store-server/src/lib.rs\<close>): a \<open>Store\<close> and a \<open>BlobStore\<close> that speak HTTP to a
  daemon. The client is \<open>reqwest\<close>, a third-party crate: sending a request is the parameter \<open>send\<close> of
  every operation, a step on the state of the other end that may fail with a transport error. What
  \<open>serde\<close> makes of a response body, and the way a status or a body prints, is the parameter \<open>w\<close> of
  type \<open>wire\<close>; its laws are the locale \<open>daemon_wire\<close>. URLs are lists of path segments, before
  percent-encoding; as the \<open>url\<close> crate documents, extending a path skips the segments \<open>.\<close> and
  \<open>..\<close>. The gRPC transport is in \<open>Gz_GrpcClient\<close>.

  \<open>daemon_link\<close> is the other end of the wire: the routes of \<open>router\<close> (\<open>gonzalo-server/src/http.rs\<close>),
  which match no empty segment, the 2 MiB limit axum puts on a body by default, and the handlers of
  \<^verbatim>\<open>Gz_Http\<close>.
\<close>

subsection \<open>Requests\<close>

datatype http_method = GET | HEAD | PUT | POST | DELETE

datatype payload = NoPayload | PutJson put_body | DeleteJson delete_body | PurgeJson purge_body | RawBytes bytes

record client_request =
  cr_method :: http_method
  cr_segments :: "string list"
  cr_query :: key_prefix
  cr_bearer :: "string option"
  cr_payload :: payload

record server_store =
  ss_base :: "string list option"
  ss_token :: "string option"

type_synonym 'x sender = "client_request \<Rightarrow> ('x, string, http_response) io"

definition DAEMON_PREDATES_REPLICATION :: string where
  "DAEMON_PREDATES_REPLICATION = ''daemon predates replication reads (gonzalo#203); upgrade gonzalod''"

definition url_extend :: "string list \<Rightarrow> string list \<Rightarrow> string list" where
  "url_extend base segs = base @ filter (\<lambda>s. s \<noteq> ''.'' \<and> s \<noteq> ''..'') segs"

definition path_segments :: "server_store \<Rightarrow> string list result" where
  "path_segments ss =
     (case ss_base ss of Some b \<Rightarrow> Inr b | None \<Rightarrow> Inl (Backend ''base URL cannot be a base''))"

definition key_url :: "server_store \<Rightarrow> string list \<Rightarrow> record_key \<Rightarrow> string list result" where
  "key_url ss segs k =
     bindR (path_segments ss) (\<lambda>b. Inr (url_extend (url_extend b segs) [namespace k, collection k, key_id k]))"

definition records_url :: "server_store \<Rightarrow> record_key \<Rightarrow> string list result" where
  "records_url ss k = key_url ss [''v1'', ''records''] k"

definition raw_records_url :: "server_store \<Rightarrow> record_key \<Rightarrow> string list result" where
  "raw_records_url ss k = key_url ss [''v1'', ''raw'', ''records''] k"

definition purge_url :: "server_store \<Rightarrow> record_key \<Rightarrow> string list result" where
  "purge_url ss k = key_url ss [''v1'', ''purge''] k"

definition keys_url :: "server_store \<Rightarrow> string list \<Rightarrow> string list result" where
  "keys_url ss segs = bindR (path_segments ss) (\<lambda>b. Inr (url_extend b segs))"

definition blobs_url :: "server_store \<Rightarrow> string option \<Rightarrow> string list result" where
  "blobs_url ss h =
     bindR (path_segments ss) (\<lambda>b.
       Inr (url_extend (url_extend b [''v1'', ''blobs'']) (case h of Some x \<Rightarrow> [x] | None \<Rightarrow> [])))"

text \<open>Build the request, attach the token and send it; a transport error is a \<open>Backend\<close> error.\<close>

definition fetch ::
  "'x sender \<Rightarrow> server_store \<Rightarrow> http_method \<Rightarrow> string list result \<Rightarrow> key_prefix \<Rightarrow> payload \<Rightarrow>
   ('x, core_error, http_response) io" where
  "fetch send ss meth url q pl =
     bindE (liftE url) (\<lambda>segs x.
       (case send \<lparr>cr_method = meth, cr_segments = segs, cr_query = q, cr_bearer = ss_token ss, cr_payload = pl\<rparr> x of
          (Inl e, x') \<Rightarrow> (Inl (Backend e), x')
        | (Inr r, x') \<Rightarrow> (Inr r, x')))"

subsection \<open>Responses\<close>

record wire =
  wr_status :: "nat \<Rightarrow> string"
  wr_text :: "http_body \<Rightarrow> string"
  wr_record :: "http_body \<Rightarrow> string + rec"
  wr_raw_record :: "http_body \<Rightarrow> string + raw_record_body"
  wr_keys :: "http_body \<Rightarrow> string + record_key list"
  wr_put_outcome :: "http_body \<Rightarrow> string + put_outcome_dto"
  wr_delete_outcome :: "http_body \<Rightarrow> string + delete_outcome_dto"
  wr_entries :: "http_body \<Rightarrow> string + blob_entry list"
  wr_bytes :: "http_body \<Rightarrow> string + bytes"
  wr_purge :: "purge_body \<Rightarrow> bytes"
  wr_size :: "payload \<Rightarrow> nat"

text \<open>\<open>map_err(be)\<close> and \<open>map_err(se)\<close>.\<close>

definition be :: "string + 'a \<Rightarrow> 'a result" where
  "be r = (case r of Inl e \<Rightarrow> Inl (Backend e) | Inr x \<Rightarrow> Inr x)"

definition se :: "string + 'a \<Rightarrow> 'a result" where
  "se r = (case r of Inl e \<Rightarrow> Inl (Serde e) | Inr x \<Rightarrow> Inr x)"

definition daemon_returned :: "wire \<Rightarrow> http_response \<Rightarrow> string" where
  "daemon_returned w r = ''daemon returned '' @ wr_status w (rs_status r) @ '': '' @ wr_text w (rs_body r)"

definition upgrade_required :: core_error where
  "upgrade_required = Backend DAEMON_PREDATES_REPLICATION"

definition read_response_error :: "wire \<Rightarrow> http_response \<Rightarrow> core_error" where
  "read_response_error w r = Backend (daemon_returned w r)"

definition ensure_read_ok :: "wire \<Rightarrow> http_response \<Rightarrow> http_response result" where
  "ensure_read_ok w r =
     (if 200 \<le> rs_status r \<and> rs_status r < 300 then Inr r else Inl (read_response_error w r))"

fun delete_outcome_to_result :: "delete_outcome_dto \<Rightarrow> delete_result" where
  "delete_outcome_to_result ODeleted = Deleted"
| "delete_outcome_to_result (ODeleteConflict c) = DeleteConflict c"

definition classify_delete_response :: "wire \<Rightarrow> http_response \<Rightarrow> delete_result result" where
  "classify_delete_response w r =
     (if rs_status r = 200 \<or> rs_status r = 409 then
        bindR (se (wr_delete_outcome w (rs_body r))) (\<lambda>o'. Inr (delete_outcome_to_result o'))
      else Inl (Backend (daemon_returned w r)))"

fun outcome_to_result :: "put_outcome_dto \<Rightarrow> put_result" where
  "outcome_to_result (OCommitted rv) = Committed rv"
| "outcome_to_result (OConflict c) = PutConflict c"

definition classify_put_response :: "wire \<Rightarrow> http_response \<Rightarrow> put_result result" where
  "classify_put_response w r =
     (if rs_status r = 200 \<or> rs_status r = 409 then
        bindR (se (wr_put_outcome w (rs_body r))) (\<lambda>o'. Inr (outcome_to_result o'))
      else if rs_status r = 400 then Inl (Invalid (daemon_returned w r))
      else Inl (Backend (daemon_returned w r)))"

definition classify_put_response_for :: "wire \<Rightarrow> record_key \<Rightarrow> http_response \<Rightarrow> put_result result" where
  "classify_put_response_for w k r =
     (if rs_status r = 412 then Inl (NotFound k) else classify_put_response w r)"

definition classify_raw_put_response :: "wire \<Rightarrow> record_key \<Rightarrow> http_response \<Rightarrow> put_result result" where
  "classify_raw_put_response w k r =
     (if rs_status r = 404 then Inl upgrade_required else classify_put_response_for w k r)"

definition classify_raw_get_response :: "wire \<Rightarrow> http_response \<Rightarrow> rec option result" where
  "classify_raw_get_response w r =
     (if rs_status r = 200 then bindR (se (wr_raw_record w (rs_body r))) (\<lambda>b. Inr (rb_record b))
      else if rs_status r = 404 then Inl upgrade_required
      else Inl (read_response_error w r))"

definition classify_raw_list_response :: "wire \<Rightarrow> http_response \<Rightarrow> record_key list result" where
  "classify_raw_list_response w r =
     (if rs_status r = 200 then se (wr_keys w (rs_body r))
      else if rs_status r = 404 then Inl upgrade_required
      else Inl (read_response_error w r))"

definition classify_purge_response :: "wire \<Rightarrow> http_response \<Rightarrow> delete_result result" where
  "classify_purge_response w r =
     (if rs_status r = 404 then Inl upgrade_required else classify_delete_response w r)"

definition classify_blob_put_response :: "wire \<Rightarrow> http_response \<Rightarrow> content_hash \<Rightarrow> content_hash result" where
  "classify_blob_put_response w r h =
     (if rs_status r = 200 then Inr h else Inl (Backend (daemon_returned w r)))"

subsection \<open>The store operations\<close>

definition rs_get :: "'x sender \<Rightarrow> wire \<Rightarrow> server_store \<Rightarrow> record_key \<Rightarrow> ('x, core_error, rec option) io" where
  "rs_get send w ss k =
     bindE (fetch send ss GET (records_url ss k) kp_default NoPayload) (\<lambda>r.
       liftE (if rs_status r = 404 then Inr None
              else bindR (ensure_read_ok w r) (\<lambda>r. bindR (be (wr_record w (rs_body r))) (\<lambda>x. Inr (Some x)))))"

definition rs_put ::
  "'x sender \<Rightarrow> wire \<Rightarrow> server_store \<Rightarrow> rec \<Rightarrow> revision option \<Rightarrow> ('x, core_error, put_result) io" where
  "rs_put send w ss record expected =
     (let k = rec_key record in
      bindE (fetch send ss PUT (records_url ss k) kp_default (PutJson \<lparr>pb_record = record, pb_expected = expected\<rparr>))
        (\<lambda>r. liftE (classify_put_response_for w k r)))"

definition rs_list ::
  "'x sender \<Rightarrow> wire \<Rightarrow> server_store \<Rightarrow> key_prefix \<Rightarrow> ('x, core_error, record_key list) io" where
  "rs_list send w ss p =
     bindE (fetch send ss GET (keys_url ss [''v1'', ''keys'']) p NoPayload) (\<lambda>r.
       liftE (bindR (ensure_read_ok w r) (\<lambda>r. be (wr_keys w (rs_body r)))))"

definition rs_delete_as ::
  "'x sender \<Rightarrow> wire \<Rightarrow> server_store \<Rightarrow> record_key \<Rightarrow> revision option \<Rightarrow> identity option \<Rightarrow>
   ('x, core_error, delete_result) io" where
  "rs_delete_as send w ss k expected au =
     bindE (fetch send ss DELETE (records_url ss k) kp_default (DeleteJson \<lparr>db_expected = expected, db_author = au\<rparr>))
       (\<lambda>r. liftE (classify_delete_response w r))"

definition rs_get_raw ::
  "'x sender \<Rightarrow> wire \<Rightarrow> server_store \<Rightarrow> record_key \<Rightarrow> ('x, core_error, rec option) io" where
  "rs_get_raw send w ss k =
     bindE (fetch send ss GET (raw_records_url ss k) kp_default NoPayload)
       (\<lambda>r. liftE (classify_raw_get_response w r))"

definition rs_list_raw ::
  "'x sender \<Rightarrow> wire \<Rightarrow> server_store \<Rightarrow> key_prefix \<Rightarrow> ('x, core_error, record_key list) io" where
  "rs_list_raw send w ss p =
     bindE (fetch send ss GET (keys_url ss [''v1'', ''raw'', ''keys'']) p NoPayload)
       (\<lambda>r. liftE (classify_raw_list_response w r))"

definition rs_put_raw ::
  "'x sender \<Rightarrow> wire \<Rightarrow> server_store \<Rightarrow> rec \<Rightarrow> revision option \<Rightarrow> ('x, core_error, put_result) io" where
  "rs_put_raw send w ss record expected =
     (let k = rec_key record in
      bindE (fetch send ss PUT (raw_records_url ss k) kp_default (PutJson \<lparr>pb_record = record, pb_expected = expected\<rparr>))
        (\<lambda>r. liftE (classify_raw_put_response w k r)))"

definition rs_purge ::
  "'x sender \<Rightarrow> wire \<Rightarrow> server_store \<Rightarrow> record_key \<Rightarrow> revision \<Rightarrow> ('x, core_error, delete_result) io" where
  "rs_purge send w ss k expected =
     bindE (fetch send ss POST (purge_url ss k) kp_default (PurgeJson \<lparr>ub_expected = expected\<rparr>))
       (\<lambda>r. liftE (classify_purge_response w r))"

definition rs_put_blob ::
  "blake3 \<Rightarrow> 'x sender \<Rightarrow> wire \<Rightarrow> server_store \<Rightarrow> bytes \<Rightarrow> ('x, core_error, content_hash) io" where
  "rs_put_blob H send w ss content =
     (let h = content_hash_of H content in
      bindE (fetch send ss PUT (blobs_url ss (Some (hash_str h))) kp_default (RawBytes content))
        (\<lambda>r. liftE (classify_blob_put_response w r h)))"

definition rs_get_blob ::
  "'x sender \<Rightarrow> wire \<Rightarrow> server_store \<Rightarrow> content_hash \<Rightarrow> ('x, core_error, bytes option) io" where
  "rs_get_blob send w ss h =
     bindE (fetch send ss GET (blobs_url ss (Some (hash_str h))) kp_default NoPayload) (\<lambda>r.
       liftE (if rs_status r = 404 then Inr None
              else bindR (ensure_read_ok w r) (\<lambda>r. bindR (be (wr_bytes w (rs_body r))) (\<lambda>b. Inr (Some b)))))"

definition rs_has_blob ::
  "'x sender \<Rightarrow> wire \<Rightarrow> server_store \<Rightarrow> content_hash \<Rightarrow> ('x, core_error, bool) io" where
  "rs_has_blob send w ss h =
     bindE (fetch send ss HEAD (blobs_url ss (Some (hash_str h))) kp_default NoPayload) (\<lambda>r.
       liftE (if rs_status r = 404 then Inr False else bindR (ensure_read_ok w r) (\<lambda>_. Inr True)))"

definition rs_list_blobs :: "'x sender \<Rightarrow> wire \<Rightarrow> server_store \<Rightarrow> ('x, core_error, blob_entry list) io" where
  "rs_list_blobs send w ss =
     bindE (fetch send ss GET (blobs_url ss None) kp_default NoPayload) (\<lambda>r.
       liftE (bindR (ensure_read_ok w r) (\<lambda>r. be (wr_entries w (rs_body r)))))"

definition rs_delete_blob ::
  "'x sender \<Rightarrow> wire \<Rightarrow> server_store \<Rightarrow> content_hash \<Rightarrow> ('x, core_error, unit) io" where
  "rs_delete_blob send w ss h =
     bindE (fetch send ss DELETE (blobs_url ss (Some (hash_str h))) kp_default NoPayload) (\<lambda>r.
       liftE (if rs_status r = 200 then Inr () else Inl (Backend (daemon_returned w r))))"

definition rs_vt :: "'x sender \<Rightarrow> wire \<Rightarrow> server_store \<Rightarrow> 'x store_vt" where
  "rs_vt send w ss =
     \<lparr>vt_get = rs_get send w ss, vt_put = rs_put send w ss, vt_list = rs_list send w ss,
      vt_delete_as = rs_delete_as send w ss, vt_get_raw = rs_get_raw send w ss,
      vt_list_raw = rs_list_raw send w ss, vt_put_raw = rs_put_raw send w ss, vt_purge = rs_purge send w ss\<rparr>"

definition rs_bv :: "blake3 \<Rightarrow> 'x sender \<Rightarrow> wire \<Rightarrow> server_store \<Rightarrow> 'x blob_vt" where
  "rs_bv H send w ss =
     \<lparr>bv_put_blob = rs_put_blob H send w ss, bv_get_blob = rs_get_blob send w ss,
      bv_list_blobs = rs_list_blobs send w ss, bv_has_blob = rs_has_blob send w ss,
      bv_delete_blob = rs_delete_blob send w ss\<rparr>"

subsection \<open>The other end of the wire\<close>

definition DEFAULT_BODY_LIMIT :: nat where
  "DEFAULT_BODY_LIMIT = 2097152"

definition key_route :: "(string \<Rightarrow> string \<Rightarrow> string \<Rightarrow> http_call) \<Rightarrow> string list \<Rightarrow> http_call option" where
  "key_route f segs = (case segs of [ns, col, i] \<Rightarrow> if [] \<in> set segs then None else Some (f ns col i) | _ \<Rightarrow> None)"

text \<open>The routes of \<open>router\<close> the client uses, with the body its extractors make of the payload.\<close>

definition route :: "wire \<Rightarrow> client_request \<Rightarrow> http_call option" where
  "route w rq =
     (let q = \<lparr>lq_namespace = kp_namespace (cr_query rq), lq_collection = kp_collection (cr_query rq)\<rparr> in
      case cr_segments rq of
        ver # rest \<Rightarrow>
          if ver \<noteq> ''v1'' then None
          else (case rest of
              [] \<Rightarrow> None
            | h # segs \<Rightarrow>
                if h = ''records'' then
                  (case (cr_method rq, cr_payload rq) of
                     (GET, _) \<Rightarrow> key_route GetRecord segs
                   | (PUT, PutJson b) \<Rightarrow> key_route (\<lambda>ns col i. PutRecord (ns, col, i) b) segs
                   | (DELETE, DeleteJson b) \<Rightarrow> key_route (\<lambda>ns col i. DeleteRecord ns col i (Some b)) segs
                   | _ \<Rightarrow> None)
                else if h = ''keys'' \<and> segs = [] \<and> cr_method rq = GET then Some (ListKeys q)
                else if h = ''raw'' \<and> segs \<noteq> [] \<and> hd segs = ''records'' then
                  (case (cr_method rq, cr_payload rq) of
                     (GET, _) \<Rightarrow> key_route GetRawRecord (tl segs)
                   | (PUT, PutJson b) \<Rightarrow> key_route (\<lambda>ns col i. PutRawRecord (ns, col, i) b) (tl segs)
                   | _ \<Rightarrow> None)
                else if h = ''raw'' \<and> segs = [''keys''] \<and> cr_method rq = GET then Some (ListRawKeys q)
                else if h = ''purge'' then
                  (case (cr_method rq, cr_payload rq) of
                     (POST, PurgeJson b) \<Rightarrow> key_route (\<lambda>ns col i. PurgeRecord ns col i (wr_purge w b)) segs
                   | _ \<Rightarrow> None)
                else if h = ''blobs'' then
                  (case segs of
                     [] \<Rightarrow> if cr_method rq = GET then Some ListBlobs else None
                   | [x] \<Rightarrow>
                       if x = [] then None
                       else (case (cr_method rq, cr_payload rq) of
                           (GET, _) \<Rightarrow> Some (GetBlob x)
                         | (HEAD, _) \<Rightarrow> Some (HeadBlob x)
                         | (PUT, RawBytes b) \<Rightarrow> Some (PutBlob x b)
                         | (DELETE, _) \<Rightarrow> Some (DeleteBlob x)
                         | _ \<Rightarrow> None)
                   | _ \<Rightarrow> None)
                else None)
      | [] \<Rightarrow> None)"

definition url_path :: "string list \<Rightarrow> string" where
  "url_path segs = concat (map (\<lambda>s. ''/'' @ s) segs)"

definition auth_header :: "string option \<Rightarrow> bytes option" where
  "auth_header = map_option (\<lambda>t. ''Bearer '' @ t)"

definition too_large :: "wire \<Rightarrow> payload \<Rightarrow> bool" where
  "too_large w pl = (case pl of NoPayload \<Rightarrow> False | RawBytes _ \<Rightarrow> False | _ \<Rightarrow> DEFAULT_BODY_LIMIT < wr_size w pl)"

text \<open>
  A request at the daemon. Authentication is the outermost layer, so that an unknown path is a \<open>401\<close>
  without a token and a \<open>404\<close> with one; the limit on a JSON body comes before the handler.
\<close>

definition daemon_link ::
  "blake3 \<Rightarrow> (bytes \<Rightarrow> string option) \<Rightarrow> (bytes \<Rightarrow> string + purge_body) \<Rightarrow> wire \<Rightarrow> auth \<Rightarrow> 's service \<Rightarrow>
   's sender" where
  "daemon_link H to_str from_slice w au svc rq s =
     (let hd' = auth_header (cr_bearer rq) in
      case route w rq of
        Some c \<Rightarrow>
          if too_large w (cr_payload rq) \<and> authenticate au (bearer to_str hd') \<noteq> None then (Inr (resp 413 Empty), s)
          else
            (case router H to_str from_slice au svc
                \<lparr>rq_path = url_path (cr_segments rq), rq_authorization = hd', rq_call = c\<rparr> s of
               (r, s') \<Rightarrow> (Inr r, s'))
      | None \<Rightarrow>
          (Inr (resp (if authenticate au (bearer to_str hd') = None then 401 else 404) Empty), s))"

end
