(* ===== verification/Gz_ClientProofs.thy ===== *)
theory Gz_ClientProofs
  imports Gz_Client
begin

text \<open>
  The remote store is transparent. What the client relies on of the encoding is the locale
  \<open>daemon_wire\<close>; a client whose base URL is the root of a daemon that knows its token is
  \<open>remote_daemon\<close>. There, for keys that a URL can carry, every operation of the client is the
  operation of the daemon's service: same effect, same result, and errors translated the way
  \<open>remote_read\<close>, \<open>remote_put\<close> and \<open>remote_delete\<close> say.
\<close>

subsection \<open>The contracts\<close>

definition plain_segment :: "string \<Rightarrow> bool" where
  "plain_segment s \<longleftrightarrow> s \<noteq> [] \<and> s \<noteq> ''.'' \<and> s \<noteq> ''..''"

definition plain_key :: "record_key \<Rightarrow> bool" where
  "plain_key k \<longleftrightarrow> plain_segment (namespace k) \<and> plain_segment (collection k) \<and> plain_segment (key_id k)"

definition remote_read :: "wire \<Rightarrow> 'a result \<Rightarrow> 'a result" where
  "remote_read w r = (case r of Inr x \<Rightarrow> Inr x | Inl _ \<Rightarrow> Inl (Backend (daemon_returned w server_error)))"

definition remote_put :: "wire \<Rightarrow> record_key \<Rightarrow> put_result result \<Rightarrow> put_result result" where
  "remote_put w k r =
     (case r of
        Inr x \<Rightarrow> Inr x
      | Inl (NotFound _) \<Rightarrow> Inl (NotFound k)
      | Inl (Invalid m) \<Rightarrow> Inl (Invalid (daemon_returned w (resp 400 (Text m))))
      | Inl _ \<Rightarrow> Inl (Backend (daemon_returned w server_error)))"

definition remote_delete :: "wire \<Rightarrow> delete_result result \<Rightarrow> delete_result result" where
  "remote_delete w r =
     (case r of
        Inr x \<Rightarrow> Inr x
      | Inl (Invalid m) \<Rightarrow> Inl (Backend (daemon_returned w (resp 400 (Text m))))
      | Inl _ \<Rightarrow> Inl (Backend (daemon_returned w server_error)))"

definition through :: "('a result \<Rightarrow> 'b result) \<Rightarrow> ('s, core_error, 'a) io \<Rightarrow> ('s, core_error, 'b) io" where
  "through f m s = (case m s of (r, s') \<Rightarrow> (f r, s'))"

locale daemon_wire =
  fixes w :: wire and from_slice :: "bytes \<Rightarrow> string + purge_body"
  assumes wire_record: "wr_record w (RecordJson r) = Inr r"
    and wire_raw: "wr_raw_record w (RawRecordJson b) = Inr b"
    and wire_keys: "wr_keys w (KeysJson ks) = Inr ks"
    and wire_put: "wr_put_outcome w (PutOutcomeJson po) = Inr po"
    and wire_delete: "wr_delete_outcome w (DeleteOutcomeJson dl) = Inr dl"
    and wire_entries: "wr_entries w (BlobEntriesJson es) = Inr es"
    and wire_bytes: "wr_bytes w (Octets c) = Inr c"
    and wire_purge: "from_slice (wr_purge w pb) = Inr pb"

locale remote_daemon = daemon_wire w from_slice
  for w from_slice +
  fixes H :: blake3 and to_str :: "bytes \<Rightarrow> string option" and au :: auth and svc :: "'s service"
    and ss :: server_store and p :: principal
  assumes base: "ss_base ss = Some []"
    and known: "authenticate au (bearer to_str (auth_header (ss_token ss))) = Some p"
begin

abbreviation link :: "'s sender" where
  "link \<equiv> daemon_link H to_str from_slice w au svc"

lemma not_probe: "\<not> is_probe_path (url_path (''v1'' # rest))"
  by (simp add: is_probe_path_def url_path_def)

lemma plain_url:
  "plain_segment s \<Longrightarrow> s \<noteq> []" "plain_segment s \<Longrightarrow> s \<noteq> ''.''" "plain_segment s \<Longrightarrow> s \<noteq> ''..''"
  by (simp_all add: plain_segment_def)

lemma urls:
  assumes "plain_key k"
  shows "records_url ss k = Inr [''v1'', ''records'', namespace k, collection k, key_id k]"
    "raw_records_url ss k = Inr [''v1'', ''raw'', ''records'', namespace k, collection k, key_id k]"
    "purge_url ss k = Inr [''v1'', ''purge'', namespace k, collection k, key_id k]"
    "keys_url ss [''v1'', ''keys''] = Inr [''v1'', ''keys'']"
    "keys_url ss [''v1'', ''raw'', ''keys''] = Inr [''v1'', ''raw'', ''keys'']"
  using assms base
  by (simp_all add: records_url_def raw_records_url_def purge_url_def keys_url_def key_url_def path_segments_def
      url_extend_def plain_key_def plain_url)

lemma list_urls:
  "keys_url ss [''v1'', ''keys''] = Inr [''v1'', ''keys'']"
  "keys_url ss [''v1'', ''raw'', ''keys''] = Inr [''v1'', ''raw'', ''keys'']"
  "blobs_url ss None = Inr [''v1'', ''blobs'']"
  "plain_segment x \<Longrightarrow> blobs_url ss (Some x) = Inr [''v1'', ''blobs'', x]"
  using base by (simp_all add: keys_url_def blobs_url_def path_segments_def url_extend_def plain_url)

text \<open>A request that has a route and fits is answered by the handler.\<close>

lemma fetch_routed:
  assumes "url = Inr (''v1'' # rest)" "\<not> too_large w pl"
    "route w \<lparr>cr_method = meth, cr_segments = ''v1'' # rest, cr_query = q, cr_bearer = ss_token ss, cr_payload = pl\<rparr> = Some c"
    "dispatch H from_slice svc p c s = (r, s')"
  shows "fetch link ss meth url q pl s = (Inr r, s')"
  using assms known not_probe [of rest]
  by (simp add: fetch_def bindE_def liftE_def daemon_link_def router_def Let_def split: prod.splits)

lemma key_route_plain:
  "plain_key k \<Longrightarrow> key_route f [namespace k, collection k, key_id k] = Some (f (namespace k) (collection k) (key_id k))"
  by (auto simp: key_route_def plain_key_def plain_segment_def)

lemma fetch_bind:
  assumes "fetch link ss meth url q pl s = (Inr r, s')"
  shows "bindE (fetch link ss meth url q pl) f s = f r s'"
  using assms by (simp add: bindE_def)

lemmas codes = resp_def server_error_def ok_or_500_def ensure_read_ok_def be_def se_def
lemmas laws = wire_record wire_raw wire_keys wire_put wire_delete wire_entries wire_bytes wire_purge

lemma kp_eta: "\<lparr>kp_namespace = kp_namespace q, kp_collection = kp_collection q\<rparr> = q"
  by (cases q) simp

lemma put_classified:
  "classify_put_response_for w k (put_outcome_response r) = remote_put w k r"
  "classify_raw_put_response w k (put_outcome_response r) = remote_put w k r"
  by (cases r rule: put_outcome_response.cases;
      simp add: classify_put_response_for_def classify_raw_put_response_def classify_put_response_def remote_put_def
        codes laws read_response_error_def)+

lemma delete_classified:
  "classify_delete_response w (delete_outcome_response r) = remote_delete w r"
  "classify_purge_response w (delete_outcome_response r) = remote_delete w r"
  by (cases r rule: delete_outcome_response.cases;
      simp add: classify_delete_response_def classify_purge_response_def remote_delete_def codes laws)+

text \<open>The operations.\<close>

lemma get_through:
  assumes "plain_key k" "allows p Read (namespace k)"
  shows "rs_get link w ss k s = through (remote_read w) (sv_get svc k) s"
proof -
  obtain r s' where run: "sv_get svc k s = (r, s')" by (rule prod.exhaust)
  have "fetch link ss GET (records_url ss k) kp_default NoPayload s =
      (Inr (ok_or_500 (\<lambda>r. case r of Some x \<Rightarrow> resp 200 (RecordJson x) | None \<Rightarrow> resp 404 Empty) r), s')"
    by (rule fetch_routed [OF urls(1) [OF assms(1)],
        where c = "GetRecord (namespace k) (collection k) (key_id k)"])
      (use assms run in \<open>simp_all add: too_large_def route_def key_route_plain get_record_def respond_def\<close>)
  then show ?thesis
    by (auto simp: rs_get_def fetch_bind liftE_def through_def run remote_read_def codes laws
        read_response_error_def split: sum.splits option.splits)
qed

lemma put_through:
  assumes "plain_key (rec_key x)" "allows p Write (namespace (rec_key x))"
    "\<not> too_large w (PutJson \<lparr>pb_record = x, pb_expected = ex\<rparr>)"
  shows "rs_put link w ss x ex s = through (remote_put w (rec_key x)) (sv_put svc (stamp_author p x) ex) s"
proof -
  obtain r s' where run: "sv_put svc (stamp_author p x) ex s = (r, s')" by (rule prod.exhaust)
  have "fetch link ss PUT (records_url ss (rec_key x)) kp_default (PutJson \<lparr>pb_record = x, pb_expected = ex\<rparr>) s =
      (Inr (put_outcome_response r), s')"
    by (rule fetch_routed [OF urls(1) [OF assms(1)],
        where c = "PutRecord (namespace (rec_key x), collection (rec_key x), key_id (rec_key x)) \<lparr>pb_record = x, pb_expected = ex\<rparr>"])
      (use assms run in \<open>simp_all add: route_def key_route_plain put_record_def path_key_mismatch_def respond_def\<close>)
  then show ?thesis by (simp add: rs_put_def Let_def fetch_bind liftE_def through_def run put_classified)
qed

lemma delete_as_through:
  assumes "plain_key k" "allows p Write (namespace k)"
    "\<not> too_large w (DeleteJson \<lparr>db_expected = ex, db_author = claimed\<rparr>)"
  shows "rs_delete_as link w ss k ex claimed s =
    through (remote_delete w) (sv_delete_as svc k ex (delete_author p claimed)) s"
proof -
  obtain r s' where run: "sv_delete_as svc k ex (delete_author p claimed) s = (r, s')" by (rule prod.exhaust)
  have "fetch link ss DELETE (records_url ss k) kp_default (DeleteJson \<lparr>db_expected = ex, db_author = claimed\<rparr>) s =
      (Inr (delete_outcome_response r), s')"
    by (rule fetch_routed [OF urls(1) [OF assms(1)],
        where c = "DeleteRecord (namespace k) (collection k) (key_id k) (Some \<lparr>db_expected = ex, db_author = claimed\<rparr>)"])
      (use assms run in \<open>simp_all add: route_def key_route_plain delete_record_def respond_def\<close>)
  then show ?thesis by (simp add: rs_delete_as_def fetch_bind liftE_def through_def run delete_classified)
qed

lemma list_through:
  assumes "allows p Read (case kp_namespace q of Some n \<Rightarrow> n | None \<Rightarrow> ''*'')"
  shows "rs_list link w ss q s = through (remote_read w) (sv_list svc q) s"
    "rs_list_raw link w ss q s = through (remote_read w) (sv_list_raw svc q) s"
proof -
  obtain r s' where run: "sv_list svc q s = (r, s')" by (rule prod.exhaust)
  have "fetch link ss GET (keys_url ss [''v1'', ''keys'']) q NoPayload s =
      (Inr (ok_or_500 (\<lambda>ks. resp 200 (KeysJson ks)) r), s')"
    by (rule fetch_routed [OF list_urls(1),
        where c = "ListKeys \<lparr>lq_namespace = kp_namespace q, lq_collection = kp_collection q\<rparr>"])
      (use assms run in \<open>simp_all add: too_large_def route_def list_keys_def list_prefix_def respond_def kp_eta\<close>)
  then show "rs_list link w ss q s = through (remote_read w) (sv_list svc q) s"
    by (auto simp: rs_list_def fetch_bind liftE_def through_def run remote_read_def codes laws
        read_response_error_def split: sum.splits)
  obtain r s' where run: "sv_list_raw svc q s = (r, s')" by (rule prod.exhaust)
  have "fetch link ss GET (keys_url ss [''v1'', ''raw'', ''keys'']) q NoPayload s =
      (Inr (ok_or_500 (\<lambda>ks. resp 200 (KeysJson ks)) r), s')"
    by (rule fetch_routed [OF list_urls(2),
        where c = "ListRawKeys \<lparr>lq_namespace = kp_namespace q, lq_collection = kp_collection q\<rparr>"])
      (use assms run in \<open>simp_all add: too_large_def route_def list_raw_keys_def list_prefix_def respond_def kp_eta\<close>)
  then show "rs_list_raw link w ss q s = through (remote_read w) (sv_list_raw svc q) s"
    by (auto simp: rs_list_raw_def classify_raw_list_response_def fetch_bind liftE_def through_def run remote_read_def
        codes laws read_response_error_def split: sum.splits)
qed

lemma get_raw_through:
  assumes "plain_key k" "allows p Read (namespace k)"
  shows "rs_get_raw link w ss k s = through (remote_read w) (sv_get_raw svc k) s"
proof -
  obtain r s' where run: "sv_get_raw svc k s = (r, s')" by (rule prod.exhaust)
  have "fetch link ss GET (raw_records_url ss k) kp_default NoPayload s =
      (Inr (ok_or_500 (\<lambda>r. resp 200 (RawRecordJson \<lparr>rb_record = r\<rparr>)) r), s')"
    by (rule fetch_routed [OF urls(2) [OF assms(1)],
        where c = "GetRawRecord (namespace k) (collection k) (key_id k)"])
      (use assms run in \<open>simp_all add: too_large_def route_def key_route_plain get_raw_record_def respond_def\<close>)
  then show ?thesis
    by (auto simp: rs_get_raw_def classify_raw_get_response_def fetch_bind liftE_def through_def run remote_read_def
        codes laws read_response_error_def split: sum.splits)
qed

lemma put_raw_through:
  assumes "plain_key (rec_key x)" "is_admin p" "\<not> too_large w (PutJson \<lparr>pb_record = x, pb_expected = ex\<rparr>)"
  shows "rs_put_raw link w ss x ex s = through (remote_put w (rec_key x)) (sv_put_raw svc x ex) s"
proof -
  obtain r s' where run: "sv_put_raw svc x ex s = (r, s')" by (rule prod.exhaust)
  have "fetch link ss PUT (raw_records_url ss (rec_key x)) kp_default (PutJson \<lparr>pb_record = x, pb_expected = ex\<rparr>) s =
      (Inr (put_outcome_response r), s')"
    by (rule fetch_routed [OF urls(2) [OF assms(1)],
        where c = "PutRawRecord (namespace (rec_key x), collection (rec_key x), key_id (rec_key x)) \<lparr>pb_record = x, pb_expected = ex\<rparr>"])
      (use assms run in \<open>simp_all add: route_def key_route_plain put_raw_record_def path_key_mismatch_def respond_def\<close>)
  then show ?thesis by (simp add: rs_put_raw_def Let_def fetch_bind liftE_def through_def run put_classified)
qed

lemma purge_through:
  assumes "plain_key k" "is_admin p" "\<not> too_large w (PurgeJson \<lparr>ub_expected = rv\<rparr>)"
  shows "rs_purge link w ss k rv s = through (remote_delete w) (sv_purge svc k rv) s"
proof -
  obtain r s' where run: "sv_purge svc k rv s = (r, s')" by (rule prod.exhaust)
  have "fetch link ss POST (purge_url ss k) kp_default (PurgeJson \<lparr>ub_expected = rv\<rparr>) s =
      (Inr (delete_outcome_response r), s')"
    by (rule fetch_routed [OF urls(3) [OF assms(1)],
        where c = "PurgeRecord (namespace k) (collection k) (key_id k) (wr_purge w \<lparr>ub_expected = rv\<rparr>)"])
      (use assms run in \<open>simp_all add: route_def key_route_plain purge_record_def respond_def laws\<close>)
  then show ?thesis by (simp add: rs_purge_def fetch_bind liftE_def through_def run delete_classified)
qed

lemma blob_through:
  assumes "plain_segment (hash_str h)" "allows p Read BLOB_NS"
  shows "rs_get_blob link w ss h s = through (remote_read w) (sv_get_blob svc h) s"
    "rs_has_blob link w ss h s = through (remote_read w) (sv_has_blob svc h) s"
proof -
  have h: "ContentHash (hash_str h) = h" by (cases h) simp
  obtain r s' where run: "sv_get_blob svc h s = (r, s')" by (rule prod.exhaust)
  have "fetch link ss GET (blobs_url ss (Some (hash_str h))) kp_default NoPayload s =
      (Inr (ok_or_500 (\<lambda>r. case r of Some b \<Rightarrow> resp 200 (Octets b) | None \<Rightarrow> resp 404 Empty) r), s')"
    by (rule fetch_routed [OF list_urls(4) [OF assms(1)], where c = "GetBlob (hash_str h)"])
      (use assms run in \<open>simp_all add: too_large_def route_def plain_url get_blob_def respond_def h\<close>)
  then show "rs_get_blob link w ss h s = through (remote_read w) (sv_get_blob svc h) s"
    by (auto simp: rs_get_blob_def fetch_bind liftE_def through_def run remote_read_def codes laws
        read_response_error_def split: sum.splits option.splits)
  obtain r s' where run: "sv_has_blob svc h s = (r, s')" by (rule prod.exhaust)
  have "fetch link ss HEAD (blobs_url ss (Some (hash_str h))) kp_default NoPayload s =
      (Inr (ok_or_500 (\<lambda>b. if b then resp 200 Empty else resp 404 Empty) r), s')"
    by (rule fetch_routed [OF list_urls(4) [OF assms(1)], where c = "HeadBlob (hash_str h)"])
      (use assms run in \<open>simp_all add: too_large_def route_def plain_url head_blob_def respond_def h\<close>)
  then show "rs_has_blob link w ss h s = through (remote_read w) (sv_has_blob svc h) s"
    by (auto simp: rs_has_blob_def fetch_bind liftE_def through_def run remote_read_def codes
        read_response_error_def split: sum.splits)
qed

lemma put_blob_through:
  assumes "plain_segment (H content)" "allows p Write BLOB_NS" "length content \<le> sv_max_blob_size svc"
  shows "rs_put_blob H link w ss content s =
    through (\<lambda>r. remote_read w (map_sum id (\<lambda>_. content_hash_of H content) r)) (sv_put_blob svc content) s"
proof -
  obtain r s' where run: "sv_put_blob svc content s = (r, s')" by (rule prod.exhaust)
  have hs: "hash_str (content_hash_of H content) = H content" by (simp add: content_hash_of_def)
  have "fetch link ss PUT (blobs_url ss (Some (H content))) kp_default (RawBytes content) s =
      (Inr (ok_or_500 (\<lambda>_. resp 200 Empty) r), s')"
    by (rule fetch_routed [OF list_urls(4) [OF assms(1)], where c = "PutBlob (H content) content"])
      (use assms run in \<open>simp_all add: too_large_def route_def plain_url put_blob_def respond_def hs\<close>)
  then show ?thesis
    by (auto simp: rs_put_blob_def Let_def hs fetch_bind liftE_def through_def run remote_read_def codes
        classify_blob_put_response_def split: sum.splits)
qed

lemma list_delete_blob_through:
  "allows p Read BLOB_NS \<Longrightarrow> rs_list_blobs link w ss s = through (remote_read w) (sv_list_blobs svc) s"
  "allows p Write BLOB_NS \<Longrightarrow> plain_segment (hash_str h) \<Longrightarrow>
     rs_delete_blob link w ss h s = through (remote_read w) (sv_delete_blob svc h) s"
proof -
  assume ok: "allows p Read BLOB_NS"
  obtain r s' where run: "sv_list_blobs svc s = (r, s')" by (rule prod.exhaust)
  have "fetch link ss GET (blobs_url ss None) kp_default NoPayload s =
      (Inr (ok_or_500 (\<lambda>es. resp 200 (BlobEntriesJson es)) r), s')"
    by (rule fetch_routed [OF list_urls(3), where c = ListBlobs])
      (use ok run in \<open>simp_all add: too_large_def route_def list_blobs_def respond_def\<close>)
  then show "rs_list_blobs link w ss s = through (remote_read w) (sv_list_blobs svc) s"
    by (auto simp: rs_list_blobs_def fetch_bind liftE_def through_def run remote_read_def codes laws
        read_response_error_def split: sum.splits)
next
  assume ok: "allows p Write BLOB_NS" "plain_segment (hash_str h)"
  have h: "ContentHash (hash_str h) = h" by (cases h) simp
  obtain r s' where run: "sv_delete_blob svc h s = (r, s')" by (rule prod.exhaust)
  have "fetch link ss DELETE (blobs_url ss (Some (hash_str h))) kp_default NoPayload s =
      (Inr (ok_or_500 (\<lambda>_. resp 200 Empty) r), s')"
    by (rule fetch_routed [OF list_urls(4) [OF ok(2)], where c = "DeleteBlob (hash_str h)"])
      (use ok run in \<open>simp_all add: too_large_def route_def plain_url delete_blob_def respond_def h\<close>)
  then show "rs_delete_blob link w ss h s = through (remote_read w) (sv_delete_blob svc h) s"
    by (auto simp: rs_delete_blob_def fetch_bind liftE_def through_def run remote_read_def codes split: sum.splits)
qed

text \<open>
  A key that a URL cannot carry has no route: a segment \<open>.\<close> or \<open>..\<close> drops out of the path and an empty
  one matches nothing. A read takes the \<open>404\<close> for absence.
\<close>

lemma unroutable:
  assumes "\<not> plain_key k"
  shows "rs_get link w ss k s = (Inr None, s)" "rs_get_raw link w ss k s = (Inl upgrade_required, s)"
proof -
  let ?segs = "filter (\<lambda>s. s \<noteq> ''.'' \<and> s \<noteq> ''..'') [namespace k, collection k, key_id k]"
  have no: "key_route f ?segs = None" for f
    using assms by (auto simp: key_route_def plain_key_def plain_segment_def)
  have "records_url ss k = Inr ([''v1'', ''records''] @ ?segs)" "raw_records_url ss k = Inr ([''v1'', ''raw'', ''records''] @ ?segs)"
    using base by (simp_all add: records_url_def raw_records_url_def key_url_def path_segments_def url_extend_def)
  then have "fetch link ss GET (records_url ss k) kp_default NoPayload s = (Inr (resp 404 Empty), s)"
    "fetch link ss GET (raw_records_url ss k) kp_default NoPayload s = (Inr (resp 404 Empty), s)"
    using no known by (simp_all add: fetch_def bindE_def liftE_def daemon_link_def route_def del: filter.simps)
  then show "rs_get link w ss k s = (Inr None, s)" "rs_get_raw link w ss k s = (Inl upgrade_required, s)"
    by (simp_all add: rs_get_def rs_get_raw_def classify_raw_get_response_def fetch_bind liftE_def resp_def)
qed

end

end
