(* ===== verification/Gz_ClientProps.thy ===== *)
theory Gz_ClientProps
  imports Gz_ClientProofs Gz_HttpProps
begin

text \<open>
  The remote store over a daemon on the filesystem store: what a client gets is what the store
  answers, for the keys a URL can carry, and what happens to the others. The encoding of the wire is
  instantiated by a concrete one at the end of the first section.
\<close>

subsection \<open>A concrete wire\<close>

definition demo_wire :: wire where
  "demo_wire =
     \<lparr>wr_status = show_nat, wr_text = (\<lambda>b. case b of Text t \<Rightarrow> t | _ \<Rightarrow> []),
      wr_record = (\<lambda>b. case b of RecordJson r \<Rightarrow> Inr r | _ \<Rightarrow> Inl ''decode''),
      wr_raw_record = (\<lambda>b. case b of RawRecordJson r \<Rightarrow> Inr r | _ \<Rightarrow> Inl ''decode''),
      wr_keys = (\<lambda>b. case b of KeysJson ks \<Rightarrow> Inr ks | _ \<Rightarrow> Inl ''decode''),
      wr_put_outcome = (\<lambda>b. case b of PutOutcomeJson po \<Rightarrow> Inr po | _ \<Rightarrow> Inl ''decode''),
      wr_delete_outcome = (\<lambda>b. case b of DeleteOutcomeJson dl \<Rightarrow> Inr dl | _ \<Rightarrow> Inl ''decode''),
      wr_entries = (\<lambda>b. case b of BlobEntriesJson es \<Rightarrow> Inr es | _ \<Rightarrow> Inl ''decode''),
      wr_bytes = (\<lambda>b. case b of Octets c \<Rightarrow> Inr c | _ \<Rightarrow> Inl ''decode''),
      wr_purge = (\<lambda>u. fst c_revision (ub_expected u)), wr_size = (\<lambda>_. 0)\<rparr>"

definition demo_purge :: "bytes \<Rightarrow> string + purge_body" where
  "demo_purge bs = (case snd c_revision bs of Some (rv, _) \<Rightarrow> Inr \<lparr>ub_expected = rv\<rparr> | None \<Rightarrow> Inl ''decode'')"

definition demo_client :: server_store where
  "demo_client = \<lparr>ss_base = Some [], ss_token = None\<rparr>"

interpretation demo_wire: daemon_wire demo_wire demo_purge
proof
  have "snd c_revision (fst c_revision rv @ []) = Some (rv, [])" for rv by (rule codec_okD) simp
  then show "demo_purge (wr_purge demo_wire pb) = Inr pb" for pb
    by (cases pb) (simp add: demo_purge_def demo_wire_def)
qed (simp_all add: demo_wire_def)

lemma open_daemon:
  assumes "daemon_wire w from_slice" "ss_base ss = Some []"
  shows "remote_daemon w from_slice to_str Disabled ss principal_open"
  using assms by (simp add: remote_daemon_def remote_daemon_axioms_def authenticate_def)

interpretation demo_remote: remote_daemon demo_wire demo_purge demo_digest Some Disabled demo_daemon demo_client principal_open
  by (intro open_daemon demo_wire.daemon_wire_axioms) (simp add: demo_client_def)

section \<open>The remote store\<close>



definition demo_send :: "disk sender" where
  "demo_send = daemon_link demo_digest Some demo_purge demo_wire Disabled demo_daemon"


text \<open>
  C27. Some records cannot be seen from afar. A key with an empty component, or one that is a single
  or a double dot, is as good as any other for a local store, but a URL cannot carry it: the remote
  store answers a \<open>get\<close> of such a key with no record, whatever is stored under it, and a \<open>get_raw\<close> with
  the error that stands for a daemon without the replication routes.
\<close>

theorem remote_get_misses_dot_keys:
  assumes "daemon_wire w from_slice" "ss_base ss = Some []" "\<not> plain_key k"
    "send = daemon_link H to_str from_slice w Disabled (daemon_service H C st n g)"
  shows "rs_get send w ss k s = (Inr None, s) \<and> rs_get_raw send w ss k s = (Inl upgrade_required, s)"
  unfolding assms(4) by (simp add: remote_daemon.unroutable [OF open_daemon [OF assms(1,2)] assms(3)])

definition demo_dot :: rec where
  "demo_dot = record_create demo_digest (RecordKey ''team'' ''notes'' ''..'') Topic (Inline ''hello'') demo_meta"

theorem remote_get_misses_dot_keys_witness:
  "fst (fs_get demo_codec demo_fs (rec_key demo_dot) (demo_with demo_dot)) \<noteq> Inr None \<and>
   fst (rs_get demo_send demo_wire demo_client (rec_key demo_dot) (demo_with demo_dot)) = Inr None"
proof -
  have dot: "\<not> plain_key (rec_key demo_dot)" "fs_valid (rec_key demo_dot)" "\<not> is_tombstone demo_dot" by code_simp+
  have base: "ss_base demo_client = Some []" by (simp add: demo_client_def)
  have "fs_get demo_codec demo_fs (rec_key demo_dot) (demo_with demo_dot) =
      (Inr (Some (with_folded None 32 (stamp 1700000000000 1700000000000 demo_dot))), demo_with demo_dot)"
    using planned_store.get [OF fs_substrate.planned [OF demo.fs_substrate_axioms, of demo_fs]
        demo_with(1) [OF dot(2,3)] dot(2)] demo_with(2) [OF dot(2,3)] dot(3)
    by (simp add: fs_vt_def live_only_def)
  then show ?thesis
    using remote_get_misses_dot_keys [OF demo_wire.daemon_wire_axioms base dot(1)
        demo_send_def [unfolded demo_daemon_def], of "demo_with demo_dot"] by simp
qed

end
