(* ===== verification/Gz_Vector.thy ===== *)
theory Gz_Vector
  imports Gz_Paths Gz_Manifest
begin

text \<open>
  The vector layer below the durable index: shard assignment and the \<open>GZVS\<close> shard format
  (\<open>gonzalo-vector/src/shard.rs\<close>) and the exact in-memory index (\<open>index.rs\<close>).

  An \<open>f32\<close> is its 32 bits. The score of two vectors is floating-point arithmetic and is the parameter
  \<open>cosine\<close> of a query; the order of the scores, \<open>f32::total_cmp\<close>, works on the bits and is modelled.
  The text of a UTF-8 error is the parameter \<open>ue\<close>. The \<open>HashMap\<close> of the in-memory index is an ordered
  map here: what depends on its iteration order is only which of the equally long vectors the
  dimension is read from. The mutex makes each call one step on the map.
\<close>

unbundle bit_operations_syntax

type_synonym f32 = "32 word"

type_synonym vec_entry = "record_key \<times> f32 list"

type_synonym vec_map = "(record_key, f32 list) btree"

subsection \<open>Shards\<close>

definition DEFAULT_SHARDS :: "16 word" where
  "DEFAULT_SHARDS = 256"

definition MAGIC :: bytes where
  "MAGIC = ''GZVS''"

definition VERSION :: nat where
  "VERSION = 1"

text \<open>\<open>u16::from_str_radix\<close> on the digits of a digest; the code panics on anything else.\<close>

fun hex_number :: "nat \<Rightarrow> string \<Rightarrow> nat option" where
  "hex_number acc [] = Some acc"
| "hex_number acc (c # cs) = (case hex_val c of Some d \<Rightarrow> hex_number (16 * acc + d) cs | None \<Rightarrow> None)"

definition shard_of :: "blake3 \<Rightarrow> record_key \<Rightarrow> 16 word \<Rightarrow> 16 word" where
  "shard_of H k shards =
     (case hex_number 0 (take 4 (hash_str (content_hash_of H (key_display k)))) of
        Some bits \<Rightarrow> of_nat bits mod shards
      | None \<Rightarrow> 0)"

subsection \<open>The shard format\<close>

text \<open>\<open>to_le_bytes\<close> and \<open>from_le_bytes\<close> at a width; a cast to a narrower type keeps the low bytes.\<close>

definition le_bytes :: "nat \<Rightarrow> nat \<Rightarrow> bytes" where
  "le_bytes w x = map (\<lambda>i. char_of (x div 256 ^ i)) [0..<w]"

fun of_le_bytes :: "bytes \<Rightarrow> nat" where
  "of_le_bytes [] = 0"
| "of_le_bytes (c # cs) = of_char c + 256 * of_le_bytes cs"

definition put_str16 :: "string \<Rightarrow> bytes" where
  "put_str16 s = le_bytes 2 (length s) @ s"

definition put_floats :: "f32 list \<Rightarrow> bytes" where
  "put_floats v = concat (map (\<lambda>f. le_bytes 4 (unat f)) v)"

definition encode_entry :: "vec_entry \<Rightarrow> bytes" where
  "encode_entry e =
     (case e of (k, v) \<Rightarrow>
        put_str16 (namespace k) @ put_str16 (collection k) @ le_bytes 4 (length (key_id k)) @ key_id k @ put_floats v)"

definition encode_shard :: "nat \<Rightarrow> vec_entry list \<Rightarrow> bytes" where
  "encode_shard dim entries =
     (let sorted' = sort_key fst entries in
      MAGIC @ [char_of VERSION] @ le_bytes 4 dim @ le_bytes 4 (length sorted') @ concat (map encode_entry sorted'))"

subsection \<open>Reading a shard\<close>

definition overflow :: core_error where
  "overflow = Backend ''vector shard: length overflow''"

text \<open>The reader is the position in the bytes.\<close>

definition rd_take :: "bytes \<Rightarrow> nat \<Rightarrow> (nat, core_error, bytes) io" where
  "rd_take bs n pos =
     (if 2 ^ 64 \<le> pos + n then (Inl overflow, pos)
      else if pos + n \<le> length bs then (Inr (take n (drop pos bs)), pos + n)
      else (Inl (Backend ''vector shard: truncated''), pos))"

definition rd_u32 :: "bytes \<Rightarrow> (nat, core_error, nat) io" where
  "rd_u32 bs = bindE (rd_take bs 4) (\<lambda>b. retE (of_le_bytes b))"

definition from_utf8 :: "(bytes \<Rightarrow> string) \<Rightarrow> string \<Rightarrow> bytes \<Rightarrow> string result" where
  "from_utf8 ue what b = (if utf8_valid b then Inr b else Inl (Backend (what @ ue b)))"

definition rd_str16 :: "(bytes \<Rightarrow> string) \<Rightarrow> bytes \<Rightarrow> (nat, core_error, string) io" where
  "rd_str16 ue bs =
     bindE (rd_take bs 2) (\<lambda>b. bindE (rd_take bs (of_le_bytes b)) (\<lambda>s. liftE (from_utf8 ue ''vector shard: bad utf8: '' s)))"

fun rd_floats :: "bytes \<Rightarrow> nat \<Rightarrow> (nat, core_error, f32 list) io" where
  "rd_floats bs 0 = retE []"
| "rd_floats bs (Suc n) =
     bindE (rd_take bs 4) (\<lambda>b. bindE (rd_floats bs n) (\<lambda>fs. retE (of_nat (of_le_bytes b) # fs)))"

definition rd_entry :: "(bytes \<Rightarrow> string) \<Rightarrow> bytes \<Rightarrow> nat \<Rightarrow> (nat, core_error, vec_entry) io" where
  "rd_entry ue bs dim =
     bindE (rd_str16 ue bs) (\<lambda>ns.
     bindE (rd_str16 ue bs) (\<lambda>col.
     bindE (rd_u32 bs) (\<lambda>n.
     bindE (rd_take bs n) (\<lambda>b.
     bindE (liftE (from_utf8 ue ''vector shard: bad utf8 in id: '' b)) (\<lambda>i.
     bindE (rd_floats bs dim) (\<lambda>v. retE (RecordKey ns col i, v)))))))"

fun rd_entries :: "(bytes \<Rightarrow> string) \<Rightarrow> bytes \<Rightarrow> nat \<Rightarrow> nat \<Rightarrow> (nat, core_error, vec_entry list) io" where
  "rd_entries ue bs dim 0 = retE []"
| "rd_entries ue bs dim (Suc n) =
     bindE (rd_entry ue bs dim) (\<lambda>e. bindE (rd_entries ue bs dim n) (\<lambda>es. retE (e # es)))"

text \<open>
  The whole shard. \<open>dim\<close> comes from 32 bits, so that the saturating arithmetic on the minimal size of an
  entry never saturates at 64.
\<close>

definition rd_shard :: "(bytes \<Rightarrow> string) \<Rightarrow> bytes \<Rightarrow> (nat, core_error, nat \<times> vec_entry list) io" where
  "rd_shard ue bs =
     bindE (rd_take bs 4) (\<lambda>m.
     if m \<noteq> MAGIC then throwE (Backend ''vector shard: bad magic'')
     else
       bindE (rd_take bs 1) (\<lambda>v.
       if of_char (hd v) \<noteq> VERSION then
         throwE (Backend (''vector shard: unsupported version '' @ show_nat (of_char (hd v)) @
           '', expected '' @ show_nat VERSION))
       else
         bindE (rd_u32 bs) (\<lambda>dim.
         bindE (rd_u32 bs) (\<lambda>count pos.
           (let remaining = length bs - pos; min_entry_size = 8 + dim * 4 in
            if count > remaining div min_entry_size then
              throwE (Backend ''vector shard: entry count exceeds remaining data'')
            else bindE (rd_entries ue bs dim count) (\<lambda>es. retE (dim, es))) pos))))"

definition decode_shard :: "(bytes \<Rightarrow> string) \<Rightarrow> bytes \<Rightarrow> (nat \<times> vec_entry list) result" where
  "decode_shard ue bs = fst (rd_shard ue bs 0)"

subsection \<open>The in-memory index\<close>

definition stored_dim :: "vec_map \<Rightarrow> nat option" where
  "stored_dim m = (case m of [] \<Rightarrow> None | (_, v) # _ \<Rightarrow> Some (length v))"

definition check_dim :: "vec_map \<Rightarrow> nat \<Rightarrow> unit result" where
  "check_dim m incoming =
     (case stored_dim m of
        Some expected \<Rightarrow>
          if incoming \<noteq> expected then
            Inl (Backend (''vector dimension mismatch: expected '' @ show_nat expected @ '', got '' @ show_nat incoming))
          else Inr ()
      | None \<Rightarrow> Inr ())"

definition collect_where :: "(record_key \<Rightarrow> bool) \<Rightarrow> vec_map \<Rightarrow> vec_entry list" where
  "collect_where p m = filter (\<lambda>e. p (fst e)) m"

definition mvi_upsert :: "record_key \<Rightarrow> f32 list \<Rightarrow> (vec_map, core_error, unit) io" where
  "mvi_upsert k v m = (case check_dim m (length v) of Inl e \<Rightarrow> (Inl e, m) | Inr _ \<Rightarrow> (Inr (), bt_insert k v m))"

definition mvi_remove :: "record_key \<Rightarrow> (vec_map, core_error, unit) io" where
  "mvi_remove k m = (Inr (), bt_remove k m)"

text \<open>The provided method \<open>VectorIndex::upsert_many\<close>.\<close>

fun mvi_upsert_many :: "vec_entry list \<Rightarrow> (vec_map, core_error, unit) io" where
  "mvi_upsert_many [] = retE ()"
| "mvi_upsert_many ((k, v) # es) = bindE (mvi_upsert k v) (\<lambda>_. mvi_upsert_many es)"

record vmatch =
  ma_key :: record_key
  ma_score :: f32

text \<open>\<open>f32::total_cmp\<close> compares the bits as signed numbers, those of a negative number flipped.\<close>

definition total_key :: "f32 \<Rightarrow> int" where
  "total_key w = (if sint w < 0 then sint (w XOR 0x7FFFFFFF) else sint w)"

definition mvi_query ::
  "(f32 list \<Rightarrow> f32 list \<Rightarrow> f32) \<Rightarrow> f32 list \<Rightarrow> nat \<Rightarrow> key_prefix \<Rightarrow> vec_map \<Rightarrow> vmatch list result" where
  "mvi_query cosine q k f m =
     bindR (if m \<noteq> [] then check_dim m (length q) else Inr ()) (\<lambda>_.
       let matches = map (\<lambda>(key, v). \<lparr>ma_key = key, ma_score = cosine q v\<rparr>) (collect_where (kp_matches f) m) in
       Inr (take k (sort_key (\<lambda>a. (- total_key (ma_score a), ma_key a)) matches)))"

definition mvi_keys :: "key_prefix \<Rightarrow> vec_map \<Rightarrow> record_key list" where
  "mvi_keys f m = filter (kp_matches f) (map fst m)"

subsection \<open>The shard format round-trips\<close>

lemma length_le_bytes [simp]: "length (le_bytes w x) = w"
  by (simp add: le_bytes_def)

lemma le_bytes_Suc: "le_bytes (Suc w) x = char_of x # le_bytes w (x div 256)"
  by (simp add: le_bytes_def upt_conv_Cons map_Suc_upt [symmetric] del: upt_Suc)
    (simp add: div_mult2_eq)

lemma of_le_le_bytes [simp]: "of_le_bytes (le_bytes w x) = x mod 256 ^ w"
proof (induction w arbitrary: x)
  case 0
  then show ?case by (simp add: le_bytes_def)
next
  case (Suc w)
  have "of_le_bytes (le_bytes (Suc w) x) = x mod 256 + 256 * (x div 256 mod 256 ^ w)"
    by (simp add: le_bytes_Suc Suc)
  also have "\<dots> = x mod (256 * 256 ^ w)" by (simp add: mod_mult2_eq)
  finally show ?case by simp
qed

lemma length_put_floats [simp]: "length (put_floats v) = 4 * length v"
  by (induction v) (simp_all add: put_floats_def)

lemma length_put_str16 [simp]: "length (put_str16 s) = 2 + length s"
  by (simp add: put_str16_def)

definition entry_ok :: "nat \<Rightarrow> vec_entry \<Rightarrow> bool" where
  "entry_ok dim e \<longleftrightarrow>
     (case e of (k, v) \<Rightarrow>
        utf8_valid (namespace k) \<and> utf8_valid (collection k) \<and> utf8_valid (key_id k) \<and>
        length (namespace k) < 2 ^ 16 \<and> length (collection k) < 2 ^ 16 \<and> length (key_id k) < 2 ^ 32 \<and> length v = dim)"

lemma rd_take_next:
  assumes "bs = pre @ b @ post" "length bs < 2 ^ 64" "n = length b"
  shows "rd_take bs n (length pre) = (Inr b, length (pre @ b))"
  using assms by (simp add: rd_take_def)

lemma rd_u32_next:
  assumes "bs = pre @ le_bytes 4 x @ post" "length bs < 2 ^ 64" "x < 2 ^ 32"
  shows "rd_u32 bs (length pre) = (Inr x, length (pre @ le_bytes 4 x))"
  using rd_take_next [OF assms(1,2), of 4] assms(3) by (simp add: rd_u32_def bindE_def retE_def)

lemma rd_str16_next:
  assumes "bs = pre @ put_str16 s @ post" "length bs < 2 ^ 64" "length s < 2 ^ 16" "utf8_valid s"
  shows "rd_str16 ue bs (length pre) = (Inr s, length (pre @ put_str16 s))"
proof -
  have "rd_take bs 2 (length pre) = (Inr (le_bytes 2 (length s)), length (pre @ le_bytes 2 (length s)))"
    by (rule rd_take_next [where post = "s @ post"]) (use assms in \<open>simp_all add: put_str16_def\<close>)
  moreover have "rd_take bs (length s) (length (pre @ le_bytes 2 (length s))) = (Inr s, length ((pre @ le_bytes 2 (length s)) @ s))"
    by (rule rd_take_next [where post = post]) (use assms in \<open>simp_all add: put_str16_def\<close>)
  ultimately show ?thesis using assms(3,4) by (simp add: rd_str16_def bindE_def liftE_def from_utf8_def)
qed

lemma rd_floats_next:
  "bs = pre @ put_floats v @ post \<Longrightarrow> length bs < 2 ^ 64 \<Longrightarrow>
   rd_floats bs (length v) (length pre) = (Inr v, length (pre @ put_floats v))"
proof (induction v arbitrary: pre)
  case Nil
  then show ?case by (simp add: retE_def put_floats_def)
next
  case (Cons f v)
  have split: "put_floats (f # v) = le_bytes 4 (unat f) @ put_floats v" by (simp add: put_floats_def)
  have "unat f < 2 ^ 32" using unsigned_less [of f] by simp
  then have f: "of_nat (unat f mod 256 ^ 4) = f" by simp
  have "rd_take bs 4 (length pre) = (Inr (le_bytes 4 (unat f)), length (pre @ le_bytes 4 (unat f)))"
    by (rule rd_take_next [where post = "put_floats v @ post"]) (use Cons.prems split in simp_all)
  moreover have "rd_floats bs (length v) (length (pre @ le_bytes 4 (unat f))) =
      (Inr v, length ((pre @ le_bytes 4 (unat f)) @ put_floats v))"
    by (rule Cons.IH) (use Cons.prems split in simp_all)
  ultimately show ?case using f by (simp add: bindE_def retE_def split)
qed

lemma rd_entry_next:
  assumes "bs = pre @ encode_entry e @ post" "length bs < 2 ^ 64" "entry_ok dim e"
  shows "rd_entry ue bs dim (length pre) = (Inr e, length (pre @ encode_entry e))"
proof -
  obtain ns col i v where e: "e = (RecordKey ns col i, v)" by (cases e, cases "fst e") auto
  note ok = assms(3) [unfolded entry_ok_def e, simplified]
  let ?n = "le_bytes 4 (length i)"
  have bs: "bs = pre @ put_str16 ns @ put_str16 col @ ?n @ i @ put_floats v @ post"
    using assms(1) by (simp add: encode_entry_def e)
  have 1: "rd_str16 ue bs (length pre) = (Inr ns, length (pre @ put_str16 ns))"
    by (rule rd_str16_next [OF bs assms(2)]) (use ok in simp_all)
  have 2: "rd_str16 ue bs (length (pre @ put_str16 ns)) = (Inr col, length ((pre @ put_str16 ns) @ put_str16 col))"
    by (rule rd_str16_next [where post = "?n @ i @ put_floats v @ post"]) (use ok bs assms(2) in simp_all)
  have 3: "rd_u32 bs (length ((pre @ put_str16 ns) @ put_str16 col)) =
      (Inr (length i), length (((pre @ put_str16 ns) @ put_str16 col) @ ?n))"
    by (rule rd_u32_next [where post = "i @ put_floats v @ post"]) (use ok bs assms(2) in simp_all)
  have 4: "rd_take bs (length i) (length (((pre @ put_str16 ns) @ put_str16 col) @ ?n)) =
      (Inr i, length ((((pre @ put_str16 ns) @ put_str16 col) @ ?n) @ i))"
    by (rule rd_take_next [where post = "put_floats v @ post"]) (use bs assms(2) in simp_all)
  have 5: "rd_floats bs (length v) (length ((((pre @ put_str16 ns) @ put_str16 col) @ ?n) @ i)) =
      (Inr v, length (((((pre @ put_str16 ns) @ put_str16 col) @ ?n) @ i) @ put_floats v))"
    by (rule rd_floats_next [where post = post]) (use bs assms(2) in simp_all)
  have "length v = dim" "utf8_valid i" using ok by simp_all
  with 1 2 3 4 5 show ?thesis
    by (simp add: rd_entry_def bindE_def liftE_def retE_def from_utf8_def e encode_entry_def)
qed

lemma rd_entries_next:
  "bs = pre @ concat (map encode_entry es) @ post \<Longrightarrow> length bs < 2 ^ 64 \<Longrightarrow> list_all (entry_ok dim) es \<Longrightarrow>
   rd_entries ue bs dim (length es) (length pre) = (Inr es, length (pre @ concat (map encode_entry es)))"
proof (induction es arbitrary: pre)
  case Nil
  then show ?case by (simp add: retE_def)
next
  case (Cons e es)
  have "rd_entry ue bs dim (length pre) = (Inr e, length (pre @ encode_entry e))"
    by (rule rd_entry_next [where post = "concat (map encode_entry es) @ post"]) (use Cons.prems in simp_all)
  moreover have "rd_entries ue bs dim (length es) (length (pre @ encode_entry e)) =
      (Inr es, length ((pre @ encode_entry e) @ concat (map encode_entry es)))"
    by (rule Cons.IH) (use Cons.prems in simp_all)
  ultimately show ?case by (simp add: bindE_def retE_def)
qed

lemma length_encode_entry: "entry_ok dim e \<Longrightarrow> 8 + dim * 4 \<le> length (encode_entry e)"
  by (cases e) (simp add: entry_ok_def encode_entry_def)

lemma length_encode_entries:
  "list_all (entry_ok dim) es \<Longrightarrow> length es * (8 + dim * 4) \<le> length (concat (map encode_entry es))"
proof (induction es)
  case (Cons e es)
  then have "length es * (8 + dim * 4) \<le> length (concat (map encode_entry es))" by simp
  moreover have "8 + dim * 4 \<le> length (encode_entry e)" using Cons.prems by (intro length_encode_entry) simp
  ultimately show ?case by simp
qed simp

lemma decode_encode_shard:
  assumes "dim < 2 ^ 32" "length entries < 2 ^ 32" "list_all (entry_ok dim) entries"
    "length (encode_shard dim entries) < 2 ^ 64"
  shows "decode_shard ue (encode_shard dim entries) = Inr (dim, sort_key fst entries)"
proof -
  let ?es = "sort_key fst entries"
  let ?d = "le_bytes 4 dim" and ?c = "le_bytes 4 (length ?es)" and ?tail = "concat (map encode_entry (sort_key fst entries))"
  define bs where "bs = encode_shard dim entries"
  have bs: "bs = MAGIC @ [char_of VERSION] @ ?d @ ?c @ ?tail" by (simp add: bs_def encode_shard_def Let_def)
  have len: "length bs < 2 ^ 64" using assms(4) by (simp add: bs_def)
  have ok: "list_all (entry_ok dim) ?es" using assms(3) by (simp add: list_all_iff)
  have 1: "rd_take bs 4 0 = (Inr MAGIC, length MAGIC)"
    using rd_take_next [where pre = "[]" and b = MAGIC and n = 4, OF _ len] bs by (simp add: MAGIC_def)
  have 2: "rd_take bs 1 (length MAGIC) = (Inr [char_of VERSION], length (MAGIC @ [char_of VERSION]))"
    by (rule rd_take_next [OF bs len]) simp
  have 3: "rd_u32 bs (length (MAGIC @ [char_of VERSION])) = (Inr dim, length ((MAGIC @ [char_of VERSION]) @ ?d))"
    by (rule rd_u32_next [where post = "?c @ ?tail"]) (use bs len assms(1) in simp_all)
  have 4: "rd_u32 bs (length ((MAGIC @ [char_of VERSION]) @ ?d)) =
      (Inr (length ?es), length (((MAGIC @ [char_of VERSION]) @ ?d) @ ?c))"
    by (rule rd_u32_next [where post = ?tail]) (use bs len assms(2) in simp_all)
  have 5: "rd_entries ue bs dim (length ?es) (length (((MAGIC @ [char_of VERSION]) @ ?d) @ ?c)) =
      (Inr ?es, length ((((MAGIC @ [char_of VERSION]) @ ?d) @ ?c) @ ?tail))"
    by (rule rd_entries_next [where post = "[]"]) (use bs len ok in simp_all)
  have "length bs - length (((MAGIC @ [char_of VERSION]) @ ?d) @ ?c) = length ?tail" by (simp add: bs)
  moreover have "length ?es * (8 + dim * 4) \<le> length ?tail" by (rule length_encode_entries [OF ok])
  then have "length ?es \<le> length ?tail div (8 + dim * 4)" by (simp add: less_eq_div_iff_mult_less_eq)
  ultimately have "rd_shard ue bs 0 = (Inr (dim, ?es), length ((((MAGIC @ [char_of VERSION]) @ ?d) @ ?c) @ ?tail))"
    using 1 2 3 4 5 by (simp add: rd_shard_def bindE_def retE_def VERSION_def)
  then show ?thesis by (simp add: decode_shard_def bs_def)
qed

text \<open>
  What is read is bounded by what is there: the entries a shard decodes to have the declared
  dimension and cannot be more than the bytes can hold, whatever the header claims.
\<close>

lemma bindE_eq_Inr: "bindE m f s = (Inr y, t) \<longleftrightarrow> (\<exists>x s'. m s = (Inr x, s') \<and> f x s' = (Inr y, t))"
  by (auto simp: bindE_def split: prod.splits sum.splits)

lemmas io_results = bindE_eq_Inr retE_def throwE_def

lemma rd_floats_length: "rd_floats bs n pos = (Inr v, pos') \<Longrightarrow> length v = n"
  by (induction n arbitrary: pos v) (auto simp: io_results)

lemma rd_entry_length: "rd_entry ue bs dim pos = (Inr (k, v), pos') \<Longrightarrow> length v = dim"
  by (auto simp: rd_entry_def io_results dest: rd_floats_length)

lemma rd_entries_length:
  "rd_entries ue bs dim n pos = (Inr es, pos') \<Longrightarrow> length es = n \<and> (\<forall>(k, v) \<in> set es. length v = dim)"
  by (induction n arbitrary: pos es) (fastforce simp: io_results dest: rd_entry_length)+

lemma decode_shard_bounded:
  assumes "decode_shard ue bs = Inr (dim, es)"
  shows "length es * (8 + dim * 4) \<le> length bs \<and> (\<forall>(k, v) \<in> set es. length v = dim)"
proof -
  obtain t where "rd_shard ue bs 0 = (Inr (dim, es), t)"
    using assms by (cases "rd_shard ue bs 0") (simp add: decode_shard_def)
  then obtain count pos where run: "rd_entries ue bs dim count pos = (Inr es, t)"
    and fits: "\<not> count > (length bs - pos) div (8 + dim * 4)"
    by (auto simp: rd_shard_def io_results Let_def split: if_splits)
  have "count \<le> (length bs - pos) div (8 + dim * 4)" using fits by (rule leI)
  then have "count * (8 + dim * 4) \<le> (length bs - pos) div (8 + dim * 4) * (8 + dim * 4)" by (rule mult_le_mono1)
  also have "\<dots> \<le> length bs - pos" by (rule div_times_less_eq_dividend)
  finally have "count * (8 + dim * 4) \<le> length bs" by simp
  with rd_entries_length [OF run] show ?thesis by simp
qed

end
