(* ===== verification/Gz_RecordIndex.thy ===== *)
theory Gz_RecordIndex
  imports Gz_Vector Gz_Blobs
begin

text \<open>
  The durable vector index (\<open>gonzalo-vector/src/record_index.rs\<close>): vectors in content-addressed shard
  blobs that one \<open>VectorManifest\<close> record names, served from an in-memory index and written through under
  optimistic concurrency. A handle (\<open>rvi\<close>) and the store it runs on are the state of every operation;
  \<open>last_seen\<close> and the in-memory index are the parts of the handle that change. The commit lock
  serializes the commits of one handle, so that a commit is one run of the code; other handles act
  between runs. The concurrent reads of \<open>open\<close> have no order of their own; they are made in the order
  of the shard ids here, a batch at a time.

  The digest, the JSON of the manifest, the text of a UTF-8 error and the \<open>Debug\<close> form of a string are
  third-party or standard-library functions, gathered in \<open>vec_env\<close>.
\<close>

record vec_env =
  ve_H :: blake3
  ve_to_vec :: "vector_manifest \<Rightarrow> bytes"
  ve_from_slice :: "bytes \<Rightarrow> string + vector_manifest"
  ve_utf8_error :: "bytes \<Rightarrow> string"
  ve_debug :: "string \<Rightarrow> string"

definition SHARD_READ_CONCURRENCY :: nat where
  "SHARD_READ_CONCURRENCY = 16"

definition MAX_COMMIT_ATTEMPTS :: nat where
  "MAX_COMMIT_ATTEMPTS = 5"

datatype delta = Upsert record_key "f32 list" | Remove record_key

fun delta_key :: "delta \<Rightarrow> record_key" where
  "delta_key (Upsert k _) = k"
| "delta_key (Remove k) = k"

record rvi =
  rx_key :: record_key
  rx_space :: string
  rx_dim :: nat
  rx_shards :: "16 word"
  rx_inner :: vec_map
  rx_meta :: meta
  rx_last_seen :: "rec option"

definition on_store :: "('s, 'e, 'a) io \<Rightarrow> (rvi \<times> 's, 'e, 'a) io" where
  "on_store m hs = (case m (snd hs) of (r, s') \<Rightarrow> (r, (fst hs, s')))"

definition on_memory :: "(vec_map, 'e, 'a) io \<Rightarrow> (rvi \<times> 's, 'e, 'a) io" where
  "on_memory m hs = (case m (rx_inner (fst hs)) of (r, m') \<Rightarrow> (r, ((fst hs)\<lparr>rx_inner := m'\<rparr>, snd hs)))"

definition seen :: "rec \<Rightarrow> (rvi \<times> 's, 'e, unit) io" where
  "seen r hs = (Inr (), ((fst hs)\<lparr>rx_last_seen := Some r\<rparr>, snd hs))"

definition index_label :: "record_key \<Rightarrow> string" where
  "index_label k = ''vector index '' @ key_display k @ '': ''"

definition missing_blob_error :: "record_key \<Rightarrow> 16 word \<Rightarrow> content_hash \<Rightarrow> core_error" where
  "missing_blob_error k i h =
     Backend (index_label k @ ''shard '' @ show_nat (unat i) @ '' names blob '' @ hash_str h @ '' but it is absent'')"

definition check_space_and_dim ::
  "vec_env \<Rightarrow> record_key \<Rightarrow> vector_manifest \<Rightarrow> string \<Rightarrow> nat \<Rightarrow> unit result" where
  "check_space_and_dim E k m space dim =
     (if vm_space m \<noteq> space then
        Inl (Invalid (index_label k @ ''stored embedding space is '' @ ve_debug E (vm_space m) @
          '', opened as '' @ ve_debug E space))
      else if vm_dim m \<noteq> dim then
        Inl (Invalid (index_label k @ ''stored dimension is '' @ show_nat (vm_dim m) @
          '', opened as '' @ show_nat dim))
      else Inr ())"

definition check_key_len :: "record_key \<Rightarrow> unit result" where
  "check_key_len k =
     (if length (namespace k) > 65535 \<or> length (collection k) > 65535 then
        Inl (Invalid (''vector index: key '' @ key_display k @ '' has a namespace or collection longer than 64 KiB''))
      else Inr ())"

subsection \<open>Shards in memory\<close>

definition in_shard :: "vec_env \<Rightarrow> 16 word \<Rightarrow> 16 word \<Rightarrow> record_key \<Rightarrow> bool" where
  "in_shard E shards i k \<longleftrightarrow> shard_of (ve_H E) k shards = i"

definition clear_shard :: "vec_env \<Rightarrow> 16 word \<Rightarrow> (rvi \<times> 's, core_error, unit) io" where
  "clear_shard E i hs =
     on_memory (\<lambda>m. (Inr (), fold (\<lambda>e. bt_remove (fst e)) (collect_where (in_shard E (rx_shards (fst hs)) i) m) m)) hs"

definition apply_shard_bytes :: "vec_env \<Rightarrow> 16 word \<Rightarrow> bytes \<Rightarrow> (rvi \<times> 's, core_error, unit) io" where
  "apply_shard_bytes E i bs hs =
     (case decode_shard (ve_utf8_error E) bs of
        Inl e \<Rightarrow> (Inl e, hs)
      | Inr (dim, entries) \<Rightarrow>
          if dim \<noteq> rx_dim (fst hs) then
            (Inl (Backend (index_label (rx_key (fst hs)) @ ''shard '' @ show_nat (unat i) @ '' has dimension '' @
               show_nat dim @ '', manifest says '' @ show_nat (rx_dim (fst hs)))), hs)
          else bindE (clear_shard E i) (\<lambda>_. on_memory (mvi_upsert_many entries)) hs)"

definition hydrate_shard ::
  "vec_env \<Rightarrow> 's blob_vt \<Rightarrow> vector_manifest \<Rightarrow> 16 word \<Rightarrow> (rvi \<times> 's, core_error, unit) io" where
  "hydrate_shard E bv m i =
     (case bt_get (vm_entries m) i of
        None \<Rightarrow> clear_shard E i
      | Some h \<Rightarrow>
          bindE (on_store (bv_get_blob bv h)) (\<lambda>b hs.
            case b of
              None \<Rightarrow> (Inl (missing_blob_error (rx_key (fst hs)) i h), hs)
            | Some bytes \<Rightarrow> apply_shard_bytes E i bytes hs))"

definition stage_step :: "vec_env \<Rightarrow> 16 word \<Rightarrow> 16 word \<Rightarrow> delta \<Rightarrow> vec_map \<Rightarrow> vec_map" where
  "stage_step E shards i d staged =
     (case d of
        Upsert k v \<Rightarrow> if in_shard E shards i k then bt_insert k v staged else staged
      | Remove k \<Rightarrow> if in_shard E shards i k then bt_remove k staged else staged)"

definition stage_shard :: "vec_env \<Rightarrow> rvi \<Rightarrow> 16 word \<Rightarrow> delta list \<Rightarrow> vec_entry list" where
  "stage_shard E h i ds =
     fold (stage_step E (rx_shards h) i) ds (bt_of_list (collect_where (in_shard E (rx_shards h) i) (rx_inner h)))"

subsection \<open>Opening\<close>

fun fetch_shards ::
  "'s blob_vt \<Rightarrow> (16 word \<times> content_hash) list \<Rightarrow> (rvi \<times> 's, core_error, (16 word \<times> bytes) list) io" where
  "fetch_shards bv [] = retE []"
| "fetch_shards bv ((i, h) # es) =
     bindE (on_store (bv_get_blob bv h)) (\<lambda>b hs.
       case b of
         None \<Rightarrow> (Inl (missing_blob_error (rx_key (fst hs)) i h), hs)
       | Some bytes \<Rightarrow> bindE (fetch_shards bv es) (\<lambda>rest. retE ((i, bytes) # rest)) hs)"

fun apply_shards :: "vec_env \<Rightarrow> (16 word \<times> bytes) list \<Rightarrow> (rvi \<times> 's, core_error, unit) io" where
  "apply_shards E [] = retE ()"
| "apply_shards E ((i, bs) # rest) = bindE (apply_shard_bytes E i bs) (\<lambda>_. apply_shards E rest)"

fun hydrate_batches ::
  "vec_env \<Rightarrow> 's blob_vt \<Rightarrow> (16 word \<times> content_hash) list list \<Rightarrow> (rvi \<times> 's, core_error, unit) io" where
  "hydrate_batches E bv [] = retE ()"
| "hydrate_batches E bv (b # bs) =
     bindE (fetch_shards bv b) (\<lambda>fetched. bindE (apply_shards E fetched) (\<lambda>_. hydrate_batches E bv bs))"

definition existing_of :: "record_key \<Rightarrow> rec option \<Rightarrow> rec option result" where
  "existing_of k cur =
     (case cur of
        Some t \<Rightarrow>
          if is_tombstone t then
            if rec_deleted_kind t = Some GraphManifest \<or> rec_deleted_kind t = Some VectorManifest then
              Inl (Invalid (index_label k @ MANIFEST_TOMBSTONE_RECREATE_REJECTED))
            else Inr None
          else Inr (Some t)
      | None \<Rightarrow> Inr None)"

definition manifest_of :: "vec_env \<Rightarrow> rec \<Rightarrow> vector_manifest result" where
  "manifest_of E r = vector_manifest_from_body (ve_from_slice E) (rec_body r)"

definition rvi_new :: "record_key \<Rightarrow> string \<Rightarrow> nat \<Rightarrow> 16 word \<Rightarrow> rec option \<Rightarrow> rvi" where
  "rvi_new k space dim shards existing =
     \<lparr>rx_key = k, rx_space = space, rx_dim = dim, rx_shards = shards, rx_inner = [],
      rx_meta = meta_new (identity_new ''gonzalo-vector'') ''gonzalo-vector'', rx_last_seen = existing\<rparr>"

definition opened_manifest ::
  "vec_env \<Rightarrow> record_key \<Rightarrow> string \<Rightarrow> nat \<Rightarrow> 16 word \<Rightarrow> rec option \<Rightarrow> (16 word \<times> vector_manifest option) result" where
  "opened_manifest E k space dim shards existing =
     (case existing of
        None \<Rightarrow> Inr (shards, None)
      | Some record \<Rightarrow>
          bindR (manifest_of E record) (\<lambda>m.
          bindR (check_space_and_dim E k m space dim) (\<lambda>_.
          if vm_shards m = 0 then Inl (Backend (index_label k @ ''manifest declares 0 shards''))
          else Inr (vm_shards m, Some m))))"

definition open_with_shards ::
  "vec_env \<Rightarrow> 's store_vt \<Rightarrow> 's blob_vt \<Rightarrow> record_key \<Rightarrow> string \<Rightarrow> nat \<Rightarrow> 16 word \<Rightarrow> ('s, core_error, rvi) io" where
  "open_with_shards E vt bv k space dim shards =
     bindE (vt_get_raw vt k) (\<lambda>cur.
     bindE (liftE (existing_of k cur)) (\<lambda>existing.
     bindE (liftE (opened_manifest E k space dim shards existing)) (\<lambda>(n, m) s.
       let h = rvi_new k space dim n existing in
       case m of
         None \<Rightarrow> (Inr h, s)
       | Some m \<Rightarrow>
           (case hydrate_batches E bv (chunks SHARD_READ_CONCURRENCY (vm_entries m)) (h, s) of
              (Inl e, (_, s')) \<Rightarrow> (Inl e, s')
            | (Inr _, (h', s')) \<Rightarrow> (Inr h', s')))))"

definition rvi_open ::
  "vec_env \<Rightarrow> 's store_vt \<Rightarrow> 's blob_vt \<Rightarrow> record_key \<Rightarrow> string \<Rightarrow> nat \<Rightarrow> ('s, core_error, rvi) io" where
  "rvi_open E vt bv k space dim = open_with_shards E vt bv k space dim DEFAULT_SHARDS"

subsection \<open>Committing\<close>

fun put_shards ::
  "vec_env \<Rightarrow> 's blob_vt \<Rightarrow> delta list \<Rightarrow> 16 word list \<Rightarrow> (16 word, content_hash) btree \<Rightarrow>
   (rvi \<times> 's, core_error, (16 word, content_hash) btree) io" where
  "put_shards E bv ds [] acc = retE acc"
| "put_shards E bv ds (i # ids) acc =
     (\<lambda>hs. bindE (on_store (bv_put_blob bv (encode_shard (rx_dim (fst hs)) (stage_shard E (fst hs) i ds))))
        (\<lambda>h. put_shards E bv ds ids (bt_insert i h acc)) hs)"

fun verify_shard_blobs ::
  "vec_env \<Rightarrow> 's blob_vt \<Rightarrow> (16 word \<times> content_hash) list \<Rightarrow> (rvi \<times> 's, core_error, unit) io" where
  "verify_shard_blobs E bv [] = retE ()"
| "verify_shard_blobs E bv ((i, h) # written) =
     bindE (on_store (bv_has_blob bv h)) (\<lambda>there hs.
       if there then verify_shard_blobs E bv written hs
       else
         bindE (on_store (bv_put_blob bv (encode_shard (rx_dim (fst hs))
             (collect_where (in_shard E (rx_shards (fst hs)) i) (rx_inner (fst hs)))))) (\<lambda>restored hs.
           if restored \<noteq> h then
             (Inl (Backend (index_label (rx_key (fst hs)) @ ''the manifest commit already landed, but shard '' @
                show_nat (unat i) @ '' was swept and the re-encoded bytes hash to '' @ hash_str restored @
                '' rather than the committed '' @ hash_str h @ ''; the index is unrecoverable'')), hs)
           else verify_shard_blobs E bv written hs) hs)"

fun apply_deltas :: "delta list \<Rightarrow> (rvi \<times> 's, core_error, unit) io" where
  "apply_deltas [] = retE ()"
| "apply_deltas (d # ds) =
     bindE (on_memory (case d of Upsert k v \<Rightarrow> mvi_upsert k v | Remove k \<Rightarrow> mvi_remove k)) (\<lambda>_. apply_deltas ds)"

definition dirty_shards :: "vec_env \<Rightarrow> 16 word \<Rightarrow> delta list \<Rightarrow> 16 word list" where
  "dirty_shards E shards ds = bts_of_list (map (\<lambda>d. shard_of (ve_H E) (delta_key d) shards) ds)"

definition changed_ids ::
  "(16 word, content_hash) btree \<Rightarrow> (16 word, content_hash) btree \<Rightarrow> 16 word list" where
  "changed_ids a b = filter (\<lambda>i. bt_get a i \<noteq> bt_get b i) (bts_of_list (map fst a @ map fst b))"

fun hydrate_all :: "vec_env \<Rightarrow> 's blob_vt \<Rightarrow> vector_manifest \<Rightarrow> 16 word list \<Rightarrow> (rvi \<times> 's, core_error, unit) io" where
  "hydrate_all E bv m [] = retE ()"
| "hydrate_all E bv m (i # ids) = bindE (hydrate_shard E bv m i) (\<lambda>_. hydrate_all E bv m ids)"

text \<open>The conflict arm: catch up with the winner, or stop if its index is not the one this handle declares.\<close>

definition catch_up ::
  "vec_env \<Rightarrow> 's store_vt \<Rightarrow> 's blob_vt \<Rightarrow> 16 word list \<Rightarrow> (16 word, content_hash) btree \<Rightarrow>
   (rvi \<times> 's, core_error, unit) io" where
  "catch_up E vt bv dirty base_entries hs0 =
     (let h = fst hs0 in
      bindE (on_store (vt_get vt (rx_key h))) (\<lambda>w.
      bindE (liftE (case w of
          None \<Rightarrow> Inl (Backend (index_label (rx_key h) @ ''manifest vanished mid-commit''))
        | Some r \<Rightarrow> Inr r)) (\<lambda>winner.
      bindE (liftE (manifest_of E winner)) (\<lambda>m.
      bindE (liftE (check_space_and_dim E (rx_key h) m (rx_space h) (rx_dim h))) (\<lambda>_.
      if vm_shards m \<noteq> rx_shards h then
        throwE (Invalid (index_label (rx_key h) @ ''stored shard count is '' @ show_nat (unat (vm_shards m)) @
          '', opened as '' @ show_nat (unat (rx_shards h))))
      else
        bindE (hydrate_all E bv m (bts_of_list (dirty @ changed_ids base_entries (vm_entries m)))) (\<lambda>_.
          seen winner))))) hs0)"

text \<open>What a commit sends: the manifest it would like to have and the revision it builds on.\<close>

definition commit_record :: "vec_env \<Rightarrow> rvi \<Rightarrow> vector_manifest \<Rightarrow> rec \<times> revision option" where
  "commit_record E h m =
     (let body = vector_manifest_to_body (ve_to_vec E) m in
      case rx_last_seen h of
        Some current \<Rightarrow> (record_update (ve_H E) current body (rx_meta h), Some (rec_revision current))
      | None \<Rightarrow> (record_create (ve_H E) (rx_key h) VectorManifest body (rx_meta h), None))"

definition base_manifest :: "vec_env \<Rightarrow> rvi \<Rightarrow> vector_manifest result" where
  "base_manifest E h =
     (case rx_last_seen h of
        Some record \<Rightarrow> manifest_of E record
      | None \<Rightarrow> Inr (vector_manifest_new (rx_space h) (rx_dim h) (rx_shards h)))"

text \<open>The attempts, counted down; the last one does not catch up but gives up.\<close>

fun commit_attempts ::
  "vec_env \<Rightarrow> 's store_vt \<Rightarrow> 's blob_vt \<Rightarrow> 16 word list \<Rightarrow> delta list \<Rightarrow> nat \<Rightarrow> (rvi \<times> 's, core_error, unit) io" where
  "commit_attempts E vt bv dirty ds 0 = throwE (Backend ''unreachable'')"
| "commit_attempts E vt bv dirty ds (Suc n) =
     (\<lambda>hs. bindE (liftE (base_manifest E (fst hs))) (\<lambda>base.
       bindE (put_shards E bv ds dirty []) (\<lambda>blobs hs1.
         (let m = base\<lparr>vm_entries := bt_extend (vm_entries base) blobs\<rparr>;
              (record, expected) = commit_record E (fst hs1) m
          in bindE (on_store (vt_put vt record expected)) (\<lambda>res.
               case res of
                 Committed rv \<Rightarrow>
                   bindE (apply_deltas ds) (\<lambda>_.
                   bindE (seen (record\<lparr>rec_revision := rv\<rparr>)) (\<lambda>_. verify_shard_blobs E bv blobs))
               | PutConflict _ \<Rightarrow>
                   if n > 0 then
                     bindE (catch_up E vt bv dirty (vm_entries base)) (\<lambda>_. commit_attempts E vt bv dirty ds n)
                   else
                     throwE (Backend (index_label (rx_key (fst hs1)) @ ''gave up after '' @
                       show_nat MAX_COMMIT_ATTEMPTS @ '' conflicting commits'')))) hs1)) hs)"

definition commit ::
  "vec_env \<Rightarrow> 's store_vt \<Rightarrow> 's blob_vt \<Rightarrow> delta list \<Rightarrow> (rvi \<times> 's, core_error, unit) io" where
  "commit E vt bv ds hs =
     (if ds = [] then (Inr (), hs)
      else commit_attempts E vt bv (dirty_shards E (rx_shards (fst hs)) ds) ds MAX_COMMIT_ATTEMPTS hs)"

subsection \<open>The \<open>VectorIndex\<close> operations\<close>

definition rvi_upsert ::
  "vec_env \<Rightarrow> 's store_vt \<Rightarrow> 's blob_vt \<Rightarrow> record_key \<Rightarrow> f32 list \<Rightarrow> (rvi \<times> 's, core_error, unit) io" where
  "rvi_upsert E vt bv k v =
     bindE (liftE (check_key_len k)) (\<lambda>_ hs.
       if length v \<noteq> rx_dim (fst hs) then
         (Inl (Invalid (index_label (rx_key (fst hs)) @ ''expected dimension '' @ show_nat (rx_dim (fst hs)) @
            '', got '' @ show_nat (length v))), hs)
       else commit E vt bv [Upsert k v] hs)"

definition rvi_remove ::
  "vec_env \<Rightarrow> 's store_vt \<Rightarrow> 's blob_vt \<Rightarrow> record_key \<Rightarrow> (rvi \<times> 's, core_error, unit) io" where
  "rvi_remove E vt bv k = commit E vt bv [Remove k]"

fun check_items :: "record_key \<Rightarrow> nat \<Rightarrow> vec_entry list \<Rightarrow> unit result" where
  "check_items idx dim [] = Inr ()"
| "check_items idx dim ((k, v) # items) =
     bindR (check_key_len k) (\<lambda>_.
       if length v \<noteq> dim then
         Inl (Invalid (index_label idx @ key_display k @ '' has dimension '' @ show_nat (length v) @
           '', index is '' @ show_nat dim))
       else check_items idx dim items)"

definition rvi_upsert_many ::
  "vec_env \<Rightarrow> 's store_vt \<Rightarrow> 's blob_vt \<Rightarrow> vec_entry list \<Rightarrow> (rvi \<times> 's, core_error, unit) io" where
  "rvi_upsert_many E vt bv items hs =
     bindE (liftE (check_items (rx_key (fst hs)) (rx_dim (fst hs)) items))
       (\<lambda>_. commit E vt bv (map (\<lambda>(k, v). Upsert k v) items)) hs"

definition rvi_query ::
  "(f32 list \<Rightarrow> f32 list \<Rightarrow> f32) \<Rightarrow> f32 list \<Rightarrow> nat \<Rightarrow> key_prefix \<Rightarrow> rvi \<Rightarrow> vmatch list result" where
  "rvi_query cosine q k f h = mvi_query cosine q k f (rx_inner h)"

definition rvi_keys :: "key_prefix \<Rightarrow> rvi \<Rightarrow> record_key list" where
  "rvi_keys f h = mvi_keys f (rx_inner h)"

end
