(* ===== verification/Gz_RecordIndexProofs.thy ===== *)
theory Gz_RecordIndexProofs
  imports Gz_RecordIndex
begin

text \<open>
  The durable index loses nothing. A map of vectors is \<open>stored\<close> when the manifest names, for every
  shard that has vectors, a blob with exactly those; a handle is \<open>coherent\<close> with the map it was last in
  sync with. Opening a stored index gives its map. A commit of a handle, current or stale, succeeds
  and leaves the map of the store with the changes on top, both in the store and in the handle: what
  another writer committed in between is kept.
\<close>

subsection \<open>Deltas and shards, as maps\<close>

fun delta_step :: "delta \<Rightarrow> vec_map \<Rightarrow> vec_map" where
  "delta_step (Upsert k v) m = bt_insert k v m"
| "delta_step (Remove k) m = bt_remove k m"

definition deltas_on :: "delta list \<Rightarrow> vec_map \<Rightarrow> vec_map" where
  "deltas_on ds m = fold delta_step ds m"

definition dims :: "nat \<Rightarrow> vec_map \<Rightarrow> bool" where
  "dims dim m \<longleftrightarrow> (\<forall>(k, v) \<in> set m. length v = dim)"

definition delta_dims :: "nat \<Rightarrow> delta list \<Rightarrow> bool" where
  "delta_dims dim ds \<longleftrightarrow> (\<forall>k v. Upsert k v \<in> set ds \<longrightarrow> length v = dim)"

lemma bt_ok_delta_step [simp]: "bt_ok m \<Longrightarrow> bt_ok (delta_step d m)"
  by (cases d) simp_all

lemma bt_ok_deltas_on [simp]: "bt_ok m \<Longrightarrow> bt_ok (deltas_on ds m)"
  by (induction ds arbitrary: m) (simp_all add: deltas_on_def)

lemma set_bt_insert: "set (bt_insert k v m) \<subseteq> insert (k, v) (set m)"
  by (induction k v m rule: bt_insert.induct) auto

lemma dims_insert: "dims d m \<Longrightarrow> length v = d \<Longrightarrow> dims d (bt_insert k v m)"
  using set_bt_insert [of k v m] by (auto simp: dims_def)

lemma dims_filter: "dims d m \<Longrightarrow> dims d (filter P m)"
  by (auto simp: dims_def)

lemma dims_remove: "dims d m \<Longrightarrow> dims d (bt_remove k m)"
  by (simp add: bt_remove_def dims_filter)

lemma map_of_filter_key: "map_of (filter (\<lambda>e. P (fst e)) m) k = (if P k then map_of m k else None)"
  by (induction m) auto

lemma filter_bt_insert:
  assumes "bt_ok m"
  shows "filter (\<lambda>e. P (fst e)) (bt_insert k v m) =
     (if P k then bt_insert k v (filter (\<lambda>e. P (fst e)) m) else filter (\<lambda>e. P (fst e)) m)"
  by (rule bt_eqI) (use assms in \<open>auto simp: fun_eq_iff map_of_filter_key\<close>)

lemma filter_bt_remove: "filter P (bt_remove k m) = bt_remove k (filter P m)"
  by (simp add: bt_remove_def conj_commute)

lemma bt_of_list_id: "bt_ok m \<Longrightarrow> bt_of_list m = m"
proof (rule bt_eqI)
  assume ok: "bt_ok m"
  have "map_of (rev m) = map_of m"
    using bt_ok_distinct [OF ok] by (subst map_of_inject_set) (simp_all add: rev_map [symmetric])
  then show "bt_get (bt_of_list m) = bt_get m"
    using bt_get_extend [of "[]" m] by (simp add: bt_of_list_def)
qed simp_all

lemma sort_bt: "bt_ok m \<Longrightarrow> sort_key fst m = m"
  by (rule sort_key_id_if_sorted) (auto simp: bt_ok_def sorted_wrt_map intro: sorted_wrt_mono_rel [of _ "\<lambda>x y. fst x < fst y"])

text \<open>The shard of a map.\<close>

definition shard_map :: "vec_env \<Rightarrow> 16 word \<Rightarrow> vec_map \<Rightarrow> 16 word \<Rightarrow> vec_map" where
  "shard_map E n m i = collect_where (in_shard E n i) m"

lemma shard_map_get: "bt_get (shard_map E n m i) k = (if in_shard E n i k then bt_get m k else None)"
  by (simp add: shard_map_def collect_where_def map_of_filter_key)

lemma bt_ok_shard [simp]: "bt_ok m \<Longrightarrow> bt_ok (shard_map E n m i)"
  by (simp add: shard_map_def collect_where_def)

lemma dims_shard: "dims d m \<Longrightarrow> dims d (shard_map E n m i)"
  by (simp add: shard_map_def collect_where_def dims_filter)

lemma shard_stage_step:
  "bt_ok m \<Longrightarrow> stage_step E n i d (shard_map E n m i) = shard_map E n (delta_step d m) i"
  by (cases d) (simp_all add: stage_step_def shard_map_def collect_where_def filter_bt_insert filter_bt_remove,
    auto simp: bt_remove_def intro!: filter_cong)

lemma stage_shard_eq:
  assumes "bt_ok (rx_inner h)"
  shows "stage_shard E h i ds = shard_map E (rx_shards h) (deltas_on ds (rx_inner h)) i"
proof -
  have "bt_ok m \<Longrightarrow> fold (stage_step E n i) ds (shard_map E n m i) = shard_map E n (fold delta_step ds m) i" for m n
    by (induction ds arbitrary: m) (simp_all add: shard_stage_step)
  with assms show ?thesis
    by (simp add: stage_shard_def deltas_on_def bt_of_list_id shard_map_def [symmetric])
qed

lemma check_dim_ok: "dims d m \<Longrightarrow> check_dim m d = Inr ()"
  by (auto simp: check_dim_def stored_dim_def dims_def split: list.splits)

lemma upsert_many_ok:
  "dims d m \<Longrightarrow> \<forall>(k, v) \<in> set es. length v = d \<Longrightarrow>
   mvi_upsert_many es m = (Inr (), bt_extend m es) \<and> dims d (bt_extend m es)"
proof (induction es arbitrary: m)
  case Nil
  then show ?case by (simp add: retE_def bt_extend_def)
next
  case (Cons e es)
  obtain k v where e: "e = (k, v)" by (cases e)
  with Cons.prems have v: "length v = d" by simp
  have "dims d (bt_insert k v m)" by (rule dims_insert [OF Cons.prems(1) v])
  from Cons.IH [OF this] Cons.prems show ?case
    by (simp add: e v bindE_def mvi_upsert_def check_dim_ok bt_extend_def)
qed

text \<open>Replacing a shard in memory.\<close>

definition clear_map :: "vec_env \<Rightarrow> 16 word \<Rightarrow> 16 word \<Rightarrow> vec_map \<Rightarrow> vec_map" where
  "clear_map E n i m = filter (\<lambda>e. \<not> in_shard E n i (fst e)) m"

lemma clear_map_get: "bt_get (clear_map E n i m) k = (if in_shard E n i k then None else bt_get m k)"
  unfolding clear_map_def by (subst map_of_filter_key [where P = "\<lambda>k. \<not> in_shard E n i k"]) simp

lemma fold_remove: "fold (\<lambda>e. bt_remove (fst e)) es m = filter (\<lambda>e. fst e \<notin> fst ` set es) m"
proof (induction es arbitrary: m)
  case (Cons e es)
  have "fold (\<lambda>e. bt_remove (fst e)) (e # es) m = filter (\<lambda>x. fst x \<notin> fst ` set es) (bt_remove (fst e) m)"
    by (simp add: Cons)
  also have "\<dots> = filter (\<lambda>x. fst x \<notin> fst ` set (e # es)) m"
    unfolding bt_remove_def filter_filter by (rule filter_cong) auto
  finally show ?case .
qed simp

lemma clear_shard_eq:
  "clear_shard E i (h, s) = (Inr (), (h\<lparr>rx_inner := clear_map E (rx_shards h) i (rx_inner h)\<rparr>, s))"
proof -
  have "fold (\<lambda>e. bt_remove (fst e)) (collect_where (in_shard E n i) m) m = clear_map E n i m" for n m
    unfolding fold_remove clear_map_def
    by (rule filter_cong) (auto simp: collect_where_def rev_image_eqI)
  then show ?thesis by (simp add: clear_shard_def on_memory_def)
qed

definition replaced :: "vec_env \<Rightarrow> 16 word \<Rightarrow> vec_map \<Rightarrow> 16 word \<Rightarrow> vec_map \<Rightarrow> vec_map" where
  "replaced E n m i a = bt_extend (clear_map E n i a) (shard_map E n m i)"

lemma replaced_ok:
  assumes "bt_ok a" "bt_ok m" "dims d a" "dims d m"
  shows "bt_ok (replaced E n m i a)" "dims d (replaced E n m i a)"
    "bt_get (replaced E n m i a) k = (if in_shard E n i k then bt_get m k else bt_get a k)"
    "mvi_upsert_many (shard_map E n m i) (clear_map E n i a) = (Inr (), replaced E n m i a)"
proof -
  have c: "bt_ok (clear_map E n i a)" "dims d (clear_map E n i a)"
    using assms by (simp_all add: clear_map_def dims_filter)
  have "\<forall>(k, v) \<in> set (shard_map E n m i). length v = d" using dims_shard [OF assms(4)] by (simp add: dims_def)
  from upsert_many_ok [OF c(2) this] show "dims d (replaced E n m i a)"
    "mvi_upsert_many (shard_map E n m i) (clear_map E n i a) = (Inr (), replaced E n m i a)"
    by (simp_all add: replaced_def)
  show "bt_ok (replaced E n m i a)" using c(1) by (simp add: replaced_def)
  have "map_of (rev (shard_map E n m i)) = map_of (shard_map E n m i)"
    using bt_ok_distinct [OF bt_ok_shard [OF assms(2)]] by (subst map_of_inject_set) (simp_all add: rev_map [symmetric])
  then show "bt_get (replaced E n m i a) k = (if in_shard E n i k then bt_get m k else bt_get a k)"
    using c(1) by (auto simp: replaced_def map_add_def shard_map_get clear_map_get split: option.splits)
qed

subsection \<open>The contract\<close>

locale vector_store =
  full_store H cap vk vt abs inv now bv blobs hv
  for H :: blake3 and cap :: nat and vk :: "record_key \<Rightarrow> bool" and vt :: "'s store_vt"
    and abs :: "'s \<Rightarrow> store_map" and inv :: "'s \<Rightarrow> bool" and now :: "'s \<Rightarrow> int"
    and bv :: "'s blob_vt" and blobs :: "'s \<Rightarrow> blob_map" and hv :: "content_hash \<Rightarrow> bool" +
  fixes E :: vec_env and K :: record_key and space :: string and dim :: nat and n :: "16 word"
  assumes env_H: "ve_H E = H"
    and manifest_codec: "bt_ok (vm_entries M) \<Longrightarrow> ve_from_slice E (ve_to_vec E M) = Inr M"
    and key_valid: "vk K"
    and shards_pos: "n \<noteq> 0"
    and dim_small: "dim < 2 ^ 32"
begin

abbreviation shard :: "vec_map \<Rightarrow> 16 word \<Rightarrow> vec_map" where
  "shard \<equiv> shard_map E n"

definition shard_image :: "vec_map \<Rightarrow> 16 word \<Rightarrow> bytes" where
  "shard_image m i = encode_shard dim (shard m i)"

text \<open>A map the shard format can hold.\<close>

definition map_ok :: "vec_map \<Rightarrow> bool" where
  "map_ok m \<longleftrightarrow> bt_ok m \<and> list_all (entry_ok dim) m \<and> length m < 2 ^ 32 \<and>
     (\<forall>i. length (shard_image m i) < 2 ^ 64)"

definition describes :: "(16 word, content_hash) btree \<Rightarrow> vec_map \<Rightarrow> bool" where
  "describes es m \<longleftrightarrow> bt_ok es \<and>
     (\<forall>i. case bt_get es i of None \<Rightarrow> shard m i = [] | Some h \<Rightarrow> h = content_hash_of H (shard_image m i))"

definition manifest_for :: "vector_manifest \<Rightarrow> vec_map \<Rightarrow> bool" where
  "manifest_for M m \<longleftrightarrow> vm_space M = space \<and> vm_dim M = dim \<and> vm_shards M = n \<and> describes (vm_entries M) m"

definition holds :: "'s \<Rightarrow> bytes \<Rightarrow> bool" where
  "holds s c \<longleftrightarrow> map_option fst (blobs s (content_hash_of H c)) = Some c"

definition kept :: "'s \<Rightarrow> (16 word, content_hash) btree \<Rightarrow> vec_map \<Rightarrow> bool" where
  "kept s es m \<longleftrightarrow> (\<forall>i. bt_get es i \<noteq> None \<longrightarrow> holds s (shard_image m i))"

definition stored :: "'s \<Rightarrow> rec \<Rightarrow> vec_map \<Rightarrow> bool" where
  "stored s r m \<longleftrightarrow> inv s \<and> abs s K = Some r \<and> \<not> is_tombstone r \<and> map_ok m \<and>
     (\<exists>M. manifest_of E r = Inr M \<and> manifest_for M m \<and> kept s (vm_entries M) m)"

definition configured :: "rvi \<Rightarrow> bool" where
  "configured h \<longleftrightarrow> rx_key h = K \<and> rx_space h = space \<and> rx_dim h = dim \<and> rx_shards h = n"

definition coherent :: "rvi \<Rightarrow> bool" where
  "coherent h \<longleftrightarrow> configured h \<and> map_ok (rx_inner h) \<and>
     (case rx_last_seen h of
        None \<Rightarrow> rx_inner h = []
      | Some l \<Rightarrow> rec_key l = K \<and> rec_kind l \<noteq> Tombstone \<and>
          (\<exists>M. manifest_of E l = Inr M \<and> manifest_for M (rx_inner h)))"

definition collision_free :: "vec_map \<Rightarrow> bool" where
  "collision_free m \<longleftrightarrow> (\<forall>i. unique_preimage H (shard_image m i))"

lemma in_shard_H: "in_shard E n i k \<longleftrightarrow> shard_of H k n = i"
  by (simp add: in_shard_def env_H)

lemma map_ok_parts:
  assumes "map_ok m"
  shows "bt_ok m" "dims dim m" "bt_ok (shard m i)" "dims dim (shard m i)"
proof -
  show "bt_ok m" "bt_ok (shard m i)" using assms by (simp_all add: map_ok_def)
  show "dims dim m" using assms by (auto simp: map_ok_def dims_def list_all_iff entry_ok_def)
  then show "dims dim (shard m i)" by (rule dims_shard)
qed

lemma decode_shard_image:
  assumes "map_ok m"
  shows "decode_shard ue (shard_image m i) = Inr (dim, shard m i)"
proof -
  have "length (shard m i) < 2 ^ 32" "list_all (entry_ok dim) (shard m i)"
    using assms le_less_trans [OF length_filter_le]
    by (auto simp: map_ok_def shard_map_def collect_where_def list_all_iff)
  moreover have "sort_key fst (shard m i) = shard m i" by (rule sort_bt [OF map_ok_parts(3) [OF assms]])
  ultimately show ?thesis
    using decode_encode_shard [OF dim_small, of "shard m i" ue] assms by (simp add: shard_image_def map_ok_def)
qed

lemma shard_image_inj: "map_ok m \<Longrightarrow> map_ok m' \<Longrightarrow> shard_image m i = shard_image m' i \<Longrightarrow> shard m i = shard m' i"
  using decode_shard_image [of m "\<lambda>_. []" i] decode_shard_image [of m' "\<lambda>_. []" i] by simp

lemma shard_eqI:
  assumes "map_ok m" "map_ok m'" "\<And>i. shard m i = shard m' i"
  shows "m = m'"
proof (rule bt_eqI [OF map_ok_parts(1) [OF assms(1)] map_ok_parts(1) [OF assms(2)]])
  show "bt_get m = bt_get m'"
  proof
    fix k
    have "bt_get (shard m (shard_of H k n)) k = bt_get (shard m' (shard_of H k n)) k" by (simp add: assms(3))
    then show "bt_get m k = bt_get m' k" by (simp add: shard_map_get in_shard_H)
  qed
qed

subsection \<open>Reading shards back\<close>

lemma apply_image:
  assumes "map_ok m" "configured h" "bt_ok (rx_inner h)" "dims dim (rx_inner h)"
  shows "apply_shard_bytes E i (shard_image m i) (h, s) = (Inr (), (h\<lparr>rx_inner := replaced E n m i (rx_inner h)\<rparr>, s))"
  using assms(2) replaced_ok(4) [OF assms(3) map_ok_parts(1) [OF assms(1)] assms(4) map_ok_parts(2) [OF assms(1)], of E n i]
  by (simp add: apply_shard_bytes_def decode_shard_image [OF assms(1)] configured_def bindE_def clear_shard_eq on_memory_def)

text \<open>A handle whose memory is that of another, but for the shards of some ids, which are those of \<open>m\<close>.\<close>

definition caught_up :: "vec_map \<Rightarrow> 16 word set \<Rightarrow> rvi \<Rightarrow> rvi \<Rightarrow> bool" where
  "caught_up m ids h h' \<longleftrightarrow> (\<exists>a. h' = h\<lparr>rx_inner := a\<rparr> \<and> bt_ok a \<and> dims dim a \<and>
     (\<forall>k. bt_get a k = (if shard_of H k n \<in> ids then bt_get m k else bt_get (rx_inner h) k)))"

lemma caught_up_refl: "bt_ok (rx_inner h) \<Longrightarrow> dims dim (rx_inner h) \<Longrightarrow> caught_up m {} h h"
  unfolding caught_up_def by (rule exI [of _ "rx_inner h"]) simp

lemma caught_up_step:
  assumes "map_ok m" "configured h" "caught_up m ids h h'"
  shows "apply_shard_bytes E i (shard_image m i) (h', s) =
      (Inr (), (h'\<lparr>rx_inner := replaced E n m i (rx_inner h')\<rparr>, s)) \<and>
    caught_up m (insert i ids) h (h'\<lparr>rx_inner := replaced E n m i (rx_inner h')\<rparr>)"
proof -
  obtain a where a: "h' = h\<lparr>rx_inner := a\<rparr>" "bt_ok a" "dims dim a"
    "\<And>k. bt_get a k = (if shard_of H k n \<in> ids then bt_get m k else bt_get (rx_inner h) k)"
    using assms(3) by (auto simp: caught_up_def)
  note r = replaced_ok [OF a(2) map_ok_parts(1) [OF assms(1)] a(3) map_ok_parts(2) [OF assms(1)], of E n i]
  have "configured h'" using assms(2) by (simp add: a(1) configured_def)
  moreover have "bt_get (replaced E n m i a) k =
      (if shard_of H k n \<in> insert i ids then bt_get m k else bt_get (rx_inner h) k)" for k
    using r(3) [of k] a(4) [of k] by (auto simp: in_shard_H)
  ultimately show ?thesis
    using apply_image [OF assms(1), of h' i s] a r(1,2) by (auto simp: caught_up_def)
qed

lemma describes_get:
  assumes "describes es m" "bt_get es i = Some h"
  shows "h = content_hash_of H (shard_image m i)"
  using assms by (auto simp: describes_def dest: spec [of _ i])

lemma get_kept:
  assumes "inv s" "describes es m" "kept s es m" "bt_get es i = Some h"
  shows "on_store (bv_get_blob bv h) (x, s) = (Inr (Some (shard_image m i)), (x, s))"
proof -
  have h: "h = content_hash_of H (shard_image m i)" by (rule describes_get [OF assms(2,4)])
  have "holds s (shard_image m i)" using assms(3,4) by (simp add: kept_def)
  then show ?thesis using get_blob [OF assms(1) hash_valid, of "shard_image m i"] by (simp add: on_store_def h holds_def)
qed

lemma hydrate_shard_ok:
  assumes "inv s" "map_ok m" "describes (vm_entries M) m" "kept s (vm_entries M) m" "configured h" "caught_up m ids h h'"
  shows "\<exists>h''. hydrate_shard E bv M i (h', s) = (Inr (), (h'', s)) \<and> caught_up m (insert i ids) h h''"
proof (cases "bt_get (vm_entries M) i")
  case None
  then have "shard m i = []" using assms(3) by (auto simp: describes_def dest: spec [of _ i])
  then have "replaced E n m i (rx_inner h') = clear_map E n i (rx_inner h')" by (simp add: replaced_def bt_extend_def)
  moreover have "rx_shards h' = n" using assms(5,6) by (auto simp: caught_up_def configured_def)
  ultimately show ?thesis
    using None caught_up_step [OF assms(2,5,6), of i s] by (auto simp: hydrate_shard_def clear_shard_eq)
next
  case (Some x)
  from caught_up_step [OF assms(2,5,6), of i s] get_kept [OF assms(1,3,4) Some, of h'] show ?thesis
    by (auto simp: hydrate_shard_def Some bindE_def)
qed

lemma hydrate_all_ok:
  assumes "inv s" "map_ok m" "describes (vm_entries M) m" "kept s (vm_entries M) m" "configured h" "caught_up m ids h h'"
  shows "\<exists>h''. hydrate_all E bv M is (h', s) = (Inr (), (h'', s)) \<and> caught_up m (set is \<union> ids) h h''"
  using assms(6)
proof (induction "is" arbitrary: h' ids)
  case Nil
  then show ?case by (auto simp: retE_def)
next
  case (Cons i "is")
  from hydrate_shard_ok [OF assms(1-5) Cons.prems, of i] obtain h1 where
    h1: "hydrate_shard E bv M i (h', s) = (Inr (), (h1, s))" "caught_up m (insert i ids) h h1" by blast
  from Cons.IH [OF h1(2)] h1(1) show ?case by (auto simp: bindE_def)
qed

lemma caught_up_all:
  assumes "caught_up m ids h h'" "bt_ok m" "\<And>k. shard_of H k n \<notin> ids \<Longrightarrow> bt_get m k = bt_get (rx_inner h) k"
  shows "h' = h\<lparr>rx_inner := m\<rparr>"
proof -
  obtain a where a: "h' = h\<lparr>rx_inner := a\<rparr>" "bt_ok a"
    "\<And>k. bt_get a k = (if shard_of H k n \<in> ids then bt_get m k else bt_get (rx_inner h) k)"
    using assms(1) by (auto simp: caught_up_def)
  have "a = m" by (rule bt_eqI [OF a(2) assms(2)]) (use a(3) assms(3) in \<open>auto simp: fun_eq_iff\<close>)
  with a(1) show ?thesis by simp
qed

subsection \<open>Opening a stored index\<close>

lemma fetch_shards_ok:
  assumes "inv s" "describes es m" "kept s es m"
  shows "\<forall>(i, x) \<in> set b. bt_get es i = Some x \<Longrightarrow>
    fetch_shards bv b (h, s) = (Inr (map (\<lambda>(i, x). (i, shard_image m i)) b), (h, s))"
proof (induction b)
  case (Cons e b)
  obtain i x where e: "e = (i, x)" by (cases e)
  with Cons.prems have "bt_get es i = Some x" by simp
  from get_kept [OF assms this] Cons show ?case by (simp add: e bindE_def retE_def)
qed (simp add: retE_def)

lemma apply_shards_ok:
  assumes "map_ok m" "configured h" "caught_up m ids h h'"
  shows "\<exists>h''. apply_shards E (map (\<lambda>(i, x). (i, shard_image m i)) b) (h', s) = (Inr (), (h'', s)) \<and>
    caught_up m (fst ` set b \<union> ids) h h''"
  using assms(3)
proof (induction b arbitrary: h' ids)
  case Nil
  then show ?case by (auto simp: retE_def)
next
  case (Cons e b)
  obtain i x where e: "e = (i, x)" by (cases e)
  let ?h = "h'\<lparr>rx_inner := replaced E n m i (rx_inner h')\<rparr>"
  from caught_up_step [OF assms(1,2) Cons.prems, of i s]
  have 1: "apply_shard_bytes E i (shard_image m i) (h', s) = (Inr (), (?h, s))" "caught_up m (insert i ids) h ?h" by simp_all
  from Cons.IH [OF 1(2)] 1(1) show ?case by (auto simp: e bindE_def)
qed

lemma hydrate_batches_ok:
  assumes "inv s" "map_ok m" "describes es m" "kept s es m" "configured h" "caught_up m ids h h'"
    "\<forall>(i, x) \<in> set (concat bs). bt_get es i = Some x"
  shows "\<exists>h''. hydrate_batches E bv bs (h', s) = (Inr (), (h'', s)) \<and> caught_up m (fst ` set (concat bs) \<union> ids) h h''"
  using assms(6,7)
proof (induction bs arbitrary: h' ids)
  case Nil
  then show ?case by (auto simp: retE_def)
next
  case (Cons b bs)
  have b: "\<forall>(i, x) \<in> set b. bt_get es i = Some x" "\<forall>(i, x) \<in> set (concat bs). bt_get es i = Some x"
    using Cons.prems(2) by auto
  from apply_shards_ok [OF assms(2,5) Cons.prems(1), of b s] obtain h1 where
    h1: "apply_shards E (map (\<lambda>(i, x). (i, shard_image m i)) b) (h', s) = (Inr (), (h1, s))"
    "caught_up m (fst ` set b \<union> ids) h h1" by blast
  from Cons.IH [OF h1(2) b(2)] show ?case
    using fetch_shards_ok [OF assms(1,3,4) b(1), of h'] h1(1) by (auto simp: bindE_def image_Un Un_assoc Un_left_commute)
qed

lemma open_stored:
  assumes "stored s r m"
  shows "\<exists>h. open_with_shards E vt bv K space dim shards s = (Inr h, s) \<and> coherent h \<and> rx_inner h = m \<and>
    rx_last_seen h = Some r"
proof -
  obtain M where st: "inv s" "abs s K = Some r" "\<not> is_tombstone r" "map_ok m"
    and M: "manifest_of E r = Inr M" "manifest_for M m" "kept s (vm_entries M) m"
    using assms by (auto simp: stored_def)
  have d: "describes (vm_entries M) m" "vm_shards M = n" "vm_space M = space" "vm_dim M = dim"
    using M(2) by (simp_all add: manifest_for_def)
  let ?h = "rvi_new K space dim n (Some r)"
  have conf: "configured ?h" by (simp add: rvi_new_def configured_def)
  have c0: "caught_up m {} ?h ?h" by (rule caught_up_refl) (simp_all add: rvi_new_def dims_def)
  have es: "bt_ok (vm_entries M)" using d(1) by (simp add: describes_def)
  then have "\<forall>(i, x) \<in> set (concat (chunks SHARD_READ_CONCURRENCY (vm_entries M))). bt_get (vm_entries M) i = Some x"
    by (auto simp: concat_chunks SHARD_READ_CONCURRENCY_def bt_get_in_set)
  from hydrate_batches_ok [OF st(1,4) d(1) M(3) conf c0 this] obtain h' where
    h': "hydrate_batches E bv (chunks SHARD_READ_CONCURRENCY (vm_entries M)) (?h, s) = (Inr (), (h', s))"
    "caught_up m (fst ` set (vm_entries M)) ?h h'"
    by (auto simp: concat_chunks SHARD_READ_CONCURRENCY_def)
  have "bt_get m k = bt_get (rx_inner ?h) k" if "shard_of H k n \<notin> fst ` set (vm_entries M)" for k
  proof -
    have "bt_get (vm_entries M) (shard_of H k n) = None" using that by (simp add: map_of_eq_None_iff)
    then have "shard m (shard_of H k n) = []" using d(1) by (auto simp: describes_def dest: spec [of _ "shard_of H k n"])
    then show ?thesis using shard_map_get [of E n m "shard_of H k n" k] by (simp add: in_shard_H rvi_new_def)
  qed
  from caught_up_all [OF h'(2) map_ok_parts(1) [OF st(4)] this] have h'_eq: "h' = ?h\<lparr>rx_inner := m\<rparr>" .
  have "open_with_shards E vt bv K space dim shards s = (Inr h', s)"
    using get_raw [OF st(1) key_valid] st(2,3) M(1) d(2-4) shards_pos h'(1)
    by (simp add: open_with_shards_def bindE_def liftE_def existing_of_def opened_manifest_def check_space_and_dim_def Let_def)
  moreover have "coherent h'"
    using M(1,2) st(2-4) stored_key [OF st(1,2)]
    by (auto simp: coherent_def configured_def h'_eq rvi_new_def is_tombstone_def)
  ultimately show ?thesis by (auto simp: h'_eq rvi_new_def)
qed

subsection \<open>Writing shards\<close>

lemma put_blob_holds:
  assumes "inv s"
  shows "\<exists>s'. bv_put_blob bv c s = (Inr (content_hash_of H c), s') \<and> inv s' \<and> abs s' = abs s \<and>
    (\<forall>x. unique_preimage H x \<and> (holds s x \<or> x = c) \<longrightarrow> holds s' x)"
proof -
  obtain s' c' ms where p: "bv_put_blob bv c s = (Inr (content_hash_of H c), s')" "inv s'"
    "blobs s' = (blobs s)(content_hash_of H c \<mapsto> (c', ms))"
    using put_blob [OF assms, of c] by blast
  have "blobs s' (content_hash_of H c) = Some (c', ms)" by (simp add: p(3))
  from content [OF p(2) this] have c': "H c' = H c" by (simp add: content_hash_of_def)
  have "holds s' x" if "unique_preimage H x" "holds s x \<or> x = c" for x
  proof (cases "H x = H c")
    case True
    then have "c' = x" using that(1) c' unfolding unique_preimage_def by metis
    with True show ?thesis by (simp add: holds_def p(3) content_hash_of_def)
  next
    case False
    with that(2) show ?thesis by (auto simp: holds_def p(3) content_hash_of_def)
  qed
  with p put_blob_records [OF assms p(1)] show ?thesis by blast
qed

abbreviation entry_of :: "vec_map \<Rightarrow> 16 word \<Rightarrow> content_hash" where
  "entry_of m i \<equiv> content_hash_of H (shard_image m i)"

lemma put_shards_ok:
  fixes ds :: "delta list"
  assumes "configured h" "bt_ok (rx_inner h)" "inv s"
  defines "m' \<equiv> deltas_on ds (rx_inner h)"
  shows "\<exists>s'. put_shards E bv ds is acc (h, s) = (Inr (fold (\<lambda>i. bt_insert i (entry_of m' i)) is acc), (h, s')) \<and>
    inv s' \<and> abs s' = abs s \<and>
    (\<forall>x. unique_preimage H x \<and> (holds s x \<or> x \<in> shard_image m' ` set is) \<longrightarrow> holds s' x)"
  using assms(3)
proof (induction "is" arbitrary: acc s)
  case Nil
  then show ?case by (auto simp: retE_def)
next
  case (Cons i "is")
  from put_blob_holds [OF Cons.prems, of "shard_image m' i"] obtain s1 where
    s1: "bv_put_blob bv (shard_image m' i) s = (Inr (entry_of m' i), s1)" "inv s1" "abs s1 = abs s"
    "\<forall>x. unique_preimage H x \<and> (holds s x \<or> x = shard_image m' i) \<longrightarrow> holds s1 x" by blast
  from Cons.IH [OF s1(2), of "bt_insert i (entry_of m' i) acc"] obtain s' where
    s': "put_shards E bv ds is (bt_insert i (entry_of m' i) acc) (h, s1) =
      (Inr (fold (\<lambda>i. bt_insert i (entry_of m' i)) is (bt_insert i (entry_of m' i) acc)), (h, s'))"
    "inv s'" "abs s' = abs s1"
    "\<forall>x. unique_preimage H x \<and> (holds s1 x \<or> x \<in> shard_image m' ` set is) \<longrightarrow> holds s' x" by blast
  have "encode_shard (rx_dim h) (stage_shard E h i ds) = shard_image m' i"
    using assms(1) stage_shard_eq [OF assms(2)] by (simp add: configured_def shard_image_def m'_def)
  with s1(1) s'(1) have "put_shards E bv ds (i # is) acc (h, s) =
      (Inr (fold (\<lambda>i. bt_insert i (entry_of m' i)) (i # is) acc), (h, s'))"
    by (simp add: bindE_def on_store_def)
  with s'(2-4) s1(3,4) show ?case by (intro exI [of _ s']) auto
qed

lemma apply_deltas_ok:
  "dims dim (rx_inner h) \<Longrightarrow> delta_dims dim ds \<Longrightarrow>
   apply_deltas ds (h, s) = (Inr (), (h\<lparr>rx_inner := deltas_on ds (rx_inner h)\<rparr>, s))"
proof (induction ds arbitrary: h)
  case Nil
  then show ?case by (simp add: retE_def deltas_on_def)
next
  case (Cons d ds)
  have rest: "delta_dims dim ds" using Cons.prems(2) by (auto simp: delta_dims_def)
  show ?case
  proof (cases d)
    case (Upsert k v)
    then have "length v = dim" using Cons.prems(2) by (auto simp: delta_dims_def)
    moreover from this have "dims dim (bt_insert k v (rx_inner h))" by (intro dims_insert Cons.prems)
    ultimately show ?thesis
      using Cons.IH [of "h\<lparr>rx_inner := bt_insert k v (rx_inner h)\<rparr>"] Cons.prems(1) rest
      by (simp add: Upsert bindE_def on_memory_def mvi_upsert_def check_dim_ok deltas_on_def)
  next
    case (Remove k)
    have "dims dim (bt_remove k (rx_inner h))" by (rule dims_remove [OF Cons.prems(1)])
    then show ?thesis
      using Cons.IH [of "h\<lparr>rx_inner := bt_remove k (rx_inner h)\<rparr>"] rest
      by (simp add: Remove bindE_def on_memory_def mvi_remove_def deltas_on_def)
  qed
qed

lemma verify_present:
  assumes "inv s"
  shows "\<forall>(i, x) \<in> set written. hv x \<and> blobs s x \<noteq> None \<Longrightarrow> verify_shard_blobs E bv written (h, s) = (Inr (), (h, s))"
proof (induction written)
  case (Cons e written)
  obtain i x where e: "e = (i, x)" by (cases e)
  with Cons.prems have "hv x" "blobs s x \<noteq> None" by simp_all
  with has_blob [OF assms] Cons show ?case by (simp add: e bindE_def on_store_def)
qed (simp add: retE_def)

lemma undirty_shard:
  assumes "bt_ok m" "i \<notin> set (dirty_shards E n ds)"
  shows "shard (deltas_on ds m) i = shard m i"
proof (rule bt_eqI)
  have "\<forall>d \<in> set ds. shard_of H (delta_key d) n \<noteq> i"
    using assms(2) by (auto simp: dirty_shards_def env_H)
  then have "bt_ok m \<Longrightarrow> shard_of H k n = i \<Longrightarrow> bt_get (deltas_on ds m) k = bt_get m k" for k
  proof (induction ds arbitrary: m)
    case (Cons d ds)
    then have "shard_of H (delta_key d) n \<noteq> i" by simp
    with Cons.prems have "bt_get (delta_step d m) k = bt_get m k" by (cases d) auto
    with Cons show ?case by (simp add: deltas_on_def)
  qed (simp add: deltas_on_def)
  with assms(1) show "bt_get (shard (deltas_on ds m) i) = bt_get (shard m i)"
    by (auto simp: fun_eq_iff shard_map_get in_shard_H)
qed (use assms in simp_all)

lemma fold_insert_entries:
  "bt_ok acc \<Longrightarrow> bt_ok (fold (\<lambda>i. bt_insert i (f i)) is acc) \<and>
   bt_get (fold (\<lambda>i. bt_insert i (f i)) is acc) j = (if j \<in> set is then Some (f j) else bt_get acc j)"
  by (induction "is" arbitrary: acc) auto

text \<open>The manifest a commit sends describes the map with the changes.\<close>

lemma committed_manifest:
  fixes ds :: "delta list"
  assumes "manifest_for M m" "bt_ok m"
  defines "blobs' \<equiv> fold (\<lambda>i. bt_insert i (entry_of (deltas_on ds m) i)) (dirty_shards E n ds) []"
  defines "es \<equiv> bt_extend (vm_entries M) blobs'"
  shows "manifest_for (M\<lparr>vm_entries := es\<rparr>) (deltas_on ds m)"
    "bt_get es i = (if i \<in> set (dirty_shards E n ds) then Some (entry_of (deltas_on ds m) i) else bt_get (vm_entries M) i)"
    "bt_ok blobs'"
proof -
  have M: "bt_ok (vm_entries M)" using assms(1) by (simp add: manifest_for_def describes_def)
  show ok: "bt_ok blobs'" unfolding blobs'_def by (rule fold_insert_entries [THEN conjunct1]) simp
  have rev: "map_of (rev blobs') = map_of blobs'"
    using bt_ok_distinct [OF ok] by (subst map_of_inject_set) (simp_all add: rev_map [symmetric])
  show get: "bt_get es i = (if i \<in> set (dirty_shards E n ds) then Some (entry_of (deltas_on ds m) i) else bt_get (vm_entries M) i)" for i
    using fold_insert_entries [of "[]" "entry_of (deltas_on ds m)" "dirty_shards E n ds" i] M rev
    by (simp add: es_def map_add_def blobs'_def [symmetric])
  have "describes es (deltas_on ds m)"
    unfolding describes_def
  proof (intro conjI allI)
    show "bt_ok es" using M by (simp add: es_def)
    fix i
    show "case bt_get es i of None \<Rightarrow> shard (deltas_on ds m) i = [] | Some h \<Rightarrow> h = entry_of (deltas_on ds m) i"
      using get [of i] undirty_shard [OF assms(2), of i ds] assms(1)
      by (auto simp: manifest_for_def describes_def shard_image_def split: option.splits dest: spec [of _ i])
  qed
  then show "manifest_for (M\<lparr>vm_entries := es\<rparr>) (deltas_on ds m)" using assms(1) by (simp add: manifest_for_def)
qed

subsection \<open>Committing\<close>

lemma base_ok:
  assumes "coherent h"
  shows "\<exists>M. base_manifest E h = Inr M \<and> manifest_for M (rx_inner h)"
proof (cases "rx_last_seen h")
  case None
  then have "describes [] (rx_inner h)"
    using assms by (simp add: coherent_def describes_def shard_map_def collect_where_def)
  then show ?thesis using None assms
    by (simp add: base_manifest_def manifest_for_def vector_manifest_new_def coherent_def configured_def)
next
  case (Some l)
  then show ?thesis using assms by (auto simp: coherent_def base_manifest_def)
qed

lemma record_sent:
  assumes "coherent h" "bt_ok (vm_entries M)" "commit_record E h M = (r, ex)"
  shows "rec_key r = K" "rec_kind r \<noteq> Tombstone" "manifest_of E r = Inr M" "ex = map_option rec_revision (rx_last_seen h)"
  using assms(1,3) manifest_codec [OF assms(2)]
  by (auto simp: commit_record_def coherent_def configured_def record_update_def record_create_def manifest_of_def
      vector_manifest_from_body_def vector_manifest_to_body_def Let_def split: option.splits)

text \<open>The part of an attempt up to the answer of the store.\<close>

definition sent :: "delta list \<Rightarrow> rvi \<Rightarrow> vector_manifest \<Rightarrow> vector_manifest" where
  "sent ds h M = M\<lparr>vm_entries := bt_extend (vm_entries M)
     (fold (\<lambda>i. bt_insert i (entry_of (deltas_on ds (rx_inner h)) i)) (dirty_shards E n ds) [])\<rparr>"

lemma attempt_start:
  assumes "coherent h" "inv s" "base_manifest E h = Inr M" "commit_record E h (sent ds h M) = (r, ex)"
  shows "\<exists>s1. inv s1 \<and> abs s1 = abs s \<and>
    (\<forall>x. unique_preimage H x \<and> (holds s x \<or> x \<in> shard_image (deltas_on ds (rx_inner h)) ` set (dirty_shards E n ds)) \<longrightarrow> holds s1 x) \<and>
    commit_attempts E vt bv (dirty_shards E n ds) ds (Suc k) (h, s) =
      bindE (on_store (vt_put vt r ex)) (\<lambda>res. case res of
          Committed rv \<Rightarrow> bindE (apply_deltas ds) (\<lambda>_. bindE (seen (r\<lparr>rec_revision := rv\<rparr>)) (\<lambda>_.
            verify_shard_blobs E bv (fold (\<lambda>i. bt_insert i (entry_of (deltas_on ds (rx_inner h)) i)) (dirty_shards E n ds) [])))
        | PutConflict _ \<Rightarrow>
            if k > 0 then bindE (catch_up E vt bv (dirty_shards E n ds) (vm_entries M))
              (\<lambda>_. commit_attempts E vt bv (dirty_shards E n ds) ds k)
            else throwE (Backend (index_label K @ ''gave up after '' @ show_nat MAX_COMMIT_ATTEMPTS @ '' conflicting commits''))) (h, s1)"
proof -
  have h: "configured h" "bt_ok (rx_inner h)" using assms(1) by (simp_all add: coherent_def map_ok_def)
  from put_shards_ok [OF h assms(2), of ds "dirty_shards E n ds" "[]"] obtain s1 where
    s1: "put_shards E bv ds (dirty_shards E n ds) [] (h, s) =
      (Inr (fold (\<lambda>i. bt_insert i (entry_of (deltas_on ds (rx_inner h)) i)) (dirty_shards E n ds) []), (h, s1))"
    "inv s1" "abs s1 = abs s"
    "\<forall>x. unique_preimage H x \<and> (holds s x \<or> x \<in> shard_image (deltas_on ds (rx_inner h)) ` set (dirty_shards E n ds)) \<longrightarrow> holds s1 x"
    by blast
  have "rx_key h = K" using h(1) by (simp add: configured_def)
  with s1 assms(3,4) show ?thesis
    by (intro exI [of _ s1])
      (simp add: bindE_def liftE_def sent_def Let_def cong: put_result.case_cong sum.case_cong prod.case_cong)
qed

definition tracks :: "rvi \<Rightarrow> rec \<Rightarrow> bool" where
  "tracks h c \<longleftrightarrow> (\<forall>l. rx_last_seen h = Some l \<and> rec_revision l = rec_revision c \<longrightarrow> rec_body l = rec_body c)"

definition ready :: "delta list \<Rightarrow> vec_map \<Rightarrow> bool" where
  "ready ds m \<longleftrightarrow> delta_dims dim ds \<and> map_ok (deltas_on ds m) \<and> collision_free (deltas_on ds m)"

definition in_sync :: "rvi \<Rightarrow> 's \<Rightarrow> vec_map \<Rightarrow> bool" where
  "in_sync h s m \<longleftrightarrow> coherent h \<and> rx_inner h = m \<and> (\<exists>c l. stored s c m \<and> rx_last_seen h = Some l \<and>
     rec_revision l = rec_revision c \<and> rec_body l = rec_body c)"

lemma commit_lands:
  assumes "coherent h" "inv s" "ready ds (rx_inner h)" "base_manifest E h = Inr M"
    "manifest_for M (rx_inner h)" "collision_free (rx_inner h)" "kept s (vm_entries M) (rx_inner h)"
    "commit_record E h (sent ds h M) = (r, ex)"
    "\<And>t. \<exists>w. plan_put H (abs s K) r ex t cap = PutWrite w \<and> rec_revision w = rec_revision r \<and>
       rec_body w = rec_body r \<and> rec_kind w = rec_kind r"
  shows "\<exists>h' s'. commit_attempts E vt bv (dirty_shards E n ds) ds (Suc k) (h, s) = (Inr (), (h', s')) \<and>
    in_sync h' s' (deltas_on ds (rx_inner h)) \<and> (\<forall>k. k \<noteq> K \<longrightarrow> abs s' k = abs s k)"
proof -
  let ?m = "rx_inner h" and ?dirty = "dirty_shards E n ds"
  let ?m' = "deltas_on ds ?m"
  let ?blobs = "fold (\<lambda>i. bt_insert i (entry_of ?m' i)) ?dirty []"
  have m: "map_ok ?m" "configured h" using assms(1) by (simp_all add: coherent_def)
  note cm = committed_manifest [OF assms(5) map_ok_parts(1) [OF m(1)], where ds = ds, folded sent_def]
  have sent_ok: "bt_ok (vm_entries (sent ds h M))" using cm(1) by (simp add: manifest_for_def describes_def)
  note r = record_sent [OF assms(1) sent_ok assms(8)]
  obtain s1 where s1: "inv s1" "abs s1 = abs s"
    "\<And>x. unique_preimage H x \<Longrightarrow> holds s x \<or> x \<in> shard_image ?m' ` set ?dirty \<Longrightarrow> holds s1 x"
    and run: "commit_attempts E vt bv ?dirty ds (Suc k) (h, s) =
      bindE (on_store (vt_put vt r ex)) (\<lambda>res. case res of
          Committed rv \<Rightarrow> bindE (apply_deltas ds) (\<lambda>_. bindE (seen (r\<lparr>rec_revision := rv\<rparr>)) (\<lambda>_. verify_shard_blobs E bv ?blobs))
        | PutConflict _ \<Rightarrow> if k > 0 then bindE (catch_up E vt bv ?dirty (vm_entries M)) (\<lambda>_. commit_attempts E vt bv ?dirty ds k)
            else throwE (Backend (index_label K @ ''gave up after '' @ show_nat MAX_COMMIT_ATTEMPTS @ '' conflicting commits''))) (h, s1)"
    using attempt_start [OF assms(1,2,4,8), of k] by blast
  obtain w where w: "plan_put H (abs s K) r ex (now s1) cap = PutWrite w" "rec_revision w = rec_revision r"
    "rec_body w = rec_body r" "rec_kind w = rec_kind r" using assms(9) by blast
  obtain res s2 where put: "vt_put vt r ex s1 = (res, s2)" by (rule prod.exhaust)
  have vkr: "vk (rec_key r)" using key_valid r(1) by simp
  from Gz_Store.planned_store.put [OF planned_store_axioms s1(1) vkr put] w(1,2) s1(2) r(1)
  have p: "inv s2" "res = Inr (Committed (rec_revision r))" "abs s2 = (abs s)(K \<mapsto> w)" by simp_all
  have b2: "blobs s2 = blobs s1" by (rule put_blobs [OF s1(1) vkr put])
  have cf: "collision_free ?m'" "map_ok ?m'" "delta_dims dim ds" using assms(3) by (simp_all add: ready_def)
  have kept2: "holds s2 (shard_image ?m' i)" if "bt_get (vm_entries (sent ds h M)) i \<noteq> None" for i
  proof -
    have "holds s (shard_image ?m' i) \<or> shard_image ?m' i \<in> shard_image ?m' ` set ?dirty"
    proof (cases "i \<in> set ?dirty")
      case False
      then have "holds s (shard_image ?m i)" using assms(7) that cm(2) [of i] by (simp add: sent_def kept_def)
      with undirty_shard [OF map_ok_parts(1) [OF m(1)] False] show ?thesis by (simp add: shard_image_def)
    qed simp
    then have "holds s1 (shard_image ?m' i)" using s1(3) cf(1) by (simp add: collision_free_def)
    then show ?thesis by (simp add: holds_def b2)
  qed
  let ?h' = "h\<lparr>rx_inner := ?m', rx_last_seen := Some r\<rparr>"
  have "hv x \<and> blobs s2 x \<noteq> None" if "(i, x) \<in> set ?blobs" for i x
  proof -
    have "bt_get ?blobs i = Some x" using that by (simp only: bt_get_in_set [OF cm(3)])
    then have i: "i \<in> set ?dirty" "x = entry_of ?m' i"
      using fold_insert_entries [of "[]" "entry_of ?m'" ?dirty i] by (auto split: if_splits)
    then have "bt_get (vm_entries (sent ds h M)) i \<noteq> None" using cm(2) [of i] by (simp add: sent_def)
    from kept2 [OF this] i(2) hash_valid show ?thesis by (auto simp: holds_def)
  qed
  then have "verify_shard_blobs E bv ?blobs (?h', s2) = (Inr (), (?h', s2))"
    by (intro verify_present [OF p(1)]) auto
  then have done': "commit_attempts E vt bv ?dirty ds (Suc k) (h, s) = (Inr (), (?h', s2))"
    unfolding run using put p(2) apply_deltas_ok [OF map_ok_parts(2) [OF m(1)] cf(3), of s2]
    by (simp add: bindE_def on_store_def seen_def)
  have mw: "manifest_of E w = Inr (sent ds h M)" using r(3) w(3) by (simp add: manifest_of_def)
  have sm: "manifest_for (sent ds h M) ?m'" using cm(1) by (simp add: sent_def)
  have "stored s2 w ?m'"
    using p(1,3) w(4) r(2) cf(2) mw sm kept2 by (auto simp: stored_def is_tombstone_def kept_def)
  moreover have "coherent ?h'"
    using m cf(2) r sm by (auto simp: coherent_def configured_def)
  ultimately have "in_sync ?h' s2 ?m'" using w(2,3) by (auto simp: in_sync_def)
  with done' p(3) show ?thesis by auto
qed

lemma plan_update:
  assumes "rec_kind r \<noteq> Tombstone" "\<not> is_tombstone c"
  shows "\<exists>w. plan_put H (Some c) r (Some (rec_revision c)) t cap = PutWrite w \<and> rec_revision w = rec_revision r \<and>
    rec_body w = rec_body r \<and> rec_kind w = rec_kind r"
  using assms by (simp add: plan_put_def is_tombstone_def with_folded_def stamp_def)

lemma plan_create:
  assumes "rec_kind r \<noteq> Tombstone"
  shows "\<exists>w. plan_put H None r None t cap = PutWrite w \<and> rec_revision w = rec_revision r \<and>
    rec_body w = rec_body r \<and> rec_kind w = rec_kind r"
  using assms by (simp add: plan_put_def is_tombstone_def with_folded_def stamp_def)

lemma commit_in_sync:
  assumes "in_sync h s m" "ready ds m" "collision_free m"
  shows "\<exists>h' s'. commit_attempts E vt bv (dirty_shards E n ds) ds (Suc k) (h, s) = (Inr (), (h', s')) \<and>
    in_sync h' s' (deltas_on ds m) \<and> (\<forall>k. k \<noteq> K \<longrightarrow> abs s' k = abs s k)"
proof -
  obtain c l where h: "coherent h" "rx_inner h = m" and st: "stored s c m" and l: "rx_last_seen h = Some l"
    "rec_revision l = rec_revision c" "rec_body l = rec_body c"
    using assms(1) by (auto simp: in_sync_def)
  obtain M where M: "manifest_of E c = Inr M" "manifest_for M m" "kept s (vm_entries M) m"
    using st by (auto simp: stored_def)
  have base: "base_manifest E h = Inr M" using M(1) l by (simp add: base_manifest_def manifest_of_def)
  obtain r ex where r: "commit_record E h (sent ds h M) = (r, ex)" by (rule prod.exhaust)
  have "bt_ok (vm_entries (sent ds h M))"
    using committed_manifest(1) [OF M(2), of ds] st h(2)
    by (simp add: sent_def stored_def map_ok_def manifest_for_def describes_def)
  note rs = record_sent [OF h(1) this r]
  have s: "inv s" "abs s K = Some c" "\<not> is_tombstone c" using st by (simp_all add: stored_def)
  have "\<exists>w. plan_put H (abs s K) r ex t cap = PutWrite w \<and> rec_revision w = rec_revision r \<and>
      rec_body w = rec_body r \<and> rec_kind w = rec_kind r" for t
    using plan_update [OF rs(2) s(3)] rs(4) l(1,2) s(2) by simp
  from commit_lands [OF h(1) s(1) _ base _ _ _ r this, of k] M(2,3) assms(2,3) h(2) show ?thesis by simp
qed

lemma describes_None: "describes es m \<Longrightarrow> bt_get es i = None \<Longrightarrow> shard m i = []"
  by (auto simp: describes_def dest: spec [of _ i])

lemma same_entry:
  assumes "describes es m" "describes es0 a" "map_ok m" "map_ok a" "collision_free m" "bt_get es0 i = bt_get es i"
  shows "shard m i = shard a i"
proof (cases "bt_get es i")
  case None
  then show ?thesis using describes_None [OF assms(1)] describes_None [OF assms(2)] assms(6) by simp
next
  case (Some x)
  then have "H (shard_image a i) = H (shard_image m i)"
    using describes_get [OF assms(1) Some] describes_get [OF assms(2), of i x] assms(6) by (simp add: content_hash_of_def)
  then have "shard_image a i = shard_image m i"
    using assms(5) by (simp add: collision_free_def unique_preimage_def)
  from shard_image_inj [OF assms(4,3) this] show ?thesis by simp
qed

text \<open>Losing the race: the handle takes over everything the winner changed, and keeps nothing else.\<close>

lemma catch_up_ok:
  assumes "coherent h" "base_manifest E h = Inr M0" "manifest_for M0 (rx_inner h)" "stored s c m" "collision_free m"
  shows "\<exists>h'. catch_up E vt bv dirty (vm_entries M0) (h, s) = (Inr (), (h', s)) \<and> in_sync h' s m"
proof -
  obtain M where st: "inv s" "abs s K = Some c" "\<not> is_tombstone c" "map_ok m"
    and M: "manifest_of E c = Inr M" "manifest_for M m" "kept s (vm_entries M) m"
    using assms(4) by (auto simp: stored_def)
  have h: "configured h" "map_ok (rx_inner h)" using assms(1) by (simp_all add: coherent_def)
  have d: "describes (vm_entries M) m" "describes (vm_entries M0) (rx_inner h)"
    using M(2) assms(3) by (simp_all add: manifest_for_def)
  let ?ids = "bts_of_list (dirty @ changed_ids (vm_entries M0) (vm_entries M))"
  have c0: "caught_up m {} h h" by (rule caught_up_refl) (use map_ok_parts [OF h(2)] in auto)
  from hydrate_all_ok [OF st(1,4) d(1) M(3) h(1) c0, of ?ids] obtain h' where
    h': "hydrate_all E bv M ?ids (h, s) = (Inr (), (h', s))" "caught_up m (set ?ids) h h'" by auto
  have same: "shard m i = shard (rx_inner h) i" if "i \<notin> set ?ids" for i
    by (rule same_entry [OF d(1,2) st(4) h(2) assms(5)])
      (use that in \<open>force simp: changed_ids_def map_of_eq_None_iff [symmetric]\<close>)
  have "bt_get m k = bt_get (rx_inner h) k" if "shard_of H k n \<notin> set ?ids" for k
    using same [OF that] shard_map_get [of E n m "shard_of H k n" k] shard_map_get [of E n "rx_inner h" "shard_of H k n" k]
    by (simp add: in_shard_H)
  from caught_up_all [OF h'(2) map_ok_parts(1) [OF st(4)] this] have h'_eq: "h' = h\<lparr>rx_inner := m\<rparr>" .
  have live: "vt_get vt K s = (Inr (Some c), s)" using get [OF st(1) key_valid] st(2,3) by (simp add: live_only_def)
  let ?h = "h'\<lparr>rx_last_seen := Some c\<rparr>"
  have "catch_up E vt bv dirty (vm_entries M0) (h, s) = (Inr (), (?h, s))"
    using live M(1,2) h(1) h'(1)
    by (simp add: catch_up_def bindE_def liftE_def on_store_def check_space_and_dim_def manifest_for_def configured_def
        seen_def Let_def)
  moreover have "coherent ?h"
    using h(1) st(2-4) M(1,2) stored_key [OF st(1,2)]
    by (auto simp: coherent_def configured_def h'_eq is_tombstone_def)
  ultimately show ?thesis using assms(4) by (auto simp: in_sync_def h'_eq)
qed

lemma attempt_conflicts:
  assumes "coherent h" "stored s c m" "collision_free m"
    "map_option rec_revision (rx_last_seen h) \<noteq> Some (rec_revision c)"
  shows "\<exists>h' s'. commit_attempts E vt bv (dirty_shards E n ds) ds (Suc (Suc k)) (h, s) =
      commit_attempts E vt bv (dirty_shards E n ds) ds (Suc k) (h', s') \<and> in_sync h' s' m \<and> abs s' = abs s"
proof -
  obtain M where st: "inv s" "abs s K = Some c" "\<not> is_tombstone c" "map_ok m"
    and M: "manifest_of E c = Inr M" "manifest_for M m" "kept s (vm_entries M) m"
    using assms(2) by (auto simp: stored_def)
  obtain M0 where M0: "base_manifest E h = Inr M0" "manifest_for M0 (rx_inner h)" using base_ok [OF assms(1)] by blast
  obtain r ex where r: "commit_record E h (sent ds h M0) = (r, ex)" by (rule prod.exhaust)
  have "bt_ok (rx_inner h)" using assms(1) by (simp add: coherent_def map_ok_def)
  then have "bt_ok (vm_entries (sent ds h M0))"
    using committed_manifest(1) [OF M0(2), of ds] by (simp add: sent_def manifest_for_def describes_def)
  note rs = record_sent [OF assms(1) this r]
  let ?go = "\<lambda>s1. commit_attempts E vt bv (dirty_shards E n ds) ds (Suc (Suc k)) (h, s) =
    bindE (on_store (vt_put vt r ex)) (\<lambda>res. case res of
        Committed rv \<Rightarrow> bindE (apply_deltas ds) (\<lambda>_. bindE (seen (r\<lparr>rec_revision := rv\<rparr>)) (\<lambda>_.
          verify_shard_blobs E bv (fold (\<lambda>i. bt_insert i (entry_of (deltas_on ds (rx_inner h)) i)) (dirty_shards E n ds) [])))
      | PutConflict _ \<Rightarrow>
          if Suc k > 0 then bindE (catch_up E vt bv (dirty_shards E n ds) (vm_entries M0))
            (\<lambda>_. commit_attempts E vt bv (dirty_shards E n ds) ds (Suc k))
          else throwE (Backend (index_label K @ ''gave up after '' @ show_nat MAX_COMMIT_ATTEMPTS @ '' conflicting commits''))) (h, s1)"
  obtain s1 where s1: "inv s1" "abs s1 = abs s" "\<And>x. unique_preimage H x \<Longrightarrow> holds s x \<Longrightarrow> holds s1 x" and go: "?go s1"
    using attempt_start [OF assms(1) st(1) M0(1) r, of "Suc k"] by blast
  obtain res s2 where put: "vt_put vt r ex s1 = (res, s2)" by (rule prod.exhaust)
  have vkr: "vk (rec_key r)" using key_valid rs(1) by simp
  have "ex \<noteq> Some (rec_revision c)" using assms(4) rs(4) by simp
  then have "plan_put H (Some c) r ex (now s1) cap =
      PutPlanConflict \<lparr>conf_key = rec_key r, conf_expected = ex, conf_current = c\<rparr>"
    using st(3) rs(2) by (simp add: plan_put_def is_tombstone_def)
  with Gz_Store.planned_store.put [OF planned_store_axioms s1(1) vkr put] s1(2) rs(1) st(2)
  have p: "inv s2" "abs s2 = abs s" "\<exists>x. res = Inr (PutConflict x)" by auto
  have "kept s2 (vm_entries M) m"
    using M(3) s1(3) assms(3) put_blobs [OF s1(1) vkr put] by (simp add: kept_def holds_def collision_free_def)
  then have "stored s2 c m" using st p(1,2) M(1,2) by (auto simp: stored_def)
  from catch_up_ok [OF assms(1) M0 this assms(3)] obtain h' where
    "catch_up E vt bv (dirty_shards E n ds) (vm_entries M0) (h, s2) = (Inr (), (h', s2))" "in_sync h' s2 m" by blast
  with go put p(2,3) show ?thesis
    by (intro exI [of _ h'] exI [of _ s2]) (auto simp: bindE_def on_store_def simp del: commit_attempts.simps)
qed

lemma commit_merges:
  assumes "coherent h" "stored s c m" "tracks h c" "collision_free m" "ready ds m" "ds \<noteq> []"
  shows "\<exists>h' s'. commit E vt bv ds (h, s) = (Inr (), (h', s')) \<and> in_sync h' s' (deltas_on ds m) \<and>
    (\<forall>k. k \<noteq> K \<longrightarrow> abs s' k = abs s k)"
proof -
  let ?run = "\<lambda>k. commit_attempts E vt bv (dirty_shards E n ds) ds (Suc k)"
  have run: "commit E vt bv ds (h, s) = ?run (Suc 3) (h, s)"
    using assms(1,6) by (simp add: commit_def coherent_def configured_def MAX_COMMIT_ATTEMPTS_def eval_nat_numeral
        del: commit_attempts.simps)
  show ?thesis
  proof (cases "map_option rec_revision (rx_last_seen h) = Some (rec_revision c)")
    case True
    then obtain l where l: "rx_last_seen h = Some l" "rec_revision l = rec_revision c" "rec_body l = rec_body c"
      using assms(3) by (auto simp: tracks_def)
    obtain M where M: "manifest_of E c = Inr M" "manifest_for M m" "map_ok m" using assms(2) by (auto simp: stored_def)
    have h: "manifest_for M (rx_inner h)" "map_ok (rx_inner h)"
      using assms(1) l M(1) by (auto simp: coherent_def manifest_of_def)
    then have "shard m i = shard (rx_inner h) i" for i
      using M(2) by (intro same_entry [OF _ _ M(3) h(2) assms(4) refl, where es = "vm_entries M"]) (simp_all add: manifest_for_def)
    then have "m = rx_inner h" by (rule shard_eqI [OF M(3) h(2)])
    then have "in_sync h s m" using assms(1,2) l by (auto simp: in_sync_def)
    from commit_in_sync [OF this assms(5,4), of "Suc 3"] show ?thesis unfolding run .
  next
    case False
    from attempt_conflicts [OF assms(1,2,4) this, of ds 3] obtain h1 s1 where
      1: "?run (Suc 3) (h, s) = ?run 3 (h1, s1)" "in_sync h1 s1 m" "abs s1 = abs s" by blast
    from commit_in_sync [OF 1(2) assms(5,4), of 3] show ?thesis unfolding run 1(1) 1(3) .
  qed
qed

text \<open>The first commit of an index that does not exist yet.\<close>

lemma commit_creates:
  assumes "coherent h" "rx_last_seen h = None" "inv s" "abs s K = None" "ready ds []" "collision_free []" "ds \<noteq> []"
  shows "\<exists>h' s'. commit E vt bv ds (h, s) = (Inr (), (h', s')) \<and> in_sync h' s' (deltas_on ds []) \<and>
    (\<forall>k. k \<noteq> K \<longrightarrow> abs s' k = abs s k)"
proof -
  have run: "commit E vt bv ds (h, s) = commit_attempts E vt bv (dirty_shards E n ds) ds (Suc 4) (h, s)"
    using assms(1,7) by (simp add: commit_def coherent_def configured_def MAX_COMMIT_ATTEMPTS_def eval_nat_numeral
        del: commit_attempts.simps)
  have inner: "rx_inner h = []" using assms(1,2) by (simp add: coherent_def)
  obtain M where M: "base_manifest E h = Inr M" "manifest_for M (rx_inner h)" using base_ok [OF assms(1)] by blast
  have none: "vm_entries M = []" using M(1) assms(2) by (auto simp: base_manifest_def vector_manifest_new_def)
  obtain r ex where r: "commit_record E h (sent ds h M) = (r, ex)" by (rule prod.exhaust)
  have "bt_ok (vm_entries (sent ds h M))"
    using committed_manifest(1) [OF M(2), of ds] inner by (simp add: sent_def manifest_for_def describes_def)
  note rs = record_sent [OF assms(1) this r]
  have "\<exists>w. plan_put H (abs s K) r ex t cap = PutWrite w \<and> rec_revision w = rec_revision r \<and>
      rec_body w = rec_body r \<and> rec_kind w = rec_kind r" for t
    using plan_create [OF rs(2)] rs(4) assms(2,4) by simp
  moreover have "kept s (vm_entries M) (rx_inner h)" by (simp add: kept_def none)
  ultimately show ?thesis
    unfolding run using commit_lands [OF assms(1,3) _ M(1,2) _ _ r, of 4] assms(5,6)
    by (simp add: inner del: commit_attempts.simps)
qed

text \<open>A commit is durable: opening the index afterwards gives what the committing handle serves.\<close>

lemma in_sync_open:
  assumes "in_sync h s m"
  shows "\<exists>h'. open_with_shards E vt bv K space dim shards s = (Inr h', s) \<and> rx_inner h' = rx_inner h \<and> in_sync h' s m"
proof -
  obtain c where c: "stored s c m" "rx_inner h = m" using assms by (auto simp: in_sync_def)
  from open_stored [OF c(1), of shards] obtain h' where
    "open_with_shards E vt bv K space dim shards s = (Inr h', s)" "coherent h'" "rx_inner h' = m" "rx_last_seen h' = Some c"
    by blast
  with c show ?thesis by (auto simp: in_sync_def)
qed

lemma open_fresh:
  assumes "inv s" "abs s K = None"
  shows "open_with_shards E vt bv K space dim n s = (Inr (rvi_new K space dim n None), s)"
  using get_raw [OF assms(1) key_valid] assms(2)
  by (simp add: open_with_shards_def bindE_def liftE_def existing_of_def opened_manifest_def)

lemma fresh_coherent: "map_ok [] \<Longrightarrow> coherent (rvi_new K space dim n None)"
  by (simp add: coherent_def configured_def rvi_new_def)

text \<open>Two handles opened on the same missing index commit one after the other.\<close>

lemma two_writers:
  assumes "inv s" "abs s K = None" "map_ok []" "collision_free []" "ds1 \<noteq> []" "ds2 \<noteq> []"
    "ready ds1 []" "ready ds2 (deltas_on ds1 [])"
  shows "\<exists>h h1 h2 h3 s1 s2. open_with_shards E vt bv K space dim n s = (Inr h, s) \<and>
    commit E vt bv ds1 (h, s) = (Inr (), (h1, s1)) \<and> rx_inner h1 = deltas_on ds1 [] \<and>
    commit E vt bv ds2 (h, s1) = (Inr (), (h2, s2)) \<and> rx_inner h2 = deltas_on ds2 (deltas_on ds1 []) \<and>
    open_with_shards E vt bv K space dim shards s2 = (Inr h3, s2) \<and> rx_inner h3 = rx_inner h2 \<and>
    (\<forall>k. k \<noteq> K \<longrightarrow> abs s2 k = abs s k)"
proof -
  let ?h = "rvi_new K space dim n None"
  have h: "coherent ?h" "rx_last_seen ?h = None" using fresh_coherent [OF assms(3)] by (simp_all add: rvi_new_def)
  from commit_creates [OF h assms(1,2,7,4,5)] obtain h1 s1 where
    1: "commit E vt bv ds1 (?h, s) = (Inr (), (h1, s1))" "in_sync h1 s1 (deltas_on ds1 [])" "\<forall>k. k \<noteq> K \<longrightarrow> abs s1 k = abs s k"
    by blast
  then obtain c where c: "stored s1 c (deltas_on ds1 [])" "rx_inner h1 = deltas_on ds1 []" by (auto simp: in_sync_def)
  have "tracks ?h c" by (simp add: tracks_def rvi_new_def)
  moreover have "collision_free (deltas_on ds1 [])" using assms(7) by (simp add: ready_def)
  ultimately obtain h2 s2 where
    2: "commit E vt bv ds2 (?h, s1) = (Inr (), (h2, s2))" "in_sync h2 s2 (deltas_on ds2 (deltas_on ds1 []))"
      "\<forall>k. k \<noteq> K \<longrightarrow> abs s2 k = abs s1 k"
    using commit_merges [OF h(1) c(1) _ _ assms(8,6)] by blast
  from in_sync_open [OF 2(2), of shards] obtain h3 where
    3: "open_with_shards E vt bv K space dim shards s2 = (Inr h3, s2)" "rx_inner h3 = rx_inner h2" by blast
  show ?thesis
    using open_fresh [OF assms(1,2)] 1 c(2) 2 3
    by (intro exI [of _ ?h] exI [of _ h1] exI [of _ h2] exI [of _ h3] exI [of _ s1] exI [of _ s2]) (simp add: in_sync_def)
qed

end

end
