(* ===== verification/Gz_VectorProps.thy ===== *)
theory Gz_VectorProps
  imports Gz_RecordIndexProofs Gz_Demo
begin

text \<open>
  The properties of the durable vector index: the shard format reads back what it wrote and bounds
  what it reads, and an index on the filesystem store keeps every committed vector, also when two
  handles write from the same starting point.
\<close>

section \<open>The shard format\<close>

text \<open>
  C26. The shard format. What \<open>encode_shard\<close> writes, \<open>decode_shard\<close> reads back, sorted by key, as long as
  the lengths fit their fields; two lists with the same entries in another order give the same bytes;
  and whatever bytes are decoded, what comes out has the declared dimension throughout and is no
  larger than the bytes can hold, whatever the header claims.
\<close>

theorem shard_round_trip:
  assumes "d < 2 ^ 32" "length es < 2 ^ 32" "list_all (entry_ok d) es" "length (encode_shard d es) < 2 ^ 64"
    "set es' = set es" "distinct (map fst es)" "distinct (map fst es')"
  shows "decode_shard ue (encode_shard d es) = Inr (d, sort_key fst es) \<and>
    encode_shard d es' = encode_shard d es \<and>
    (\<forall>d' out. decode_shard ue bs = Inr (d', out) \<longrightarrow>
       length out * (8 + d' * 4) \<le> length bs \<and> (\<forall>(k, v) \<in> set out. length v = d'))"
proof -
  have ok: "bt_ok (sort_key fst xs)" if "distinct (map fst xs)" for xs :: "vec_entry list"
    using that by (simp add: bt_ok_def strict_sorted_iff distinct_map)
  have "map_of (sort_key fst es') = map_of (sort_key fst es)"
    using assms(5-7) bt_ok_distinct [OF ok] by (subst map_of_inject_set) auto
  then have "sort_key fst es' = sort_key fst es" by (intro bt_eqI ok assms)
  then have "encode_shard d es' = encode_shard d es" by (simp add: encode_shard_def)
  with decode_encode_shard [OF assms(1-4)] decode_shard_bounded [of ue bs] show ?thesis by blast
qed

definition demo_entry :: "string \<Rightarrow> vec_entry" where
  "demo_entry i = (RecordKey ''team'' ''notes'' i, [0x3F800000])"

theorem shard_round_trip_witness:
  "decode_shard (\<lambda>_. []) (encode_shard 1 [demo_entry ''b'', demo_entry ''a'']) = Inr (1, [demo_entry ''a'', demo_entry ''b'']) \<and>
   encode_shard 1 [demo_entry ''a'', demo_entry ''b''] = encode_shard 1 [demo_entry ''b'', demo_entry ''a'']"
proof -
  let ?es = "[demo_entry ''b'', demo_entry ''a'']"
  have "list_all (entry_ok 1) ?es"
    by (simp add: entry_ok_def demo_entry_def; code_simp)
  moreover have "length (encode_shard 1 ?es) < 2 ^ 64"
    by (simp add: encode_shard_def encode_entry_def demo_entry_def MAGIC_def)
  moreover have "sort_key fst ?es = [demo_entry ''a'', demo_entry ''b'']" by code_simp
  ultimately show ?thesis
    using shard_round_trip [of 1 ?es "[demo_entry ''a'', demo_entry ''b'']" "\<lambda>_. []" "[]"]
    by (simp add: demo_entry_def insert_commute)
qed

section \<open>The durable index\<close>

text \<open>A map of vectors the shard format can hold, with shards that no other content has the digest of.\<close>

definition shards_fit :: "vec_env \<Rightarrow> nat \<Rightarrow> 16 word \<Rightarrow> vec_map \<Rightarrow> bool" where
  "shards_fit E d n m \<longleftrightarrow> bt_ok m \<and> list_all (entry_ok d) m \<and> length m < 2 ^ 32 \<and>
     (\<forall>i. let image = encode_shard d (shard_map E n m i) in length image < 2 ^ 64 \<and> unique_preimage (ve_H E) image)"

text \<open>
  C10. No lost update. Two writers open the same missing index on the filesystem store; the first commits its
  changes, and the second commits its own from the handle it opened before that. Both commits succeed,
  the second one serves its changes on top of those of the first, opening the index again (with any
  number of shards asked for) gives that same map, and no other record of the store has changed.
\<close>

theorem vector_index_no_lost_update:
  assumes "fs_substrate H C" "fs_inv H C (fs_root st) s" "fs_abs C (fs_root st) s K = None" "fs_valid K"
    and "ve_H E = H" "\<And>M. bt_ok (vm_entries M) \<Longrightarrow> ve_from_slice E (ve_to_vec E M) = Inr M"
    and "n \<noteq> 0" "d < 2 ^ 32" "ds1 \<noteq> []" "ds2 \<noteq> []" "delta_dims d ds1" "delta_dims d ds2"
    and "shards_fit E d n []" "shards_fit E d n (deltas_on ds1 [])" "shards_fit E d n (deltas_on ds2 (deltas_on ds1 []))"
  shows "\<exists>h h1 h2 h3 s1 s2. open_with_shards E (fs_vt H C st) (fs_bv H st) K space d n s = (Inr h, s) \<and>
    commit E (fs_vt H C st) (fs_bv H st) ds1 (h, s) = (Inr (), (h1, s1)) \<and> rx_inner h1 = deltas_on ds1 [] \<and>
    commit E (fs_vt H C st) (fs_bv H st) ds2 (h, s1) = (Inr (), (h2, s2)) \<and>
    rx_inner h2 = deltas_on ds2 (deltas_on ds1 []) \<and>
    open_with_shards E (fs_vt H C st) (fs_bv H st) K space d shards s2 = (Inr h3, s2) \<and> rx_inner h3 = rx_inner h2 \<and>
    (\<forall>k. k \<noteq> K \<longrightarrow> fs_abs C (fs_root st) s2 k = fs_abs C (fs_root st) s k)"
proof -
  have full: "full_store H (fs_cap st) fs_valid (fs_vt H C st) (fs_abs C (fs_root st)) (fs_inv H C (fs_root st))
      fs_clock (fs_bv H st) (fs_blobs (fs_root st)) fs_hash_valid"
    using fs_substrate.full [OF assms(1)] .
  have vs: "vector_store H (fs_cap st) fs_valid (fs_vt H C st) (fs_abs C (fs_root st)) (fs_inv H C (fs_root st))
      fs_clock (fs_bv H st) (fs_blobs (fs_root st)) fs_hash_valid E K d n"
    using full assms(4-8) by (intro vector_store.intro vector_store_axioms.intro) auto
  have fit: "shards_fit E d n m \<longleftrightarrow> vector_store.map_ok E d n m \<and> vector_store.collision_free H E d n m" for m
    unfolding shards_fit_def vector_store.map_ok_def [OF vs] vector_store.collision_free_def [OF vs]
      vector_store.shard_image_def [OF vs] assms(5) Let_def by blast
  show ?thesis
    by (rule vector_store.two_writers [OF vs]) (use assms fit in \<open>auto simp: vector_store.ready_def [OF vs]\<close>)
qed

text \<open>A manifest codec, and the index on the filesystem store with it.\<close>

definition c_vector_manifest :: "vector_manifest codec" where
  "c_vector_manifest = c_map
     (\<lambda>m. (vm_space m, vm_dim m, unat (vm_shards m), map (\<lambda>(i, h). (unat i, h)) (vm_entries m)))
     (\<lambda>(sp, d, n, es). \<lparr>vm_space = sp, vm_dim = d, vm_shards = of_nat n, vm_entries = map (\<lambda>(i, h). (of_nat i, h)) es\<rparr>)
     (c_pair c_string (c_pair c_nat (c_pair c_nat (c_list (c_pair c_nat c_hash)))))"

lemma c_vector_manifest_ok: "codec_ok c_vector_manifest"
  unfolding c_vector_manifest_def by (rule c_map_ok) (simp_all add: comp_def case_prod_unfold)

definition demo_env :: vec_env where
  "demo_env = \<lparr>ve_H = demo_digest, ve_to_vec = fst c_vector_manifest,
     ve_from_slice = (\<lambda>bs. case snd c_vector_manifest bs of Some (m, []) \<Rightarrow> Inr m | _ \<Rightarrow> Inl ''malformed''),
     ve_utf8_error = (\<lambda>_. []), ve_debug = id\<rparr>"

lemma demo_env: "ve_H demo_env = demo_digest" "ve_from_slice demo_env (ve_to_vec demo_env M) = Inr M"
  using codec_okD [OF c_vector_manifest_ok, of M "[]"] by (simp_all add: demo_env_def)

definition demo_index_key :: record_key where
  "demo_index_key = RecordKey ''repo'' ''vector-manifest'' ''main''"

lemma demo_index_valid: "fs_valid demo_index_key"
  by code_simp

interpretation demo_vs: vector_store demo_digest "fs_cap st" fs_valid "fs_vt demo_digest demo_codec st"
  "fs_abs demo_codec (fs_root st)" "fs_inv demo_digest demo_codec (fs_root st)" fs_clock "fs_bv demo_digest st"
  "fs_blobs (fs_root st)" fs_hash_valid demo_env demo_index_key space 1 2 for st space
  by unfold_locales (simp_all add: demo_env demo_index_valid)

definition short_entry :: "string \<Rightarrow> vec_entry" where
  "short_entry x = (RecordKey x ''n'' ''i'', [0x3F800000])"

text \<open>The two entries are in different shards.\<close>

lemma demo_in_shard: "in_shard demo_env 2 i (fst (short_entry ''a'')) \<longleftrightarrow> i = 1"
  "in_shard demo_env 2 i (fst (short_entry ''b'')) \<longleftrightarrow> i = 0"
proof -
  have "shard_of demo_digest (fst (short_entry ''a'')) 2 = 1" "shard_of demo_digest (fst (short_entry ''b'')) 2 = 0"
    by code_simp+
  then show "in_shard demo_env 2 i (fst (short_entry ''a'')) \<longleftrightarrow> i = 1"
    "in_shard demo_env 2 i (fst (short_entry ''b'')) \<longleftrightarrow> i = 0"
    by (auto simp: in_shard_def demo_env(1))
qed

lemma demo_shards_fit:
  assumes "m \<in> {[], [short_entry ''a''], [short_entry ''a'', short_entry ''b'']}"
  shows "shards_fit demo_env 1 2 m"
proof -
  have ok: "bt_ok m" "list_all (entry_ok 1) m"
    using assms by (auto simp: bt_ok_def short_entry_def entry_ok_def; code_simp)+
  have "shard_map demo_env 2 m i \<in> {[], [short_entry ''a''], [short_entry ''b'']}" for i
    using assms demo_in_shard [of i] by (auto simp: shard_map_def collect_where_def)
  then have len: "length (encode_shard 1 (shard_map demo_env 2 m i)) \<le> 31" for i
    by (auto simp: encode_shard_def encode_entry_def short_entry_def MAGIC_def put_str16_def le_bytes_def put_floats_def
        dest!: spec [of _ i] meta_spec [of _ i])
  have "length (encode_shard 1 (shard_map demo_env 2 m i)) < 2 ^ 64" for i by (rule le_less_trans [OF len]) simp
  moreover have "length m < 2 ^ 32" using assms by auto
  ultimately show ?thesis
    unfolding shards_fit_def Let_def demo_env(1) using ok demo_unique_short [OF len] by blast
qed

theorem vector_index_no_lost_update_witness:
  "\<exists>h h1 h2 h3 s1 s2.
     open_with_shards demo_env (fs_vt demo_digest demo_codec demo_fs) (fs_bv demo_digest demo_fs) demo_index_key ''bge'' 1 2
       (demo_disk []) = (Inr h, demo_disk []) \<and>
     commit demo_env (fs_vt demo_digest demo_codec demo_fs) (fs_bv demo_digest demo_fs)
       [case_prod Upsert (short_entry ''a'')] (h, demo_disk []) = (Inr (), (h1, s1)) \<and>
     commit demo_env (fs_vt demo_digest demo_codec demo_fs) (fs_bv demo_digest demo_fs)
       [case_prod Upsert (short_entry ''b'')] (h, s1) = (Inr (), (h2, s2)) \<and>
     open_with_shards demo_env (fs_vt demo_digest demo_codec demo_fs) (fs_bv demo_digest demo_fs) demo_index_key ''bge'' 1 7
       s2 = (Inr h3, s2) \<and> rx_inner h3 = [short_entry ''a'', short_entry ''b'']"
proof -
  let ?a = "[case_prod Upsert (short_entry ''a'')]" and ?b = "[case_prod Upsert (short_entry ''b'')]"
  have d: "deltas_on ?a [] = [short_entry ''a'']" "deltas_on ?b [short_entry ''a''] = [short_entry ''a'', short_entry ''b'']"
    by code_simp+
  have "delta_dims 1 ?a" "delta_dims 1 ?b" by (simp_all add: delta_dims_def short_entry_def)
  moreover have "fs_abs demo_codec (fs_root demo_fs) (demo_disk []) demo_index_key = None"
    by (simp add: fs_abs_def demo_disk_def)
  ultimately show ?thesis
    using vector_index_no_lost_update [OF demo.fs_substrate_axioms demo_disk_inv _ demo_index_valid demo_env(1) demo_env(2),
        of 2 1 ?a ?b "''bge''" 7] demo_shards_fit
    by (simp add: d) metis
qed

end
