(* ===== verification/Gz_S3.thy ===== *)
theory Gz_S3
  imports Gz_Paths Gz_Blobs
begin

text \<open>
  The object-store substrate (\<open>gonzalo-store-s3/src/lib.rs\<close>): one JSON object per record, a marker
  object beside every tombstone, a flag object per collection whose tombstones are all marked, and
  one object per blob.

  The client is \<open>aws-sdk-s3\<close>, a third-party crate: the requests are the operations of \<open>s3_client\<close>, a
  parameter, each a step on the state \<open>'x\<close> of the other end, in which other writers may act as well;
  waiting and the clock are operations of it too. What an object store promises is the locale
  \<open>object_store\<close> (\<open>Gz_S3Proofs\<close>). \<open>serde_json\<close> on records and revisions and the conversion of a
  \<open>DateTime\<close> to a \<open>SystemTime\<close> are the parameter \<open>s3_env\<close>.

  The concurrent reads of a listing have no order of their own; they are made in key order here. A
  listing whose pages never end has no result: the loop is a partial function, and the error
  \<open>listing_never_ends\<close> stands for not returning.
\<close>

subsection \<open>The client\<close>

record s3_error =
  er_no_such_key :: bool
  er_not_found :: bool
  er_code :: "string option"
  er_message :: "string option"
  er_status :: "nat option"
  er_text :: string

record s3_object_out =
  go_etag :: "string option"
  go_body :: "string + bytes"

record s3_listed =
  li_key :: "string option"
  li_etag :: "string option"
  li_modified :: "int option"

record s3_page =
  lp_contents :: "s3_listed list"
  lp_truncated :: "bool option"
  lp_token :: "string option"

datatype s3_precondition = IfAbsent | IfMatch string

record 'x s3_client =
  cl_get_object :: "string \<Rightarrow> ('x, s3_error, s3_object_out) io"
  cl_put_object :: "string \<Rightarrow> s3_precondition option \<Rightarrow> bytes \<Rightarrow> ('x, s3_error, unit) io"
  cl_delete_object :: "string \<Rightarrow> string option \<Rightarrow> ('x, s3_error, unit) io"
  cl_head_object :: "string \<Rightarrow> ('x, s3_error, unit) io"
  cl_list_objects_v2 :: "string option \<Rightarrow> string option \<Rightarrow> ('x, s3_error, s3_page) io"
  cl_sleep :: "nat \<Rightarrow> 'x \<Rightarrow> 'x"
  cl_clock :: "'x \<Rightarrow> system_time"

record s3_env =
  se_H :: blake3
  se_codec :: rec_codec
  se_revision_to_vec :: "revision \<Rightarrow> string + bytes"
  se_system_time :: "int \<Rightarrow> string + system_time"

record 'x s3_store =
  s3_client :: "'x s3_client"
  s3_cap :: nat

text \<open>The state of the store: the other end, and the collections known to carry the flag.\<close>

record 'x s3_state =
  st_net :: 'x
  st_marked :: "(string \<times> string) list"

definition s3_new :: "'x s3_client \<Rightarrow> 'x s3_store" where
  "s3_new c = \<lparr>s3_client = c, s3_cap = DEFAULT_ANCESTOR_CAP\<rparr>"

definition s3_with_ancestor_cap :: "nat \<Rightarrow> 'x s3_store \<Rightarrow> 'x s3_store result" where
  "s3_with_ancestor_cap cap S = bindR (validate_ancestor_cap cap) (\<lambda>c. Inr (S\<lparr>s3_cap := c\<rparr>))"

definition on_net :: "('x, 'e, 'a) io \<Rightarrow> ('x s3_state, 'e, 'a) io" where
  "on_net m s = (case m (st_net s) of (r, x) \<Rightarrow> (r, s\<lparr>st_net := x\<rparr>))"

text \<open>\<open>map_err(|e| Backend(e.into_service_error().to_string()))\<close>.\<close>

definition map_service :: "('x, s3_error, 'a) io \<Rightarrow> ('x, core_error, 'a) io" where
  "map_service m x = (case m x of (Inl e, x') \<Rightarrow> (Inl (Backend (er_text e)), x') | (Inr a, x') \<Rightarrow> (Inr a, x'))"

subsection \<open>Object keys\<close>

definition BLOB_PREFIX :: string where
  "BLOB_PREFIX = ''blobs/''"

definition MARKER_SUFFIX :: string where
  "MARKER_SUFFIX = ''.tombstone''"

definition parse_object_key :: "string \<Rightarrow> record_key option" where
  "parse_object_key s =
     (case strip_suffix ''.json'' s of
        None \<Rightarrow> None
      | Some rest \<Rightarrow>
          (case split_slash [] rest of
             [a, b, c] \<Rightarrow> Some (RecordKey (decode_segment a) (decode_segment b) (decode_segment c))
           | _ \<Rightarrow> None))"

definition marker_key :: "record_key \<Rightarrow> string" where
  "marker_key k = object_key k @ MARKER_SUFFIX"

definition parse_marker_key :: "string \<Rightarrow> record_key option" where
  "parse_marker_key s = Option.bind (strip_suffix MARKER_SUFFIX s) parse_object_key"

definition marked_flag_key :: "string \<Rightarrow> string \<Rightarrow> string" where
  "marked_flag_key ns col = segment ns @ ''/'' @ segment col @ ''/_tombstone_markers''"

definition blob_hash_from_key :: "string \<Rightarrow> content_hash option" where
  "blob_hash_from_key k =
     (case strip_prefix BLOB_PREFIX k of
        None \<Rightarrow> None
      | Some rest \<Rightarrow> if rest = [] \<or> CHR ''/'' \<in> set rest \<or> CHR ''.'' \<in> set rest then None else Some (ContentHash rest))"

definition blob_key :: "content_hash \<Rightarrow> string" where
  "blob_key h = BLOB_PREFIX @ hash_str h"

subsection \<open>Races\<close>

datatype race = Settled | InFlight

datatype write_outcome = Applied | LostRace race

datatype 'a step = StepDone 'a | StepRetry race

definition precondition :: "string option \<Rightarrow> s3_precondition" where
  "precondition etag = (case etag of Some tag \<Rightarrow> IfMatch tag | None \<Rightarrow> IfAbsent)"

definition is_precondition_failed :: "string option \<Rightarrow> bool" where
  "is_precondition_failed code \<longleftrightarrow> code = Some ''PreconditionFailed''"

definition race_kind :: "string option \<Rightarrow> race option" where
  "race_kind code =
     (if code = Some ''ConditionalRequestConflict'' then Some InFlight
      else if code = Some ''PreconditionFailed'' \<or> code = Some ''NoSuchKey'' then Some Settled
      else None)"

definition MAX_WRITE_ATTEMPTS :: nat where
  "MAX_WRITE_ATTEMPTS = 8"

definition LIST_READ_CONCURRENCY :: nat where
  "LIST_READ_CONCURRENCY = 16"

text \<open>Milliseconds; the clock's nanoseconds give the jitter, none before the epoch.\<close>

definition inflight_backoff :: "nat \<Rightarrow> system_time \<Rightarrow> nat" where
  "inflight_backoff round t =
     (let step = min (4 * 2 ^ min round 6) 250;
          jitter = (if 0 \<le> t then nat (t mod 1000000000) mod max step 1 else 0)
      in step + jitter)"

definition own_write_landed :: "rec \<Rightarrow> rec option \<Rightarrow> bool" where
  "own_write_landed sent current = (case current of Some r \<Rightarrow> r = sent | None \<Rightarrow> False)"

subsection \<open>One object at a time\<close>

definition read_with_etag ::
  "s3_env \<Rightarrow> 'x s3_store \<Rightarrow> record_key \<Rightarrow> ('x, core_error, (rec \<times> string) option) io" where
  "read_with_etag E S k x =
     (case cl_get_object (s3_client S) (object_key k) x of
        (Inl e, x') \<Rightarrow> (if er_no_such_key e then Inr None else Inl (Backend (er_text e)), x')
      | (Inr out, x') \<Rightarrow>
          (case go_etag out of
             None \<Rightarrow> Inl (Backend (''s3: GetObject for '' @ object_key k @
               '' returned no ETag; conditional writes are unsafe against this backend''))
           | Some etag \<Rightarrow>
               (case go_body out of
                  Inl e \<Rightarrow> Inl (Backend e)
                | Inr data \<Rightarrow>
                    (case rc_from (se_codec E) data of Inl e \<Rightarrow> Inl (Serde e) | Inr r \<Rightarrow> Inr (Some (r, etag)))), x'))"

definition s3_read :: "s3_env \<Rightarrow> 'x s3_store \<Rightarrow> record_key \<Rightarrow> ('x, core_error, rec option) io" where
  "s3_read E S k = bindE (read_with_etag E S k) (\<lambda>r. retE (map_option fst r))"

text \<open>A conditional write that lost its race is an outcome, any other failure an error.\<close>

definition race_outcome :: "('x, s3_error, unit) io \<Rightarrow> ('x, core_error, write_outcome) io" where
  "race_outcome m x =
     (case m x of
        (Inr _, x') \<Rightarrow> (Inr Applied, x')
      | (Inl e, x') \<Rightarrow>
          (case race_kind (er_code e) of Some kind \<Rightarrow> Inr (LostRace kind) | None \<Rightarrow> Inl (Backend (er_text e)), x'))"

definition put_record_if ::
  "s3_env \<Rightarrow> 'x s3_store \<Rightarrow> rec \<Rightarrow> s3_precondition \<Rightarrow> ('x, core_error, write_outcome) io" where
  "put_record_if E S r pre =
     (case rc_to (se_codec E) r of
        Inl e \<Rightarrow> throwE (Serde e)
      | Inr bs \<Rightarrow> race_outcome (cl_put_object (s3_client S) (object_key (rec_key r)) (Some pre) bs))"

definition delete_record_if_match ::
  "'x s3_store \<Rightarrow> record_key \<Rightarrow> string \<Rightarrow> ('x, core_error, write_outcome) io" where
  "delete_record_if_match S k etag = race_outcome (cl_delete_object (s3_client S) (object_key k) (Some etag))"

definition put_marker :: "s3_env \<Rightarrow> 'x s3_store \<Rightarrow> record_key \<Rightarrow> revision \<Rightarrow> ('x, core_error, unit) io" where
  "put_marker E S k rv =
     (case se_revision_to_vec E rv of
        Inl e \<Rightarrow> throwE (Serde e)
      | Inr bs \<Rightarrow> map_service (cl_put_object (s3_client S) (marker_key k) None bs))"

definition delete_marker_if_match :: "'x s3_store \<Rightarrow> record_key \<Rightarrow> string \<Rightarrow> ('x, core_error, unit) io" where
  "delete_marker_if_match S k etag x =
     (case cl_delete_object (s3_client S) (marker_key k) (Some etag) x of
        (Inr _, x') \<Rightarrow> (Inr (), x')
      | (Inl e, x') \<Rightarrow>
          (if race_kind (er_code e) \<noteq> None \<or> er_code e = Some ''NoSuchKey'' then Inr ()
           else Inl (Backend (er_text e)), x'))"

definition head_exists :: "'x s3_store \<Rightarrow> string \<Rightarrow> ('x, core_error, bool) io" where
  "head_exists S key x =
     (case cl_head_object (s3_client S) key x of
        (Inr _, x') \<Rightarrow> (Inr True, x')
      | (Inl e, x') \<Rightarrow> (if er_not_found e then Inr False else Inl (Backend (er_text e)), x'))"

definition marker_exists :: "'x s3_store \<Rightarrow> record_key \<Rightarrow> ('x, core_error, bool) io" where
  "marker_exists S k = head_exists S (marker_key k)"

definition collection_marked ::
  "'x s3_store \<Rightarrow> string \<Rightarrow> string \<Rightarrow> ('x s3_state, core_error, bool) io" where
  "collection_marked S ns col s =
     (let pair = (segment ns, segment col) in
      if pair \<in> set (st_marked s) then (Inr True, s)
      else bindE (on_net (head_exists S (marked_flag_key ns col))) (\<lambda>found s'.
        (Inr found, if found then s'\<lparr>st_marked := List.insert pair (st_marked s')\<rparr> else s')) s)"

definition mark_collection :: "'x s3_store \<Rightarrow> string \<Rightarrow> string \<Rightarrow> ('x s3_state, core_error, unit) io" where
  "mark_collection S ns col =
     bindE (on_net (map_service (cl_put_object (s3_client S) (marked_flag_key ns col) None ''1''))) (\<lambda>_ s.
       (Inr (), s\<lparr>st_marked := List.insert (segment ns, segment col) (st_marked s)\<rparr>))"

subsection \<open>The compare-and-swap loop\<close>

datatype 'a planned = PlannedFinish 'a | PlannedPut rec 'a | PlannedRemove 'a

fun put_step :: "record_key \<Rightarrow> put_plan \<Rightarrow> put_result planned result" where
  "put_step k (PutWrite r) = Inr (PlannedPut r (Committed (rec_revision r)))"
| "put_step k (PutPlanConflict c) = Inr (PlannedFinish (PutConflict c))"
| "put_step k PutNotFound = Inl (NotFound k)"
| "put_step k (PutRejected m) = Inl (Invalid m)"

fun delete_step :: "delete_plan \<Rightarrow> delete_result planned" where
  "delete_step (DelWrite r) = PlannedPut r Deleted"
| "delete_step DelNoop = PlannedFinish Deleted"
| "delete_step (DelPlanConflict c) = PlannedFinish (DeleteConflict c)"

fun purge_step :: "purge_plan \<Rightarrow> delete_result planned" where
  "purge_step PurgeRemove = PlannedRemove Deleted"
| "purge_step PurgeNoop = PlannedFinish Deleted"
| "purge_step (PurgePlanConflict c) = PlannedFinish (DeleteConflict c)"

text \<open>A plan is made for the time of the attempt and the record it read.\<close>

type_synonym 'a planner = "int \<Rightarrow> rec option \<Rightarrow> 'a planned result"

text \<open>What the previous attempt sent, with the answer it would have given, and the other end.\<close>

type_synonym ('a, 'x) attempt_state = "(rec \<times> 'a) option \<times> 'x"

definition remote :: "('x, 'e, 'b) io \<Rightarrow> ('p \<times> 'x, 'e, 'b) io" where
  "remote m px = (case m (snd px) of (r, x) \<Rightarrow> (r, (fst px, x)))"

definition take_pending :: "(('a, 'x) attempt_state, core_error, (rec \<times> 'a) option) io" where
  "take_pending px = (Inr (fst px), (None, snd px))"

definition set_pending :: "rec \<times> 'a \<Rightarrow> (('a, 'x) attempt_state, core_error, unit) io" where
  "set_pending p px = (Inr (), (Some p, snd px))"

definition write_attempt ::
  "s3_env \<Rightarrow> 'x s3_store \<Rightarrow> record_key \<Rightarrow> 'a planner \<Rightarrow> (('a, 'x) attempt_state, core_error, 'a step) io" where
  "write_attempt E S k plan =
     bindE (remote (read_with_etag E S k)) (\<lambda>current.
     bindE take_pending (\<lambda>previous.
       case (case previous of
               Some (sent, answer) \<Rightarrow> if own_write_landed sent (map_option fst current) then Some answer else None
             | None \<Rightarrow> None) of
         Some answer \<Rightarrow> retE (StepDone answer)
       | None \<Rightarrow> (\<lambda>px.
           let etag = map_option snd current in
           case plan (now_ms (cl_clock (s3_client S) (snd px))) (map_option fst current) of
             Inl e \<Rightarrow> (Inl e, px)
           | Inr (PlannedFinish answer) \<Rightarrow> (Inr (StepDone answer), px)
           | Inr (PlannedPut record answer) \<Rightarrow>
               bindE (if is_tombstone record then remote (put_marker E S k (rec_revision record)) else retE ()) (\<lambda>_.
               bindE (remote (put_record_if E S record (precondition etag))) (\<lambda>outcome.
                 case outcome of
                   LostRace kind \<Rightarrow> bindE (set_pending (record, answer)) (\<lambda>_. retE (StepRetry kind))
                 | Applied \<Rightarrow> retE (StepDone answer))) px
           | Inr (PlannedRemove answer) \<Rightarrow>
               bindE (remote (delete_record_if_match S k (case etag of Some t \<Rightarrow> t | None \<Rightarrow> []))) (\<lambda>outcome.
                 case outcome of
                   LostRace kind \<Rightarrow> retE (StepRetry kind)
                 | Applied \<Rightarrow> retE (StepDone answer)) px)))"

text \<open>The rounds, counted down.\<close>

fun retry_on_lost_race ::
  "'x s3_client \<Rightarrow> record_key \<Rightarrow> ('p \<times> 'x, core_error, 'a step) io \<Rightarrow> nat \<Rightarrow> ('p \<times> 'x, core_error, 'a) io" where
  "retry_on_lost_race c k attempt 0 =
     throwE (Backend (''s3: conditional write for '' @ key_display k @ '' lost '' @
       show_nat MAX_WRITE_ATTEMPTS @ '' consecutive races''))"
| "retry_on_lost_race c k attempt (Suc n) =
     bindE attempt (\<lambda>st.
       case st of
         StepDone v \<Rightarrow> retE v
       | StepRetry Settled \<Rightarrow> retry_on_lost_race c k attempt n
       | StepRetry InFlight \<Rightarrow> (\<lambda>(p, x).
           retry_on_lost_race c k attempt n
             (p, cl_sleep c (inflight_backoff (MAX_WRITE_ATTEMPTS - Suc n) (cl_clock c x)) x)))"

definition write_planned ::
  "s3_env \<Rightarrow> 'x s3_store \<Rightarrow> record_key \<Rightarrow> 'a planner \<Rightarrow> ('x, core_error, 'a) io" where
  "write_planned E S k plan x =
     (case retry_on_lost_race (s3_client S) k (write_attempt E S k plan) MAX_WRITE_ATTEMPTS (None, x) of
        (r, (_, x')) \<Rightarrow> (r, x'))"

subsection \<open>Listing\<close>

definition next_continuation :: "bool option \<Rightarrow> string option \<Rightarrow> string option" where
  "next_continuation truncated token = token"

partial_function (option) page_loop ::
  "'x s3_client \<Rightarrow> string option \<Rightarrow> (s3_listed list \<Rightarrow> 'a \<Rightarrow> core_error + 'a) \<Rightarrow> string option \<Rightarrow> 'a \<Rightarrow> 'x \<Rightarrow>
   ((core_error + 'a) \<times> 'x) option" where
  "page_loop c pre step token acc x =
     (case cl_list_objects_v2 c pre token x of
        (Inl e, x') \<Rightarrow> Some (Inl (Backend (er_text e)), x')
      | (Inr page, x') \<Rightarrow>
          (case step (lp_contents page) acc of
             Inl e \<Rightarrow> Some (Inl e, x')
           | Inr acc' \<Rightarrow>
               (case next_continuation (lp_truncated page) (lp_token page) of
                  Some t \<Rightarrow> page_loop c pre step (Some t) acc' x'
                | None \<Rightarrow> Some (Inr acc', x'))))"

declare page_loop.simps [code]

definition listing_never_ends :: core_error where
  "listing_never_ends = Backend ''the listing does not end''"

definition list_pages ::
  "'x s3_client \<Rightarrow> string option \<Rightarrow> (s3_listed list \<Rightarrow> 'a \<Rightarrow> core_error + 'a) \<Rightarrow> 'a \<Rightarrow> ('x, core_error, 'a) io" where
  "list_pages c pre step acc x =
     (case page_loop c pre step None acc x of Some r \<Rightarrow> r | None \<Rightarrow> (Inl listing_never_ends, x))"

record listing =
  ls_records :: "record_key list"
  ls_markers :: "(record_key, string) btree"

definition list_entry :: "key_prefix \<Rightarrow> s3_listed \<Rightarrow> listing \<Rightarrow> listing" where
  "list_entry p obj out =
     (case li_key obj of
        None \<Rightarrow> out
      | Some s \<Rightarrow>
          (case parse_object_key s of
             Some k \<Rightarrow> if kp_matches p k then out\<lparr>ls_records := ls_records out @ [k]\<rparr> else out
           | None \<Rightarrow>
               (case (parse_marker_key s, li_etag obj) of
                  (Some k, Some etag) \<Rightarrow>
                    if kp_matches p k then out\<lparr>ls_markers := bt_insert k etag (ls_markers out)\<rparr> else out
                | _ \<Rightarrow> out)))"

definition s3_prefix :: "key_prefix \<Rightarrow> string" where
  "s3_prefix p =
     (case kp_namespace p of
        None \<Rightarrow> []
      | Some ns \<Rightarrow>
          segment ns @ ''/'' @ (case kp_collection p of Some col \<Rightarrow> segment col @ ''/'' | None \<Rightarrow> []))"

definition list_objects :: "'x s3_store \<Rightarrow> key_prefix \<Rightarrow> ('x, core_error, listing) io" where
  "list_objects S p =
     list_pages (s3_client S) (if s3_prefix p = [] then None else Some (s3_prefix p))
       (\<lambda>objs out. Inr (fold (list_entry p) objs out)) \<lparr>ls_records = [], ls_markers = []\<rparr>"

definition s3_list_keys :: "'x s3_store \<Rightarrow> key_prefix \<Rightarrow> ('x, core_error, record_key list) io" where
  "s3_list_keys S p = bindE (list_objects S p) (\<lambda>l. retE (ls_records l))"

datatype liveness = Live | Tombstoned revision | Absent

definition listed_as_live :: "core_error + rec option \<Rightarrow> liveness result" where
  "listed_as_live r =
     (case r of
        Inr (Some rec) \<Rightarrow> Inr (if is_tombstone rec then Tombstoned (rec_revision rec) else Live)
      | Inr None \<Rightarrow> Inr Absent
      | Inl (Serde _) \<Rightarrow> Inr Live
      | Inl e \<Rightarrow> Inl e)"

fun read_batch ::
  "s3_env \<Rightarrow> 'x s3_store \<Rightarrow> record_key list \<Rightarrow> (record_key, liveness) btree \<Rightarrow>
   ('x, core_error, (record_key, liveness) btree) io" where
  "read_batch E S [] live = retE live"
| "read_batch E S (k # ks) live =
     (\<lambda>x. case s3_read E S k x of (r, x') \<Rightarrow>
        bindE (liftE (listed_as_live r)) (\<lambda>l. read_batch E S ks (bt_insert k l live)) x')"

fun read_batches ::
  "s3_env \<Rightarrow> 'x s3_store \<Rightarrow> record_key list list \<Rightarrow> (record_key, liveness) btree \<Rightarrow>
   ('x, core_error, (record_key, liveness) btree) io" where
  "read_batches E S [] live = retE live"
| "read_batches E S (b # bs) live = bindE (read_batch E S b live) (\<lambda>live. read_batches E S bs live)"

definition read_liveness ::
  "s3_env \<Rightarrow> 'x s3_store \<Rightarrow> record_key list \<Rightarrow> ('x, core_error, (record_key, liveness) btree) io" where
  "read_liveness E S ks = read_batches E S (chunks LIST_READ_CONCURRENCY ks) []"

type_synonym collection_keys = "(string \<times> string, record_key list) btree"

definition push_key :: "record_key \<Rightarrow> collection_keys \<Rightarrow> collection_keys" where
  "push_key k m =
     (let c = (namespace k, collection k) in
      bt_insert c ((case bt_get m c of Some ks \<Rightarrow> ks | None \<Rightarrow> []) @ [k]) m)"

definition visit_key :: "record_key \<Rightarrow> collection_keys \<Rightarrow> collection_keys" where
  "visit_key k m =
     (let c = (namespace k, collection k) in case bt_get m c of Some _ \<Rightarrow> m | None \<Rightarrow> bt_insert c [] m)"

definition by_collection :: "listing \<Rightarrow> collection_keys" where
  "by_collection l = fold visit_key (map fst (ls_markers l)) (fold push_key (ls_records l) [])"

fun drop_marker :: "'x s3_store \<Rightarrow> record_key \<Rightarrow> string option \<Rightarrow> ('x, core_error, unit) io" where
  "drop_marker S k None = retE ()"
| "drop_marker S k (Some etag) = delete_marker_if_match S k etag"

fun resolve_keys ::
  "s3_env \<Rightarrow> 'x s3_store \<Rightarrow> listing \<Rightarrow> (record_key, liveness) btree \<Rightarrow> record_key list \<Rightarrow> record_key list \<Rightarrow>
   ('x, core_error, record_key list) io" where
  "resolve_keys E S l live [] out = retE out"
| "resolve_keys E S l live (k # ks) out =
     (case bt_get live k of
        None \<Rightarrow> resolve_keys E S l live ks (out @ [k])
      | Some Live \<Rightarrow>
          bindE (drop_marker S k (bt_get (ls_markers l) k)) (\<lambda>_. resolve_keys E S l live ks (out @ [k]))
      | Some (Tombstoned rv) \<Rightarrow>
          bindE (if bt_get (ls_markers l) k = None then put_marker E S k rv else retE ())
            (\<lambda>_. resolve_keys E S l live ks out)
      | Some Absent \<Rightarrow>
          bindE (drop_marker S k (bt_get (ls_markers l) k)) (\<lambda>_. resolve_keys E S l live ks out))"

fun sweep_orphans :: "'x s3_store \<Rightarrow> (record_key \<times> string) list \<Rightarrow> ('x, core_error, unit) io" where
  "sweep_orphans S [] = retE ()"
| "sweep_orphans S ((k, etag) # ms) = bindE (delete_marker_if_match S k etag) (\<lambda>_. sweep_orphans S ms)"

definition orphans :: "listing \<Rightarrow> string \<Rightarrow> string \<Rightarrow> record_key list \<Rightarrow> (record_key \<times> string) list" where
  "orphans l ns col keys =
     filter (\<lambda>(m, _). m \<notin> set keys) (filter (\<lambda>(m, _). namespace m = ns \<and> collection m = col) (ls_markers l))"

definition list_collection ::
  "s3_env \<Rightarrow> 'x s3_store \<Rightarrow> listing \<Rightarrow> string \<Rightarrow> string \<Rightarrow> record_key list \<Rightarrow> record_key list \<Rightarrow>
   ('x s3_state, core_error, record_key list) io" where
  "list_collection E S l ns col keys out =
     bindE (collection_marked S ns col) (\<lambda>marked.
     bindE (on_net (read_liveness E S
       (if marked then filter (\<lambda>k. bt_get (ls_markers l) k \<noteq> None) keys else keys))) (\<lambda>live.
     bindE (on_net (resolve_keys E S l live keys out)) (\<lambda>out.
     bindE (on_net (sweep_orphans S (orphans l ns col keys))) (\<lambda>_.
     bindE (if marked then retE () else mark_collection S ns col) (\<lambda>_. retE out)))))"

fun list_collections ::
  "s3_env \<Rightarrow> 'x s3_store \<Rightarrow> listing \<Rightarrow> collection_keys \<Rightarrow> record_key list \<Rightarrow> ('x s3_state, core_error, record_key list) io" where
  "list_collections E S l [] out = retE out"
| "list_collections E S l (((ns, col), keys) # cs) out =
     bindE (list_collection E S l ns col keys out) (\<lambda>out. list_collections E S l cs out)"

subsection \<open>The store\<close>

definition s3_get :: "s3_env \<Rightarrow> 'x s3_store \<Rightarrow> record_key \<Rightarrow> ('x, core_error, rec option) io" where
  "s3_get E S k = bindE (s3_read E S k) (\<lambda>r. retE (live_only r))"

definition s3_list :: "s3_env \<Rightarrow> 'x s3_store \<Rightarrow> key_prefix \<Rightarrow> ('x s3_state, core_error, record_key list) io" where
  "s3_list E S p =
     bindE (on_net (list_objects S p)) (\<lambda>l.
     bindE (list_collections E S l (by_collection l) []) (\<lambda>out. retE (sort out)))"

definition s3_put ::
  "s3_env \<Rightarrow> 'x s3_store \<Rightarrow> rec \<Rightarrow> revision option \<Rightarrow> ('x, core_error, put_result) io" where
  "s3_put E S r expected =
     (let k = rec_key r in
      write_planned E S k (\<lambda>t current. put_step k (plan_put (se_H E) current r expected t (s3_cap S))))"

definition s3_delete_as ::
  "s3_env \<Rightarrow> 'x s3_store \<Rightarrow> record_key \<Rightarrow> revision option \<Rightarrow> identity option \<Rightarrow> ('x, core_error, delete_result) io" where
  "s3_delete_as E S k expected au =
     write_planned E S k (\<lambda>t current. Inr (delete_step (plan_delete (se_H E) current expected t (s3_cap S) au)))"

definition s3_put_raw ::
  "s3_env \<Rightarrow> 'x s3_store \<Rightarrow> rec \<Rightarrow> revision option \<Rightarrow> ('x, core_error, put_result) io" where
  "s3_put_raw E S r expected =
     (let k = rec_key r in
      write_planned E S k (\<lambda>t current. put_step k (plan_put_raw current r expected t (s3_cap S))))"

definition s3_purge ::
  "s3_env \<Rightarrow> 'x s3_store \<Rightarrow> record_key \<Rightarrow> revision \<Rightarrow> ('x, core_error, delete_result) io" where
  "s3_purge E S k expected = write_planned E S k (\<lambda>t current. Inr (purge_step (plan_purge current expected)))"

definition s3_vt :: "s3_env \<Rightarrow> 'x s3_store \<Rightarrow> 'x s3_state store_vt" where
  "s3_vt E S =
     \<lparr>vt_get = (\<lambda>k. on_net (s3_get E S k)), vt_put = (\<lambda>r ex. on_net (s3_put E S r ex)), vt_list = s3_list E S,
      vt_delete_as = (\<lambda>k ex au. on_net (s3_delete_as E S k ex au)), vt_get_raw = (\<lambda>k. on_net (s3_read E S k)),
      vt_list_raw = (\<lambda>p. on_net (s3_list_keys S p)), vt_put_raw = (\<lambda>r ex. on_net (s3_put_raw E S r ex)),
      vt_purge = (\<lambda>k ex. on_net (s3_purge E S k ex))\<rparr>"

subsection \<open>Blobs\<close>

definition s3_put_blob :: "s3_env \<Rightarrow> 'x s3_store \<Rightarrow> bytes \<Rightarrow> ('x, core_error, content_hash) io" where
  "s3_put_blob E S content x =
     (let h = content_hash_of (se_H E) content in
      case cl_put_object (s3_client S) (blob_key h) (Some IfAbsent) content x of
        (Inr _, x') \<Rightarrow> (Inr h, x')
      | (Inl e, x') \<Rightarrow> (if is_precondition_failed (er_code e) then Inr h else Inl (Backend (er_text e)), x'))"

definition s3_get_blob :: "'x s3_store \<Rightarrow> content_hash \<Rightarrow> ('x, core_error, bytes option) io" where
  "s3_get_blob S h x =
     (case cl_get_object (s3_client S) (blob_key h) x of
        (Inr out, x') \<Rightarrow> (case go_body out of Inl e \<Rightarrow> Inl (Backend e) | Inr data \<Rightarrow> Inr (Some data), x')
      | (Inl e, x') \<Rightarrow> (if er_no_such_key e then Inr None else Inl (Backend (er_text e)), x'))"

definition blob_entry_from_listing :: "s3_env \<Rightarrow> string \<Rightarrow> content_hash \<Rightarrow> int option \<Rightarrow> blob_entry result" where
  "blob_entry_from_listing E key h modified =
     (case modified of
        None \<Rightarrow> Inl (Backend (''blob '' @ key @ '' listed without a LastModified''))
      | Some dt \<Rightarrow>
          (case se_system_time E dt of
             Inl e \<Rightarrow> Inl (Backend (''blob '' @ key @ '' has an unrepresentable LastModified: '' @ e))
           | Inr t \<Rightarrow> Inr (from_system_time h t)))"

fun list_blob_entries :: "s3_env \<Rightarrow> s3_listed list \<Rightarrow> blob_entry list \<Rightarrow> blob_entry list result" where
  "list_blob_entries E [] out = Inr out"
| "list_blob_entries E (obj # objs) out =
     (case Option.bind (li_key obj) (\<lambda>k. map_option (Pair k) (blob_hash_from_key k)) of
        None \<Rightarrow> list_blob_entries E objs out
      | Some (k, h) \<Rightarrow>
          bindR (blob_entry_from_listing E k h (li_modified obj)) (\<lambda>e. list_blob_entries E objs (out @ [e])))"

definition s3_list_blobs :: "s3_env \<Rightarrow> 'x s3_store \<Rightarrow> ('x, core_error, blob_entry list) io" where
  "s3_list_blobs E S = list_pages (s3_client S) (Some BLOB_PREFIX) (list_blob_entries E) []"

definition s3_delete_blob :: "'x s3_store \<Rightarrow> content_hash \<Rightarrow> ('x, core_error, unit) io" where
  "s3_delete_blob S h = map_service (cl_delete_object (s3_client S) (blob_key h) None)"

definition head_means_absent :: "string \<Rightarrow> bool" where
  "head_means_absent code \<longleftrightarrow> code = ''NotFound'' \<or> code = ''NoSuchKey''"

definition head_error_is_absent :: "s3_error \<Rightarrow> bool" where
  "head_error_is_absent e \<longleftrightarrow> er_not_found e \<or> head_means_absent (case er_code e of Some c \<Rightarrow> c | None \<Rightarrow> [])"

definition describe_head_error :: "s3_error \<Rightarrow> nat option \<Rightarrow> string" where
  "describe_head_error e status =
     (let code = (case er_code e of Some c \<Rightarrow> c | None \<Rightarrow> ''unknown code'');
          out = (case status of Some st \<Rightarrow> code @ '' (HTTP '' @ show_nat st @ '')'' | None \<Rightarrow> code)
      in out @ '': '' @ (case er_message e of Some m \<Rightarrow> m | None \<Rightarrow> er_text e))"

definition s3_has_blob :: "'x s3_store \<Rightarrow> content_hash \<Rightarrow> ('x, core_error, bool) io" where
  "s3_has_blob S h x =
     (case cl_head_object (s3_client S) (blob_key h) x of
        (Inr _, x') \<Rightarrow> (Inr True, x')
      | (Inl e, x') \<Rightarrow>
          (if head_error_is_absent e then Inr False
           else Inl (Backend (''head blob '' @ hash_str h @ '': '' @ describe_head_error e (er_status e))), x'))"

definition s3_bv :: "s3_env \<Rightarrow> 'x s3_store \<Rightarrow> 'x s3_state blob_vt" where
  "s3_bv E S =
     \<lparr>bv_put_blob = (\<lambda>c. on_net (s3_put_blob E S c)), bv_get_blob = (\<lambda>h. on_net (s3_get_blob S h)),
      bv_list_blobs = on_net (s3_list_blobs E S), bv_has_blob = (\<lambda>h. on_net (s3_has_blob S h)),
      bv_delete_blob = (\<lambda>h. on_net (s3_delete_blob S h))\<rparr>"

end
