(* ===== verification/Gz_S3Keys.thy ===== *)
theory Gz_S3Keys
  imports Gz_S3
begin

text \<open>
  The key space of the object store: record objects, markers, flags and blobs never share a key, and a
  listing tells them apart and gives back the record key each was made from.
\<close>

definition s3_valid :: "record_key \<Rightarrow> bool" where
  "s3_valid k \<longleftrightarrow> utf8_valid (namespace k) \<and> utf8_valid (collection k) \<and> utf8_valid (key_id k)"

definition s3_hash_valid :: "content_hash \<Rightarrow> bool" where
  "s3_hash_valid h \<longleftrightarrow> hash_str h \<noteq> [] \<and> CHR ''/'' \<notin> set (hash_str h) \<and> CHR ''.'' \<notin> set (hash_str h)"

subsection \<open>Shapes\<close>

definition slashes :: "string \<Rightarrow> nat" where
  "slashes s = length (filter (\<lambda>c. c = CHR ''/'') s)"

lemma slashes_append [simp]: "slashes (a @ b) = slashes a + slashes b"
  by (simp add: slashes_def)

lemma slashes_Cons [simp]: "slashes (c # s) = (if c = CHR ''/'' then Suc (slashes s) else slashes s)"
  by (simp add: slashes_def)

lemma slashes_Nil [simp]: "slashes [] = 0"
  by (simp add: slashes_def)

lemma slashes_none: "CHR ''/'' \<notin> set s \<Longrightarrow> slashes s = 0"
  by (induction s) auto

lemma slashes_segment [simp]: "slashes (segment s) = 0"
  by (rule slashes_none) (rule segment_no_sep)

lemma object_key_eq:
  "object_key k = (segment (namespace k) @ ''/'' @ segment (collection k) @ ''/'' @ segment (key_id k)) @ ''.json''"
  by (simp add: object_key_def record_components_def)

lemma slashes_keys:
  "slashes (object_key k) = 2" "slashes (marker_key k) = 2" "slashes (marked_flag_key ns col) = 2"
  "s3_hash_valid h \<Longrightarrow> slashes (blob_key h) = 1"
  by (simp_all add: object_key_eq marker_key_def marked_flag_key_def MARKER_SUFFIX_def blob_key_def BLOB_PREFIX_def
      s3_hash_valid_def slashes_none)

lemma last_keys: "last (object_key k) = CHR ''n''" "last (marker_key k) = CHR ''e''"
  "last (marked_flag_key ns col) = CHR ''s''"
  by (simp_all add: object_key_eq marker_key_def marked_flag_key_def MARKER_SUFFIX_def)

lemma keys_disjoint [simp]:
  "object_key k \<noteq> marker_key k'" "marker_key k' \<noteq> object_key k"
  "object_key k \<noteq> marked_flag_key ns col" "marked_flag_key ns col \<noteq> object_key k"
  "marker_key k \<noteq> marked_flag_key ns col" "marked_flag_key ns col \<noteq> marker_key k"
  by (auto simp: last_keys dest!: arg_cong [of _ _ last])

lemma blob_keys_disjoint [simp]:
  assumes "s3_hash_valid h"
  shows "blob_key h \<noteq> object_key k" "blob_key h \<noteq> marker_key k" "blob_key h \<noteq> marked_flag_key ns col"
    "object_key k \<noteq> blob_key h" "marker_key k \<noteq> blob_key h" "marked_flag_key ns col \<noteq> blob_key h"
  using slashes_keys(4) [OF assms] by (auto simp: slashes_keys dest!: arg_cong [of _ _ slashes])

lemma marker_key_inj [simp]: "marker_key k = marker_key k' \<longleftrightarrow> k = k'"
  by (simp add: marker_key_def object_key_inj)

lemma object_key_inj' [simp]: "object_key k = object_key k' \<longleftrightarrow> k = k'"
  by (rule object_key_inj)

lemma blob_key_inj [simp]: "blob_key h = blob_key h' \<longleftrightarrow> h = h'"
  by (cases h; cases h') (simp add: blob_key_def)

lemma marked_flag_key_inj [simp]: "marked_flag_key ns col = marked_flag_key ns' col' \<longleftrightarrow> ns = ns' \<and> col = col'"
proof
  assume "marked_flag_key ns col = marked_flag_key ns' col'"
  then have "segment ns @ CHR ''/'' # (segment col @ ''/_tombstone_markers'') =
      segment ns' @ CHR ''/'' # (segment col' @ ''/_tombstone_markers'')" by (simp add: marked_flag_key_def)
  from append_sep_inj [OF segment_no_sep(1) segment_no_sep(1) this]
  show "ns = ns' \<and> col = col'" by (simp add: segment_inj)
qed simp

subsection \<open>Reading a key back\<close>

lemma strip_suffix_append [simp]: "strip_suffix suf (s @ suf) = Some s"
  by (simp add: strip_suffix_Some)

lemma strip_suffix_last: "suf \<noteq> [] \<Longrightarrow> last s \<noteq> last suf \<Longrightarrow> strip_suffix suf s = None"
  by (cases "strip_suffix suf s") (auto simp: strip_suffix_Some)

lemma split_three:
  assumes "CHR ''/'' \<notin> set a" "CHR ''/'' \<notin> set b" "CHR ''/'' \<notin> set c"
  shows "split_slash [] (a @ ''/'' @ b @ ''/'' @ c) = [a, b, c]"
  using split_slash_append [OF assms(1), of "[]" "b @ ''/'' @ c"] split_slash_append [OF assms(2), of "[]" c]
    split_slash_plain [OF assms(3), of "[]"] by simp

lemma parse_object_key_back: "s3_valid k \<Longrightarrow> parse_object_key (object_key k) = Some k"
  unfolding object_key_eq parse_object_key_def strip_suffix_append
  by (simp add: split_three [simplified] segment_no_sep decode_segment_valid s3_valid_def)

lemma parse_object_key_other [simp]:
  "parse_object_key (marker_key k) = None" "parse_object_key (marked_flag_key ns col) = None"
  using last_keys by (simp_all add: parse_object_key_def strip_suffix_last)

lemma parse_marker_key_back: "s3_valid k \<Longrightarrow> parse_marker_key (marker_key k) = Some k"
  by (simp add: parse_marker_key_def marker_key_def parse_object_key_back)

lemma parse_marker_key_other [simp]:
  "parse_marker_key (object_key k) = None" "parse_marker_key (marked_flag_key ns col) = None"
  using last_keys by (simp_all add: parse_marker_key_def MARKER_SUFFIX_def strip_suffix_last)

lemma dotless_suffix: "CHR ''.'' \<notin> set s \<Longrightarrow> CHR ''.'' \<in> set suf \<Longrightarrow> strip_suffix suf s = None"
  by (cases "strip_suffix suf s") (auto simp: strip_suffix_Some)

lemma parse_blob_key [simp]:
  assumes "s3_hash_valid h"
  shows "parse_object_key (blob_key h) = None" "parse_marker_key (blob_key h) = None"
    "blob_hash_from_key (blob_key h) = Some h"
proof -
  have "CHR ''.'' \<notin> set (blob_key h)" using assms by (simp add: s3_hash_valid_def blob_key_def BLOB_PREFIX_def)
  then show "parse_object_key (blob_key h) = None" "parse_marker_key (blob_key h) = None"
    by (simp_all add: parse_object_key_def parse_marker_key_def MARKER_SUFFIX_def dotless_suffix)
  show "blob_hash_from_key (blob_key h) = Some h"
    using assms by (simp add: blob_hash_from_key_def blob_key_def strip_prefix_def s3_hash_valid_def)
qed

lemma blob_hash_from_key_Some: "blob_hash_from_key key = Some h \<Longrightarrow> key = blob_key h \<and> s3_hash_valid h"
  by (auto simp: blob_hash_from_key_def blob_key_def strip_prefix_def s3_hash_valid_def split: option.splits if_splits)
    (metis append_take_drop_id content_hash.sel)+

lemma blob_hash_other [simp]:
  "blob_hash_from_key (object_key k) = None" "blob_hash_from_key (marker_key k) = None"
  "blob_hash_from_key (marked_flag_key ns col) = None"
  using blob_hash_from_key_Some blob_keys_disjoint not_Some_eq by metis+

subsection \<open>Prefixes\<close>

lemma prefix_of_match:
  assumes "kp_matches p k"
  shows "prefix (s3_prefix p) (object_key k)" "prefix (s3_prefix p) (marker_key k)"
proof -
  show "prefix (s3_prefix p) (object_key k)"
    using assms by (auto simp: s3_prefix_def object_key_eq kp_matches_def is_none_or_def split: option.splits)
  then show "prefix (s3_prefix p) (marker_key k)" by (simp add: marker_key_def)
qed

end
