(* ===== verification/Gz_S3Proofs.thy ===== *)
theory Gz_S3Proofs
  imports Gz_S3Keys
begin

text \<open>
  What an object store promises, and what the compare-and-swap loop makes of it.

  The laws of \<open>object_store\<close> are the documented behaviour of conditional requests. Other writers act at
  any moment: \<open>rely\<close> relates two states when they may have turned the one into the other. A request takes
  effect at one moment, on the state of that moment. Any request may fail, and one that fails may or
  may not have taken effect. An entity tag is a strong validator: objects with the same tag have the
  same content.

  Every effect of a write on the store is then a step its planner decided on the record that was there
  at that moment (\<open>s3_steps\<close>), whatever else happens, and an answer is one the planner gave.
\<close>

record s3_object =
  ob_content :: bytes
  ob_etag :: string
  ob_modified :: int

type_synonym bucket = "string \<Rightarrow> s3_object option"

fun permits :: "s3_precondition option \<Rightarrow> s3_object option \<Rightarrow> bool" where
  "permits None ob = True"
| "permits (Some IfAbsent) ob = (ob = None)"
| "permits (Some (IfMatch t)) ob = (map_option ob_etag ob = Some t)"

definition written :: "string \<Rightarrow> s3_precondition option \<Rightarrow> bytes \<Rightarrow> bucket \<Rightarrow> bucket \<Rightarrow> bool" where
  "written key pre body b b' \<longleftrightarrow>
     permits pre (b key) \<and> (\<exists>ob. ob_content ob = body \<and> b' = b(key \<mapsto> ob))"

definition removed :: "string \<Rightarrow> string option \<Rightarrow> bucket \<Rightarrow> bucket \<Rightarrow> bool" where
  "removed key tag b b' \<longleftrightarrow> permits (map_option IfMatch tag) (b key) \<and> b' = b(key := None)"

locale object_store =
  fixes c :: "'x s3_client" and objs :: "'x \<Rightarrow> bucket" and rely :: "'x \<Rightarrow> 'x \<Rightarrow> bool"
    and body_of :: "string \<Rightarrow> bytes"
  assumes rely_refl: "rely x x"
    and rely_trans: "rely x y \<Longrightarrow> rely y z \<Longrightarrow> rely x z"
    and strong_etag: "objs x key = Some ob \<Longrightarrow> ob_content ob = body_of (ob_etag ob)"
    and get_object: "cl_get_object c key x = (gr, x') \<Longrightarrow> \<exists>y. rely x y \<and> rely y x' \<and>
          (case gr of
             Inl e \<Rightarrow> er_no_such_key e \<longrightarrow> objs y key = None
           | Inr out \<Rightarrow> \<exists>ob. objs y key = Some ob \<and> (\<forall>t. go_etag out = Some t \<longrightarrow> t = ob_etag ob) \<and>
               (\<forall>d. go_body out = Inr d \<longrightarrow> d = ob_content ob))"
    and put_object: "cl_put_object c key pre body x = (pr, x') \<Longrightarrow> \<exists>y y'. rely x y \<and> rely y' x' \<and>
          (written key pre body (objs y) (objs y') \<or> (\<exists>e. pr = Inl e) \<and> y' = y)"
    and delete_object: "cl_delete_object c key tag x = (dr, x') \<Longrightarrow> \<exists>y y'. rely x y \<and> rely y' x' \<and>
          (removed key tag (objs y) (objs y') \<or> (\<exists>e. dr = Inl e) \<and> y' = y)"
    and sleep: "rely x (cl_sleep c n x)"

subsection \<open>The steps of a write\<close>

text \<open>What is stored under a key; an object that is no record is neither.\<close>

definition s3_holds :: "s3_env \<Rightarrow> ('x \<Rightarrow> bucket) \<Rightarrow> 'x \<Rightarrow> record_key \<Rightarrow> rec option \<Rightarrow> bool" where
  "s3_holds E objs x k cur \<longleftrightarrow>
     (case objs x (object_key k) of
        None \<Rightarrow> cur = None
      | Some ob \<Rightarrow> (\<exists>r. rc_from (se_codec E) (ob_content ob) = Inr r \<and> cur = Some r))"

text \<open>
  A step of our own: the planned record replaces the one it was planned against, or that one is
  removed, or a marker is written for a tombstone to come. With \<open>marked_first\<close>, a tombstone is only
  written beside its marker.
\<close>

definition s3_own ::
  "s3_env \<Rightarrow> ('x \<Rightarrow> bucket) \<Rightarrow> bool \<Rightarrow> record_key \<Rightarrow> 'a planner \<Rightarrow> 'x \<Rightarrow> 'x \<Rightarrow> bool" where
  "s3_own E objs marked_first k plan y y' \<longleftrightarrow>
     (\<exists>t cur r a ob. s3_holds E objs y k cur \<and> plan t cur = Inr (PlannedPut r a) \<and>
        (marked_first \<and> is_tombstone r \<longrightarrow> objs y (marker_key k) \<noteq> None) \<and>
        rc_from (se_codec E) (ob_content ob) = Inr r \<and> objs y' = (objs y)(object_key k \<mapsto> ob)) \<or>
     (\<exists>t cur a. s3_holds E objs y k cur \<and> plan t cur = Inr (PlannedRemove a) \<and>
        objs y' = (objs y)(object_key k := None)) \<or>
     (\<exists>t cur r a ob. plan t cur = Inr (PlannedPut r a) \<and> is_tombstone r \<and> objs y' = (objs y)(marker_key k \<mapsto> ob))"

definition s3_steps ::
  "s3_env \<Rightarrow> ('x \<Rightarrow> bucket) \<Rightarrow> ('x \<Rightarrow> 'x \<Rightarrow> bool) \<Rightarrow> bool \<Rightarrow> record_key \<Rightarrow> 'a planner \<Rightarrow> 'x \<Rightarrow> 'x \<Rightarrow> bool" where
  "s3_steps E objs rely marked_first k plan = (\<lambda>y y'. rely y y' \<or> s3_own E objs marked_first k plan y y')\<^sup>*\<^sup>*"

lemma s3_steps_refl [simp]: "s3_steps E objs rely mf k plan x x"
  by (simp add: s3_steps_def)

lemma s3_steps_trans: "s3_steps E objs rely mf k plan x y \<Longrightarrow> s3_steps E objs rely mf k plan y z \<Longrightarrow> s3_steps E objs rely mf k plan x z"
  unfolding s3_steps_def by (rule rtranclp_trans)

lemma s3_steps_rely: "rely x y \<Longrightarrow> s3_steps E objs rely mf k plan x y"
  unfolding s3_steps_def by auto

lemma s3_steps_own: "s3_own E objs mf k plan x y \<Longrightarrow> s3_steps E objs rely mf k plan x y"
  unfolding s3_steps_def by auto

lemma s3_steps_around:
  "rely x y \<Longrightarrow> s3_own E objs mf k plan y y' \<Longrightarrow> rely y' x' \<Longrightarrow> s3_steps E objs rely mf k plan x x'"
  by (meson s3_steps_trans s3_steps_rely s3_steps_own)

text \<open>
  An answer is the planner's: it was given for the record that was there at some moment of the call, and
  at a moment from then on the store was as the plan wanted it.
\<close>

definition s3_answered ::
  "s3_env \<Rightarrow> ('x \<Rightarrow> bucket) \<Rightarrow> ('x \<Rightarrow> 'x \<Rightarrow> bool) \<Rightarrow> bool \<Rightarrow> record_key \<Rightarrow> 'a planner \<Rightarrow> 'x \<Rightarrow> 'x \<Rightarrow> 'a \<Rightarrow> bool" where
  "s3_answered E objs rely mf k plan x x' a \<longleftrightarrow>
     (\<exists>y0 y t cur. s3_steps E objs rely mf k plan x y0 \<and> s3_holds E objs y0 k cur \<and>
        s3_steps E objs rely mf k plan y0 y \<and> s3_steps E objs rely mf k plan y x' \<and>
        (plan t cur = Inr (PlannedFinish a) \<or>
         (\<exists>r. plan t cur = Inr (PlannedPut r a) \<and> s3_holds E objs y k (Some r)) \<or>
         plan t cur = Inr (PlannedRemove a) \<and> objs y (object_key k) = None))"

locale s3_writer = object_store c objs rely body_of
  for c :: "'x s3_client" and objs rely body_of +
  fixes E :: s3_env and S :: "'x s3_store"
  assumes client: "s3_client S = c"
    and codec: "rc_to (se_codec E) r = Inr bs \<Longrightarrow> rc_from (se_codec E) bs = Inr r"
begin

abbreviation holds :: "'x \<Rightarrow> record_key \<Rightarrow> rec option \<Rightarrow> bool" where
  "holds \<equiv> s3_holds E objs"

lemma read_spec:
  assumes "read_with_etag E S k x = (r, x')"
  shows "rely x x'" "r = Inr cur \<Longrightarrow> \<exists>y. rely x y \<and> rely y x' \<and> holds y k (map_option fst cur) \<and>
    (\<forall>v t. cur = Some (v, t) \<longrightarrow> rc_from (se_codec E) (body_of t) = Inr v)"
proof -
  obtain gr where get: "cl_get_object c (object_key k) x = (gr, x')"
    using assms by (auto simp: read_with_etag_def client split: prod.splits sum.splits)
  from get_object [OF get] obtain y where y: "rely x y" "rely y x'" and at: "case gr of
       Inl e \<Rightarrow> er_no_such_key e \<longrightarrow> objs y (object_key k) = None
     | Inr out \<Rightarrow> \<exists>ob. objs y (object_key k) = Some ob \<and> (\<forall>t. go_etag out = Some t \<longrightarrow> t = ob_etag ob) \<and>
         (\<forall>d. go_body out = Inr d \<longrightarrow> d = ob_content ob)" by blast
  show "rely x x'" using y rely_trans by blast
  show "\<exists>y. rely x y \<and> rely y x' \<and> holds y k (map_option fst cur) \<and>
    (\<forall>v t. cur = Some (v, t) \<longrightarrow> rc_from (se_codec E) (body_of t) = Inr v)" if r: "r = Inr cur"
  proof (cases gr)
    case (Inl e)
    with assms get r at have "cur = None" "objs y (object_key k) = None"
      by (auto simp: read_with_etag_def client split: if_splits)
    with y show ?thesis by (auto simp: s3_holds_def)
  next
    case (Inr out)
    with at obtain ob where ob: "objs y (object_key k) = Some ob" "\<forall>t. go_etag out = Some t \<longrightarrow> t = ob_etag ob"
      "\<forall>d. go_body out = Inr d \<longrightarrow> d = ob_content ob" by auto
    from Inr assms get r obtain t d v where "go_etag out = Some t" "go_body out = Inr d" "rc_from (se_codec E) d = Inr v"
      "cur = Some (v, t)" by (auto simp: read_with_etag_def client split: option.splits sum.splits)
    with ob have v: "cur = Some (v, ob_etag ob)" "rc_from (se_codec E) (ob_content ob) = Inr v" by auto
    have "holds y k (map_option fst cur)" using ob(1) v by (simp add: s3_holds_def)
    moreover have "\<forall>v' t. cur = Some (v', t) \<longrightarrow> rc_from (se_codec E) (body_of t) = Inr v'"
      using v strong_etag [OF ob(1)] by simp
    ultimately show ?thesis using y by blast
  qed
qed

text \<open>The precondition pins the record that was read.\<close>

lemma precondition_holds:
  assumes "permits (Some (precondition (map_option snd cur))) (objs y (object_key k))"
    and "\<forall>v t. cur = Some (v, t) \<longrightarrow> rc_from (se_codec E) (body_of t) = Inr v"
  shows "holds y k (map_option fst cur)"
proof (cases cur)
  case None
  with assms(1) show ?thesis by (simp add: precondition_def s3_holds_def)
next
  case (Some vt)
  obtain v t where vt: "vt = (v, t)" by (cases vt)
  with assms(1) Some obtain ob where ob: "objs y (object_key k) = Some ob" "ob_etag ob = t"
    by (auto simp: precondition_def)
  with strong_etag [OF ob(1)] assms(2) Some vt show ?thesis by (simp add: s3_holds_def)
qed

end

locale planned_write = s3_writer c objs rely body_of E S
  for c :: "'x s3_client" and objs rely body_of E S +
  fixes k :: record_key and plan :: "'a planner" and mf :: bool and I :: "'x \<Rightarrow> bool"
  assumes I_rely: "I y \<Longrightarrow> rely y y' \<Longrightarrow> I y'"
    and I_own: "I y \<Longrightarrow> s3_own E objs mf k plan y y' \<Longrightarrow> I y'"
    and plan_key: "I y \<Longrightarrow> holds y k cur \<Longrightarrow> plan t cur = Inr (PlannedPut w a) \<Longrightarrow> rec_key w = k"
    and plan_remove: "plan t None \<noteq> Inr (PlannedRemove a)"
    and keeps_marker: "mf \<Longrightarrow> rely y y' \<Longrightarrow> objs y (marker_key k) \<noteq> None \<Longrightarrow> objs y' (marker_key k) \<noteq> None"
begin

abbreviation steps :: "'x \<Rightarrow> 'x \<Rightarrow> bool" where
  "steps \<equiv> s3_steps E objs rely mf k plan"

abbreviation own :: "'x \<Rightarrow> 'x \<Rightarrow> bool" where
  "own \<equiv> s3_own E objs mf k plan"

abbreviation answered :: "'x \<Rightarrow> 'x \<Rightarrow> 'a \<Rightarrow> bool" where
  "answered \<equiv> s3_answered E objs rely mf k plan"

lemmas steps_trans = s3_steps_trans [of E objs rely mf k plan]
lemmas steps_rely = s3_steps_rely [of rely _ _ E objs mf k plan]
lemmas steps_own = s3_steps_own [of E objs mf k plan _ _ rely]
lemmas steps_around = s3_steps_around [of rely _ _ E objs mf k plan]

lemma I_steps: "steps x y \<Longrightarrow> I x \<Longrightarrow> I y"
  unfolding s3_steps_def by (induction rule: rtranclp_induct) (auto intro: I_rely I_own)

text \<open>A pending write was planned in this call.\<close>

definition pending :: "(rec \<times> 'a) option \<Rightarrow> 'x \<Rightarrow> 'x \<Rightarrow> bool" where
  "pending p x0 x \<longleftrightarrow> (\<forall>w a. p = Some (w, a) \<longrightarrow> (\<exists>y0 t cur. steps x0 y0 \<and> holds y0 k cur \<and>
     plan t cur = Inr (PlannedPut w a) \<and> steps y0 x))"

lemma pending_None [simp]: "pending None x0 x"
  by (simp add: pending_def)

lemma put_marker_spec:
  assumes "put_marker E S k rv x = (r, x')" "plan t cur = Inr (PlannedPut w a)" "is_tombstone w"
  shows "steps x x'" "r = Inr () \<Longrightarrow> mf \<Longrightarrow> objs x' (marker_key k) \<noteq> None"
proof -
  have "steps x x' \<and> (r = Inr () \<longrightarrow> mf \<longrightarrow> objs x' (marker_key k) \<noteq> None)"
  proof (cases "se_revision_to_vec E rv")
    case (Inl e)
    with assms(1) show ?thesis by (auto simp: put_marker_def throwE_def)
  next
    case (Inr bs)
    obtain pr where put: "cl_put_object c (marker_key k) None bs x = (pr, x')" and r: "r = Inr () \<longrightarrow> (\<nexists>e. pr = Inl e)"
      using assms(1) Inr by (auto simp: put_marker_def client map_service_def split: prod.splits sum.splits)
    from put_object [OF put] obtain y y' where y: "rely x y" "rely y' x'"
      and w: "written (marker_key k) None bs (objs y) (objs y') \<or> (\<exists>e. pr = Inl e) \<and> y' = y" by blast
    show ?thesis
    proof (cases "written (marker_key k) None bs (objs y) (objs y')")
      case True
      then obtain ob where ob: "objs y' = (objs y)(marker_key k \<mapsto> ob)" by (auto simp: written_def)
      then have "own y y'" unfolding s3_own_def using assms(2,3) by blast
      moreover have "objs y' (marker_key k) \<noteq> None" using ob by simp
      ultimately show ?thesis using y steps_around keeps_marker by blast
    qed (use w y r steps_trans steps_rely in blast)
  qed
  then show "steps x x'" "r = Inr () \<Longrightarrow> mf \<Longrightarrow> objs x' (marker_key k) \<noteq> None" by blast+
qed

lemma put_record_spec:
  assumes "put_record_if E S w (precondition (map_option snd cur)) x = (r, x')"
    and "\<forall>v t. cur = Some (v, t) \<longrightarrow> rc_from (se_codec E) (body_of t) = Inr v"
    and "plan t (map_option fst cur) = Inr (PlannedPut w a)" "rec_key w = k"
    and "mf \<Longrightarrow> is_tombstone w \<Longrightarrow> objs x (marker_key k) \<noteq> None"
  shows "steps x x'" "r = Inr Applied \<Longrightarrow> \<exists>y. steps x y \<and> steps y x' \<and> holds y k (Some w)"
proof -
  have "steps x x' \<and> (r = Inr Applied \<longrightarrow> (\<exists>y. steps x y \<and> steps y x' \<and> holds y k (Some w)))"
  proof (cases "rc_to (se_codec E) w")
    case (Inl e)
    with assms(1) show ?thesis by (auto simp: put_record_if_def throwE_def)
  next
    case (Inr bs)
    let ?pre = "Some (precondition (map_option snd cur))"
    obtain pr where put: "cl_put_object c (object_key k) ?pre bs x = (pr, x')" and r: "r = Inr Applied \<longrightarrow> (\<nexists>e. pr = Inl e)"
      using assms(1,4) Inr by (auto simp: put_record_if_def client race_outcome_def split: prod.splits sum.splits option.splits)
    from put_object [OF put] obtain y y' where y: "rely x y" "rely y' x'"
      and w: "written (object_key k) ?pre bs (objs y) (objs y') \<or> (\<exists>e. pr = Inl e) \<and> y' = y" by blast
    show ?thesis
    proof (cases "written (object_key k) ?pre bs (objs y) (objs y')")
      case True
      then obtain ob where p: "permits ?pre (objs y (object_key k))" and ob: "ob_content ob = bs" "objs y' = (objs y)(object_key k \<mapsto> ob)"
        by (auto simp: written_def)
      have dec: "rc_from (se_codec E) (ob_content ob) = Inr w" using codec [OF Inr] ob(1) by simp
      have "holds y k (map_option fst cur)" by (rule precondition_holds [OF p assms(2)])
      moreover have "mf \<and> is_tombstone w \<longrightarrow> objs y (marker_key k) \<noteq> None" using assms(5) keeps_marker y(1) by blast
      ultimately have "own y y'" unfolding s3_own_def using assms(3) dec ob(2) by blast
      moreover have "holds y' k (Some w)" using ob(2) dec by (simp add: s3_holds_def)
      ultimately show ?thesis using y steps_trans steps_rely steps_own by metis
    qed (use w y r steps_trans steps_rely in blast)
  qed
  then show "steps x x'" "r = Inr Applied \<Longrightarrow> \<exists>y. steps x y \<and> steps y x' \<and> holds y k (Some w)" by blast+
qed

lemma delete_record_spec:
  assumes "delete_record_if_match S k tag x = (r, x')" "rc_from (se_codec E) (body_of tag) = Inr v"
    and "plan t (Some v) = Inr (PlannedRemove a)"
  shows "steps x x'" "r = Inr Applied \<Longrightarrow> \<exists>y. steps x y \<and> steps y x' \<and> objs y (object_key k) = None"
proof -
  obtain dr where del: "cl_delete_object c (object_key k) (Some tag) x = (dr, x')" and r: "r = Inr Applied \<longrightarrow> (\<nexists>e. dr = Inl e)"
    using assms(1) by (auto simp: delete_record_if_match_def client race_outcome_def split: prod.splits sum.splits option.splits)
  from delete_object [OF del] obtain y y' where y: "rely x y" "rely y' x'"
    and w: "removed (object_key k) (Some tag) (objs y) (objs y') \<or> (\<exists>e. dr = Inl e) \<and> y' = y" by blast
  have "steps x x' \<and> (r = Inr Applied \<longrightarrow> (\<exists>y. steps x y \<and> steps y x' \<and> objs y (object_key k) = None))"
  proof (cases "removed (object_key k) (Some tag) (objs y) (objs y')")
    case True
    then have p: "permits (Some (precondition (map_option snd (Some (v, tag))))) (objs y (object_key k))"
      and gone: "objs y' = (objs y)(object_key k := None)" by (auto simp: removed_def precondition_def)
    have "holds y k (Some v)" using precondition_holds [OF p] assms(2) by simp
    then have "own y y'" unfolding s3_own_def using assms(3) gone by blast
    moreover have "objs y' (object_key k) = None" using gone by simp
    ultimately show ?thesis using y steps_trans steps_rely steps_own by metis
  qed (use w y r steps_trans steps_rely in blast)
  then show "steps x x'" "r = Inr Applied \<Longrightarrow> \<exists>y. steps x y \<and> steps y x' \<and> objs y (object_key k) = None" by blast+
qed

lemma answeredI:
  assumes "steps x y0" "holds y0 k cur" "steps y0 y" "steps y x'"
    and "plan t cur = Inr (PlannedFinish a) \<or> (\<exists>r. plan t cur = Inr (PlannedPut r a) \<and> holds y k (Some r)) \<or>
      plan t cur = Inr (PlannedRemove a) \<and> objs y (object_key k) = None"
  shows "answered x x' a"
  unfolding s3_answered_def using assms by blast

text \<open>Carrying out a plan made for the record read at \<open>y\<close>.\<close>

definition carry_out :: "(rec \<times> string) option \<Rightarrow> 'a planned \<Rightarrow> (('a, 'x) attempt_state, core_error, 'a step) io" where
  "carry_out current pl =
     (case pl of
        PlannedFinish answer \<Rightarrow> retE (StepDone answer)
      | PlannedPut record answer \<Rightarrow>
          bindE (if is_tombstone record then remote (put_marker E S k (rec_revision record)) else retE ()) (\<lambda>_.
          bindE (remote (put_record_if E S record (precondition (map_option snd current)))) (\<lambda>outcome.
            case outcome of
              LostRace kind \<Rightarrow> bindE (set_pending (record, answer)) (\<lambda>_. retE (StepRetry kind))
            | Applied \<Rightarrow> retE (StepDone answer)))
      | PlannedRemove answer \<Rightarrow>
          bindE (remote (delete_record_if_match S k (case map_option snd current of Some t \<Rightarrow> t | None \<Rightarrow> []))) (\<lambda>outcome.
            case outcome of LostRace kind \<Rightarrow> retE (StepRetry kind) | Applied \<Rightarrow> retE (StepDone answer)))"

lemma write_attempt_eq:
  "write_attempt E S k plan =
     bindE (remote (read_with_etag E S k)) (\<lambda>current.
     bindE take_pending (\<lambda>previous.
       case previous of
         Some (sent, answer) \<Rightarrow>
           if own_write_landed sent (map_option fst current) then retE (StepDone answer)
           else (\<lambda>px. bindE (liftE (plan (now_ms (cl_clock c (snd px))) (map_option fst current))) (carry_out current) px)
       | None \<Rightarrow> (\<lambda>px. bindE (liftE (plan (now_ms (cl_clock c (snd px))) (map_option fst current))) (carry_out current) px)))"
  unfolding write_attempt_def client carry_out_def Let_def
  by (intro arg_cong [of _ _ "bindE _"] ext)
    (auto simp: bindE_def liftE_def retE_def split: option.splits sum.splits planned.splits)

lemma carry_out_spec:
  assumes run: "carry_out cur pl (None, x) = (r, (p', x'))"
    and y: "steps x0 y" "I y" "holds y k (map_option fst cur)" "steps y x"
    and tag: "\<forall>v t. cur = Some (v, t) \<longrightarrow> rc_from (se_codec E) (body_of t) = Inr v"
    and plan: "plan t (map_option fst cur) = Inr pl"
  shows "steps x0 x' \<and> pending p' x0 x' \<and> (\<forall>a. r = Inr (StepDone a) \<longrightarrow> answered x0 x' a)"
proof (cases pl)
  case (PlannedFinish a)
  then have "r = Inr (StepDone a)" "p' = None" "x' = x" using run by (simp_all add: carry_out_def retE_def)
  moreover have "answered x0 x a"
    by (rule answeredI [OF y(1,3,4) s3_steps_refl, where t = t]) (simp add: plan PlannedFinish)
  ultimately show ?thesis using steps_trans [OF y(1,4)] by simp
next
  case (PlannedRemove a)
  obtain v tg where cur: "cur = Some (v, tg)" using plan PlannedRemove plan_remove by (cases cur) auto
  obtain d x1 where del: "delete_record_if_match S k tg x = (d, x1)" by (rule prod.exhaust)
  have dec: "rc_from (se_codec E) (body_of tg) = Inr v" using tag cur by simp
  have rem: "plan t (Some v) = Inr (PlannedRemove a)" using plan cur PlannedRemove by simp
  note D = delete_record_spec [OF del dec rem]
  have res: "p' = None" "x' = x1" "r = (case d of Inl e \<Rightarrow> Inl e | Inr Applied \<Rightarrow> Inr (StepDone a) | Inr (LostRace kd) \<Rightarrow> Inr (StepRetry kd))"
    using run del by (auto simp: carry_out_def PlannedRemove cur bindE_def remote_def retE_def split: sum.splits write_outcome.splits)
  have "answered x0 x1 a" if "d = Inr Applied"
  proof -
    from D(2) [OF that] obtain y1 where y1: "steps x y1" "steps y1 x1" "objs y1 (object_key k) = None" by blast
    have "holds y k (Some v)" using y(3) cur by simp
    from answeredI [OF y(1) this steps_trans [OF y(4) y1(1)] y1(2)] y1(3) rem show ?thesis by blast
  qed
  then show ?thesis using res steps_trans [OF y(1) steps_trans [OF y(4) D(1)]]
    by (auto split: sum.splits write_outcome.splits)
next
  case (PlannedPut w a)
  let ?cur = "map_option fst cur"
  have put: "plan t ?cur = Inr (PlannedPut w a)" using plan PlannedPut by simp
  have key: "rec_key w = k" by (rule plan_key [OF y(2,3) put])
  obtain mr x1 where marker: "(if is_tombstone w then put_marker E S k (rec_revision w) else retE ()) x = (mr, x1)" by (rule prod.exhaust)
  have m: "steps x x1" "mr = Inr () \<Longrightarrow> mf \<Longrightarrow> is_tombstone w \<Longrightarrow> objs x1 (marker_key k) \<noteq> None"
    using marker put_marker_spec [OF _ put, of "rec_revision w" x mr x1] by (auto simp: retE_def split: if_splits)
  have x1: "steps y x1" by (rule steps_trans [OF y(4) m(1)])
  show ?thesis
  proof (cases mr)
    case (Inl e)
    then have "r = Inl e" "p' = None" "x' = x1"
      using run marker by (auto simp: carry_out_def PlannedPut bindE_def remote_def retE_def split: if_splits)
    then show ?thesis using steps_trans [OF y(1) x1] by simp
  next
    case (Inr u)
    obtain o' x2 where rec: "put_record_if E S w (precondition (map_option snd cur)) x1 = (o', x2)" by (rule prod.exhaust)
    have R: "steps x1 x2" "o' = Inr Applied \<Longrightarrow> \<exists>y. steps x1 y \<and> steps y x2 \<and> holds y k (Some w)"
      using put_record_spec [OF rec tag put key] m(2) Inr by auto
    have res: "x' = x2" "p' = (case o' of Inr (LostRace _) \<Rightarrow> Some (w, a) | _ \<Rightarrow> None)"
      "r = (case o' of Inl e \<Rightarrow> Inl e | Inr Applied \<Rightarrow> Inr (StepDone a) | Inr (LostRace kd) \<Rightarrow> Inr (StepRetry kd))"
      using run marker Inr rec
      by (auto simp: carry_out_def PlannedPut bindE_def remote_def retE_def set_pending_def split: if_splits sum.splits write_outcome.splits)
    have x2: "steps y x2" by (rule steps_trans [OF x1 R(1)])
    have "pending p' x0 x2" unfolding pending_def using res(2) y x2 put by (auto split: sum.splits write_outcome.splits)
    moreover have "answered x0 x2 a" if "o' = Inr Applied"
    proof -
      from R(2) [OF that] obtain y1 where y1: "steps x1 y1" "steps y1 x2" "holds y1 k (Some w)" by blast
      from answeredI [OF y(1,3) steps_trans [OF x1 y1(1)] y1(2)] y1(3) put show ?thesis by blast
    qed
    ultimately show ?thesis using res steps_trans [OF y(1) x2] by (auto split: sum.splits write_outcome.splits)
  qed
qed

lemma attempt_spec:
  assumes run: "write_attempt E S k plan (p, x) = (r, (p', x'))" and x: "steps x0 x" "I x0" "pending p x0 x"
  shows "steps x0 x' \<and> pending p' x0 x' \<and> (\<forall>a. r = Inr (StepDone a) \<longrightarrow> answered x0 x' a)"
proof -
  obtain rd x1 where read: "read_with_etag E S k x = (rd, x1)" by (rule prod.exhaust)
  note R = read_spec [OF read]
  have x1: "steps x0 x1" by (rule steps_trans [OF x(1) steps_rely [OF R(1)]])
  show ?thesis
  proof (cases rd)
    case (Inl e)
    then have "r = Inl e" "p' = p" "x' = x1"
      using run read by (simp_all add: write_attempt_eq bindE_def remote_def)
    moreover have "pending p x0 x1" using x(3) steps_trans steps_rely [OF R(1)] unfolding pending_def by blast
    ultimately show ?thesis using x1 by simp
  next
    case (Inr cur)
    from R(2) [OF Inr] obtain y where y: "rely x y" "rely y x1" "holds y k (map_option fst cur)"
      and tag: "\<forall>v t. cur = Some (v, t) \<longrightarrow> rc_from (se_codec E) (body_of t) = Inr v" by blast
    have sy: "steps x0 y" "steps y x1" using steps_trans [OF x(1) steps_rely [OF y(1)]] steps_rely [OF y(2)] by auto
    have Iy: "I y" by (rule I_steps [OF sy(1) x(2)])
    show ?thesis
    proof (cases "\<exists>sent a. p = Some (sent, a) \<and> own_write_landed sent (map_option fst cur)")
      case True
      then obtain sent a where p: "p = Some (sent, a)" and "own_write_landed sent (map_option fst cur)" by blast
      then have landed: "map_option fst cur = Some sent" by (auto simp: own_write_landed_def split: option.splits)
      have res: "r = Inr (StepDone a)" "p' = None" "x' = x1"
        using run read Inr p landed
        by (auto simp: write_attempt_eq bindE_def remote_def take_pending_def retE_def own_write_landed_def)
      from x(3) p obtain y0 t c0 where "steps x0 y0" "holds y0 k c0" "plan t c0 = Inr (PlannedPut sent a)" "steps y0 x"
        unfolding pending_def by blast
      then have "answered x0 x1 a"
        using answeredI [OF _ _ steps_trans [OF _ steps_rely [OF y(1)]] sy(2)] y(3) landed by metis
      then show ?thesis using res x1 by simp
    next
      case False
      then have go: "bindE (liftE (plan (now_ms (cl_clock c x1)) (map_option fst cur))) (carry_out cur) (None, x1) = (r, (p', x'))"
        using run read Inr by (auto simp: write_attempt_eq bindE_def remote_def take_pending_def split: option.splits if_splits)
      show ?thesis
      proof (cases "plan (now_ms (cl_clock c x1)) (map_option fst cur)")
        case (Inl e)
        then show ?thesis using go x1 by (auto simp: bindE_def liftE_def)
      next
        case (Inr pl)
        with go have "carry_out cur pl (None, x1) = (r, (p', x'))" by (simp add: bindE_def liftE_def)
        from carry_out_spec [OF this sy(1) Iy y(3) sy(2) tag Inr] show ?thesis .
      qed
    qed
  qed
qed

lemma retry_spec:
  assumes "retry_on_lost_race c k (write_attempt E S k plan) n (p, x) = (r, (p', x'))"
    and "steps x0 x" "I x0" "pending p x0 x"
  shows "steps x0 x' \<and> (\<forall>a. r = Inr a \<longrightarrow> answered x0 x' a)"
  using assms
proof (induction n arbitrary: p x)
  case (Suc n)
  obtain st p1 x1 where at: "write_attempt E S k plan (p, x) = (st, (p1, x1))" by (metis prod.exhaust)
  from attempt_spec [OF at Suc.prems(2-4)]
  have a: "steps x0 x1" "pending p1 x0 x1" "\<And>a. st = Inr (StepDone a) \<Longrightarrow> answered x0 x1 a" by blast+
  have slept: "steps x0 (cl_sleep c m x1)" "pending p1 x0 (cl_sleep c m x1)" for m
    using steps_trans [OF a(1) steps_rely [OF sleep]] a(2) steps_trans [OF _ steps_rely [OF sleep]] unfolding pending_def by blast+
  from Suc.prems(1) at consider e where "st = Inl e" "r = Inl e" "x' = x1"
    | v where "st = Inr (StepDone v)" "r = Inr v" "x' = x1"
    | "retry_on_lost_race c k (write_attempt E S k plan) n (p1, x1) = (r, (p', x'))"
    | m where "retry_on_lost_race c k (write_attempt E S k plan) n (p1, cl_sleep c m x1) = (r, (p', x'))"
    by (auto simp: bindE_def retE_def split: sum.splits step.splits race.splits)
  then show ?case
    by cases (use a slept Suc.IH Suc.prems(3) in blast)+
qed (auto simp: throwE_def)

lemma write_planned_spec:
  assumes "write_planned E S k plan x = (r, x')" "I x"
  shows "steps x x'" "r = Inr a \<Longrightarrow> answered x x' a"
  using assms retry_spec [of MAX_WRITE_ATTEMPTS None x r _ x' x]
  by (auto simp: write_planned_def client split: prod.splits)

end

subsection \<open>Every tombstone of a flagged collection has its marker\<close>

definition s3_marked_ok :: "s3_env \<Rightarrow> ('x \<Rightarrow> bucket) \<Rightarrow> 'x \<Rightarrow> bool" where
  "s3_marked_ok E objs x \<longleftrightarrow>
     (\<forall>k r. objs x (marked_flag_key (namespace k) (collection k)) \<noteq> None \<longrightarrow> s3_holds E objs x k (Some r) \<longrightarrow>
        is_tombstone r \<longrightarrow> objs x (marker_key k) \<noteq> None)"

lemma own_marked_ok:
  assumes "s3_own E objs True k plan y y'" "s3_marked_ok E objs y"
  shows "s3_marked_ok E objs y'"
  using assms(1) unfolding s3_own_def
proof (elim disjE exE conjE)
  fix t cur r a ob
  assume w: "True \<and> is_tombstone r \<longrightarrow> objs y (marker_key k) \<noteq> None" "rc_from (se_codec E) (ob_content ob) = Inr r"
    "objs y' = (objs y)(object_key k \<mapsto> ob)"
  show ?thesis unfolding s3_marked_ok_def
  proof (intro allI impI)
    fix k' r'
    assume h: "objs y' (marked_flag_key (namespace k') (collection k')) \<noteq> None" "s3_holds E objs y' k' (Some r')" "is_tombstone r'"
    show "objs y' (marker_key k') \<noteq> None"
      using h w assms(2) by (cases "k' = k") (auto simp: s3_holds_def s3_marked_ok_def)
  qed
next
  fix t cur a
  assume "objs y' = (objs y)(object_key k := None)"
  then show ?thesis using assms(2) by (auto simp: s3_marked_ok_def s3_holds_def split: if_splits)
next
  fix t cur r a ob
  assume "objs y' = (objs y)(marker_key k \<mapsto> ob)"
  then show ?thesis using assms(2) by (auto simp: s3_marked_ok_def s3_holds_def)
qed

lemma steps_marked_ok:
  assumes "s3_steps E objs rely True k plan x x'" "s3_marked_ok E objs x"
    and "\<And>y y'. rely y y' \<Longrightarrow> s3_marked_ok E objs y \<Longrightarrow> s3_marked_ok E objs y'"
  shows "s3_marked_ok E objs x'"
  using assms(1,2) unfolding s3_steps_def
  by (induction rule: rtranclp_induct) (auto intro: own_marked_ok assms(3))

subsection \<open>The operations\<close>

abbreviation put_planner :: "s3_env \<Rightarrow> nat \<Rightarrow> rec \<Rightarrow> revision option \<Rightarrow> put_result planner" where
  "put_planner E cap r ex \<equiv> (\<lambda>t cur. put_step (rec_key r) (plan_put (se_H E) cur r ex t cap))"

abbreviation put_raw_planner :: "nat \<Rightarrow> rec \<Rightarrow> revision option \<Rightarrow> put_result planner" where
  "put_raw_planner cap r ex \<equiv> (\<lambda>t cur. put_step (rec_key r) (plan_put_raw cur r ex t cap))"

abbreviation delete_planner :: "s3_env \<Rightarrow> nat \<Rightarrow> revision option \<Rightarrow> identity option \<Rightarrow> delete_result planner" where
  "delete_planner E cap ex au \<equiv> (\<lambda>t cur. Inr (delete_step (plan_delete (se_H E) cur ex t cap au)))"

abbreviation purge_planner :: "revision \<Rightarrow> delete_result planner" where
  "purge_planner ex \<equiv> (\<lambda>t cur. Inr (purge_step (plan_purge cur ex)))"

lemma put_step_Inr: "put_step k pl = Inr p \<longleftrightarrow>
    (\<exists>w. pl = PutWrite w \<and> p = PlannedPut w (Committed (rec_revision w))) \<or>
    (\<exists>cf. pl = PutPlanConflict cf \<and> p = PlannedFinish (PutConflict cf))"
  by (cases pl) auto

lemma delete_step_put: "delete_step pl = PlannedPut w a \<longleftrightarrow> pl = DelWrite w \<and> a = Deleted"
  by (cases pl) auto

lemma purge_step_not_put [simp]: "purge_step pl \<noteq> PlannedPut w a" "delete_step dl \<noteq> PlannedRemove a"
  by (cases pl; simp) (cases dl; simp)

lemma purge_step_remove: "purge_step pl = PlannedRemove a \<longleftrightarrow> pl = PurgeRemove \<and> a = Deleted"
  by (cases pl) auto

text \<open>Records are stored under their own key.\<close>

definition s3_keyed :: "s3_env \<Rightarrow> ('x \<Rightarrow> bucket) \<Rightarrow> record_key \<Rightarrow> 'x \<Rightarrow> bool" where
  "s3_keyed E objs k x \<longleftrightarrow> (\<forall>r. s3_holds E objs x k (Some r) \<longrightarrow> rec_key r = k)"

context s3_writer
begin

lemma put_write:
  assumes "mf \<Longrightarrow> \<forall>y y'. rely y y' \<longrightarrow> objs y (marker_key (rec_key r)) \<noteq> None \<longrightarrow> objs y' (marker_key (rec_key r)) \<noteq> None"
  shows "planned_write c objs rely body_of E S (rec_key r) (put_planner E (s3_cap S) r ex) mf (\<lambda>_. True)"
    "planned_write c objs rely body_of E S (rec_key r) (put_raw_planner (s3_cap S) r ex) mf (\<lambda>_. True)"
  using assms by (unfold_locales, auto simp: put_step_Inr dest: plan_put_key plan_put_raw_key)

lemma purge_write:
  assumes "mf \<Longrightarrow> \<forall>y y'. rely y y' \<longrightarrow> objs y (marker_key k) \<noteq> None \<longrightarrow> objs y' (marker_key k) \<noteq> None"
  shows "planned_write c objs rely body_of E S k (purge_planner ex) mf (\<lambda>_. True)"
  using assms by (unfold_locales, auto simp: purge_step_remove plan_purge_def)

lemma delete_key:
  assumes "s3_keyed E objs k y" "holds y k cur" "plan_delete (se_H E) cur ex t cap au = DelWrite w"
  shows "rec_key w = k"
proof (cases cur)
  case None
  with assms(3) show ?thesis by (simp add: plan_delete_def)
next
  case (Some v)
  with assms plan_delete_key [of "se_H E" v ex t cap au w] show ?thesis by (simp add: s3_keyed_def)
qed

lemma delete_write:
  assumes "mf \<Longrightarrow> \<forall>y y'. rely y y' \<longrightarrow> objs y (marker_key k) \<noteq> None \<longrightarrow> objs y' (marker_key k) \<noteq> None"
    and "\<And>y y'. rely y y' \<Longrightarrow> s3_keyed E objs k y \<Longrightarrow> s3_keyed E objs k y'"
  shows "planned_write c objs rely body_of E S k (delete_planner E (s3_cap S) ex au) mf (s3_keyed E objs k)"
proof (unfold_locales, goal_cases)
  case (1 y y')
  then show ?case using assms(2) by blast
next
  case (2 y y')
  from 2(2) show ?case unfolding s3_own_def
  proof (elim disjE exE conjE)
    fix t cur w a ob
    assume w: "holds y k cur" "Inr (delete_step (plan_delete (se_H E) cur ex t (s3_cap S) au)) = Inr (PlannedPut w a)"
      "rc_from (se_codec E) (ob_content ob) = Inr w" "objs y' = (objs y)(object_key k \<mapsto> ob)"
    then have "rec_key w = k" using delete_key [OF 2(1) w(1)] by (auto simp: delete_step_put)
    then show "s3_keyed E objs k y'" using w(3,4) by (simp add: s3_keyed_def s3_holds_def)
  qed (use 2(1) in \<open>simp_all add: s3_keyed_def s3_holds_def\<close>)
next
  case (3 y cur t w a)
  then show ?case using delete_key [OF 3(1,2)] by (auto simp: delete_step_put)
next
  case (5 y y')
  then show ?case using assms(1) by blast
qed auto

end

end
