(* ===== verification/Gz_S3Quiet.thy ===== *)
theory Gz_S3Quiet
  imports Gz_S3Proofs
begin

text \<open>
  An object store at rest. The laws of \<open>quiet_bucket\<close> describe one with no other writer and no failing
  request. The invariant \<open>s3_tidy\<close> says what the objects of a store look like; each update the store makes
  keeps it, and a write does what its planner decides, at the first attempt.
\<close>

text \<open>The pages of a listing, each asked for with the token the one before gave.\<close>

fun page_chain :: "'x s3_client \<Rightarrow> string option \<Rightarrow> 'x \<Rightarrow> string option \<Rightarrow> s3_page list \<Rightarrow> bool" where
  "page_chain c pre x token [] = False"
| "page_chain c pre x token (p # ps) =
     (cl_list_objects_v2 c pre token x = (Inr p, x) \<and>
      (case lp_token p of None \<Rightarrow> ps = [] | Some t \<Rightarrow> page_chain c pre x (Some t) ps))"

definition listed :: "string \<Rightarrow> s3_object \<Rightarrow> s3_listed" where
  "listed key ob = \<lparr>li_key = Some key, li_etag = Some (ob_etag ob), li_modified = Some (ob_modified ob)\<rparr>"

definition lists :: "bucket \<Rightarrow> string option \<Rightarrow> s3_listed list \<Rightarrow> bool" where
  "lists b pre es \<longleftrightarrow> distinct es \<and>
     set es = {listed key ob | key ob. b key = Some ob \<and> prefix (case pre of Some p \<Rightarrow> p | None \<Rightarrow> []) key}"

locale quiet_bucket =
  fixes c :: "'x s3_client" and objs :: "'x \<Rightarrow> bucket"
  assumes get_there: "objs x key = Some ob \<Longrightarrow>
        cl_get_object c key x = (Inr \<lparr>go_etag = Some (ob_etag ob), go_body = Inr (ob_content ob)\<rparr>, x)"
    and get_missing: "objs x key = None \<Longrightarrow> \<exists>e. cl_get_object c key x = (Inl e, x) \<and> er_no_such_key e"
    and put_ok: "permits pre (objs x key) \<Longrightarrow> \<exists>x' ob. cl_put_object c key pre body x = (Inr (), x') \<and>
        ob_content ob = body \<and> objs x' = (objs x)(key \<mapsto> ob) \<and> cl_clock c x' = cl_clock c x"
    and put_refused: "\<not> permits pre (objs x key) \<Longrightarrow>
        \<exists>e. cl_put_object c key pre body x = (Inl e, x) \<and> er_code e = Some ''PreconditionFailed''"
    and delete_ok: "permits (map_option IfMatch tag) (objs x key) \<Longrightarrow> \<exists>x'. cl_delete_object c key tag x = (Inr (), x') \<and>
        objs x' = (objs x)(key := None) \<and> cl_clock c x' = cl_clock c x"
    and head_there: "objs x key \<noteq> None \<Longrightarrow> cl_head_object c key x = (Inr (), x)"
    and head_missing: "objs x key = None \<Longrightarrow> \<exists>e. cl_head_object c key x = (Inl e, x) \<and> er_not_found e"
    and pages: "\<exists>ps. page_chain c pfx x None ps \<and> lists (objs x) pfx (concat (map lp_contents ps))"

subsection \<open>The invariant\<close>

definition s3_tidy :: "s3_env \<Rightarrow> ('x \<Rightarrow> bucket) \<Rightarrow> 'x \<Rightarrow> bool" where
  "s3_tidy E objs x \<longleftrightarrow>
     (\<forall>key ob k. objs x key = Some ob \<longrightarrow> parse_object_key key = Some k \<longrightarrow>
        key = object_key k \<and> s3_valid k \<and> (\<exists>r. rc_from (se_codec E) (ob_content ob) = Inr r \<and> rec_key r = k)) \<and>
     (\<forall>key k. objs x key \<noteq> None \<longrightarrow> parse_marker_key key = Some k \<longrightarrow> key = marker_key k \<and> s3_valid k) \<and>
     (\<forall>key ob h. objs x key = Some ob \<longrightarrow> blob_hash_from_key key = Some h \<longrightarrow>
        content_hash_of (se_H E) (ob_content ob) = h) \<and>
     s3_marked_ok E objs x"

definition s3_inv :: "s3_env \<Rightarrow> ('x \<Rightarrow> bucket) \<Rightarrow> 'x s3_state \<Rightarrow> bool" where
  "s3_inv E objs s \<longleftrightarrow> s3_tidy E objs (st_net s) \<and>
     (\<forall>p \<in> set (st_marked s). \<exists>ns col. p = (segment ns, segment col) \<and> objs (st_net s) (marked_flag_key ns col) \<noteq> None)"

definition rec_at :: "s3_env \<Rightarrow> ('x \<Rightarrow> bucket) \<Rightarrow> 'x \<Rightarrow> record_key \<Rightarrow> rec option" where
  "rec_at E objs x k =
     (if s3_valid k then
        (case objs x (object_key k) of
           None \<Rightarrow> None
         | Some ob \<Rightarrow> (case rc_from (se_codec E) (ob_content ob) of Inr r \<Rightarrow> Some r | Inl _ \<Rightarrow> None))
      else None)"

definition s3_abs :: "s3_env \<Rightarrow> ('x \<Rightarrow> bucket) \<Rightarrow> 'x s3_state \<Rightarrow> store_map" where
  "s3_abs E objs s = rec_at E objs (st_net s)"

definition blob_at :: "s3_env \<Rightarrow> ('x \<Rightarrow> bucket) \<Rightarrow> 'x \<Rightarrow> blob_map" where
  "blob_at E objs x h =
     (if s3_hash_valid h then
        map_option (\<lambda>ob. (ob_content ob,
          case se_system_time E (ob_modified ob) of Inr t \<Rightarrow> unix_ms t | Inl _ \<Rightarrow> 0)) (objs x (blob_key h))
      else None)"

definition s3_blobs :: "s3_env \<Rightarrow> ('x \<Rightarrow> bucket) \<Rightarrow> 'x s3_state \<Rightarrow> blob_map" where
  "s3_blobs E objs s = blob_at E objs (st_net s)"

lemma tidyD:
  assumes "s3_tidy E objs x"
  shows "objs x key = Some ob \<Longrightarrow> parse_object_key key = Some k \<Longrightarrow>
      key = object_key k \<and> s3_valid k \<and> (\<exists>r. rc_from (se_codec E) (ob_content ob) = Inr r \<and> rec_key r = k)"
    and "objs x key \<noteq> None \<Longrightarrow> parse_marker_key key = Some k \<Longrightarrow> key = marker_key k \<and> s3_valid k"
    and "objs x key = Some ob \<Longrightarrow> blob_hash_from_key key = Some h \<Longrightarrow> content_hash_of (se_H E) (ob_content ob) = h"
    and "s3_marked_ok E objs x"
  using assms unfolding s3_tidy_def by blast+

text \<open>A tidy bucket holds a record wherever there is a record object.\<close>

lemma tidy_record:
  assumes "s3_tidy E objs x" "s3_valid k"
  shows "s3_holds E objs x k (rec_at E objs x k)" "rec_at E objs x k = None \<longleftrightarrow> objs x (object_key k) = None"
    "rec_at E objs x k = Some r \<Longrightarrow> rec_key r = k"
  using tidyD(1) [OF assms(1), of "object_key k" _ k] assms(2) parse_object_key_back [OF assms(2)]
  by (auto simp: s3_holds_def rec_at_def split: option.splits sum.splits)

lemma rec_at_holds: "s3_valid k \<Longrightarrow> s3_holds E objs x k (Some r) \<longleftrightarrow> rec_at E objs x k = Some r"
  by (auto simp: s3_holds_def rec_at_def split: option.splits sum.splits)

text \<open>What is not of a kind does not touch that kind.\<close>

lemma tidy_update:
  assumes "s3_tidy E objs x" "objs x' = (objs x)(key := new)"
    and "\<And>k ob. parse_object_key key = Some k \<Longrightarrow> new = Some ob \<Longrightarrow>
       key = object_key k \<and> s3_valid k \<and> (\<exists>r. rc_from (se_codec E) (ob_content ob) = Inr r \<and> rec_key r = k)"
    and "\<And>k. parse_marker_key key = Some k \<Longrightarrow> new \<noteq> None \<Longrightarrow> key = marker_key k \<and> s3_valid k"
    and "\<And>h ob. blob_hash_from_key key = Some h \<Longrightarrow> new = Some ob \<Longrightarrow> content_hash_of (se_H E) (ob_content ob) = h"
    and "s3_marked_ok E objs x'"
  shows "s3_tidy E objs x'"
  unfolding s3_tidy_def assms(2)
proof (intro conjI allI impI)
  show "s3_marked_ok E objs x'" by (rule assms(6))
next
  fix key' ob k
  assume "((objs x)(key := new)) key' = Some ob" "parse_object_key key' = Some k"
  then show "key' = object_key k" "s3_valid k" "\<exists>r. rc_from (se_codec E) (ob_content ob) = Inr r \<and> rec_key r = k"
    using tidyD(1) [OF assms(1), of key' ob k] assms(3) [of k ob] by (auto split: if_splits)
next
  fix key' k
  assume "((objs x)(key := new)) key' \<noteq> None" "parse_marker_key key' = Some k"
  then show "key' = marker_key k" "s3_valid k"
    using tidyD(2) [OF assms(1), of key' k] assms(4) [of k] by (auto split: if_splits)
next
  fix key' ob h
  assume "((objs x)(key := new)) key' = Some ob" "blob_hash_from_key key' = Some h"
  then show "content_hash_of (se_H E) (ob_content ob) = h"
    using tidyD(3) [OF assms(1), of key' ob h] assms(5) [of h ob] by (auto split: if_splits)
qed

text \<open>The marker invariant after each kind of update.\<close>

lemma marked_ok_update:
  assumes "s3_marked_ok E objs x" "objs x' = (objs x)(key := new)"
    and "\<And>k ob r. key = object_key k \<Longrightarrow> new = Some ob \<Longrightarrow> rc_from (se_codec E) (ob_content ob) = Inr r \<Longrightarrow>
       is_tombstone r \<Longrightarrow> objs x (marker_key k) \<noteq> None"
    and "\<And>k r. key = marker_key k \<Longrightarrow> new = None \<Longrightarrow> s3_holds E objs x k (Some r) \<Longrightarrow> \<not> is_tombstone r"
    and "\<And>ns col k r. key = marked_flag_key ns col \<Longrightarrow> new \<noteq> None \<Longrightarrow> namespace k = ns \<Longrightarrow> collection k = col \<Longrightarrow>
       s3_holds E objs x k (Some r) \<Longrightarrow> is_tombstone r \<Longrightarrow> objs x (marker_key k) \<noteq> None"
  shows "s3_marked_ok E objs x'"
  unfolding s3_marked_ok_def
proof (intro allI impI)
  fix k r
  assume f: "objs x' (marked_flag_key (namespace k) (collection k)) \<noteq> None" and h: "s3_holds E objs x' k (Some r)"
    and t: "is_tombstone r"
  note D = assms(1) [unfolded s3_marked_ok_def, rule_format, of k r, OF _ _ t]
  consider "key = object_key k" | "key = marker_key k" | "key = marked_flag_key (namespace k) (collection k)"
    | "key \<noteq> object_key k" "key \<noteq> marker_key k" "key \<noteq> marked_flag_key (namespace k) (collection k)" by blast
  then show "objs x' (marker_key k) \<noteq> None"
  proof cases
    case 1
    then obtain ob where "new = Some ob" "rc_from (se_codec E) (ob_content ob) = Inr r"
      using h by (auto simp: s3_holds_def assms(2) split: option.splits)
    from assms(3) [OF 1 this t] 1 show ?thesis by (simp add: assms(2))
  next
    case 2
    then have h0: "s3_holds E objs x k (Some r)" using h by (simp add: s3_holds_def assms(2))
    have "new \<noteq> None" using assms(4) [OF 2 _ h0] t by blast
    then show ?thesis by (simp add: assms(2) 2)
  next
    case 3
    then have "s3_holds E objs x k (Some r)" using h by (simp add: s3_holds_def assms(2))
    with assms(5) [OF 3 _ refl refl _ t] f 3 show ?thesis by (simp add: assms(2))
  next
    case 4
    then show ?thesis using D f h by (simp add: s3_holds_def assms(2))
  qed
qed

text \<open>The updates the store makes, and what they leave alone.\<close>

lemma tidy_put_record:
  assumes "s3_tidy E objs x" "objs x' = (objs x)(object_key k \<mapsto> ob)" "s3_valid k"
    "rc_from (se_codec E) (ob_content ob) = Inr r" "rec_key r = k" "is_tombstone r \<Longrightarrow> objs x (marker_key k) \<noteq> None"
  shows "s3_tidy E objs x'" "rec_at E objs x' = (rec_at E objs x)(k \<mapsto> r)" "blob_at E objs x' = blob_at E objs x"
proof -
  have "s3_marked_ok E objs x'"
    by (rule marked_ok_update [OF tidyD(4) [OF assms(1)] assms(2)]) (use assms(4-6) in auto)
  then show "s3_tidy E objs x'"
    by (intro tidy_update [OF assms(1,2)]) (use assms(3-5) parse_object_key_back [OF assms(3)] in auto)
  show "rec_at E objs x' = (rec_at E objs x)(k \<mapsto> r)" using assms(3,4) by (auto simp: rec_at_def fun_eq_iff assms(2))
  show "blob_at E objs x' = blob_at E objs x" by (auto simp: blob_at_def fun_eq_iff assms(2))
qed

lemma tidy_remove_record:
  assumes "s3_tidy E objs x" "objs x' = (objs x)(object_key k := None)" "s3_valid k"
  shows "s3_tidy E objs x'" "rec_at E objs x' = (rec_at E objs x)(k := None)" "blob_at E objs x' = blob_at E objs x"
proof -
  have "s3_marked_ok E objs x'" by (rule marked_ok_update [OF tidyD(4) [OF assms(1)] assms(2)]) auto
  then show "s3_tidy E objs x'" by (intro tidy_update [OF assms(1,2)]) auto
  show "rec_at E objs x' = (rec_at E objs x)(k := None)" by (auto simp: rec_at_def fun_eq_iff assms(2))
  show "blob_at E objs x' = blob_at E objs x" by (auto simp: blob_at_def fun_eq_iff assms(2))
qed

lemma tidy_put_marker:
  assumes "s3_tidy E objs x" "objs x' = (objs x)(marker_key k \<mapsto> ob)" "s3_valid k"
  shows "s3_tidy E objs x'" "rec_at E objs x' = rec_at E objs x" "blob_at E objs x' = blob_at E objs x"
proof -
  have "s3_marked_ok E objs x'" by (rule marked_ok_update [OF tidyD(4) [OF assms(1)] assms(2)]) auto
  then show "s3_tidy E objs x'"
    by (intro tidy_update [OF assms(1,2)]) (use assms(3) parse_marker_key_back [OF assms(3)] in auto)
  show "rec_at E objs x' = rec_at E objs x" "blob_at E objs x' = blob_at E objs x"
    by (auto simp: rec_at_def blob_at_def fun_eq_iff assms(2))
qed

lemma tidy_remove_marker:
  assumes "s3_tidy E objs x" "objs x' = (objs x)(marker_key k := None)" "live_only (rec_at E objs x k) = rec_at E objs x k"
    "s3_valid k"
  shows "s3_tidy E objs x'" "rec_at E objs x' = rec_at E objs x" "blob_at E objs x' = blob_at E objs x"
proof -
  have "\<not> is_tombstone r" if "s3_holds E objs x k (Some r)" for r
    using that assms(3) rec_at_holds [OF assms(4), of E objs x r] by (auto simp: live_only_def split: if_splits)
  then have "s3_marked_ok E objs x'" by (intro marked_ok_update [OF tidyD(4) [OF assms(1)] assms(2)]) auto
  then show "s3_tidy E objs x'" by (intro tidy_update [OF assms(1,2)]) auto
  show "rec_at E objs x' = rec_at E objs x" "blob_at E objs x' = blob_at E objs x"
    by (auto simp: rec_at_def blob_at_def fun_eq_iff assms(2))
qed

lemma tidy_put_flag:
  assumes "s3_tidy E objs x" "objs x' = (objs x)(marked_flag_key ns col \<mapsto> ob)"
    "\<And>k r. namespace k = ns \<Longrightarrow> collection k = col \<Longrightarrow> s3_holds E objs x k (Some r) \<Longrightarrow> is_tombstone r \<Longrightarrow>
       objs x (marker_key k) \<noteq> None"
  shows "s3_tidy E objs x'" "rec_at E objs x' = rec_at E objs x" "blob_at E objs x' = blob_at E objs x"
proof -
  have "s3_marked_ok E objs x'"
    by (rule marked_ok_update [OF tidyD(4) [OF assms(1)] assms(2)]) (use assms(3) in auto)
  then show "s3_tidy E objs x'" by (intro tidy_update [OF assms(1,2)]) auto
  show "rec_at E objs x' = rec_at E objs x" "blob_at E objs x' = blob_at E objs x"
    by (auto simp: rec_at_def blob_at_def fun_eq_iff assms(2))
qed

lemma tidy_blob:
  assumes "s3_tidy E objs x" "objs x' = (objs x)(blob_key h := new)" "s3_hash_valid h"
    "\<And>ob. new = Some ob \<Longrightarrow> content_hash_of (se_H E) (ob_content ob) = h"
  shows "s3_tidy E objs x'" "rec_at E objs x' = rec_at E objs x"
    "blob_at E objs x' = (blob_at E objs x)(h := map_option (\<lambda>ob. (ob_content ob,
       case se_system_time E (ob_modified ob) of Inr t \<Rightarrow> unix_ms t | Inl _ \<Rightarrow> 0)) new)"
proof -
  have "s3_marked_ok E objs x'"
    by (rule marked_ok_update [OF tidyD(4) [OF assms(1)] assms(2)])
      (use blob_keys_disjoint [OF assms(3)] in auto)
  then show "s3_tidy E objs x'" by (intro tidy_update [OF assms(1,2)]) (use assms(3,4) in auto)
  show "rec_at E objs x' = rec_at E objs x" using assms(3) by (auto simp: rec_at_def fun_eq_iff assms(2))
  show "blob_at E objs x' = (blob_at E objs x)(h := map_option (\<lambda>ob. (ob_content ob,
       case se_system_time E (ob_modified ob) of Inr t \<Rightarrow> unix_ms t | Inl _ \<Rightarrow> 0)) new)"
    using assms(3) by (auto simp: blob_at_def fun_eq_iff assms(2))
qed

subsection \<open>What a plan answers and does\<close>

fun planned_answer :: "'a planned result \<Rightarrow> 'a result" where
  "planned_answer (Inl e) = Inl e"
| "planned_answer (Inr (PlannedFinish a)) = Inr a"
| "planned_answer (Inr (PlannedPut w a)) = Inr a"
| "planned_answer (Inr (PlannedRemove a)) = Inr a"

fun planned_effect :: "record_key \<Rightarrow> 'a planned result \<Rightarrow> store_map \<Rightarrow> store_map" where
  "planned_effect k (Inr (PlannedPut w a)) m = m(k \<mapsto> w)"
| "planned_effect k (Inr (PlannedRemove a)) m = m(k := None)"
| "planned_effect k _ m = m"

lemma put_step_contract:
  "planned_answer (put_step k pl) = put_outcome k pl" "planned_effect k (put_step k pl) m = put_effect k pl m"
  by (cases pl; simp)+

lemma delete_step_contract:
  "planned_answer (Inr (delete_step dl)) = delete_outcome dl" "planned_effect k (Inr (delete_step dl)) m = delete_effect k dl m"
  by (cases dl; simp)+

lemma purge_step_contract:
  "planned_answer (Inr (purge_step ul)) = purge_outcome ul" "planned_effect k (Inr (purge_step ul)) m = purge_effect k ul m"
  by (cases ul; simp)+

subsection \<open>Reads and writes\<close>

locale s3_substrate = quiet_bucket c objs
  for c :: "'x s3_client" and objs +
  fixes E :: s3_env and S :: "'x s3_store"
  assumes client: "s3_client S = c"
    and round_trip: "\<exists>bs. rc_to (se_codec E) r = Inr bs \<and> rc_from (se_codec E) bs = Inr r"
    and revision_json: "\<exists>bs. se_revision_to_vec E rv = Inr bs"
    and digest_valid: "s3_hash_valid (content_hash_of (se_H E) content)"
    and time_valid: "\<exists>t. se_system_time E d = Inr t"
begin

abbreviation at_key :: "'x \<Rightarrow> record_key \<Rightarrow> rec option" where
  "at_key \<equiv> rec_at E objs"

abbreviation tidy :: "'x \<Rightarrow> bool" where
  "tidy \<equiv> s3_tidy E objs"

abbreviation time :: "'x \<Rightarrow> int" where
  "time x \<equiv> now_ms (cl_clock c x)"

lemma read_quiet:
  assumes "tidy x" "s3_valid k"
  shows "read_with_etag E S k x =
    (Inr (map_option (\<lambda>r. (r, ob_etag (the (objs x (object_key k))))) (at_key x k)), x)"
proof (cases "objs x (object_key k)")
  case None
  then show ?thesis using get_missing [OF None] by (auto simp: read_with_etag_def client rec_at_def)
next
  case (Some ob)
  then obtain r where "rc_from (se_codec E) (ob_content ob) = Inr r" "at_key x k = Some r"
    using tidyD(1) [OF assms(1) Some parse_object_key_back [OF assms(2)]] assms(2) by (auto simp: rec_at_def)
  then show ?thesis using get_there [OF Some] Some by (simp add: read_with_etag_def client)
qed

lemma s3_read_quiet: "tidy x \<Longrightarrow> s3_valid k \<Longrightarrow> s3_read E S k x = (Inr (at_key x k), x)"
  by (cases "at_key x k") (simp_all add: s3_read_def bindE_def read_quiet retE_def)

lemma put_marker_quiet:
  assumes "tidy x" "s3_valid k"
  shows "\<exists>x' ob. put_marker E S k rv x = (Inr (), x') \<and> objs x' = (objs x)(marker_key k \<mapsto> ob) \<and>
    cl_clock c x' = cl_clock c x \<and> tidy x' \<and> at_key x' = at_key x \<and> blob_at E objs x' = blob_at E objs x"
proof -
  obtain bs where bs: "se_revision_to_vec E rv = Inr bs" using revision_json by blast
  obtain x' ob where "cl_put_object c (marker_key k) None bs x = (Inr (), x')" "objs x' = (objs x)(marker_key k \<mapsto> ob)"
    "cl_clock c x' = cl_clock c x" using put_ok [of None x "marker_key k" bs] by auto
  with tidy_put_marker [OF assms(1) this(2) assms(2)] bs show ?thesis
    by (intro exI [of _ x'] exI [of _ ob]) (simp add: put_marker_def client map_service_def)
qed

text \<open>The precondition taken from a read holds as long as nothing happens in between.\<close>

lemma precondition_quiet:
  assumes "tidy x" "s3_valid k" "objs x' (object_key k) = objs x (object_key k)"
  shows "permits (Some (precondition (map_option (\<lambda>r. ob_etag (the (objs x (object_key k)))) (at_key x k)))) (objs x' (object_key k))"
  using tidy_record(2) [OF assms(1,2)] assms(3) by (cases "at_key x k") (auto simp: precondition_def)

lemma first_attempt:
  assumes "write_attempt E S k plan (None, x) = (r, (p, x'))" "\<nexists>kd. r = Inr (StepRetry kd)"
  shows "write_planned E S k plan x = (case r of Inl e \<Rightarrow> Inl e | Inr (StepDone a) \<Rightarrow> Inr a, x')"
  using assms by (auto simp: write_planned_def client MAX_WRITE_ATTEMPTS_def eval_nat_numeral bindE_def retE_def
      split: sum.splits step.splits)

lemma write_quiet:
  assumes x: "tidy x" "s3_valid k"
    and key: "\<forall>w a. plan (time x) (at_key x k) = Inr (PlannedPut w a) \<longrightarrow> rec_key w = k"
    and rem: "\<forall>a. plan (time x) None \<noteq> Inr (PlannedRemove a)"
  shows "\<exists>x'. write_planned E S k plan x = (planned_answer (plan (time x) (at_key x k)), x') \<and>
    tidy x' \<and> blob_at E objs x' = blob_at E objs x \<and>
    (\<forall>ns col. objs x' (marked_flag_key ns col) = objs x (marked_flag_key ns col)) \<and>
    at_key x' = planned_effect k (plan (time x) (at_key x k)) (at_key x)"
proof -
  note [simp] = client write_attempt_def bindE_def remote_def read_quiet [OF x] take_pending_def
    retE_def Let_def option.map_comp comp_def option.map_ident
  show ?thesis
  proof (cases "plan (time x) (at_key x k)")
    case (Inl e)
    then show ?thesis using x first_attempt [of k plan x "Inl e" None x] by (intro exI [of _ x]) simp
  next
    case (Inr pl)
    show ?thesis
    proof (cases pl)
      case (PlannedFinish a)
      then show ?thesis using Inr x first_attempt [of k plan x "Inr (StepDone a)" None x] by (intro exI [of _ x]) simp
    next
      case (PlannedRemove a)
      with Inr rem obtain r where r: "at_key x k = Some r" by (cases "at_key x k") auto
      then obtain ob where ob: "objs x (object_key k) = Some ob" using tidy_record(2) [OF x] by auto
      obtain x' where x': "cl_delete_object c (object_key k) (Some (ob_etag ob)) x = (Inr (), x')"
        "objs x' = (objs x)(object_key k := None)" using delete_ok [of "Some (ob_etag ob)" x "object_key k"] ob by auto
      show ?thesis
        using tidy_remove_record [OF x(1) x'(2) x(2)] Inr PlannedRemove r ob x'
          first_attempt [of k plan x "Inr (StepDone a)" None x']
        by (intro exI [of _ x']) (simp add: delete_record_if_match_def race_outcome_def)
    next
      case (PlannedPut w a)
      then have wk: "rec_key w = k" using key Inr by simp
      obtain bs where bs: "rc_to (se_codec E) w = Inr bs" "rc_from (se_codec E) bs = Inr w" using round_trip by blast
      obtain x1 where x1: "(if is_tombstone w then remote (put_marker E S k (rec_revision w)) else retE ()) (None :: (rec \<times> 'a) option, x) = (Inr (), (None, x1))"
        "is_tombstone w \<Longrightarrow> objs x1 (marker_key k) \<noteq> None" "tidy x1" "at_key x1 = at_key x" "blob_at E objs x1 = blob_at E objs x"
        "objs x1 (object_key k) = objs x (object_key k)" "\<forall>ns col. objs x1 (marked_flag_key ns col) = objs x (marked_flag_key ns col)"
        using put_marker_quiet [OF x, of "rec_revision w"] x(1) by (cases "is_tombstone w") auto
      let ?pre = "precondition (map_option (\<lambda>r. ob_etag (the (objs x (object_key k)))) (at_key x k))"
      obtain x' ob where x': "cl_put_object c (object_key k) (Some ?pre) bs x1 = (Inr (), x')" "ob_content ob = bs"
        "objs x' = (objs x1)(object_key k \<mapsto> ob)"
        using put_ok [OF precondition_quiet [OF x x1(6)], of bs] by auto
      have "rc_from (se_codec E) (ob_content ob) = Inr w" using bs(2) x'(2) by simp
      note T = tidy_put_record [OF x1(3) x'(3) x(2) this wk x1(2)]
      have "write_attempt E S k plan (None, x) = (Inr (StepDone a), (None, x'))"
        using x1(1) Inr PlannedPut bs(1) wk x'(1) by (auto simp: put_record_if_def race_outcome_def split: if_splits)
      from first_attempt [OF this] T x1(4,5,7) x'(3) Inr PlannedPut show ?thesis by (intro exI [of _ x']) simp
    qed
  qed
qed

end

end
