(* ===== verification/Gz_S3Listing.thy ===== *)
theory Gz_S3Listing
  imports Gz_S3Quiet
begin

text \<open>
  Listings of an object store at rest are exact. A consumer listing reads only the records that have a
  marker once its collection carries the flag; it removes markers that are stale and adds those that
  are missing, sets the flag, and changes no record.
\<close>

context s3_substrate
begin

subsection \<open>Pages\<close>

lemma page_loop_chain:
  assumes "page_chain c pfx x token ps" "\<And>p acc. p \<in> set ps \<Longrightarrow> step (lp_contents p) acc = Inr (g (lp_contents p) acc)"
  shows "page_loop c pfx step token acc x = Some (Inr (fold g (map lp_contents ps) acc), x)"
  using assms
proof (induction ps arbitrary: token acc)
  case (Cons p ps)
  have first: "cl_list_objects_v2 c pfx token x = (Inr p, x)" "step (lp_contents p) acc = Inr (g (lp_contents p) acc)"
    using Cons.prems by auto
  show ?case
  proof (cases "lp_token p")
    case None
    then show ?thesis using Cons.prems(1) first by (subst page_loop.simps) (simp add: next_continuation_def)
  next
    case (Some t)
    then have "page_loop c pfx step (Some t) (g (lp_contents p) acc) x = Some (Inr (fold g (map lp_contents ps) (g (lp_contents p) acc)), x)"
      using Cons by simp
    then show ?thesis using Some first by (subst page_loop.simps) (simp add: next_continuation_def)
  qed
qed simp

lemma list_pages_chain:
  assumes "\<And>es acc. set es \<subseteq> {listed key ob | key ob. objs x key = Some ob} \<Longrightarrow> step es acc = Inr (g es acc)"
  shows "\<exists>pss. list_pages c pfx step acc x = (Inr (fold g pss acc), x) \<and> lists (objs x) pfx (concat pss)"
proof -
  obtain ps where ps: "page_chain c pfx x None ps" "lists (objs x) pfx (concat (map lp_contents ps))" using pages by blast
  have "step (lp_contents p) acc = Inr (g (lp_contents p) acc)" if "p \<in> set ps" for p acc
    by (rule assms) (use ps(2) that in \<open>force simp: lists_def\<close>)
  then have "page_loop c pfx step None acc x = Some (Inr (fold g (map lp_contents ps) acc), x)"
    by (rule page_loop_chain [OF ps(1), where step = step and g = g])
  with ps(2) show ?thesis by (intro exI [of _ "map lp_contents ps"]) (simp add: list_pages_def)
qed

text \<open>One pass sorts the objects into records and markers.\<close>

lemma fold_fold_concat: "fold (\<lambda>es. fold f es) ess a = fold f (concat ess) a"
  by (induction ess arbitrary: a) simp_all

definition record_entry :: "key_prefix \<Rightarrow> s3_listed \<Rightarrow> record_key option" where
  "record_entry p e = Option.bind (li_key e) (\<lambda>s.
     case parse_object_key s of Some k \<Rightarrow> if kp_matches p k then Some k else None | None \<Rightarrow> None)"

definition marker_entry :: "key_prefix \<Rightarrow> s3_listed \<Rightarrow> (record_key \<times> string) option" where
  "marker_entry p e = Option.bind (li_key e) (\<lambda>s. if parse_object_key s \<noteq> None then None else
     Option.bind (parse_marker_key s) (\<lambda>k. Option.bind (li_etag e) (\<lambda>t. if kp_matches p k then Some (k, t) else None)))"

lemma list_entry_eq:
  "ls_records (list_entry p e l) = ls_records l @ (case record_entry p e of None \<Rightarrow> [] | Some k \<Rightarrow> [k])"
  "ls_markers (list_entry p e l) = (case marker_entry p e of None \<Rightarrow> ls_markers l | Some (k, t) \<Rightarrow> bt_insert k t (ls_markers l))"
  by (auto simp: list_entry_def record_entry_def marker_entry_def split: option.splits)

lemma list_entries:
  "ls_records (fold (list_entry p) es l) = ls_records l @ List.map_filter (record_entry p) es"
  "ls_markers (fold (list_entry p) es l) = bt_extend (ls_markers l) (List.map_filter (marker_entry p) es)"
  by (induction es arbitrary: l)
    (simp_all add: list_entry_eq bt_extend_def List.map_filter_simps split: option.splits)

lemma set_map_filter: "set (List.map_filter f xs) = {y. \<exists>x \<in> set xs. f x = Some y}"
  by (induction xs) (auto simp: List.map_filter_simps split: option.splits)

lemma distinct_map_filter':
  "distinct xs \<Longrightarrow> (\<And>a b y. a \<in> set xs \<Longrightarrow> b \<in> set xs \<Longrightarrow> f a = Some y \<Longrightarrow> f b = Some y \<Longrightarrow> a = b) \<Longrightarrow> distinct (List.map_filter f xs)"
proof (induction xs)
  case (Cons x xs)
  have "distinct (List.map_filter f xs)" using Cons by simp
  moreover have "y \<notin> set (List.map_filter f xs)" if "f x = Some y" for y
    using Cons.prems(1) Cons.prems(2) [OF list.set_intros(1) list.set_intros(2) that] by (auto simp: set_map_filter)
  ultimately show ?case by (auto simp: List.map_filter_simps split: option.splits)
qed (simp add: List.map_filter_simps)

text \<open>The listing of a tidy bucket.\<close>

lemma listing_quiet:
  assumes "tidy x"
  shows "\<exists>l. list_objects S p x = (Inr l, x) \<and> distinct (ls_records l) \<and>
    set (ls_records l) = {k. at_key x k \<noteq> None \<and> kp_matches p k} \<and> bt_ok (ls_markers l) \<and>
    (\<forall>k. bt_get (ls_markers l) k = (if s3_valid k \<and> kp_matches p k then map_option ob_etag (objs x (marker_key k)) else None))"
proof -
  let ?pfx = "if s3_prefix p = [] then None else Some (s3_prefix p)" and ?l0 = "\<lparr>ls_records = [], ls_markers = []\<rparr>"
  obtain pss where run: "list_objects S p x = (Inr (fold (\<lambda>es. fold (list_entry p) es) pss ?l0), x)"
    and all: "lists (objs x) ?pfx (concat pss)"
    using list_pages_chain [of x "\<lambda>objs out. Inr (fold (list_entry p) objs out)" "\<lambda>es. fold (list_entry p) es" ?pfx ?l0]
    by (auto simp: list_objects_def client)
  define es where "es = concat pss"
  have mem: "e \<in> set es \<longleftrightarrow> (\<exists>key ob. e = listed key ob \<and> objs x key = Some ob \<and> prefix (s3_prefix p) key)" for e
    using all by (auto simp: lists_def es_def)
  have rec: "record_entry p (listed key ob) = Some k \<longleftrightarrow> key = object_key k \<and> s3_valid k \<and> kp_matches p k"
    if "objs x key = Some ob" for key ob k
    using tidyD(1) [OF assms that] parse_object_key_back by (auto simp: record_entry_def listed_def split: option.splits)
  have mark: "marker_entry p (listed key ob) = Some (k, t) \<longleftrightarrow> key = marker_key k \<and> s3_valid k \<and> kp_matches p k \<and> t = ob_etag ob"
    if "objs x key = Some ob" for key ob k t
  proof -
    have "parse_object_key key = None" if "parse_marker_key key = Some k'" for k'
      using tidyD(2) [OF assms, of key k'] that \<open>objs x key = Some ob\<close> by auto
    moreover have canon: "key = marker_key k' \<and> s3_valid k'" if "parse_marker_key key = Some k'" for k'
      using tidyD(2) [OF assms, of key k'] that \<open>objs x key = Some ob\<close> by auto
    ultimately have "marker_entry p (listed key ob) = Option.bind (parse_marker_key key) (\<lambda>k. if kp_matches p k then Some (k, ob_etag ob) else None)"
      by (cases "parse_marker_key key") (simp_all add: marker_entry_def listed_def)
    moreover have "parse_marker_key key = Some k \<longleftrightarrow> key = marker_key k \<and> s3_valid k"
      using parse_marker_key_back [of k] canon by metis
    ultimately show ?thesis by (cases "parse_marker_key key") (auto split: if_splits)
  qed
  let ?rs = "List.map_filter (record_entry p) es" and ?ms = "List.map_filter (marker_entry p) es"
  have dist: "distinct es" using all by (simp add: lists_def es_def)
  have "distinct ?rs"
    by (rule distinct_map_filter' [OF dist]) (use rec in \<open>auto simp: mem\<close>)
  moreover have "set ?rs = {k. at_key x k \<noteq> None \<and> kp_matches p k}"
  proof (rule set_eqI)
    fix k
    have "k \<in> set ?rs \<longleftrightarrow> (\<exists>ob. objs x (object_key k) = Some ob) \<and> s3_valid k \<and> kp_matches p k"
    proof -
      have "k \<in> set ?rs \<longleftrightarrow> (\<exists>key ob. objs x key = Some ob \<and> prefix (s3_prefix p) key \<and> record_entry p (listed key ob) = Some k)"
        unfolding set_map_filter mem_Collect_eq Bex_def mem by blast
      also have "\<dots> \<longleftrightarrow> (\<exists>key ob. objs x key = Some ob \<and> prefix (s3_prefix p) key \<and> key = object_key k \<and> s3_valid k \<and> kp_matches p k)"
        by (intro ex_cong1 conj_cong refl) (rule rec)
      finally show ?thesis using prefix_of_match(1) [of p k] by auto
    qed
    then show "k \<in> set ?rs \<longleftrightarrow> k \<in> {k. at_key x k \<noteq> None \<and> kp_matches p k}"
      using tidy_record(2) [OF assms, of k] by (cases "s3_valid k") (auto simp: rec_at_def)
  qed
  moreover have "bt_get (bt_extend [] ?ms) k = (if s3_valid k \<and> kp_matches p k then map_option ob_etag (objs x (marker_key k)) else None)" for k
  proof -
    have in_ms: "(k, t) \<in> set ?ms \<longleftrightarrow> s3_valid k \<and> kp_matches p k \<and> map_option ob_etag (objs x (marker_key k)) = Some t" for k t
    proof -
      have "(k, t) \<in> set ?ms \<longleftrightarrow> (\<exists>key ob. objs x key = Some ob \<and> prefix (s3_prefix p) key \<and> marker_entry p (listed key ob) = Some (k, t))"
        unfolding set_map_filter mem_Collect_eq Bex_def mem by blast
      also have "\<dots> \<longleftrightarrow> (\<exists>key ob. objs x key = Some ob \<and> prefix (s3_prefix p) key \<and>
          key = marker_key k \<and> s3_valid k \<and> kp_matches p k \<and> t = ob_etag ob)"
        by (intro ex_cong1 conj_cong refl) (rule mark)
      finally show ?thesis using prefix_of_match(2) [of p k] by auto
    qed
    have "distinct (map fst ?ms)"
      unfolding distinct_map
      by (intro conjI distinct_map_filter' [OF dist] inj_onI) (use mark in \<open>auto simp: mem in_ms\<close>)
    then have "map_of (rev ?ms) k = Some t \<longleftrightarrow> (k, t) \<in> set ?ms" for t by (simp add: rev_map [symmetric])
    then have "bt_get (bt_extend [] ?ms) k = Some t \<longleftrightarrow>
        (if s3_valid k \<and> kp_matches p k then map_option ob_etag (objs x (marker_key k)) else None) = Some t" for t
      using in_ms by auto
    then show ?thesis by (metis not_Some_eq)
  qed
  moreover define l where "l = fold (list_entry p) es ?l0"
  have "ls_records l = ?rs" "ls_markers l = bt_extend [] ?ms" by (simp_all add: list_entries l_def)
  moreover have "list_objects S p x = (Inr l, x)" unfolding run fold_fold_concat es_def l_def ..
  ultimately show ?thesis using bt_ok_extend [OF bt_ok_Nil] by metis
qed

subsection \<open>The consumer listing\<close>

definition liveness_of :: "rec option \<Rightarrow> liveness" where
  "liveness_of o' = (case o' of None \<Rightarrow> Absent | Some r \<Rightarrow> if is_tombstone r then Tombstoned (rec_revision r) else Live)"

lemma read_batch_quiet:
  assumes "tidy x" "\<forall>k \<in> set ks. s3_valid k"
  shows "read_batch E S ks live x = (Inr (bt_extend live (map (\<lambda>k. (k, liveness_of (at_key x k))) ks)), x)"
  using assms(2)
proof (induction ks arbitrary: live)
  case (Cons k ks)
  have "listed_as_live (Inr (at_key x k)) = Inr (liveness_of (at_key x k))"
    by (simp add: listed_as_live_def liveness_of_def split: option.splits)
  with Cons show ?case by (simp add: s3_read_quiet [OF assms(1)] bindE_def liftE_def bt_extend_def)
qed (simp add: retE_def bt_extend_def)

lemma read_batches_quiet:
  assumes "tidy x" "\<forall>k \<in> set (concat kss). s3_valid k"
  shows "read_batches E S kss live x = (Inr (bt_extend live (map (\<lambda>k. (k, liveness_of (at_key x k))) (concat kss))), x)"
  using assms(2)
  by (induction kss arbitrary: live) (simp_all add: retE_def bt_extend_def bindE_def read_batch_quiet [OF assms(1)])

lemma read_liveness_quiet:
  assumes "tidy x" "\<forall>k \<in> set ks. s3_valid k"
  shows "\<exists>live. read_liveness E S ks x = (Inr live, x) \<and>
    (\<forall>k. bt_get live k = (if k \<in> set ks then Some (liveness_of (at_key x k)) else None))"
proof -
  have "bt_get (bt_extend [] (map (\<lambda>k. (k, f k)) ks)) k = (if k \<in> set ks then Some (f k) else None)" for f :: "record_key \<Rightarrow> liveness" and k
    by (simp add: rev_map map_of_map_restrict restrict_map_def)
  then show ?thesis
    using read_batches_quiet [OF assms(1), of "chunks LIST_READ_CONCURRENCY ks" "[]"] assms(2)
    by (simp add: read_liveness_def concat_chunks LIST_READ_CONCURRENCY_def)
qed

lemma delete_marker_quiet:
  assumes "tidy x" "s3_valid k" "objs x (marker_key k) = Some ob" "live_only (at_key x k) = at_key x k"
  shows "\<exists>x'. delete_marker_if_match S k (ob_etag ob) x = (Inr (), x') \<and> objs x' = (objs x)(marker_key k := None) \<and>
    cl_clock c x' = cl_clock c x \<and> tidy x' \<and> at_key x' = at_key x \<and> blob_at E objs x' = blob_at E objs x"
proof -
  obtain x' where "cl_delete_object c (marker_key k) (Some (ob_etag ob)) x = (Inr (), x')"
    "objs x' = (objs x)(marker_key k := None)" "cl_clock c x' = cl_clock c x"
    using delete_ok [of "Some (ob_etag ob)" x "marker_key k"] assms(3) by auto
  with tidy_remove_marker [OF assms(1) this(2) assms(4,2)] show ?thesis
    by (intro exI [of _ x']) (simp add: delete_marker_if_match_def client)
qed

text \<open>States that differ in the markers of some keys only.\<close>

definition marks_only :: "record_key set \<Rightarrow> 'x \<Rightarrow> 'x \<Rightarrow> bool" where
  "marks_only K x x' \<longleftrightarrow> tidy x' \<and> at_key x' = at_key x \<and> blob_at E objs x' = blob_at E objs x \<and>
     cl_clock c x' = cl_clock c x \<and> (\<forall>key. key \<notin> marker_key ` K \<longrightarrow> objs x' key = objs x key)"

lemma marks_only_refl: "tidy x \<Longrightarrow> marks_only K x x"
  by (simp add: marks_only_def)

lemma marks_only_trans: "marks_only K x y \<Longrightarrow> marks_only K' y z \<Longrightarrow> marks_only (K \<union> K') x z"
  by (simp add: marks_only_def image_Un)

lemma marks_only_other: "marks_only K x x' \<Longrightarrow> k \<notin> K \<Longrightarrow> objs x' (marker_key k) = objs x (marker_key k)"
  unfolding marks_only_def by (elim conjE allE [of _ "marker_key k"]) auto

lemma resolve_quiet:
  assumes "tidy x" "distinct ks" "\<forall>k \<in> set ks. s3_valid k \<and> at_key x k \<noteq> None \<and>
      bt_get (ls_markers l) k = map_option ob_etag (objs x (marker_key k)) \<and>
      (case bt_get live k of None \<Rightarrow> live_only (at_key x k) \<noteq> None | Some v \<Rightarrow> v = liveness_of (at_key x k))"
  shows "\<exists>x'. resolve_keys E S l live ks out x = (Inr (out @ filter (\<lambda>k. live_only (at_key x k) \<noteq> None) ks), x') \<and>
    marks_only (set ks) x x' \<and> (\<forall>k \<in> set ks. live_only (at_key x k) = None \<longrightarrow> objs x' (marker_key k) \<noteq> None)"
  using assms
proof (induction ks arbitrary: x out)
  case Nil
  then show ?case by (simp add: retE_def marks_only_refl)
next
  case (Cons k ks)
  let ?out = "out @ (if live_only (at_key x k) \<noteq> None then [k] else [])"
  obtain r where r: "at_key x k = Some r" "s3_valid k" using Cons.prems(3) by auto
  have m: "bt_get (ls_markers l) k = map_option ob_etag (objs x (marker_key k))" using Cons.prems(3) by simp
  have "\<exists>x1. resolve_keys E S l live (k # ks) out x = resolve_keys E S l live ks ?out x1 \<and> marks_only {k} x x1 \<and>
      (live_only (at_key x k) = None \<longrightarrow> objs x1 (marker_key k) \<noteq> None)"
  proof (cases "bt_get live k")
    case None
    then have "live_only (at_key x k) \<noteq> None" using Cons.prems(3) by simp
    with None show ?thesis using Cons.prems(1) by (intro exI [of _ x]) (auto simp: marks_only_refl)
  next
    case (Some v)
    then have v: "v = liveness_of (Some r)" using Cons.prems(3) r by simp
    show ?thesis
    proof (cases "is_tombstone r")
      case True
      then have v': "bt_get live k = Some (Tombstoned (rec_revision r))" "live_only (at_key x k) = None"
        using Some v r by (simp_all add: liveness_of_def)
      show ?thesis
      proof (cases "objs x (marker_key k)")
        case None
        obtain x' ob where "put_marker E S k (rec_revision r) x = (Inr (), x')" "objs x' = (objs x)(marker_key k \<mapsto> ob)"
          "cl_clock c x' = cl_clock c x" "tidy x'" "at_key x' = at_key x" "blob_at E objs x' = blob_at E objs x"
          using put_marker_quiet [OF Cons.prems(1) r(2)] by blast
        then show ?thesis using v' m None by (intro exI [of _ x']) (simp add: bindE_def marks_only_def)
      qed (use v' m Cons.prems(1) in \<open>intro exI [of _ x], simp add: bindE_def retE_def marks_only_refl\<close>)
    next
      case False
      then have v': "bt_get live k = Some Live" "live_only (at_key x k) = at_key x k"
        using Some v r by (simp_all add: liveness_of_def)
      show ?thesis
      proof (cases "objs x (marker_key k)")
        case (Some ob)
        obtain x' where "delete_marker_if_match S k (ob_etag ob) x = (Inr (), x')" "objs x' = (objs x)(marker_key k := None)"
          "cl_clock c x' = cl_clock c x" "tidy x'" "at_key x' = at_key x" "blob_at E objs x' = blob_at E objs x"
          using delete_marker_quiet [OF Cons.prems(1) r(2) Some v'(2)] by blast
        then show ?thesis using v' m Some r by (intro exI [of _ x']) (simp add: bindE_def marks_only_def)
      qed (use v' m Cons.prems(1) r in \<open>intro exI [of _ x], simp add: bindE_def retE_def marks_only_refl\<close>)
    qed
  qed
  then obtain x1 where 1: "resolve_keys E S l live (k # ks) out x = resolve_keys E S l live ks ?out x1" "marks_only {k} x x1"
    "live_only (at_key x k) = None \<longrightarrow> objs x1 (marker_key k) \<noteq> None" by (elim exE conjE) (rule that)
  have k: "k \<notin> set ks" and same: "at_key x1 = at_key x" using Cons.prems(2) 1(2) by (simp_all add: marks_only_def)
  have keep: "objs x1 (marker_key k') = objs x (marker_key k')" if "k' \<in> set ks" for k'
    by (rule marks_only_other [OF 1(2)]) (use that k in auto)
  have "\<exists>x'. resolve_keys E S l live ks ?out x1 = (Inr (?out @ filter (\<lambda>k. live_only (at_key x1 k) \<noteq> None) ks), x') \<and>
      marks_only (set ks) x1 x' \<and> (\<forall>k \<in> set ks. live_only (at_key x1 k) = None \<longrightarrow> objs x' (marker_key k) \<noteq> None)"
  proof (rule Cons.IH)
    show "tidy x1" "distinct ks" using 1(2) Cons.prems(2) by (simp_all add: marks_only_def)
    show "\<forall>k \<in> set ks. s3_valid k \<and> at_key x1 k \<noteq> None \<and>
        bt_get (ls_markers l) k = map_option ob_etag (objs x1 (marker_key k)) \<and>
        (case bt_get live k of None \<Rightarrow> live_only (at_key x1 k) \<noteq> None | Some v \<Rightarrow> v = liveness_of (at_key x1 k))"
      using Cons.prems(3) keep unfolding same by simp
  qed
  then obtain x' where 2: "resolve_keys E S l live ks ?out x1 = (Inr (?out @ filter (\<lambda>k. live_only (at_key x k) \<noteq> None) ks), x')"
    "marks_only (set ks) x1 x'" "\<forall>k \<in> set ks. live_only (at_key x k) = None \<longrightarrow> objs x' (marker_key k) \<noteq> None"
    unfolding same by (elim exE conjE) (rule that)
  have "marks_only (set (k # ks)) x x'" using marks_only_trans [OF 1(2) 2(2)] by simp
  moreover have "objs x' (marker_key k) = objs x1 (marker_key k)" by (rule marks_only_other [OF 2(2) k])
  ultimately show ?case using 1(1,3) 2(1,3) by (intro exI [of _ x']) (simp del: resolve_keys.simps)
qed

lemma sweep_quiet:
  assumes "tidy x" "distinct (map fst ms)"
    "\<forall>(k, t) \<in> set ms. s3_valid k \<and> at_key x k = None \<and> map_option ob_etag (objs x (marker_key k)) = Some t"
  shows "\<exists>x'. sweep_orphans S ms x = (Inr (), x') \<and> marks_only (fst ` set ms) x x'"
  using assms
proof (induction ms arbitrary: x)
  case Nil
  then show ?case by (simp add: retE_def marks_only_refl)
next
  case (Cons kt ms)
  obtain k t where kt: "kt = (k, t)" by (cases kt)
  with Cons.prems(3) obtain ob where k: "s3_valid k" "at_key x k = None" "objs x (marker_key k) = Some ob" "t = ob_etag ob" by auto
  have "live_only (at_key x k) = at_key x k" using k(2) by simp
  from delete_marker_quiet [OF Cons.prems(1) k(1,3) this] obtain x1 where
    1: "delete_marker_if_match S k t x = (Inr (), x1)" "marks_only {k} x x1"
    by (auto simp: k(4) marks_only_def)
  have nk: "k \<notin> fst ` set ms" using Cons.prems(2) kt by simp
  have keep: "objs x1 (marker_key k') = objs x (marker_key k')" if "(k', t') \<in> set ms" for k' t'
    by (rule marks_only_other [OF 1(2)]) (use that nk in force)
  have "\<exists>x'. sweep_orphans S ms x1 = (Inr (), x') \<and> marks_only (fst ` set ms) x1 x'"
    using Cons.prems 1(2) by (intro Cons.IH) (auto simp: marks_only_def keep)
  then obtain x' where 2: "sweep_orphans S ms x1 = (Inr (), x')" "marks_only (fst ` set ms) x1 x'" by blast
  have "marks_only (fst ` set (kt # ms)) x x'" using marks_only_trans [OF 1(2) 2(2)] by (simp add: kt)
  with 1(1) 2(1) show ?case by (intro exI [of _ x']) (simp add: kt bindE_def)
qed

text \<open>One collection of a listing, in a state that has changed in other collections only.\<close>

definition listed_in :: "listing \<Rightarrow> 'x \<Rightarrow> string \<times> string \<Rightarrow> record_key list \<Rightarrow> bool" where
  "listed_in l x C keys \<longleftrightarrow> distinct keys \<and> set keys = {k. at_key x k \<noteq> None \<and> (namespace k, collection k) = C} \<and>
     bt_ok (ls_markers l) \<and>
     (\<forall>k. (namespace k, collection k) = C \<longrightarrow>
        bt_get (ls_markers l) k = (if s3_valid k then map_option ob_etag (objs x (marker_key k)) else None))"

definition repairs :: "(string \<times> string) set \<Rightarrow> 'x s3_state \<Rightarrow> 'x s3_state \<Rightarrow> bool" where
  "repairs Cs s s' \<longleftrightarrow> s3_inv E objs s' \<and> at_key (st_net s') = at_key (st_net s) \<and>
     blob_at E objs (st_net s') = blob_at E objs (st_net s) \<and>
     (\<forall>k. (namespace k, collection k) \<notin> Cs \<longrightarrow> objs (st_net s') (marker_key k) = objs (st_net s) (marker_key k))"

lemma repairs_refl: "s3_inv E objs s \<Longrightarrow> repairs Cs s s"
  by (simp add: repairs_def)

lemma repairs_trans: "repairs Cs s t \<Longrightarrow> repairs Ds t u \<Longrightarrow> repairs (Cs \<union> Ds) s u"
  by (simp add: repairs_def)

lemma marks_repairs:
  assumes "s3_inv E objs s" "marks_only K (st_net s) x'" "\<forall>k \<in> K. (namespace k, collection k) \<in> Cs"
  shows "repairs Cs s (s\<lparr>st_net := x'\<rparr>)"
proof -
  have "objs x' (marked_flag_key ns col) = objs (st_net s) (marked_flag_key ns col)" for ns col
    using assms(2) unfolding marks_only_def by (elim conjE allE [of _ "marked_flag_key ns col"]) auto
  moreover have "objs x' (marker_key k) = objs (st_net s) (marker_key k)" if "(namespace k, collection k) \<notin> Cs" for k
    by (rule marks_only_other [OF assms(2)]) (use assms(3) that in auto)
  ultimately show ?thesis using assms(1,2) by (simp add: repairs_def s3_inv_def marks_only_def)
qed

lemma invD:
  assumes "s3_inv E objs s"
  shows "tidy (st_net s)" "(segment ns, segment col) \<in> set (st_marked s) \<Longrightarrow> objs (st_net s) (marked_flag_key ns col) \<noteq> None"
  using assms by (auto simp: s3_inv_def segment_inj)

lemma collection_marked_quiet:
  assumes "s3_inv E objs s"
  shows "\<exists>s'. collection_marked S ns col s = (Inr (objs (st_net s) (marked_flag_key ns col) \<noteq> None), s') \<and>
    st_net s' = st_net s \<and> s3_inv E objs s'"
proof (cases "(segment ns, segment col) \<in> set (st_marked s)")
  case True
  then show ?thesis using invD(2) [OF assms True] assms by (intro exI [of _ s]) (simp add: collection_marked_def)
next
  case F: False
  show ?thesis
  proof (cases "objs (st_net s) (marked_flag_key ns col)")
    case None
    from head_missing [OF this] obtain e where
      "cl_head_object c (marked_flag_key ns col) (st_net s) = (Inl e, st_net s)" "er_not_found e" by blast
    with F None assms show ?thesis
      by (intro exI [of _ s]) (simp add: collection_marked_def bindE_def on_net_def head_exists_def client)
  next
    case (Some ob)
    then have "cl_head_object c (marked_flag_key ns col) (st_net s) = (Inr (), st_net s)" by (simp add: head_there)
    with F Some assms show ?thesis
      by (intro exI [of _ "s\<lparr>st_marked := List.insert (segment ns, segment col) (st_marked s)\<rparr>"])
        (auto simp: collection_marked_def bindE_def on_net_def head_exists_def client s3_inv_def)
  qed
qed

lemma mark_collection_quiet:
  assumes "s3_inv E objs s" "\<And>k r. namespace k = ns \<Longrightarrow> collection k = col \<Longrightarrow> at_key (st_net s) k = Some r \<Longrightarrow>
      is_tombstone r \<Longrightarrow> objs (st_net s) (marker_key k) \<noteq> None"
  shows "\<exists>s'. mark_collection S ns col s = (Inr (), s') \<and> repairs {} s s'"
proof -
  let ?x = "st_net s"
  obtain x' ob where x': "cl_put_object c (marked_flag_key ns col) None ''1'' ?x = (Inr (), x')"
    "objs x' = (objs ?x)(marked_flag_key ns col \<mapsto> ob)" using put_ok [of None ?x "marked_flag_key ns col" "''1''"] by auto
  have valid: "s3_valid k" if h: "s3_holds E objs ?x k (Some r)" for k r
  proof -
    obtain ob where ob: "objs ?x (object_key k) = Some ob" using h by (auto simp: s3_holds_def split: option.splits)
    have "\<exists>k'. parse_object_key (object_key k) = Some k'"
      unfolding object_key_eq parse_object_key_def strip_suffix_append by (simp add: split_three [simplified] segment_no_sep)
    with tidyD(1) [OF invD(1) [OF assms(1)] ob] show ?thesis by auto
  qed
  have "objs ?x (marker_key k) \<noteq> None"
    if "namespace k = ns" "collection k = col" "s3_holds E objs ?x k (Some r)" "is_tombstone r" for k r
    using assms(2) [OF that(1,2) _ that(4)] rec_at_holds [OF valid [OF that(3)], of E objs ?x r] that(3) by blast
  note T = tidy_put_flag [OF invD(1) [OF assms(1)] x'(2) this]
  have "objs x' (marked_flag_key n cl) \<noteq> None" if "objs ?x (marked_flag_key n cl) \<noteq> None" for n cl
    using that by (simp add: x'(2))
  then have "s3_inv E objs \<lparr>st_net = x', st_marked = List.insert (segment ns, segment col) (st_marked s)\<rparr>"
    using T(1) assms(1) x'(2) unfolding s3_inv_def by (simp del: fun_upd_apply) (metis fun_upd_same option.discI)
  then show ?thesis
    using T(2,3) x' by (intro exI [of _ "\<lparr>st_net = x', st_marked = List.insert (segment ns, segment col) (st_marked s)\<rparr>"])
      (simp add: mark_collection_def bindE_def on_net_def map_service_def client repairs_def)
qed

lemma orphans_listed:
  assumes "listed_in l x (ns, col) keys" "(k, t) \<in> set (orphans l ns col keys)"
  shows "s3_valid k" "at_key x k = None" "map_option ob_etag (objs x (marker_key k)) = Some t" "namespace k = ns" "collection k = col"
proof -
  have k: "(k, t) \<in> set (ls_markers l)" "namespace k = ns" "collection k = col" "k \<notin> set keys"
    using assms(2) by (auto simp: orphans_def)
  have ok: "bt_ok (ls_markers l)" using assms(1) by (simp add: listed_in_def)
  have "bt_get (ls_markers l) k = Some t" unfolding bt_get_in_set [OF ok] by (rule k(1))
  then show "s3_valid k" "map_option ob_etag (objs x (marker_key k)) = Some t"
    using assms(1) k(2,3) by (auto simp: listed_in_def split: if_splits)
  show "at_key x k = None" using assms(1) k by (auto simp: listed_in_def)
  show "namespace k = ns" "collection k = col" by (rule k)+
qed

lemma orphans_distinct: "listed_in l x C keys \<Longrightarrow> distinct (map fst (orphans l ns col keys))"
  by (auto simp: listed_in_def orphans_def intro: bt_ok_distinct bt_ok_filter)

lemma list_collection_quiet:
  assumes inv: "s3_inv E objs s" and l: "listed_in l (st_net s) (ns, col) keys"
  shows "\<exists>s'. list_collection E S l ns col keys out s =
      (Inr (out @ filter (\<lambda>k. live_only (at_key (st_net s) k) \<noteq> None) keys), s') \<and> repairs {(ns, col)} s s'"
proof -
  let ?flag = "objs (st_net s) (marked_flag_key ns col) \<noteq> None"
  let ?ks = "if ?flag then filter (\<lambda>k. bt_get (ls_markers l) k \<noteq> None) keys else keys"
  obtain s1 where s1: "collection_marked S ns col s = (Inr ?flag, s1)" "st_net s1 = st_net s" "s3_inv E objs s1"
    using collection_marked_quiet [OF inv] by blast
  define x where "x = st_net s"
  have x: "tidy x" using invD(1) [OF inv] by (simp add: x_def)
  have keys: "at_key x k \<noteq> None \<and> namespace k = ns \<and> collection k = col \<and> s3_valid k" if "k \<in> set keys" for k
    using that l by (auto simp: listed_in_def x_def rec_at_def split: if_splits)
  obtain live where live: "read_liveness E S ?ks x = (Inr live, x)"
    "\<And>k. bt_get live k = (if k \<in> set ?ks then Some (liveness_of (at_key x k)) else None)"
  proof -
    have "\<forall>k \<in> set ?ks. s3_valid k" using keys by simp
    from read_liveness_quiet [OF x this] show thesis using that by blast
  qed
  have marks: "bt_get (ls_markers l) k = map_option ob_etag (objs x (marker_key k))" if "k \<in> set keys" for k
    using l keys [OF that] by (auto simp: listed_in_def x_def)
  have unread: "live_only (at_key x k) \<noteq> None" if k: "k \<in> set keys" "k \<notin> set ?ks" for k
  proof -
    have "?flag" "objs x (marker_key k) = None" using that marks by (auto split: if_splits)
    moreover obtain r where r: "at_key x k = Some r" using keys [OF k(1)] by auto
    moreover have "s3_holds E objs x k (Some r)" using rec_at_holds keys [OF that(1)] r by metis
    ultimately have "\<not> is_tombstone r"
      using tidyD(4) [OF x, unfolded s3_marked_ok_def, rule_format, of k r] keys [OF that(1)] by (auto simp: x_def)
    with r show ?thesis by (simp add: live_only_def)
  qed
  have "\<exists>x'. resolve_keys E S l live keys out x = (Inr (out @ filter (\<lambda>k. live_only (at_key x k) \<noteq> None) keys), x') \<and>
    marks_only (set keys) x x' \<and> (\<forall>k \<in> set keys. live_only (at_key x k) = None \<longrightarrow> objs x' (marker_key k) \<noteq> None)"
    by (rule resolve_quiet [OF x]) (use l keys marks unread live(2) in \<open>auto simp: listed_in_def\<close>)
  then obtain x1 where x1: "resolve_keys E S l live keys out x = (Inr (out @ filter (\<lambda>k. live_only (at_key x k) \<noteq> None) keys), x1)"
    "marks_only (set keys) x x1" "\<forall>k \<in> set keys. live_only (at_key x k) = None \<longrightarrow> objs x1 (marker_key k) \<noteq> None"
    by (elim exE conjE) (rule that)
  let ?os = "orphans l ns col keys"
  have os: "\<forall>(k, t) \<in> set ?os. s3_valid k \<and> at_key x1 k = None \<and> map_option ob_etag (objs x1 (marker_key k)) = Some t"
  proof (clarify)
    fix k t
    assume kt: "(k, t) \<in> set ?os"
    then have "k \<notin> set keys" by (auto simp: orphans_def)
    from marks_only_other [OF x1(2) this] orphans_listed [OF l kt] x1(2)
    show "s3_valid k \<and> at_key x1 k = None \<and> map_option ob_etag (objs x1 (marker_key k)) = Some t"
      by (simp add: marks_only_def x_def)
  qed
  have "tidy x1" using x1(2) by (simp add: marks_only_def)
  from sweep_quiet [OF this orphans_distinct [OF l] os] obtain x2 where
    x2: "sweep_orphans S ?os x1 = (Inr (), x2)" "marks_only (fst ` set ?os) x1 x2" by blast
  have both: "marks_only (set keys \<union> fst ` set ?os) x x2" by (rule marks_only_trans [OF x1(2) x2(2)])
  have "repairs {(ns, col)} s1 (s1\<lparr>st_net := x2\<rparr>)"
  proof (rule marks_repairs [OF s1(3)])
    show "marks_only (set keys \<union> fst ` set ?os) (st_net s1) x2" using both by (simp add: s1(2) x_def)
    show "\<forall>k \<in> set keys \<union> fst ` set ?os. (namespace k, collection k) \<in> {(ns, col)}"
      using keys orphans_listed(4,5) [OF l] by auto
  qed
  then have r2: "repairs {(ns, col)} s (s1\<lparr>st_net := x2\<rparr>)" using s1(2) by (simp add: repairs_def)
  let ?res = "out @ filter (\<lambda>k. live_only (at_key (st_net s) k) \<noteq> None) keys"
  have run: "list_collection E S l ns col keys out s =
      bindE (if ?flag then retE () else mark_collection S ns col) (\<lambda>_. retE ?res) (s1\<lparr>st_net := x2\<rparr>)"
    using s1 live(1) x1(1) x2(1) unfolding x_def by (simp add: list_collection_def bindE_def on_net_def)
  have "\<exists>s3. (if ?flag then retE () else mark_collection S ns col) (s1\<lparr>st_net := x2\<rparr>) = (Inr (), s3) \<and>
      repairs {} (s1\<lparr>st_net := x2\<rparr>) s3"
  proof (cases ?flag)
    case True
    with r2 show ?thesis by (intro exI [of _ "s1\<lparr>st_net := x2\<rparr>"]) (simp add: retE_def repairs_def)
  next
    case False
    have "objs x2 (marker_key k) \<noteq> None" if "namespace k = ns" "collection k = col" "at_key x2 k = Some r" "is_tombstone r" for k r
    proof -
      have r: "at_key x k = Some r" using both that(3) by (simp add: marks_only_def)
      then have k: "k \<in> set keys" using l that(1,2) by (simp add: listed_in_def x_def)
      then have "k \<notin> fst ` set ?os" by (auto simp: orphans_def)
      from marks_only_other [OF x2(2) this] x1(3) k r that(4) show ?thesis by (simp add: live_only_def)
    qed
    with mark_collection_quiet [of "s1\<lparr>st_net := x2\<rparr>" ns col] False r2 show ?thesis by (simp add: repairs_def)
  qed
  then obtain s3 where s3: "(if ?flag then retE () else mark_collection S ns col) (s1\<lparr>st_net := x2\<rparr>) = (Inr (), s3)"
    "repairs {} (s1\<lparr>st_net := x2\<rparr>) s3" by blast
  have "list_collection E S l ns col keys out s = (Inr ?res, s3)"
    unfolding run bindE_def s3(1) by (simp add: retE_def)
  moreover have "repairs {(ns, col)} s s3" using repairs_trans [OF r2 s3(2)] by simp
  ultimately show ?thesis by blast
qed

lemma listed_in_repairs:
  assumes "listed_in l (st_net s) C keys" "repairs Cs s s'" "C \<notin> Cs"
  shows "listed_in l (st_net s') C keys"
  using assms by (auto simp: listed_in_def repairs_def)

lemma list_collections_quiet:
  assumes "s3_inv E objs s" "distinct (map fst cs)" "\<forall>(C, keys) \<in> set cs. listed_in l (st_net s) C keys"
  shows "\<exists>s'. list_collections E S l cs out s =
      (Inr (out @ filter (\<lambda>k. live_only (at_key (st_net s) k) \<noteq> None) (concat (map snd cs))), s') \<and> repairs (fst ` set cs) s s'"
  using assms
proof (induction cs arbitrary: s out)
  case Nil
  then show ?case by (simp add: retE_def repairs_refl)
next
  case (Cons e cs)
  obtain ns col keys where e: "e = ((ns, col), keys)" by (metis prod.collapse)
  let ?live = "filter (\<lambda>k. live_only (at_key (st_net s) k) \<noteq> None)"
  have l: "listed_in l (st_net s) (ns, col) keys" using Cons.prems(3) e by simp
  obtain s1 where s1: "list_collection E S l ns col keys out s = (Inr (out @ ?live keys), s1)" "repairs {(ns, col)} s s1"
    using list_collection_quiet [OF Cons.prems(1) l] by blast
  have same: "at_key (st_net s1) = at_key (st_net s)" and inv: "s3_inv E objs s1" using s1(2) by (simp_all add: repairs_def)
  have new: "(ns, col) \<notin> fst ` set cs" and dist: "distinct (map fst cs)" using Cons.prems(2) e by auto
  have "\<forall>(C, keys) \<in> set cs. listed_in l (st_net s1) C keys"
  proof clarify
    fix n cl ks
    assume m: "((n, cl), ks) \<in> set cs"
    then have "(n, cl) \<notin> {(ns, col)}" using new by (metis fst_conv image_eqI singletonD)
    with m Cons.prems(3) show "listed_in l (st_net s1) (n, cl) ks" by (intro listed_in_repairs [OF _ s1(2)]) auto
  qed
  from Cons.IH [OF inv dist this, of "out @ ?live keys"] obtain s2 where
    s2: "list_collections E S l cs (out @ ?live keys) s1 = (Inr ((out @ ?live keys) @ ?live (concat (map snd cs))), s2)"
      "repairs (fst ` set cs) s1 s2" unfolding same by (elim exE conjE) (rule that)
  have "repairs (fst ` set (e # cs)) s s2" using repairs_trans [OF s1(2) s2(2)] by (simp add: e)
  with s1(1) s2(1) show ?case by (intro exI [of _ s2]) (simp add: e bindE_def)
qed

end

text \<open>The keys of a listing, collection by collection.\<close>

abbreviation coll :: "record_key \<Rightarrow> string \<times> string" where
  "coll k \<equiv> (namespace k, collection k)"

lemma no_coll: "C \<notin> coll ` set ks \<Longrightarrow> filter (\<lambda>k. coll k = C) ks = []"
  by (auto simp: filter_empty_conv)

lemma push_keys:
  "bt_ok m \<Longrightarrow> bt_ok (fold push_key ks m) \<and> bt_get (fold push_key ks m) C =
    (if C \<in> coll ` set ks then Some ((case bt_get m C of Some xs \<Rightarrow> xs | None \<Rightarrow> []) @ filter (\<lambda>k. coll k = C) ks)
     else bt_get m C)"
proof (induction ks arbitrary: m)
  case (Cons k ks)
  have "bt_ok (push_key k m)" using Cons.prems by (simp add: push_key_def Let_def)
  from Cons.IH [OF this] Cons.prems no_coll [of C ks] show ?case
    by (cases "C = coll k"; cases "C \<in> coll ` set ks") (simp_all add: push_key_def Let_def eq_commute)
qed simp

lemma visit_keys:
  "bt_ok m \<Longrightarrow> bt_ok (fold visit_key ks m) \<and> bt_get (fold visit_key ks m) C =
    (case bt_get m C of Some xs \<Rightarrow> Some xs | None \<Rightarrow> if C \<in> coll ` set ks then Some [] else None)"
proof (induction ks arbitrary: m)
  case (Cons k ks)
  have "bt_ok (visit_key k m)" using Cons.prems by (simp add: visit_key_def Let_def split: option.splits)
  from Cons.IH [OF this] Cons.prems show ?case by (auto simp: visit_key_def Let_def split: option.splits)
qed (simp split: option.splits)

lemma by_collection_ok: "bt_ok (by_collection l)"
  using push_keys [of "[]" "ls_records l"] visit_keys by (simp add: by_collection_def)

lemma by_collection_get:
  "bt_get (by_collection l) C =
    (if C \<in> coll ` set (ls_records l) \<union> coll ` fst ` set (ls_markers l) then Some (filter (\<lambda>k. coll k = C) (ls_records l)) else None)"
  using push_keys [of "[]" "ls_records l" C] visit_keys [of "fold push_key (ls_records l) []" "map fst (ls_markers l)" C]
  by (cases "C \<in> coll ` set (ls_records l)") (simp_all add: by_collection_def no_coll)

lemma by_collection_keys:
  "set (concat (map snd (by_collection l))) = set (ls_records l)"
  "distinct (ls_records l) \<Longrightarrow> distinct (concat (map snd (by_collection l)))"
proof -
  have get: "(C, ks) \<in> set (by_collection l) \<longleftrightarrow> bt_get (by_collection l) C = Some ks" for C ks
    by (simp add: bt_get_in_set [OF by_collection_ok])
  show "set (concat (map snd (by_collection l))) = set (ls_records l)"
  proof (intro set_eqI iffI)
    fix k
    assume "k \<in> set (concat (map snd (by_collection l)))"
    then obtain C ks where "(C, ks) \<in> set (by_collection l)" "k \<in> set ks" by auto
    then show "k \<in> set (ls_records l)" unfolding get by_collection_get by (auto split: if_splits)
  next
    fix k
    assume k: "k \<in> set (ls_records l)"
    then have "(coll k, filter (\<lambda>k'. coll k' = coll k) (ls_records l)) \<in> set (by_collection l)"
      unfolding get by_collection_get by auto
    with k show "k \<in> set (concat (map snd (by_collection l)))" by force
  qed
  assume d: "distinct (ls_records l)"
  have ks: "ks = filter (\<lambda>k. coll k = C) (ls_records l)" if "(C, ks) \<in> set (by_collection l)" for C ks
    using that unfolding get by_collection_get by (simp split: if_splits)
  have "distinct (concat (map snd m))"
    if "set m \<subseteq> set (by_collection l)" "distinct (map fst m)" for m
    using that
  proof (induction m)
    case (Cons e m)
    obtain C cs where e: "e = (C, cs)" by (cases e)
    have inC: "coll k = C" if "k \<in> set cs" for k using that ks [of C cs] Cons.prems(1) e by auto
    have inm: "coll k \<in> fst ` set m" if k: "k \<in> set (concat (map snd m))" for k
    proof -
      obtain D ds where "(D, ds) \<in> set m" "k \<in> set ds" using k by auto
      moreover from this have "coll k = D" using ks [of D ds] Cons.prems(1) by auto
      ultimately show ?thesis by force
    qed
    have "C \<notin> fst ` set m" using Cons.prems(2) e by simp
    then have "k \<notin> set (concat (map snd m))" if "k \<in> set cs" for k using inC [OF that] inm [of k] by metis
    then have "set cs \<inter> set (concat (map snd m)) = {}" by blast
    moreover have "distinct cs" using ks [of C cs] Cons.prems(1) e d by simp
    ultimately show ?case using Cons e by simp
  qed simp
  then show "distinct (concat (map snd (by_collection l)))" using bt_ok_distinct [OF by_collection_ok] by blast
qed

context s3_substrate
begin

lemma s3_list_quiet:
  assumes inv: "s3_inv E objs s"
  shows "\<exists>ks s'. s3_list E S p s = (Inr ks, s') \<and> s3_inv E objs s' \<and> s3_abs E objs s' = s3_abs E objs s \<and>
    s3_blobs E objs s' = s3_blobs E objs s \<and> distinct ks \<and>
    set ks = {k. live_only (s3_abs E objs s k) \<noteq> None \<and> kp_matches p k}"
proof -
  let ?x = "st_net s"
  obtain l where l: "list_objects S p ?x = (Inr l, ?x)" "distinct (ls_records l)"
    "set (ls_records l) = {k. at_key ?x k \<noteq> None \<and> kp_matches p k}" "bt_ok (ls_markers l)"
    "\<And>k. bt_get (ls_markers l) k = (if s3_valid k \<and> kp_matches p k then map_option ob_etag (objs ?x (marker_key k)) else None)"
    using listing_quiet [OF invD(1) [OF inv], of p] by (elim exE conjE) (rule that, assumption+, rule allE)
  have match: "kp_matches p k \<longleftrightarrow> kp_matches p k'" if "coll k = coll k'" for k k'
    using that by (simp add: kp_matches_def)
  have "listed_in l ?x C keys" if C: "(C, keys) \<in> set (by_collection l)" for C keys
  proof -
    have get: "bt_get (by_collection l) C = Some keys" using C by (simp add: bt_get_in_set [OF by_collection_ok])
    then have keys: "keys = filter (\<lambda>k. coll k = C) (ls_records l)"
      and "C \<in> coll ` set (ls_records l) \<union> coll ` fst ` set (ls_markers l)" by (simp_all add: by_collection_get split: if_splits)
    then obtain k0 where k0: "coll k0 = C" "k0 \<in> set (ls_records l) \<or> k0 \<in> fst ` set (ls_markers l)" by auto
    have "kp_matches p k0"
    proof (cases "k0 \<in> set (ls_records l)")
      case False
      then obtain t where "(k0, t) \<in> set (ls_markers l)" using k0(2) by auto
      then have "bt_get (ls_markers l) k0 = Some t" unfolding bt_get_in_set [OF l(4)] .
      then show ?thesis using l(5) [of k0] by (simp split: if_splits)
    qed (use l(3) in simp)
    then have "kp_matches p k" if "coll k = C" for k using match [of k k0] that k0(1) by simp
    then show ?thesis using l(2-5) by (auto simp: listed_in_def keys)
  qed
  then have "\<forall>(C, keys) \<in> set (by_collection l). listed_in l ?x C keys" by blast
  from list_collections_quiet [OF inv bt_ok_distinct [OF by_collection_ok] this, of "[]"] obtain s' where
    s': "list_collections E S l (by_collection l) [] s =
        (Inr (filter (\<lambda>k. live_only (at_key ?x k) \<noteq> None) (concat (map snd (by_collection l)))), s')"
      "repairs (fst ` set (by_collection l)) s s'" by (elim exE conjE) (rule that, simp_all)
  let ?ks = "sort (filter (\<lambda>k. live_only (at_key ?x k) \<noteq> None) (concat (map snd (by_collection l))))"
  have "s3_list E S p s = (Inr ?ks, s')"
    using l(1) s'(1) by (simp add: s3_list_def bindE_def on_net_def retE_def)
  moreover have "distinct ?ks" using by_collection_keys(2) [OF l(2)] by simp
  moreover have "set ?ks = {k. live_only (at_key ?x k) \<noteq> None \<and> kp_matches p k}"
  proof -
    have "set ?ks = {k \<in> set (ls_records l). live_only (at_key ?x k) \<noteq> None}"
      using by_collection_keys(1) [of l] by auto
    then show ?thesis using l(3) by (auto simp: live_only_def split: option.splits)
  qed
  ultimately show ?thesis using s'(2) by (auto simp: repairs_def s3_abs_def s3_blobs_def)
qed

end

end
