(* ===== verification/Gz_S3Store.thy ===== *)
theory Gz_S3Store
  imports Gz_S3Listing
begin

text \<open>
  The object-store substrate meets the contract of a store: on a store at rest, the operations and the
  blob operations are those of \<open>full_store\<close>.
\<close>

context s3_substrate
begin

subsection \<open>The record operations\<close>

lemma on_net_write:
  assumes "s3_inv E objs s" "s3_valid k"
    and "\<forall>w a. plan (time (st_net s)) (s3_abs E objs s k) = Inr (PlannedPut w a) \<longrightarrow> rec_key w = k"
    and "\<forall>a. plan (time (st_net s)) None \<noteq> Inr (PlannedRemove a)"
    and "on_net (write_planned E S k plan) s = (res, s')"
  shows "s3_inv E objs s' \<and> res = planned_answer (plan (time (st_net s)) (s3_abs E objs s k)) \<and>
    s3_abs E objs s' = planned_effect k (plan (time (st_net s)) (s3_abs E objs s k)) (s3_abs E objs s) \<and>
    s3_blobs E objs s' = s3_blobs E objs s"
proof -
  obtain x' where x': "write_planned E S k plan (st_net s) = (planned_answer (plan (time (st_net s)) (s3_abs E objs s k)), x')"
    "tidy x'" "blob_at E objs x' = blob_at E objs (st_net s)"
    "\<forall>ns col. objs x' (marked_flag_key ns col) = objs (st_net s) (marked_flag_key ns col)"
    "at_key x' = planned_effect k (plan (time (st_net s)) (s3_abs E objs s k)) (at_key (st_net s))"
    using write_quiet [where plan = plan, OF invD(1) [OF assms(1)] assms(2) assms(3) [unfolded s3_abs_def] assms(4)]
    by (elim exE conjE) (rule that, simp_all add: s3_abs_def)
  have s': "s' = s\<lparr>st_net := x'\<rparr>" "res = planned_answer (plan (time (st_net s)) (s3_abs E objs s k))"
    using assms(5) x'(1) by (simp_all add: on_net_def)
  show ?thesis using assms(1) x'(2-5) by (simp add: s' s3_inv_def s3_abs_def s3_blobs_def)
qed

lemma put_quiet:
  assumes "s3_inv E objs s" "s3_valid (rec_key r)" "on_net (s3_put E S r ex) s = (res, s')"
  defines "pl \<equiv> plan_put (se_H E) (s3_abs E objs s (rec_key r)) r ex (time (st_net s)) (s3_cap S)"
  shows "s3_inv E objs s' \<and> res = put_outcome (rec_key r) pl \<and>
    s3_abs E objs s' = put_effect (rec_key r) pl (s3_abs E objs s) \<and> s3_blobs E objs s' = s3_blobs E objs s"
  using on_net_write [where plan = "put_planner E (s3_cap S) r ex", OF assms(1,2) _ _ assms(3) [unfolded s3_put_def Let_def]]
  by (force simp: put_step_contract put_step_Inr pl_def dest: plan_put_key)

lemma put_raw_quiet:
  assumes "s3_inv E objs s" "s3_valid (rec_key r)" "on_net (s3_put_raw E S r ex) s = (res, s')"
  defines "pl \<equiv> plan_put_raw (s3_abs E objs s (rec_key r)) r ex (time (st_net s)) (s3_cap S)"
  shows "s3_inv E objs s' \<and> res = put_outcome (rec_key r) pl \<and>
    s3_abs E objs s' = put_effect (rec_key r) pl (s3_abs E objs s) \<and> s3_blobs E objs s' = s3_blobs E objs s"
  using on_net_write [where plan = "put_raw_planner (s3_cap S) r ex", OF assms(1,2) _ _ assms(3) [unfolded s3_put_raw_def Let_def]]
  by (force simp: put_step_contract put_step_Inr pl_def dest: plan_put_raw_key)

lemma abs_key: "s3_inv E objs s \<Longrightarrow> s3_abs E objs s k = Some r \<Longrightarrow> rec_key r = k \<and> s3_valid k"
  using tidy_record(3) [OF invD(1)] by (auto simp: s3_abs_def rec_at_def split: if_splits)

lemma delete_quiet:
  assumes "s3_inv E objs s" "s3_valid k" "on_net (s3_delete_as E S k ex au) s = (res, s')"
  defines "pl \<equiv> plan_delete (se_H E) (s3_abs E objs s k) ex (time (st_net s)) (s3_cap S) au"
  shows "s3_inv E objs s' \<and> res = delete_outcome pl \<and>
    s3_abs E objs s' = delete_effect k pl (s3_abs E objs s) \<and> s3_blobs E objs s' = s3_blobs E objs s"
proof -
  have "rec_key w = k" if w: "pl = DelWrite w" for w
  proof (cases "s3_abs E objs s k")
    case None
    with w show ?thesis by (simp add: plan_delete_def pl_def)
  next
    case (Some v)
    with w abs_key [OF assms(1) Some] show ?thesis by (auto simp: pl_def dest: plan_delete_key)
  qed
  with on_net_write [where plan = "delete_planner E (s3_cap S) ex au", OF assms(1,2) _ _ assms(3) [unfolded s3_delete_as_def]] show ?thesis
    by (simp add: delete_step_contract [folded pl_def] delete_step_put pl_def)
qed

lemma purge_quiet:
  assumes "s3_inv E objs s" "s3_valid k" "on_net (s3_purge E S k ex) s = (res, s')"
  defines "pl \<equiv> plan_purge (s3_abs E objs s k) ex"
  shows "s3_inv E objs s' \<and> res = purge_outcome pl \<and>
    s3_abs E objs s' = purge_effect k pl (s3_abs E objs s) \<and> s3_blobs E objs s' = s3_blobs E objs s"
proof -
  have "purge_step (plan_purge None ex) \<noteq> PlannedRemove a" for a by (simp add: purge_step_remove plan_purge_def)
  with on_net_write [where plan = "purge_planner ex", OF assms(1,2) _ _ assms(3) [unfolded s3_purge_def]] show ?thesis
    by (simp add: purge_step_contract pl_def)
qed

subsection \<open>Blobs\<close>

abbreviation modified_ms :: "s3_object \<Rightarrow> int" where
  "modified_ms ob \<equiv> (case se_system_time E (ob_modified ob) of Inr t \<Rightarrow> unix_ms t | Inl _ \<Rightarrow> 0)"

lemma blob_update:
  assumes "s3_inv E objs s" "objs x' = (objs (st_net s))(blob_key h := new)" "s3_hash_valid h"
    "\<And>ob. new = Some ob \<Longrightarrow> content_hash_of (se_H E) (ob_content ob) = h"
  shows "s3_inv E objs (s\<lparr>st_net := x'\<rparr>)" "s3_abs E objs (s\<lparr>st_net := x'\<rparr>) = s3_abs E objs s"
    "s3_blobs E objs (s\<lparr>st_net := x'\<rparr>) = (s3_blobs E objs s)(h := map_option (\<lambda>ob. (ob_content ob, modified_ms ob)) new)"
  using tidy_blob [OF invD(1) [OF assms(1)] assms(2-4)] assms(1,3)
  by (simp_all add: s3_inv_def s3_abs_def s3_blobs_def assms(2))

lemma get_blob_quiet:
  assumes "s3_inv E objs s" "s3_hash_valid h"
  shows "on_net (s3_get_blob S h) s = (Inr (map_option fst (s3_blobs E objs s h)), s)"
proof (cases "objs (st_net s) (blob_key h)")
  case None
  with get_missing [OF None] assms(2) show ?thesis
    by (auto simp: on_net_def s3_get_blob_def client s3_blobs_def blob_at_def)
next
  case (Some ob)
  with get_there [OF Some] assms(2) show ?thesis by (simp add: on_net_def s3_get_blob_def client s3_blobs_def blob_at_def)
qed

lemma has_blob_quiet:
  assumes "s3_inv E objs s" "s3_hash_valid h"
  shows "on_net (s3_has_blob S h) s = (Inr (s3_blobs E objs s h \<noteq> None), s)"
proof (cases "objs (st_net s) (blob_key h)")
  case None
  with head_missing [OF None] assms(2) show ?thesis
    by (auto simp: on_net_def s3_has_blob_def client s3_blobs_def blob_at_def head_error_is_absent_def)
next
  case (Some ob)
  with head_there [of "st_net s" "blob_key h"] assms(2) show ?thesis
    by (simp add: on_net_def s3_has_blob_def client s3_blobs_def blob_at_def)
qed

lemma put_blob_quiet:
  assumes "s3_inv E objs s"
  shows "\<exists>s' c' ms. on_net (s3_put_blob E S content) s = (Inr (content_hash_of (se_H E) content), s') \<and>
    s3_inv E objs s' \<and> s3_abs E objs s' = s3_abs E objs s \<and>
    s3_blobs E objs s' = (s3_blobs E objs s)(content_hash_of (se_H E) content \<mapsto> (c', ms)) \<and>
    (c' = content \<or> map_option fst (s3_blobs E objs s (content_hash_of (se_H E) content)) = Some c')"
proof -
  let ?h = "content_hash_of (se_H E) content" and ?x = "st_net s"
  show ?thesis
  proof (cases "objs ?x (blob_key ?h)")
    case None
    then have "permits (Some IfAbsent) (objs ?x (blob_key ?h))" by simp
    from put_ok [OF this, of content] obtain x' ob where x': "cl_put_object c (blob_key ?h) (Some IfAbsent) content ?x = (Inr (), x')"
      "ob_content ob = content" "objs x' = (objs ?x)(blob_key ?h \<mapsto> ob)" by blast
    have "content_hash_of (se_H E) (ob_content o') = ?h" if "Some ob = Some o'" for o' using that x'(2) by simp
    note U = blob_update [OF assms x'(3) digest_valid this]
    show ?thesis
      using x'(1,2) U by (intro exI [of _ "s\<lparr>st_net := x'\<rparr>"] exI [of _ content] exI [of _ "modified_ms ob"])
        (simp add: on_net_def s3_put_blob_def client Let_def)
  next
    case (Some ob)
    then have "\<not> permits (Some IfAbsent) (objs ?x (blob_key ?h))" by simp
    from put_refused [OF this, of content] obtain e where
      "cl_put_object c (blob_key ?h) (Some IfAbsent) content ?x = (Inl e, ?x)" "er_code e = Some ''PreconditionFailed''" by blast
    moreover have "s3_blobs E objs s ?h = Some (ob_content ob, modified_ms ob)"
      using Some digest_valid by (simp add: s3_blobs_def blob_at_def)
    ultimately show ?thesis
      using assms by (intro exI [of _ s] exI [of _ "ob_content ob"] exI [of _ "modified_ms ob"])
        (simp add: on_net_def s3_put_blob_def client Let_def is_precondition_failed_def fun_upd_idem)
  qed
qed

lemma delete_blob_quiet:
  assumes "s3_inv E objs s" "s3_hash_valid h"
  shows "\<exists>s'. on_net (s3_delete_blob S h) s = (Inr (), s') \<and> s3_inv E objs s' \<and> s3_abs E objs s' = s3_abs E objs s \<and>
    s3_blobs E objs s' = (s3_blobs E objs s)(h := None)"
proof -
  obtain x' where x': "cl_delete_object c (blob_key h) None (st_net s) = (Inr (), x')" "objs x' = (objs (st_net s))(blob_key h := None)"
    using delete_ok [of None "st_net s" "blob_key h"] by auto
  with blob_update [OF assms(1) x'(2) assms(2)] show ?thesis
    by (intro exI [of _ "s\<lparr>st_net := x'\<rparr>"]) (simp add: on_net_def s3_delete_blob_def map_service_def client)
qed

definition blob_of_entry :: "s3_listed \<Rightarrow> blob_entry option" where
  "blob_of_entry e = Option.bind (li_key e) (\<lambda>key. Option.bind (blob_hash_from_key key) (\<lambda>h.
     Option.bind (li_modified e) (\<lambda>d. case se_system_time E d of Inr t \<Rightarrow> Some (from_system_time h t) | Inl _ \<Rightarrow> None)))"

lemma list_blob_entries_eq:
  assumes "set es \<subseteq> {listed key ob | key ob. objs x key = Some ob}"
  shows "list_blob_entries E es out = Inr (out @ List.map_filter blob_of_entry es)"
  using assms
proof (induction es arbitrary: out)
  case (Cons e es)
  then obtain key ob where e: "e = listed key ob" by auto
  obtain t where "se_system_time E (ob_modified ob) = Inr t" using time_valid by blast
  with Cons show ?case
    by (cases "blob_hash_from_key key")
      (simp_all add: e listed_def blob_of_entry_def List.map_filter_simps blob_entry_from_listing_def)
qed (simp add: List.map_filter_simps)

lemma list_blobs_quiet:
  assumes "s3_inv E objs s"
  shows "\<exists>es. on_net (s3_list_blobs E S) s = (Inr es, s) \<and> listing_of (s3_blobs E objs s) es"
proof -
  let ?x = "st_net s" and ?g = "\<lambda>es out. out @ List.map_filter blob_of_entry es"
  obtain pss where run: "s3_list_blobs E S ?x = (Inr (fold ?g pss []), ?x)" and all: "lists (objs ?x) (Some BLOB_PREFIX) (concat pss)"
    using list_pages_chain [of ?x "list_blob_entries E" ?g "Some BLOB_PREFIX" "[]"] list_blob_entries_eq
    by (auto simp: s3_list_blobs_def client)
  have "set (fold ?g pss out) = set out \<union> {b. \<exists>e \<in> set (concat pss). blob_of_entry e = Some b}" for out
    by (induction pss arbitrary: out) (auto simp: set_map_filter)
  then have "b \<in> set (fold ?g pss []) \<longleftrightarrow> (\<exists>e \<in> set (concat pss). blob_of_entry e = Some b)" for b by simp
  moreover have "set (concat pss) = {listed key ob | key ob. objs ?x key = Some ob \<and> prefix BLOB_PREFIX key}"
    using all by (simp add: lists_def)
  ultimately have mem: "b \<in> set (fold ?g pss []) \<longleftrightarrow>
      (\<exists>key ob. objs ?x key = Some ob \<and> prefix BLOB_PREFIX key \<and> blob_of_entry (listed key ob) = Some b)" for b
    by (simp only: Bex_def mem_Collect_eq) blast
  have entry: "blob_of_entry (listed key ob) = Some b \<longleftrightarrow>
      (\<exists>h. blob_hash_from_key key = Some h \<and> b = \<lparr>be_hash = h, be_modified_unix_ms = modified_ms ob\<rparr>)" for key ob b
    using time_valid [of "ob_modified ob"] by (cases "blob_hash_from_key key") (auto simp: blob_of_entry_def listed_def from_system_time_def)
  have "listing_of (s3_blobs E objs s) (fold ?g pss [])"
    unfolding listing_of_def
  proof (intro conjI ballI allI impI)
    fix b
    assume "b \<in> set (fold ?g pss [])"
    then obtain key ob h where "objs ?x key = Some ob" "blob_hash_from_key key = Some h"
      "b = \<lparr>be_hash = h, be_modified_unix_ms = modified_ms ob\<rparr>" unfolding mem entry by blast
    then show "\<exists>c ms. s3_blobs E objs s (be_hash b) = Some (c, ms) \<and> be_modified_unix_ms b \<le> ms"
      using blob_hash_from_key_Some [of key h] by (auto simp: s3_blobs_def blob_at_def)
  next
    fix h content ms
    assume "s3_blobs E objs s h = Some (content, ms)"
    then obtain ob where h: "s3_hash_valid h" "objs ?x (blob_key h) = Some ob" "ms = modified_ms ob"
      by (auto simp: s3_blobs_def blob_at_def split: if_splits)
    moreover have "prefix BLOB_PREFIX (blob_key h)" by (simp add: blob_key_def)
    ultimately show "\<lparr>be_hash = h, be_modified_unix_ms = ms\<rparr> \<in> set (fold ?g pss [])"
      unfolding mem entry by (metis parse_blob_key(3))
  qed
  with run show ?thesis by (simp add: on_net_def)
qed

text \<open>The laws of a store, over the operations of this one.\<close>

lemma list_raw_quiet:
  assumes "s3_inv E objs s"
  shows "\<exists>ks. on_net (s3_list_keys S p) s = (Inr ks, s) \<and> distinct ks \<and>
    set ks = {k. s3_abs E objs s k \<noteq> None \<and> kp_matches p k}"
proof -
  obtain l where "list_objects S p (st_net s) = (Inr l, st_net s)" "distinct (ls_records l)"
    "set (ls_records l) = {k. at_key (st_net s) k \<noteq> None \<and> kp_matches p k}"
    using listing_quiet [OF invD(1) [OF assms], of p] by (elim exE conjE) (rule that)
  then show ?thesis by (simp add: on_net_def s3_list_keys_def bindE_def retE_def s3_abs_def)
qed

end

sublocale s3_substrate \<subseteq> st: full_store "se_H E" "s3_cap S" s3_valid "s3_vt E S" "s3_abs E objs" "s3_inv E objs"
  "\<lambda>s. now_ms (cl_clock c (st_net s))" "s3_bv E S" "s3_blobs E objs" s3_hash_valid
proof (unfold_locales, goal_cases)
  case (1 s k)
  then show ?case by (simp add: s3_vt_def on_net_def s3_read_quiet invD(1) s3_abs_def)
next
  case (2 s k)
  then show ?case by (simp add: s3_vt_def on_net_def s3_get_def bindE_def retE_def s3_read_quiet invD(1) s3_abs_def)
next
  case (3 s p)
  then show ?case using list_raw_quiet by (simp add: s3_vt_def)
next
  case (4 s p)
  from s3_list_quiet [OF 4, of p] show ?case by (auto simp: s3_vt_def)
next
  case (5 s r ex res s')
  then show ?case using put_quiet [of s r ex res s'] by (simp add: s3_vt_def)
next
  case (6 s r ex res s')
  then show ?case using put_raw_quiet [of s r ex res s'] by (simp add: s3_vt_def)
next
  case (7 s k ex au dres s')
  then show ?case using delete_quiet [of s k ex au dres s'] by (simp add: s3_vt_def)
next
  case (8 s k rv dres s')
  then show ?case using purge_quiet [of s k rv dres s'] by (simp add: s3_vt_def)
next
  case (9 s k r)
  then show ?case using abs_key by blast
next
  case (10 s k r)
  then show ?case using abs_key by blast
next
  case (11 s)
  from list_raw_quiet [OF 11, of kp_default] obtain ks where "set ks = {k. s3_abs E objs s k \<noteq> None}" by auto
  then show ?case using List.finite_set [of ks] by (simp add: dom_def)
next
  case (12 s h)
  then show ?case by (simp add: s3_bv_def get_blob_quiet)
next
  case (13 s h)
  then show ?case by (simp add: s3_bv_def has_blob_quiet)
next
  case (14 s)
  then show ?case using list_blobs_quiet by (simp add: s3_bv_def)
next
  case (15 s content)
  then show ?case using put_blob_quiet [of s content] by (auto simp: s3_bv_def)
next
  case (16 s h)
  then show ?case using delete_blob_quiet [of s h] by (auto simp: s3_bv_def)
next
  case (17 s h content ms)
  then show ?case
    using tidyD(3) [OF invD(1) [OF 17(1)], of "blob_key h" _ h] by (auto simp: s3_blobs_def blob_at_def split: if_splits)
next
  case (18 content)
  then show ?case by (rule digest_valid)
next
  case (19 s content res s')
  then show ?case using put_blob_quiet [of s content] by (auto simp: s3_bv_def)
next
  case (20 s h bres s')
  then show ?case using delete_blob_quiet [of s h] by (auto simp: s3_bv_def)
next
  case (21 s r ex pres s')
  then show ?case using put_raw_quiet [of s r ex pres s'] by (simp add: s3_vt_def)
next
  case (22 s r ex pres s')
  then show ?case using put_quiet [of s r ex pres s'] by (simp add: s3_vt_def)
next
  case (23 s k ex au dres s')
  then show ?case using delete_quiet [of s k ex au dres s'] by (simp add: s3_vt_def)
next
  case (24 s p lres s')
  then show ?case using s3_list_quiet [of s p] by (auto simp: s3_vt_def)
next
  case (25 s k rv dres s')
  then show ?case using purge_quiet [of s k rv dres s'] by (simp add: s3_vt_def)
qed

context s3_substrate
begin

lemmas full = st.full_store_axioms
lemmas planned = st.planned_store_axioms

end

end
