(* ===== verification/Gz_S3Demo.thy ===== *)
theory Gz_S3Demo
  imports Gz_S3Store Gz_Demo
begin

text \<open>
  A concrete object store, to run the substrate on and to discharge the laws it relies on. It holds named
  contents, and the content is its own entity tag. Before each request another writer takes a turn:
  in \<open>busy_client\<close> the next entry of a script, a write or a removal; in \<open>quiet_client\<close> nothing.
\<close>

record demo_net =
  dn_objs :: "(string \<times> bytes) list"
  dn_script :: "(string \<times> bytes option) list"

definition demo_object :: "bytes \<Rightarrow> s3_object" where
  "demo_object d = \<lparr>ob_content = d, ob_etag = d, ob_modified = 0\<rparr>"

definition net_objs :: "demo_net \<Rightarrow> bucket" where
  "net_objs x key = map_option demo_object (map_of (dn_objs x) key)"

definition net_set :: "string \<Rightarrow> bytes option \<Rightarrow> demo_net \<Rightarrow> demo_net" where
  "net_set key v x =
     x\<lparr>dn_objs := (case v of None \<Rightarrow> [] | Some d \<Rightarrow> [(key, d)]) @ bt_remove key (dn_objs x)\<rparr>"

definition script_turn :: "demo_net \<Rightarrow> demo_net" where
  "script_turn x =
     (case dn_script x of [] \<Rightarrow> x | (key, v) # es \<Rightarrow> (net_set key v x)\<lparr>dn_script := es\<rparr>)"

definition demo_error :: "string \<Rightarrow> s3_error" where
  "demo_error code = \<lparr>er_no_such_key = True, er_not_found = True, er_code = Some code, er_message = None,
     er_status = None, er_text = code\<rparr>"

definition net_page :: "string option \<Rightarrow> demo_net \<Rightarrow> s3_page" where
  "net_page pfx x = \<lparr>lp_contents = map (\<lambda>key. listed key (the (net_objs x key)))
       (filter (prefix (case pfx of Some p \<Rightarrow> p | None \<Rightarrow> [])) (remdups (map fst (dn_objs x)))),
     lp_truncated = None, lp_token = None\<rparr>"

definition net_put :: "string \<Rightarrow> s3_precondition option \<Rightarrow> bytes \<Rightarrow> (demo_net, s3_error, unit) io" where
  "net_put key pre d x =
     (if permits pre (net_objs x key) then (Inr (), net_set key (Some d) x)
      else (Inl (demo_error ''PreconditionFailed''), x))"

definition net_delete :: "string \<Rightarrow> string option \<Rightarrow> (demo_net, s3_error, unit) io" where
  "net_delete key tag x =
     (if permits (map_option IfMatch tag) (net_objs x key) then (Inr (), net_set key None x)
      else (Inl (demo_error ''PreconditionFailed''), x))"

definition bucket_client :: "(demo_net \<Rightarrow> demo_net) \<Rightarrow> demo_net s3_client" where
  "bucket_client turn =
     \<lparr>cl_get_object = (\<lambda>key x. let y = turn x in
        (case net_objs y key of
           None \<Rightarrow> Inl (demo_error ''NoSuchKey'')
         | Some ob \<Rightarrow> Inr \<lparr>go_etag = Some (ob_etag ob), go_body = Inr (ob_content ob)\<rparr>, y)),
      cl_put_object = (\<lambda>key pre d x. net_put key pre d (turn x)),
      cl_delete_object = (\<lambda>key tag x. net_delete key tag (turn x)),
      cl_head_object = (\<lambda>key x. let y = turn x in
        (if net_objs y key = None then Inl (demo_error ''NotFound'') else Inr (), y)),
      cl_list_objects_v2 = (\<lambda>pfx token x. let y = turn x in (Inr (net_page pfx y), y)),
      cl_sleep = (\<lambda>_ x. x),
      cl_clock = (\<lambda>_. 1700000000000000000)\<rparr>"

definition turns :: "(demo_net \<Rightarrow> demo_net) \<Rightarrow> demo_net \<Rightarrow> demo_net \<Rightarrow> bool" where
  "turns turn x y \<longleftrightarrow> (\<exists>n. y = (turn ^^ n) x)"

abbreviation quiet_client :: "demo_net s3_client" where
  "quiet_client \<equiv> bucket_client id"

abbreviation busy_client :: "demo_net s3_client" where
  "busy_client \<equiv> bucket_client script_turn"

definition demo_s3_env :: s3_env where
  "demo_s3_env = \<lparr>se_H = demo_digest, se_codec = demo_codec, se_revision_to_vec = (\<lambda>rv. Inr (fst c_revision rv)),
     se_system_time = Inr\<rparr>"

definition demo_s3 :: "demo_net s3_client \<Rightarrow> demo_net s3_store" where
  "demo_s3 c = s3_new c"

lemma net_objs_set: "net_objs (net_set key v x) = (net_objs x)(key := map_option demo_object v)"
  by (cases v) (auto simp: net_objs_def net_set_def fun_eq_iff)

lemma turns_refl: "turns t x x"
  unfolding turns_def by (rule exI [of _ 0]) simp

lemma turns_one: "turns t x (t x)"
  unfolding turns_def by (rule exI [of _ 1]) simp

lemma turns_trans: "turns t x y \<Longrightarrow> turns t y z \<Longrightarrow> turns t x z"
  unfolding turns_def by (metis comp_apply funpow_add)

lemma net_put_ok: "net_put key pre d y = (pr, x') \<Longrightarrow> written key pre d (net_objs y) (net_objs x') \<or> (\<exists>e. pr = Inl e) \<and> x' = y"
  by (force simp: net_put_def written_def net_objs_set demo_object_def split: if_splits)

lemma net_delete_ok: "net_delete key tag y = (dr, x') \<Longrightarrow> removed key tag (net_objs y) (net_objs x') \<or> (\<exists>e. dr = Inl e) \<and> x' = y"
  by (auto simp: net_delete_def removed_def net_objs_set split: if_splits)

text \<open>Conditional requests, whatever the other writer does.\<close>

interpretation demo_bucket: s3_writer "bucket_client turn" net_objs "turns turn" id demo_s3_env "demo_s3 (bucket_client turn)"
  for turn
proof (unfold_locales, goal_cases)
  case (1 x)
  show ?case by (rule turns_refl)
next
  case (2 x y z)
  then show ?case by (rule turns_trans)
next
  case (3 x key ob)
  then show ?case by (auto simp: net_objs_def demo_object_def)
next
  case (4 key x gr x')
  then have x': "x' = turn x" and gr: "gr = (case net_objs (turn x) key of None \<Rightarrow> Inl (demo_error ''NoSuchKey'')
      | Some ob \<Rightarrow> Inr \<lparr>go_etag = Some (ob_etag ob), go_body = Inr (ob_content ob)\<rparr>)"
    by (auto simp: bucket_client_def Let_def)
  show ?case unfolding x' gr
    by (intro exI [of _ "turn x"] conjI turns_one turns_refl) (simp split: option.splits)
next
  case (5 key pre body x pr x')
  then have "net_put key pre body (turn x) = (pr, x')" by (simp add: bucket_client_def)
  from net_put_ok [OF this] turns_one turns_refl show ?case by blast
next
  case (6 key tag x dr x')
  then have "net_delete key tag (turn x) = (dr, x')" by (simp add: bucket_client_def)
  from net_delete_ok [OF this] turns_one turns_refl show ?case by blast
next
  case (7 x n)
  show ?case by (simp add: bucket_client_def turns_refl)
next
  case 8
  show ?case by (simp add: demo_s3_def s3_new_def)
next
  case (9 r bs)
  then show ?case using demo_codec_round_trip [of r] by (auto simp: demo_s3_env_def)
qed

lemma listed_inj: "listed key ob = listed key' ob' \<Longrightarrow> key = key'"
  by (simp add: listed_def)

lemma net_page_lists: "lists (net_objs x) pfx (lp_contents (net_page pfx x))"
proof -
  let ?p = "case pfx of Some p \<Rightarrow> p | None \<Rightarrow> []"
  have there: "key \<in> set (map fst (dn_objs x)) \<longleftrightarrow> (\<exists>ob. net_objs x key = Some ob)" for key
    by (simp add: net_objs_def map_of_eq_None_iff [symmetric] del: set_map) (metis not_Some_eq map_of_eq_None_iff set_map)
  have "set (lp_contents (net_page pfx x)) = {listed key (the (net_objs x key)) | key. key \<in> set (map fst (dn_objs x)) \<and> prefix ?p key}"
    by (auto simp: net_page_def)
  also have "\<dots> = {listed key ob | key ob. net_objs x key = Some ob \<and> prefix ?p key}"
    unfolding there by force
  finally show ?thesis
    unfolding lists_def by (simp add: net_page_def distinct_map inj_on_def) (blast dest: listed_inj)
qed

lemma demo_hash_valid: "s3_hash_valid (content_hash_of demo_digest d)"
proof -
  have len: "length (demo_digest d) = 64" and dig: "list_all (\<lambda>b. b \<in> set ''0123456789abcdef'') (demo_digest d)"
    using demo_digest_hex [of d] by (simp_all add: is_blob_hash_def)
  have "demo_digest d \<noteq> []" using len by auto
  with dig show ?thesis unfolding list_all_iff by (fastforce simp: s3_hash_valid_def content_hash_of_def)
qed

interpretation demo_s3: s3_substrate quiet_client net_objs demo_s3_env "demo_s3 quiet_client"
proof (unfold_locales, goal_cases)
  case (1 x key ob)
  then show ?case by (simp add: bucket_client_def)
next
  case (2 x key)
  then show ?case by (simp add: bucket_client_def demo_error_def)
next
  case (3 pre x key body)
  then show ?case
    by (intro exI [of _ "net_set key (Some body) x"] exI [of _ "demo_object body"])
      (simp add: bucket_client_def net_put_def net_objs_set demo_object_def)
next
  case (4 pre x key body)
  then show ?case by (simp add: bucket_client_def net_put_def demo_error_def)
next
  case (5 tag x key)
  then show ?case
    by (intro exI [of _ "net_set key None x"]) (simp add: bucket_client_def net_delete_def net_objs_set)
next
  case (6 x key)
  then show ?case by (simp add: bucket_client_def)
next
  case (7 x key)
  then show ?case by (simp add: bucket_client_def demo_error_def)
next
  case (8 pfx x)
  show ?case using net_page_lists [of x pfx]
    by (intro exI [of _ "[net_page pfx x]"]) (simp add: bucket_client_def net_page_def)
next
  case 9
  show ?case by (simp add: demo_s3_def s3_new_def)
next
  case (10 r)
  then show ?case using demo_codec_round_trip [of r] by (simp add: demo_s3_env_def)
next
  case (11 rv)
  then show ?case by (simp add: demo_s3_env_def)
next
  case (12 d)
  then show ?case using demo_hash_valid by (simp add: demo_s3_env_def)
next
  case (13 d)
  then show ?case by (simp add: demo_s3_env_def)
qed

end
