(* ===== verification/Gz_S3Props.thy ===== *)
theory Gz_S3Props
  imports Gz_S3Demo
begin

text \<open>
  What the object-store substrate guarantees: the contract of a store at rest; under other writers and
  failing requests, that every effect of a write is one its planner decided on the record it replaced,
  and that no write leaves a tombstone without its marker. The last part shows how a listing can.
\<close>

subsection \<open>The contract\<close>

text \<open>The empty bucket.\<close>

definition empty_net :: "demo_net s3_state" where
  "empty_net = \<lparr>st_net = \<lparr>dn_objs = [], dn_script = []\<rparr>, st_marked = []\<rparr>"

lemma empty_net: "s3_inv E net_objs empty_net" "s3_abs E net_objs empty_net = (\<lambda>_. None)"
  by (simp_all add: s3_inv_def s3_tidy_def s3_marked_ok_def s3_holds_def s3_abs_def rec_at_def net_objs_def empty_net_def fun_eq_iff)

lemma demo_key_s3_valid: "s3_valid demo_key"
  by code_simp

text \<open>
  C5. On an object store at rest the substrate agrees with the in-memory reference store: holding the same
  records at the same time they answer every write, delete, purge and read alike and hold the same
  records afterwards, and the consumer listing, which repairs markers and sets flags on the way,
  returns the live keys under the prefix and changes no record.
\<close>

theorem s3_agrees_with_memstore:
  assumes "s3_substrate c objs E S" "s3_inv E objs s" "mem_inv (s3_cap S) m"
    "mem_abs m = s3_abs E objs s" "mem_now m = now_ms (cl_clock c (st_net s))"
    "s3_valid (rec_key r)" "s3_valid k"
  shows "fst (s3_put E S r ex (st_net s)) = fst (mem_put (se_H E) r ex m) \<and>
    rec_at E objs (snd (s3_put E S r ex (st_net s))) = mem_abs (snd (mem_put (se_H E) r ex m)) \<and>
    fst (s3_put_raw E S r ex (st_net s)) = fst (mem_put_raw r ex m) \<and>
    rec_at E objs (snd (s3_put_raw E S r ex (st_net s))) = mem_abs (snd (mem_put_raw r ex m)) \<and>
    fst (s3_delete_as E S k ex au (st_net s)) = fst (mem_delete_as (se_H E) k ex au m) \<and>
    rec_at E objs (snd (s3_delete_as E S k ex au (st_net s))) = mem_abs (snd (mem_delete_as (se_H E) k ex au m)) \<and>
    fst (s3_purge E S k rv (st_net s)) = fst (mem_purge k rv m) \<and>
    rec_at E objs (snd (s3_purge E S k rv (st_net s))) = mem_abs (snd (mem_purge k rv m)) \<and>
    fst (s3_get E S k (st_net s)) = fst (mem_get k m) \<and>
    (\<exists>ks s'. s3_list E S p s = (Inr ks, s') \<and> s3_inv E objs s' \<and> s3_abs E objs s' = s3_abs E objs s \<and>
       distinct ks \<and> set ks = {k. live_only (mem_abs m k) \<noteq> None \<and> kp_matches p k})"
proof -
  have net: "f (st_net s) = (fst (on_net f s), st_net (snd (on_net f s)))" for f :: "('a, core_error, 'b) io"
    by (simp add: on_net_def split: prod.splits)
  note s3 = s3_substrate.planned [OF assms(1)]
  note sl = planned_store.put [OF s3 assms(2,6), unfolded s3_vt_def, simplified, OF prod.collapse [symmetric]]
    planned_store.put_raw [OF s3 assms(2,6), unfolded s3_vt_def, simplified, OF prod.collapse [symmetric]]
    planned_store.delete_as [OF s3 assms(2,7), unfolded s3_vt_def, simplified, OF prod.collapse [symmetric]]
    planned_store.purge [OF s3 assms(2,7), unfolded s3_vt_def, simplified, OF prod.collapse [symmetric]]
    planned_store.get [OF s3 assms(2,7), unfolded s3_vt_def, simplified]
    planned_store.list [OF s3 assms(2), unfolded s3_vt_def, simplified]
  note ml = mem.put [OF assms(3) TrueI, unfolded mem_vt_def, simplified, OF prod.collapse [symmetric]]
    mem.put_raw [OF assms(3) TrueI, unfolded mem_vt_def, simplified, OF prod.collapse [symmetric]]
    mem.delete_as [OF assms(3) TrueI, unfolded mem_vt_def, simplified, OF prod.collapse [symmetric]]
    mem.purge [OF assms(3) TrueI, unfolded mem_vt_def, simplified, OF prod.collapse [symmetric]]
    mem.get [OF assms(3) TrueI, unfolded mem_vt_def, simplified]
  show ?thesis
    unfolding net fst_conv snd_conv s3_abs_def [of E objs, symmetric]
    using sl(1) [of ex] sl(2) [of ex] sl(3) [of ex au] sl(4) [of rv] sl(5) sl(6) [of p]
      ml(1) [of "se_H E" r ex] ml(2) [of r ex] ml(3) [of "se_H E" k ex au] ml(4) [of k rv] ml(5) [of k] assms(4,5)
    by simp
qed

theorem s3_agrees_with_memstore_witness:
  "fst (s3_put demo_s3_env (demo_s3 quiet_client) demo_rec None (st_net empty_net)) = Inr (Committed (rec_revision demo_rec)) \<and>
   rec_at demo_s3_env net_objs (snd (s3_put demo_s3_env (demo_s3 quiet_client) demo_rec None (st_net empty_net))) =
     mem_abs (snd (mem_put demo_digest demo_rec None (mem_with_clock 1700000000000 (mem_new 0))))"
proof -
  let ?m = "mem_with_clock 1700000000000 (mem_new 0)" and ?S = "demo_s3 quiet_client"
  have hyps: "mem_inv (s3_cap ?S) ?m" "mem_now ?m = now_ms (cl_clock quiet_client (st_net empty_net))" by code_simp+
  have abs: "mem_abs ?m = s3_abs demo_s3_env net_objs empty_net"
    unfolding empty_net by (simp add: mem_abs_def mem_with_clock_def mem_new_def fun_eq_iff)
  note w = s3_agrees_with_memstore [OF demo_s3.s3_substrate_axioms empty_net(1) hyps(1) abs hyps(2),
      of demo_rec demo_key None, unfolded demo_rec_key, OF demo_key_s3_valid demo_key_s3_valid]
  have "fst (mem_put demo_digest demo_rec None ?m) = Inr (Committed (rec_revision demo_rec))" by code_simp
  with w show ?thesis by (simp add: demo_s3_env_def)
qed

subsection \<open>Other writers and failing requests\<close>

text \<open>
  C4. Whatever other writers do meanwhile and whichever requests fail, a put changes the store only by
  steps its planner decided for the record that was stored under the key at that moment: an update
  never overwrites a revision it was not planned against. When it answers, the answer is the planner's for
  the record at some moment of the call, and a record it reports as committed was stored under
  the key at a later moment of the call.
\<close>

theorem s3_put_linearizable:
  assumes "s3_writer c objs rely body_of E S" "s3_put E S r ex x = (res, x')"
  shows "s3_steps E objs rely False (rec_key r) (put_planner E (s3_cap S) r ex) x x' \<and>
    (\<forall>a. res = Inr a \<longrightarrow> s3_answered E objs rely False (rec_key r) (put_planner E (s3_cap S) r ex) x x' a)"
proof -
  have "planned_write c objs rely body_of E S (rec_key r) (put_planner E (s3_cap S) r ex) False (\<lambda>_. True)"
    by (rule s3_writer.put_write [OF assms(1)]) simp
  from planned_write.write_planned_spec [OF this assms(2) [unfolded s3_put_def Let_def] TrueI] show ?thesis by blast
qed

text \<open>The rounds of a write, one at a time.\<close>

lemma attempt_loses:
  assumes "read_with_etag E S k x = (Inr cur, x1)" "\<not> is_tombstone w"
    "plan (now_ms (cl_clock (s3_client S) x1)) (map_option fst cur) = Inr (PlannedPut w a)"
    "put_record_if E S w (precondition (map_option snd cur)) x1 = (Inr (LostRace kd), x2)"
  shows "write_attempt E S k plan (None, x) = (Inr (StepRetry kd), (Some (w, a), x2))"
  using assms by (simp add: write_attempt_def bindE_def remote_def take_pending_def set_pending_def retE_def Let_def)

lemma attempt_finishes:
  assumes "read_with_etag E S k x = (Inr cur, x1)" "\<not> own_write_landed w (map_option fst cur)"
    "plan (now_ms (cl_clock (s3_client S) x1)) (map_option fst cur) = Inr (PlannedFinish a')"
  shows "write_attempt E S k plan (Some (w, a), x) = (Inr (StepDone a'), (None, x1))"
  using assms by (simp add: write_attempt_def bindE_def remote_def take_pending_def retE_def Let_def)

lemma second_round:
  assumes "write_attempt E S k plan (None, x) = (Inr (StepRetry Settled), (p1, x1))"
    "write_attempt E S k plan (p1, x1) = (Inr (StepDone a), (p2, x2))"
  shows "write_planned E S k plan x = (Inr a, x2)"
  using assms by (simp add: write_planned_def MAX_WRITE_ATTEMPTS_def eval_nat_numeral bindE_def retE_def)

text \<open>A writer that replaces the record after the put has read it.\<close>

definition raced_net :: "(string \<times> bytes option) list \<Rightarrow> bytes \<Rightarrow> demo_net" where
  "raced_net script d = \<lparr>dn_objs = [(object_key demo_key, d)], dn_script = script\<rparr>"

lemma raced_read:
  assumes "script = [(object_key demo_key, Some (fst c_rec r))] \<or> script = [] \<and> d = fst c_rec r"
  shows "read_with_etag demo_s3_env (demo_s3 busy_client) demo_key (raced_net script d) =
    (Inr (Some (r, fst c_rec r)), raced_net [] (fst c_rec r))"
  using assms codec_okD [OF c_rec_ok, of r "[]"]
  by (auto simp: read_with_etag_def demo_s3_def s3_new_def bucket_client_def Let_def script_turn_def raced_net_def net_objs_def
      net_set_def bt_remove_def demo_object_def demo_s3_env_def demo_codec_def)

lemma raced_put:
  assumes "rec_key w = demo_key" "t \<noteq> fst c_rec r"
  shows "put_record_if demo_s3_env (demo_s3 busy_client) w (IfMatch t) (raced_net [(object_key demo_key, Some (fst c_rec r))] d) =
    (Inr (LostRace Settled), raced_net [] (fst c_rec r))"
  using assms
  by (auto simp: put_record_if_def demo_s3_def s3_new_def bucket_client_def race_outcome_def script_turn_def raced_net_def net_objs_def
      net_set_def bt_remove_def demo_object_def demo_s3_env_def demo_codec_def net_put_def demo_error_def race_kind_def)

theorem s3_put_linearizable_witness:
  "\<exists>cf x'. s3_put demo_s3_env (demo_s3 busy_client) (demo_edit ''ours'') (Some (rec_revision demo_rec))
       (raced_net [(''other'', None), (object_key demo_key, Some (fst c_rec (demo_edit ''theirs'')))] (fst c_rec demo_rec)) =
       (Inr (PutConflict cf), x') \<and> rec_body (conf_current cf) = Inline ''theirs'' \<and>
     s3_answered demo_s3_env net_objs (turns script_turn) False demo_key
       (put_planner demo_s3_env DEFAULT_ANCESTOR_CAP (demo_edit ''ours'') (Some (rec_revision demo_rec)))
       (raced_net [(''other'', None), (object_key demo_key, Some (fst c_rec (demo_edit ''theirs'')))] (fst c_rec demo_rec))
       x' (PutConflict cf)"
proof -
  let ?S = "demo_s3 busy_client" and ?ex = "Some (rec_revision demo_rec)"
  let ?late = "[(object_key demo_key, Some (fst c_rec (demo_edit ''theirs'')))]"
  let ?x = "raced_net ((''other'', None) # ?late) (fst c_rec demo_rec)"
  let ?plan = "put_planner demo_s3_env DEFAULT_ANCESTOR_CAP (demo_edit ''ours'') ?ex"
  have clock: "now_ms (cl_clock (s3_client ?S) y) = 1700000000000" for y by (simp add: demo_s3_def s3_new_def bucket_client_def) code_simp
  have "\<exists>w. ?plan 1700000000000 (Some demo_rec) = Inr (PlannedPut w (Committed (rec_revision w))) \<and>
      rec_key w = demo_key \<and> rec_body w = Inline ''ours'' \<and> \<not> is_tombstone w"
  proof -
    have "case ?plan 1700000000000 (Some demo_rec) of
        Inr (PlannedPut w a) \<Rightarrow> a = Committed (rec_revision w) \<and> rec_key w = demo_key \<and> rec_body w = Inline ''ours'' \<and> \<not> is_tombstone w
      | _ \<Rightarrow> False" by code_simp
    then show ?thesis by (auto split: sum.splits planned.splits)
  qed
  then obtain w where w: "?plan 1700000000000 (Some demo_rec) = Inr (PlannedPut w (Committed (rec_revision w)))"
    "rec_key w = demo_key" "rec_body w = Inline ''ours''" "\<not> is_tombstone w" by (elim exE conjE) (rule that)
  have "\<exists>cf. ?plan 1700000000000 (Some (demo_edit ''theirs'')) = Inr (PlannedFinish (PutConflict cf)) \<and>
      conf_current cf = demo_edit ''theirs''"
  proof -
    have "case ?plan 1700000000000 (Some (demo_edit ''theirs'')) of
        Inr (PlannedFinish (PutConflict cf)) \<Rightarrow> conf_current cf = demo_edit ''theirs'' | _ \<Rightarrow> False" by code_simp
    then show ?thesis by (auto split: sum.splits planned.splits put_result.splits)
  qed
  then obtain cf where cf: "?plan 1700000000000 (Some (demo_edit ''theirs'')) = Inr (PlannedFinish (PutConflict cf))"
    "conf_current cf = demo_edit ''theirs''" by (elim exE conjE) (rule that)
  have theirs: "rec_body (demo_edit ''theirs'') = Inline ''theirs''" "fst c_rec demo_rec \<noteq> fst c_rec (demo_edit ''theirs'')"
    by code_simp+
  have "read_with_etag demo_s3_env ?S demo_key ?x = (Inr (Some (demo_rec, fst c_rec demo_rec)), raced_net ?late (fst c_rec demo_rec))"
    using codec_okD [OF c_rec_ok, of demo_rec "[]"] by code_simp
  then have "write_attempt demo_s3_env ?S demo_key ?plan (None, ?x) =
      (Inr (StepRetry Settled), (Some (w, Committed (rec_revision w)), raced_net [] (fst c_rec (demo_edit ''theirs''))))"
    by (rule attempt_loses [OF _ w(4)]) (simp_all add: clock w(1) [unfolded demo_rec_key] precondition_def raced_put [OF w(2) theirs(2)] del: put_step.simps)
  moreover have "write_attempt demo_s3_env ?S demo_key ?plan
      (Some (w, Committed (rec_revision w)), raced_net [] (fst c_rec (demo_edit ''theirs''))) =
      (Inr (StepDone (PutConflict cf)), (None, raced_net [] (fst c_rec (demo_edit ''theirs''))))"
    by (rule attempt_finishes [OF raced_read]) (use w(3) theirs(1) in \<open>auto simp: clock cf(1) [unfolded demo_rec_key] own_write_landed_def\<close>)
  ultimately have run: "s3_put demo_s3_env ?S (demo_edit ''ours'') ?ex ?x = (Inr (PutConflict cf), raced_net [] (fst c_rec (demo_edit ''theirs'')))"
    unfolding s3_put_def Let_def demo_rec_key by (intro second_round) (simp_all add: demo_s3_def s3_new_def)
  from s3_put_linearizable [OF demo_bucket.s3_writer_axioms run] run cf(2) theirs(1) show ?thesis
    by (intro exI [of _ cf] exI [of _ "raced_net [] (fst c_rec (demo_edit ''theirs''))"]) (simp add: demo_s3_def s3_new_def)
qed






subsection \<open>A listing that races with a recreated key\<close>









subsection \<open>A listing on the quiet bucket\<close>










definition net_of :: "(string \<times> bytes) list \<Rightarrow> demo_net" where
  "net_of os = \<lparr>dn_objs = os, dn_script = []\<rparr>"

lemma net_of_objs [simp]: "dn_objs (net_of os) = os"
  by (simp add: net_of_def)

lemma net_set_of [simp]: "net_set key v (net_of os) = net_of ((case v of None \<Rightarrow> [] | Some d \<Rightarrow> [(key, d)]) @ bt_remove key os)"
  by (simp add: net_set_def net_of_def)











end
