(* ===== verification/Gz_Grpc.thy ===== *)
theory Gz_Grpc
  imports Gz_Client
begin

text \<open>
  The gRPC transport: the adapter of the daemon (\<open>gonzalo-server/src/grpc.rs\<close>) and the gRPC half of the
  remote store (\<open>gonzalo-store-server/src/lib.rs\<close>). The messages are those of \<open>gonzalo.proto\<close>; the generated
  service trait is the record \<open>gonzalo_rpc\<close>, one operation per RPC on the metadata and the request, which
  the adapter provides and the client calls. Carrying a call from one to the other is tonic.

  JSON payloads go through \<open>serde_json\<close>, the parameter \<open>rpc_json\<close>: for each type a printer and a parser, both
  of which may fail. A formatted refusal is kept as the values that are printed in it; \<open>gt_text\<close> and
  \<open>gs_display\<close> stand for the way a message and a status print. The ticket and code-graph RPCs are not
  part of the model.
\<close>

subsection \<open>Messages\<close>

datatype grpc_code = Unauthenticated | PermissionDenied | InvalidArgument | FailedPrecondition | Internal | Unimplemented
  | OtherCode nat

datatype grpc_text = GText string | GLacks string access string | GNotAdmin string string

record grpc_status =
  gs_code :: grpc_code
  gs_message :: grpc_text

record get_request =
  gq_namespace :: string
  gq_collection :: string
  gq_id :: string

record get_response =
  gp_found :: bool
  gp_record_json :: bytes

record put_request =
  pq_record_json :: bytes
  pq_expected_json :: bytes

record put_response =
  pp_outcome :: string
  pp_payload_json :: bytes

record delete_request =
  dq_namespace :: string
  dq_collection :: string
  dq_id :: string
  dq_expected_json :: bytes
  dq_author_json :: bytes

record delete_response =
  dp_outcome :: string
  dp_payload_json :: bytes

record list_request =
  lr_namespace :: "string option"
  lr_collection :: "string option"

record list_response =
  lp_keys_json :: "bytes list"

record purge_request =
  uq_namespace :: string
  uq_collection :: string
  uq_id :: string
  uq_expected_json :: bytes

record put_blob_request =
  bq_hash :: string
  bq_content :: bytes

record get_blob_response =
  bp_found :: bool
  bp_content :: bytes

record rpc_blob_entry =
  re_hash :: string
  re_modified_unix_ms :: int

text \<open>The generated service, on metadata of which only the \<open>authorization\<close> entry is looked at.\<close>

type_synonym metadata = "bytes option"

type_synonym ('s, 'q, 'a) rpc = "metadata \<Rightarrow> 'q \<Rightarrow> ('s, grpc_status, 'a) io"

record 's gonzalo_rpc =
  rpc_get :: "('s, get_request, get_response) rpc"
  rpc_put :: "('s, put_request, put_response) rpc"
  rpc_delete :: "('s, delete_request, delete_response) rpc"
  rpc_list :: "('s, list_request, list_response) rpc"
  rpc_get_raw :: "('s, get_request, get_response) rpc"
  rpc_list_raw :: "('s, list_request, list_response) rpc"
  rpc_put_raw :: "('s, put_request, put_response) rpc"
  rpc_purge :: "('s, purge_request, delete_response) rpc"
  rpc_put_blob :: "('s, put_blob_request, string) rpc"
  rpc_get_blob :: "('s, string, get_blob_response) rpc"
  rpc_has_blob :: "('s, string, bool) rpc"
  rpc_list_blobs :: "('s, unit, rpc_blob_entry list) rpc"
  rpc_delete_blob :: "('s, string, unit) rpc"

text \<open>A printer and a parser.\<close>

type_synonym 'a json_fns = "('a \<Rightarrow> string + bytes) \<times> (bytes \<Rightarrow> string + 'a)"

record rpc_json =
  rj_record :: "rec json_fns"
  rj_expected :: "revision option json_fns"
  rj_revision :: "revision json_fns"
  rj_identity :: "identity json_fns"
  rj_conflict :: "conflict json_fns"
  rj_key :: "record_key json_fns"

subsection \<open>The adapter\<close>

record 's grpc_adapter =
  ga_service :: "'s service"
  ga_auth :: auth

definition grpc_new :: "'s service \<Rightarrow> 's grpc_adapter" where
  "grpc_new svc = \<lparr>ga_service = svc, ga_auth = Disabled\<rparr>"

definition grpc_with_auth :: "'s service \<Rightarrow> auth \<Rightarrow> 's grpc_adapter" where
  "grpc_with_auth svc au = \<lparr>ga_service = svc, ga_auth = au\<rparr>"

definition grpc_bearer :: "(bytes \<Rightarrow> string option) \<Rightarrow> metadata \<Rightarrow> string option" where
  "grpc_bearer to_str md = Option.bind (Option.bind md to_str) (strip_prefix ''Bearer '')"

definition unauthenticated :: "string \<Rightarrow> grpc_status" where
  "unauthenticated m = \<lparr>gs_code = Unauthenticated, gs_message = GText m\<rparr>"

definition invalid_argument :: "string \<Rightarrow> grpc_status" where
  "invalid_argument m = \<lparr>gs_code = InvalidArgument, gs_message = GText m\<rparr>"

definition internal :: "'e \<Rightarrow> grpc_status" where
  "internal e = \<lparr>gs_code = Internal, gs_message = GText ''internal error''\<rparr>"

definition grpc_authenticate ::
  "(bytes \<Rightarrow> string option) \<Rightarrow> 's grpc_adapter \<Rightarrow> metadata \<Rightarrow> grpc_status + principal" where
  "grpc_authenticate to_str A md =
     (case authenticate (ga_auth A) (grpc_bearer to_str md) of
        Some p \<Rightarrow> Inr p
      | None \<Rightarrow> Inl (unauthenticated ''invalid or missing token''))"

definition check_access :: "principal \<Rightarrow> access \<Rightarrow> string \<Rightarrow> grpc_status + unit" where
  "check_access p a ns =
     (if allows p a ns then Inr () else Inl \<lparr>gs_code = PermissionDenied, gs_message = GLacks (p_name p) a ns\<rparr>)"

definition authorize ::
  "(bytes \<Rightarrow> string option) \<Rightarrow> 's grpc_adapter \<Rightarrow> metadata \<Rightarrow> access \<Rightarrow> string \<Rightarrow> grpc_status + principal" where
  "authorize to_str A md a ns =
     bindR (grpc_authenticate to_str A md) (\<lambda>p. bindR (check_access p a ns) (\<lambda>_. Inr p))"

definition authorize_admin ::
  "(bytes \<Rightarrow> string option) \<Rightarrow> 's grpc_adapter \<Rightarrow> metadata \<Rightarrow> string \<Rightarrow> grpc_status + principal" where
  "authorize_admin to_str A md operation =
     bindR (grpc_authenticate to_str A md) (\<lambda>p.
       if is_admin p then Inr p
       else Inl \<lparr>gs_code = PermissionDenied, gs_message = GNotAdmin (p_name p) operation\<rparr>)"

text \<open>\<open>from_slice(..).map_err(|e| Status::invalid_argument(..))\<close> and \<open>to_vec(..).map_err(internal)\<close>.\<close>

definition parse_arg :: "'a json_fns \<Rightarrow> bytes \<Rightarrow> grpc_status + 'a" where
  "parse_arg j bs = (case snd j bs of Inl e \<Rightarrow> Inl (invalid_argument e) | Inr x \<Rightarrow> Inr x)"

definition print_reply :: "'a json_fns \<Rightarrow> 'a \<Rightarrow> grpc_status + bytes" where
  "print_reply j x = (case fst j x of Inl e \<Rightarrow> Inl (internal e) | Inr bs \<Rightarrow> Inr bs)"

definition map_err :: "('e \<Rightarrow> 'f) \<Rightarrow> ('s, 'e, 'a) io \<Rightarrow> ('s, 'f, 'a) io" where
  "map_err f m s = (case m s of (Inl e, s') \<Rightarrow> (Inl (f e), s') | (Inr x, s') \<Rightarrow> (Inr x, s'))"

definition authorize_put ::
  "(bytes \<Rightarrow> string option) \<Rightarrow> rpc_json \<Rightarrow> 's grpc_adapter \<Rightarrow> metadata \<Rightarrow> put_request \<Rightarrow>
   grpc_status + (principal \<times> rec \<times> revision option)" where
  "authorize_put to_str J A md r =
     bindR (grpc_authenticate to_str A md) (\<lambda>p.
     bindR (parse_arg (rj_record J) (pq_record_json r)) (\<lambda>record.
     bindR (parse_arg (rj_expected J) (pq_expected_json r)) (\<lambda>expected.
     bindR (check_access p Write (namespace (rec_key record))) (\<lambda>_. Inr (p, record, expected)))))"

definition authorize_list ::
  "(bytes \<Rightarrow> string option) \<Rightarrow> 's grpc_adapter \<Rightarrow> metadata \<Rightarrow> list_request \<Rightarrow> grpc_status + key_prefix" where
  "authorize_list to_str A md r =
     bindR (authorize to_str A md Read (case lr_namespace r of Some n \<Rightarrow> n | None \<Rightarrow> ''*'')) (\<lambda>_.
       Inr \<lparr>kp_namespace = lr_namespace r, kp_collection = lr_collection r\<rparr>)"

fun put_error :: "core_error \<Rightarrow> grpc_status" where
  "put_error (NotFound k) = \<lparr>gs_code = FailedPrecondition, gs_message = GText (''record not found: '' @ key_display k)\<rparr>"
| "put_error (Invalid reason) = invalid_argument reason"
| "put_error e = internal e"

fun purge_error :: "core_error \<Rightarrow> grpc_status" where
  "purge_error (Invalid reason) = invalid_argument reason"
| "purge_error e = internal e"

fun grpc_put_response :: "rpc_json \<Rightarrow> put_result \<Rightarrow> grpc_status + put_response" where
  "grpc_put_response J (Committed rv) =
     bindR (print_reply (rj_revision J) rv) (\<lambda>bs. Inr \<lparr>pp_outcome = ''committed'', pp_payload_json = bs\<rparr>)"
| "grpc_put_response J (PutConflict c) =
     bindR (print_reply (rj_conflict J) c) (\<lambda>bs. Inr \<lparr>pp_outcome = ''conflict'', pp_payload_json = bs\<rparr>)"

fun grpc_get_response :: "rpc_json \<Rightarrow> rec option \<Rightarrow> grpc_status + get_response" where
  "grpc_get_response J (Some r) =
     bindR (print_reply (rj_record J) r) (\<lambda>bs. Inr \<lparr>gp_found = True, gp_record_json = bs\<rparr>)"
| "grpc_get_response J None = Inr \<lparr>gp_found = False, gp_record_json = []\<rparr>"

text \<open>Collecting into a \<open>Result\<close> stops at the first error.\<close>

fun collect_results :: "('e + 'a) list \<Rightarrow> 'e + 'a list" where
  "collect_results [] = Inr []"
| "collect_results (r # rs) = bindR r (\<lambda>x. bindR (collect_results rs) (\<lambda>xs. Inr (x # xs)))"

definition grpc_list_response :: "rpc_json \<Rightarrow> record_key list \<Rightarrow> grpc_status + list_response" where
  "grpc_list_response J ks =
     bindR (collect_results (map (print_reply (rj_key J)) ks)) (\<lambda>bss. Inr \<lparr>lp_keys_json = bss\<rparr>)"

fun delete_outcome_parts :: "rpc_json \<Rightarrow> delete_result \<Rightarrow> grpc_status + delete_response" where
  "delete_outcome_parts J Deleted = Inr \<lparr>dp_outcome = ''deleted'', dp_payload_json = []\<rparr>"
| "delete_outcome_parts J (DeleteConflict c) =
     bindR (print_reply (rj_conflict J) c) (\<lambda>bs. Inr \<lparr>dp_outcome = ''conflict'', dp_payload_json = bs\<rparr>)"

subsection \<open>The handlers\<close>

definition grpc_get ::
  "(bytes \<Rightarrow> string option) \<Rightarrow> rpc_json \<Rightarrow> 's grpc_adapter \<Rightarrow> ('s, get_request, get_response) rpc" where
  "grpc_get to_str J A md r =
     bindE (liftE (authorize to_str A md Read (gq_namespace r))) (\<lambda>_.
     bindE (map_err internal (sv_get (ga_service A) (RecordKey (gq_namespace r) (gq_collection r) (gq_id r)))) (\<lambda>rec.
     liftE (grpc_get_response J rec)))"

definition grpc_put ::
  "(bytes \<Rightarrow> string option) \<Rightarrow> rpc_json \<Rightarrow> 's grpc_adapter \<Rightarrow> ('s, put_request, put_response) rpc" where
  "grpc_put to_str J A md r =
     bindE (liftE (authorize_put to_str J A md r)) (\<lambda>(p, record, expected).
     let record = (if p_authenticated p then record\<lparr>rec_meta := (rec_meta record)\<lparr>author := identity_new (p_name p)\<rparr>\<rparr>
                   else record) in
     bindE (map_err put_error (sv_put (ga_service A) record expected)) (\<lambda>outcome.
     liftE (grpc_put_response J outcome)))"

definition claimed_author :: "rpc_json \<Rightarrow> bytes \<Rightarrow> grpc_status + identity option" where
  "claimed_author J bs = (if bs = [] then Inr None else bindR (parse_arg (rj_identity J) bs) (\<lambda>i. Inr (Some i)))"

definition grpc_delete ::
  "(bytes \<Rightarrow> string option) \<Rightarrow> rpc_json \<Rightarrow> 's grpc_adapter \<Rightarrow> ('s, delete_request, delete_response) rpc" where
  "grpc_delete to_str J A md r =
     bindE (liftE (grpc_authenticate to_str A md)) (\<lambda>p.
     bindE (liftE (parse_arg (rj_expected J) (dq_expected_json r))) (\<lambda>expected.
     bindE (liftE (claimed_author J (dq_author_json r))) (\<lambda>claimed.
     bindE (liftE (check_access p Write (dq_namespace r))) (\<lambda>_.
     let au = delete_author p claimed;
         key = RecordKey (dq_namespace r) (dq_collection r) (dq_id r)
     in bindE (map_err internal (sv_delete_as (ga_service A) key expected au)) (\<lambda>outcome.
        liftE (delete_outcome_parts J outcome))))))"

definition grpc_list ::
  "(bytes \<Rightarrow> string option) \<Rightarrow> rpc_json \<Rightarrow> 's grpc_adapter \<Rightarrow> ('s, list_request, list_response) rpc" where
  "grpc_list to_str J A md r =
     bindE (liftE (authorize_list to_str A md r)) (\<lambda>pre.
     bindE (map_err internal (sv_list (ga_service A) pre)) (\<lambda>ks. liftE (grpc_list_response J ks)))"

definition grpc_get_raw ::
  "(bytes \<Rightarrow> string option) \<Rightarrow> rpc_json \<Rightarrow> 's grpc_adapter \<Rightarrow> ('s, get_request, get_response) rpc" where
  "grpc_get_raw to_str J A md r =
     bindE (liftE (authorize to_str A md Read (gq_namespace r))) (\<lambda>_.
     bindE (map_err internal (sv_get_raw (ga_service A) (RecordKey (gq_namespace r) (gq_collection r) (gq_id r)))) (\<lambda>rec.
     liftE (grpc_get_response J rec)))"

definition grpc_list_raw ::
  "(bytes \<Rightarrow> string option) \<Rightarrow> rpc_json \<Rightarrow> 's grpc_adapter \<Rightarrow> ('s, list_request, list_response) rpc" where
  "grpc_list_raw to_str J A md r =
     bindE (liftE (authorize_list to_str A md r)) (\<lambda>pre.
     bindE (map_err internal (sv_list_raw (ga_service A) pre)) (\<lambda>ks. liftE (grpc_list_response J ks)))"

definition grpc_put_raw ::
  "(bytes \<Rightarrow> string option) \<Rightarrow> rpc_json \<Rightarrow> 's grpc_adapter \<Rightarrow> ('s, put_request, put_response) rpc" where
  "grpc_put_raw to_str J A md r =
     bindE (liftE (authorize_admin to_str A md ''a raw record write'')) (\<lambda>_.
     bindE (liftE (parse_arg (rj_record J) (pq_record_json r))) (\<lambda>record.
     bindE (liftE (parse_arg (rj_expected J) (pq_expected_json r))) (\<lambda>expected.
     bindE (map_err put_error (sv_put_raw (ga_service A) record expected)) (\<lambda>outcome.
     liftE (grpc_put_response J outcome)))))"

definition grpc_purge ::
  "(bytes \<Rightarrow> string option) \<Rightarrow> rpc_json \<Rightarrow> 's grpc_adapter \<Rightarrow> ('s, purge_request, delete_response) rpc" where
  "grpc_purge to_str J A md r =
     bindE (liftE (authorize_admin to_str A md ''purge'')) (\<lambda>_.
     bindE (liftE (parse_arg (rj_revision J) (uq_expected_json r))) (\<lambda>expected.
     bindE (map_err purge_error (sv_purge (ga_service A) (RecordKey (uq_namespace r) (uq_collection r) (uq_id r)) expected))
       (\<lambda>outcome. liftE (delete_outcome_parts J outcome))))"

definition grpc_put_blob ::
  "blake3 \<Rightarrow> (bytes \<Rightarrow> string option) \<Rightarrow> 's grpc_adapter \<Rightarrow> ('s, put_blob_request, string) rpc" where
  "grpc_put_blob H to_str A md r =
     bindE (liftE (authorize to_str A md Write BLOB_NS)) (\<lambda>_.
       if hash_str (content_hash_of H (bq_content r)) \<noteq> bq_hash r
       then throwE (invalid_argument ''blob content does not match the advertised hash'')
       else bindE (map_err internal (sv_put_blob (ga_service A) (bq_content r))) (\<lambda>h. retE (hash_str h)))"

definition grpc_get_blob ::
  "(bytes \<Rightarrow> string option) \<Rightarrow> 's grpc_adapter \<Rightarrow> ('s, string, get_blob_response) rpc" where
  "grpc_get_blob to_str A md h =
     bindE (liftE (authorize to_str A md Read BLOB_NS)) (\<lambda>_.
     bindE (map_err internal (sv_get_blob (ga_service A) (ContentHash h))) (\<lambda>found.
       retE (case found of
           Some c \<Rightarrow> \<lparr>bp_found = True, bp_content = c\<rparr>
         | None \<Rightarrow> \<lparr>bp_found = False, bp_content = []\<rparr>)))"

definition grpc_has_blob :: "(bytes \<Rightarrow> string option) \<Rightarrow> 's grpc_adapter \<Rightarrow> ('s, string, bool) rpc" where
  "grpc_has_blob to_str A md h =
     bindE (liftE (authorize to_str A md Read BLOB_NS)) (\<lambda>_. map_err internal (sv_has_blob (ga_service A) (ContentHash h)))"

definition grpc_list_blobs ::
  "(bytes \<Rightarrow> string option) \<Rightarrow> 's grpc_adapter \<Rightarrow> ('s, unit, rpc_blob_entry list) rpc" where
  "grpc_list_blobs to_str A md r =
     bindE (liftE (authorize to_str A md Read BLOB_NS)) (\<lambda>_.
     bindE (map_err internal (sv_list_blobs (ga_service A))) (\<lambda>es.
       retE (map (\<lambda>e. \<lparr>re_hash = hash_str (be_hash e), re_modified_unix_ms = be_modified_unix_ms e\<rparr>) es)))"

definition grpc_delete_blob :: "(bytes \<Rightarrow> string option) \<Rightarrow> 's grpc_adapter \<Rightarrow> ('s, string, unit) rpc" where
  "grpc_delete_blob to_str A md h =
     bindE (liftE (authorize to_str A md Write BLOB_NS)) (\<lambda>_.
     map_err internal (sv_delete_blob (ga_service A) (ContentHash h)))"

definition adapter_rpc ::
  "blake3 \<Rightarrow> (bytes \<Rightarrow> string option) \<Rightarrow> rpc_json \<Rightarrow> 's grpc_adapter \<Rightarrow> 's gonzalo_rpc" where
  "adapter_rpc H to_str J A =
     \<lparr>rpc_get = grpc_get to_str J A, rpc_put = grpc_put to_str J A, rpc_delete = grpc_delete to_str J A,
      rpc_list = grpc_list to_str J A, rpc_get_raw = grpc_get_raw to_str J A, rpc_list_raw = grpc_list_raw to_str J A,
      rpc_put_raw = grpc_put_raw to_str J A, rpc_purge = grpc_purge to_str J A,
      rpc_put_blob = grpc_put_blob H to_str A, rpc_get_blob = grpc_get_blob to_str A,
      rpc_has_blob = grpc_has_blob to_str A, rpc_list_blobs = grpc_list_blobs to_str A,
      rpc_delete_blob = grpc_delete_blob to_str A\<rparr>"

end
