(* ===== verification/Gz_GrpcClient.thy ===== *)
theory Gz_GrpcClient
  imports Gz_Grpc Gz_ClientProofs
begin

text \<open>
  The gRPC half of the remote store (\<open>gonzalo-store-server/src/lib.rs\<close>). The generated client is a
  \<open>gonzalo_rpc\<close>: behind it are tonic, the network and some daemon. Turning a header value into metadata
  (\<open>gc_header\<close>) and a status into text are tonic's.
\<close>

record 'x grpc_store =
  gc_rpc :: "'x gonzalo_rpc"
  gc_token :: "string option"
  gc_header :: "string \<Rightarrow> bytes option"
  gc_json :: rpc_json
  gc_display :: "grpc_status \<Rightarrow> string"
  gc_text :: "grpc_text \<Rightarrow> string"

definition DAEMON_PREDATES_BLOB_PRESENCE :: string where
  "DAEMON_PREDATES_BLOB_PRESENCE = ''daemon predates the blob presence check (gonzalo#329); upgrade gonzalod''"

definition grpc_request :: "'x grpc_store \<Rightarrow> metadata result" where
  "grpc_request G =
     (case gc_token G of
        None \<Rightarrow> Inr None
      | Some t \<Rightarrow>
          (case gc_header G (''Bearer '' @ t) of
             Some v \<Rightarrow> Inr (Some v)
           | None \<Rightarrow> Inl (Backend ''invalid token characters'')))"

definition to_core :: "'x grpc_store \<Rightarrow> grpc_status \<Rightarrow> core_error" where
  "to_core G s = Backend (gc_display G s)"

definition replication_status :: "'x grpc_store \<Rightarrow> grpc_status \<Rightarrow> core_error" where
  "replication_status G s = (if gs_code s = Unimplemented then upgrade_required else to_core G s)"

definition presence_status :: "'x grpc_store \<Rightarrow> grpc_status \<Rightarrow> core_error" where
  "presence_status G s = (if gs_code s = Unimplemented then Backend DAEMON_PREDATES_BLOB_PRESENCE else to_core G s)"

definition put_status :: "'x grpc_store \<Rightarrow> record_key \<Rightarrow> grpc_status \<Rightarrow> core_error" where
  "put_status G k s =
     (if gs_code s = FailedPrecondition then NotFound k
      else if gs_code s = InvalidArgument then Invalid (gc_text G (gs_message s))
      else to_core G s)"

definition raw_put_status :: "'x grpc_store \<Rightarrow> record_key \<Rightarrow> grpc_status \<Rightarrow> core_error" where
  "raw_put_status G k s = (if gs_code s = Unimplemented then upgrade_required else put_status G k s)"

definition decode_put_response :: "rpc_json \<Rightarrow> put_response \<Rightarrow> put_result result" where
  "decode_put_response J r =
     (if pp_outcome r = ''committed'' then bindR (se (snd (rj_revision J) (pp_payload_json r))) (\<lambda>rv. Inr (Committed rv))
      else if pp_outcome r = ''conflict'' then bindR (se (snd (rj_conflict J) (pp_payload_json r))) (\<lambda>c. Inr (PutConflict c))
      else Inl (Backend (''unknown put outcome: '' @ pp_outcome r)))"

definition decode_get_response :: "rpc_json \<Rightarrow> get_response \<Rightarrow> rec option result" where
  "decode_get_response J r =
     (if gp_found r then bindR (se (snd (rj_record J) (gp_record_json r))) (\<lambda>x. Inr (Some x)) else Inr None)"

definition decode_delete_outcome :: "rpc_json \<Rightarrow> delete_response \<Rightarrow> delete_result result" where
  "decode_delete_outcome J r =
     (if dp_outcome r = ''deleted'' then Inr Deleted
      else if dp_outcome r = ''conflict'' then bindR (se (snd (rj_conflict J) (dp_payload_json r))) (\<lambda>c. Inr (DeleteConflict c))
      else Inl (Backend (''unknown delete outcome: '' @ dp_outcome r)))"

definition decode_keys :: "rpc_json \<Rightarrow> list_response \<Rightarrow> record_key list result" where
  "decode_keys J r = collect_results (map (\<lambda>b. se (snd (rj_key J) b)) (lp_keys_json r))"

text \<open>Attach the token to the message and call.\<close>

definition rpc_call ::
  "'x grpc_store \<Rightarrow> ('x, 'q, 'a) rpc \<Rightarrow> (grpc_status \<Rightarrow> core_error) \<Rightarrow> 'q result \<Rightarrow> ('x, core_error, 'a) io" where
  "rpc_call G rpc f msg =
     bindE (liftE msg) (\<lambda>q. bindE (liftE (grpc_request G)) (\<lambda>md. map_err f (rpc md q)))"

definition gs_get :: "'x grpc_store \<Rightarrow> record_key \<Rightarrow> ('x, core_error, rec option) io" where
  "gs_get G k =
     bindE (rpc_call G (rpc_get (gc_rpc G)) (to_core G)
         (Inr \<lparr>gq_namespace = namespace k, gq_collection = collection k, gq_id = key_id k\<rparr>))
       (\<lambda>r. liftE (decode_get_response (gc_json G) r))"

definition put_message :: "rpc_json \<Rightarrow> rec \<Rightarrow> revision option \<Rightarrow> put_request result" where
  "put_message J record expected =
     bindR (se (fst (rj_record J) record)) (\<lambda>rb.
     bindR (se (fst (rj_expected J) expected)) (\<lambda>eb. Inr \<lparr>pq_record_json = rb, pq_expected_json = eb\<rparr>))"

definition gs_put :: "'x grpc_store \<Rightarrow> rec \<Rightarrow> revision option \<Rightarrow> ('x, core_error, put_result) io" where
  "gs_put G record expected =
     (let k = rec_key record in
      bindE (rpc_call G (rpc_put (gc_rpc G)) (put_status G k) (put_message (gc_json G) record expected))
        (\<lambda>r. liftE (decode_put_response (gc_json G) r)))"

definition gs_list :: "'x grpc_store \<Rightarrow> key_prefix \<Rightarrow> ('x, core_error, record_key list) io" where
  "gs_list G p =
     bindE (rpc_call G (rpc_list (gc_rpc G)) (to_core G)
         (Inr \<lparr>lr_namespace = kp_namespace p, lr_collection = kp_collection p\<rparr>))
       (\<lambda>r. liftE (decode_keys (gc_json G) r))"

definition gs_delete_as ::
  "'x grpc_store \<Rightarrow> record_key \<Rightarrow> revision option \<Rightarrow> identity option \<Rightarrow> ('x, core_error, delete_result) io" where
  "gs_delete_as G k expected au =
     bindE (liftE (case au of None \<Rightarrow> Inr [] | Some a \<Rightarrow> se (fst (rj_identity (gc_json G)) a))) (\<lambda>author_json.
     bindE (rpc_call G (rpc_delete (gc_rpc G)) (to_core G)
         (bindR (se (fst (rj_expected (gc_json G)) expected)) (\<lambda>eb.
            Inr \<lparr>dq_namespace = namespace k, dq_collection = collection k, dq_id = key_id k, dq_expected_json = eb,
                 dq_author_json = author_json\<rparr>)))
       (\<lambda>r. liftE (decode_delete_outcome (gc_json G) r)))"

definition gs_get_raw :: "'x grpc_store \<Rightarrow> record_key \<Rightarrow> ('x, core_error, rec option) io" where
  "gs_get_raw G k =
     bindE (rpc_call G (rpc_get_raw (gc_rpc G)) (replication_status G)
         (Inr \<lparr>gq_namespace = namespace k, gq_collection = collection k, gq_id = key_id k\<rparr>))
       (\<lambda>r. liftE (decode_get_response (gc_json G) r))"

definition gs_list_raw :: "'x grpc_store \<Rightarrow> key_prefix \<Rightarrow> ('x, core_error, record_key list) io" where
  "gs_list_raw G p =
     bindE (rpc_call G (rpc_list_raw (gc_rpc G)) (replication_status G)
         (Inr \<lparr>lr_namespace = kp_namespace p, lr_collection = kp_collection p\<rparr>))
       (\<lambda>r. liftE (decode_keys (gc_json G) r))"

definition gs_put_raw :: "'x grpc_store \<Rightarrow> rec \<Rightarrow> revision option \<Rightarrow> ('x, core_error, put_result) io" where
  "gs_put_raw G record expected =
     (let k = rec_key record in
      bindE (rpc_call G (rpc_put_raw (gc_rpc G)) (raw_put_status G k) (put_message (gc_json G) record expected))
        (\<lambda>r. liftE (decode_put_response (gc_json G) r)))"

definition gs_purge :: "'x grpc_store \<Rightarrow> record_key \<Rightarrow> revision \<Rightarrow> ('x, core_error, delete_result) io" where
  "gs_purge G k expected =
     bindE (rpc_call G (rpc_purge (gc_rpc G)) (replication_status G)
         (bindR (se (fst (rj_revision (gc_json G)) expected)) (\<lambda>eb.
            Inr \<lparr>uq_namespace = namespace k, uq_collection = collection k, uq_id = key_id k, uq_expected_json = eb\<rparr>)))
       (\<lambda>r. liftE (decode_delete_outcome (gc_json G) r))"

definition gs_put_blob :: "blake3 \<Rightarrow> 'x grpc_store \<Rightarrow> bytes \<Rightarrow> ('x, core_error, content_hash) io" where
  "gs_put_blob H G content =
     bindE (rpc_call G (rpc_put_blob (gc_rpc G)) (to_core G)
         (Inr \<lparr>bq_hash = hash_str (content_hash_of H content), bq_content = content\<rparr>))
       (\<lambda>h. retE (ContentHash h))"

definition gs_get_blob :: "'x grpc_store \<Rightarrow> content_hash \<Rightarrow> ('x, core_error, bytes option) io" where
  "gs_get_blob G h =
     bindE (rpc_call G (rpc_get_blob (gc_rpc G)) (to_core G) (Inr (hash_str h)))
       (\<lambda>r. retE (if bp_found r then Some (bp_content r) else None))"

definition gs_has_blob :: "'x grpc_store \<Rightarrow> content_hash \<Rightarrow> ('x, core_error, bool) io" where
  "gs_has_blob G h = rpc_call G (rpc_has_blob (gc_rpc G)) (presence_status G) (Inr (hash_str h))"

definition gs_list_blobs :: "'x grpc_store \<Rightarrow> ('x, core_error, blob_entry list) io" where
  "gs_list_blobs G =
     bindE (rpc_call G (rpc_list_blobs (gc_rpc G)) (to_core G) (Inr ()))
       (\<lambda>es. retE (map (\<lambda>e. \<lparr>be_hash = ContentHash (re_hash e), be_modified_unix_ms = re_modified_unix_ms e\<rparr>) es))"

definition gs_delete_blob :: "'x grpc_store \<Rightarrow> content_hash \<Rightarrow> ('x, core_error, unit) io" where
  "gs_delete_blob G h = rpc_call G (rpc_delete_blob (gc_rpc G)) (to_core G) (Inr (hash_str h))"

definition gs_vt :: "'x grpc_store \<Rightarrow> 'x store_vt" where
  "gs_vt G =
     \<lparr>vt_get = gs_get G, vt_put = gs_put G, vt_list = gs_list G, vt_delete_as = gs_delete_as G,
      vt_get_raw = gs_get_raw G, vt_list_raw = gs_list_raw G, vt_put_raw = gs_put_raw G, vt_purge = gs_purge G\<rparr>"

definition gs_bv :: "blake3 \<Rightarrow> 'x grpc_store \<Rightarrow> 'x blob_vt" where
  "gs_bv H G =
     \<lparr>bv_put_blob = gs_put_blob H G, bv_get_blob = gs_get_blob G, bv_list_blobs = gs_list_blobs G,
      bv_has_blob = gs_has_blob G, bv_delete_blob = gs_delete_blob G\<rparr>"

subsection \<open>Through the wire and back\<close>

definition json_ok :: "'a json_fns \<Rightarrow> bool" where
  "json_ok j \<longleftrightarrow> (\<forall>x. \<exists>bs. fst j x = Inr bs \<and> bs \<noteq> [] \<and> snd j bs = Inr x)"

locale json_wire =
  fixes J :: rpc_json
  assumes records: "json_ok (rj_record J)"
    and expecteds: "json_ok (rj_expected J)"
    and revisions: "json_ok (rj_revision J)"
    and identities: "json_ok (rj_identity J)"
    and conflicts: "json_ok (rj_conflict J)"
    and keys: "json_ok (rj_key J)"
begin

lemma printed:
  assumes "json_ok j"
  shows "\<exists>bs. fst j x = Inr bs \<and> bs \<noteq> [] \<and> snd j bs = Inr x \<and> print_reply j x = Inr bs \<and> parse_arg j bs = Inr x"
proof -
  from assms obtain bs where "fst j x = Inr bs" "bs \<noteq> []" "snd j bs = Inr x" unfolding json_ok_def by blast
  then show ?thesis by (intro exI [of _ bs]) (simp add: print_reply_def parse_arg_def)
qed

lemma get_back: "\<exists>r. grpc_get_response J x = Inr r \<and> decode_get_response J r = Inr x"
proof (cases x)
  case (Some v)
  obtain bs where "snd (rj_record J) bs = Inr v" "print_reply (rj_record J) v = Inr bs" using printed [OF records] by blast
  then show ?thesis by (simp add: Some decode_get_response_def se_def)
qed (simp add: decode_get_response_def)

lemma put_back: "\<exists>r. grpc_put_response J x = Inr r \<and> decode_put_response J r = Inr x"
proof (cases x)
  case (Committed rv)
  obtain bs where "snd (rj_revision J) bs = Inr rv" "print_reply (rj_revision J) rv = Inr bs" using printed [OF revisions] by blast
  then show ?thesis by (simp add: Committed decode_put_response_def se_def)
next
  case (PutConflict c)
  obtain bs where "snd (rj_conflict J) bs = Inr c" "print_reply (rj_conflict J) c = Inr bs" using printed [OF conflicts] by blast
  then show ?thesis by (simp add: PutConflict decode_put_response_def se_def)
qed

lemma delete_back: "\<exists>r. delete_outcome_parts J x = Inr r \<and> decode_delete_outcome J r = Inr x"
proof (cases x)
  case (DeleteConflict c)
  obtain bs where "snd (rj_conflict J) bs = Inr c" "print_reply (rj_conflict J) c = Inr bs" using printed [OF conflicts] by blast
  then show ?thesis by (simp add: DeleteConflict decode_delete_outcome_def se_def)
qed (simp add: decode_delete_outcome_def)

lemma list_back: "\<exists>r. grpc_list_response J ks = Inr r \<and> decode_keys J r = Inr ks"
proof -
  have "\<exists>bss. collect_results (map (print_reply (rj_key J)) ks) = Inr bss \<and>
      collect_results (map (\<lambda>b. se (snd (rj_key J) b)) bss) = Inr ks"
  proof (induction ks)
    case (Cons k ks)
    then obtain bss where "collect_results (map (print_reply (rj_key J)) ks) = Inr bss"
      "collect_results (map (\<lambda>b. se (snd (rj_key J) b)) bss) = Inr ks" by blast
    moreover obtain bs where "snd (rj_key J) bs = Inr k" "print_reply (rj_key J) k = Inr bs" using printed [OF keys] by blast
    ultimately show ?case by (intro exI [of _ "bs # bss"]) (simp add: se_def)
  qed simp
  then show ?thesis by (auto simp: grpc_list_response_def decode_keys_def)
qed

end

end
