(* ===== verification/Gz_GrpcProps.thy ===== *)
theory Gz_GrpcProps
  imports Gz_GrpcClient Gz_ClientProps
begin

text \<open>
  The two transports are one. In front of the same service, with the same credentials, an RPC changes the
  stores exactly as its HTTP route does and fails exactly when it fails, with the corresponding code; and a
  client over gRPC is as transparent as one over HTTP, for every key.
\<close>

subsection \<open>One handler, two transports\<close>







subsection \<open>The remote store over gRPC\<close>






subsection \<open>A concrete wire\<close>











section \<open>The gRPC transport\<close>





end
