(* ===== verification/Gz_Knowledge.thy ===== *)
theory Gz_Knowledge
  imports Gz_Vector Gz_Ticket Gz_Graph
begin

text \<open>
  The knowledge layer (\<open>gonzalo-knowledge/src/lib.rs\<close>): records of a store, split into chunks per kind,
  embedded and indexed under one derived key per chunk. The store, the index and the embedder are the trait
  objects \<open>store_vt\<close>, \<open>vector_vt\<close> (\<open>gonzalo-vector/src/lib.rs\<close>) and \<open>ko_embed\<close>, each on a state of its own;
  the in-memory chunk counts are the fourth part of the state. An embedder is a model provider behind the
  caller: a step of its own state that may fail. The typed views of a body (\<open>memory.rs\<close>, \<open>session.rs\<close>,
  \<open>ticket.rs\<close> of \<open>gonzalo-domain\<close>) are read by \<open>serde_json\<close>, the parsers \<open>domain_parsers\<close>.

  An operation is one run of the code; the lock on the counts is never held across a call. The \<open>ordinal + 1\<close>
  of \<open>open\<close> wraps at 64 bits, as in a release build. Of two equal scores \<open>f32::max\<close> returns either; the model
  takes the second, which differs only for the two zeros.
\<close>

unbundle bit_operations_syntax

subsection \<open>Typed views\<close>

record memory_tier =
  mt_name :: string
  mt_content :: string

record topic =
  tp_slug :: string
  tp_bullets :: "string list"

record turn =
  tu_role :: string
  tu_text :: string

record session =
  se_name :: string
  se_turns :: "turn list"

record ticket_event =
  te_ticket_uid :: string
  te_kind :: string
  te_author :: string
  te_at :: int
  te_body :: string

record domain_parsers =
  dp_memory_tier :: "bytes \<Rightarrow> string + memory_tier"
  dp_topic :: "bytes \<Rightarrow> string + topic"
  dp_session :: "bytes \<Rightarrow> string + session"
  dp_ticket :: "bytes \<Rightarrow> string + ticket"
  dp_ticket_event :: "bytes \<Rightarrow> string + ticket_event"

subsection \<open>Text of the standard library\<close>

text \<open>The UTF-8 forms of the characters \<open>char::is_whitespace\<close> accepts.\<close>

definition white_spaces :: "string list" where
  "white_spaces =
     map (\<lambda>n. [char_of n]) [9, 10, 11, 12, 13, 32 :: nat] @
     map (map char_of) ([[0xC2, 0x85], [0xC2, 0xA0], [0xE1, 0x9A, 0x80]] :: nat list list) @
     map (\<lambda>n. [char_of (0xE2 :: nat), char_of (0x80 :: nat), char_of n])
       [0x80, 0x81, 0x82, 0x83, 0x84, 0x85, 0x86, 0x87, 0x88, 0x89, 0x8A, 0xA8, 0xA9, 0xAF :: nat] @
     map (map char_of) ([[0xE2, 0x81, 0x9F], [0xE3, 0x80, 0x80]] :: nat list list)"

lemma white_space_nonempty: "w \<in> set white_spaces \<Longrightarrow> w \<noteq> []"
proof -
  have "list_all (\<lambda>w. w \<noteq> []) white_spaces" by code_simp
  then show "w \<in> set white_spaces \<Longrightarrow> w \<noteq> []" by (auto simp: list_all_iff)
qed

function trim_start :: "string \<Rightarrow> string" where
  "trim_start s =
     (case find (\<lambda>w. starts_with w s) white_spaces of
        None \<Rightarrow> s
      | Some w \<Rightarrow> trim_start (drop (length w) s))"
  by pat_completeness auto
termination
proof (relation "measure length")
  fix s w
  assume "find (\<lambda>w. starts_with w s) white_spaces = Some w"
  then have "w \<noteq> []" "starts_with w s" using white_space_nonempty by (auto simp: find_Some_iff)
  then show "(drop (length w) s, s) \<in> measure length" by (cases s) (auto simp: starts_with_def)
qed simp

declare trim_start.simps [simp del]

function trim_end :: "string \<Rightarrow> string" where
  "trim_end s =
     (case find (\<lambda>w. strip_suffix w s \<noteq> None) white_spaces of
        None \<Rightarrow> s
      | Some w \<Rightarrow> trim_end (take (length s - length w) s))"
  by pat_completeness auto
termination
proof (relation "measure length")
  fix s w
  assume "find (\<lambda>w. strip_suffix w s \<noteq> None) white_spaces = Some w"
  then have "w \<noteq> []" "strip_suffix w s \<noteq> None" using white_space_nonempty by (auto simp: find_Some_iff)
  then show "(take (length s - length w) s, s) \<in> measure length" by (auto simp: strip_suffix_Some)
qed simp

declare trim_end.simps [simp del]

definition str_trim :: "string \<Rightarrow> string" where
  "str_trim s = trim_end (trim_start s)"

text \<open>\<open>str::split\<close> at a blank line.\<close>

fun split_blank :: "string \<Rightarrow> string \<Rightarrow> string list" where
  "split_blank cur [] = [cur]"
| "split_blank cur [c] = [cur @ [c]]"
| "split_blank cur (c # d # s) =
     (if c = CHR 10 \<and> d = CHR 10 then cur # split_blank [] s else split_blank (cur @ [c]) (d # s))"

definition split_paragraphs :: "string \<Rightarrow> string list" where
  "split_paragraphs text = filter (\<lambda>p. p \<noteq> []) (map str_trim (split_blank [] text))"

subsection \<open>Chunks\<close>

definition prepend_header :: "string \<Rightarrow> string list \<Rightarrow> string list" where
  "prepend_header header pieces =
     (case pieces of
        first # rest \<Rightarrow> (header @ CHR 10 # first) # rest
      | [] \<Rightarrow> [header])"

definition chunk :: "domain_parsers \<Rightarrow> rec \<Rightarrow> string list option result" where
  "chunk P r =
     (case rec_kind r of
        MemoryTier \<Rightarrow>
          bindR (codec_from_body (dp_memory_tier P) (rec_body r)) (\<lambda>t.
            Inr (Some (prepend_header (mt_name t) (split_paragraphs (mt_content t)))))
      | Topic \<Rightarrow>
          bindR (codec_from_body (dp_topic P) (rec_body r)) (\<lambda>t. Inr (Some (prepend_header (tp_slug t) (tp_bullets t))))
      | Session \<Rightarrow>
          bindR (codec_from_body (dp_session P) (rec_body r)) (\<lambda>s.
            Inr (Some (prepend_header (se_name s) (map tu_text (se_turns s)))))
      | Ticket \<Rightarrow>
          bindR (codec_from_body (dp_ticket P) (rec_body r)) (\<lambda>t.
            Inr (Some ((tk_title t @ CHR 10 # join '' '' (tk_labels t)) # split_paragraphs (tb_markdown (tk_body t)))))
      | TicketEvent \<Rightarrow> bindR (codec_from_body (dp_ticket_event P) (rec_body r)) (\<lambda>e. Inr (Some [te_body e]))
      | _ \<Rightarrow> Inr None)"

definition knowledge_text :: "domain_parsers \<Rightarrow> rec \<Rightarrow> string option" where
  "knowledge_text P r =
     (case chunk P r of
        Inr (Some cs) \<Rightarrow> Some (join [CHR 10] cs)
      | _ \<Rightarrow> None)"

definition OVERFETCH :: nat where
  "OVERFETCH = 8"

definition CHUNK_SEP :: char where
  "CHUNK_SEP = CHR 0x1F"

definition chunk_key :: "record_key \<Rightarrow> nat \<Rightarrow> record_key" where
  "chunk_key p n = RecordKey (namespace p) (collection p) (key_id p @ CHUNK_SEP # show_nat n)"

definition parent_key :: "record_key \<Rightarrow> record_key \<times> nat" where
  "parent_key c =
     (case rsplit_once CHUNK_SEP (key_id c) of
        Some (i, ord) \<Rightarrow>
          (RecordKey (namespace c) (collection c) i, case parse_usize ord of Inr n \<Rightarrow> n | Inl _ \<Rightarrow> 0)
      | None \<Rightarrow> (c, 0))"

subsection \<open>The traits\<close>

record 'v vector_vt =
  vi_upsert :: "record_key \<Rightarrow> f32 list \<Rightarrow> ('v, core_error, unit) io"
  vi_remove :: "record_key \<Rightarrow> ('v, core_error, unit) io"
  vi_query :: "f32 list \<Rightarrow> nat \<Rightarrow> key_prefix \<Rightarrow> ('v, core_error, vmatch list) io"
  vi_upsert_many :: "vec_entry list \<Rightarrow> ('v, core_error, unit) io"
  vi_keys :: "key_prefix \<Rightarrow> ('v, core_error, record_key list) io"

definition mvi_vt :: "(f32 list \<Rightarrow> f32 list \<Rightarrow> f32) \<Rightarrow> vec_map vector_vt" where
  "mvi_vt cosine =
     \<lparr>vi_upsert = mvi_upsert, vi_remove = mvi_remove, vi_query = (\<lambda>q k f m. (mvi_query cosine q k f m, m)),
      vi_upsert_many = mvi_upsert_many, vi_keys = (\<lambda>f m. (Inr (mvi_keys f m), m))\<rparr>"

record ('s, 'v, 'e) knowledge_ops =
  ko_store :: "'s store_vt"
  ko_index :: "'v vector_vt"
  ko_embed :: "string \<Rightarrow> ('e, core_error, f32 list) io"
  ko_parsers :: domain_parsers

record ('s, 'v, 'e) knowledge =
  kn_store :: 's
  kn_index :: 'v
  kn_embedder :: 'e
  kn_counts :: "record_key \<Rightarrow> nat option"

definition on_records :: "('s, 'x, 'a) io \<Rightarrow> (('s, 'v, 'e) knowledge, 'x, 'a) io" where
  "on_records m K = (case m (kn_store K) of (r, s) \<Rightarrow> (r, K\<lparr>kn_store := s\<rparr>))"

definition on_index :: "('v, 'x, 'a) io \<Rightarrow> (('s, 'v, 'e) knowledge, 'x, 'a) io" where
  "on_index m K = (case m (kn_index K) of (r, v) \<Rightarrow> (r, K\<lparr>kn_index := v\<rparr>))"

definition on_embedder :: "('e, 'x, 'a) io \<Rightarrow> (('s, 'v, 'e) knowledge, 'x, 'a) io" where
  "on_embedder m K = (case m (kn_embedder K) of (r, e) \<Rightarrow> (r, K\<lparr>kn_embedder := e\<rparr>))"

definition count_of :: "('s, 'v, 'e) knowledge \<Rightarrow> record_key \<Rightarrow> nat" where
  "count_of K key = (case kn_counts K key of Some n \<Rightarrow> n | None \<Rightarrow> 0)"

definition set_count :: "record_key \<Rightarrow> nat option \<Rightarrow> (('s, 'v, 'e) knowledge, 'x, unit) io" where
  "set_count key n K = (Inr (), K\<lparr>kn_counts := (kn_counts K)(key := n)\<rparr>)"

subsection \<open>Operations\<close>

definition knowledge_new :: "'s \<Rightarrow> 'v \<Rightarrow> 'e \<Rightarrow> ('s, 'v, 'e) knowledge" where
  "knowledge_new s v e = \<lparr>kn_store = s, kn_index = v, kn_embedder = e, kn_counts = Map.empty\<rparr>"

definition count_chunk :: "(record_key \<Rightarrow> nat option) \<Rightarrow> record_key \<Rightarrow> record_key \<Rightarrow> nat option" where
  "count_chunk counts c =
     (case parent_key c of
        (p, n) \<Rightarrow> counts(p \<mapsto> max (case counts p of Some m \<Rightarrow> m | None \<Rightarrow> 0) ((n + 1) mod 2 ^ 64)))"

definition knowledge_open ::
  "('s, 'v, 'e) knowledge_ops \<Rightarrow> (('s, 'v, 'e) knowledge, core_error, unit) io" where
  "knowledge_open ko =
     bindE (on_index (vi_keys (ko_index ko) \<lparr>kp_namespace = None, kp_collection = None\<rparr>)) (\<lambda>ks K.
       (Inr (), K\<lparr>kn_counts := foldl count_chunk Map.empty ks\<rparr>))"

fun remove_chunks ::
  "('s, 'v, 'e) knowledge_ops \<Rightarrow> record_key \<Rightarrow> nat list \<Rightarrow> (('s, 'v, 'e) knowledge, core_error, unit) io" where
  "remove_chunks ko key [] = retE ()"
| "remove_chunks ko key (n # ns) =
     bindE (on_index (vi_remove (ko_index ko) (chunk_key key n))) (\<lambda>_. remove_chunks ko key ns)"

fun embed_chunks ::
  "('s, 'v, 'e) knowledge_ops \<Rightarrow> record_key \<Rightarrow> nat \<Rightarrow> string list \<Rightarrow>
   (('s, 'v, 'e) knowledge, core_error, vec_entry list) io" where
  "embed_chunks ko key n [] = retE []"
| "embed_chunks ko key n (text # texts) =
     bindE (on_embedder (ko_embed ko text)) (\<lambda>v.
     bindE (embed_chunks ko key (Suc n) texts) (\<lambda>items. retE ((chunk_key key n, v) # items)))"

definition index_chunks ::
  "('s, 'v, 'e) knowledge_ops \<Rightarrow> record_key \<Rightarrow> string list \<Rightarrow> (('s, 'v, 'e) knowledge, core_error, bool) io" where
  "index_chunks ko key texts K =
     bindE (remove_chunks ko key [length texts..<count_of K key]) (\<lambda>_.
     bindE (embed_chunks ko key 0 texts) (\<lambda>items.
     bindE (if items \<noteq> [] then on_index (vi_upsert_many (ko_index ko) items) else retE ()) (\<lambda>_.
     bindE (set_count key (Some (length texts))) (\<lambda>_. retE True)))) K"

definition knowledge_ingest ::
  "('s, 'v, 'e) knowledge_ops \<Rightarrow> record_key \<Rightarrow> (('s, 'v, 'e) knowledge, core_error, bool) io" where
  "knowledge_ingest ko key =
     bindE (on_records (vt_get (ko_store ko) key)) (\<lambda>found.
       case found of
         None \<Rightarrow> retE False
       | Some r \<Rightarrow>
           bindE (liftE (chunk (ko_parsers ko) r)) (\<lambda>cs.
             case cs of None \<Rightarrow> retE False | Some texts \<Rightarrow> index_chunks ko key texts))"

definition knowledge_remove ::
  "('s, 'v, 'e) knowledge_ops \<Rightarrow> record_key \<Rightarrow> (('s, 'v, 'e) knowledge, core_error, unit) io" where
  "knowledge_remove ko key K =
     bindE (remove_chunks ko key [0..<count_of K key]) (\<lambda>_. set_count key None) K"

subsection \<open>Queries\<close>

definition f32_is_nan :: "f32 \<Rightarrow> bool" where
  "f32_is_nan w \<longleftrightarrow> (w AND 0x7FFFFFFF) > 0x7F800000"

definition f32_max :: "f32 \<Rightarrow> f32 \<Rightarrow> f32" where
  "f32_max a b =
     (if f32_is_nan a then b else if f32_is_nan b then a else if total_key a \<le> total_key b then b else a)"

definition best_step :: "(record_key, f32) btree \<Rightarrow> vmatch \<Rightarrow> (record_key, f32) btree" where
  "best_step best m =
     (let p = fst (parent_key (ma_key m)) in
      bt_insert p (case bt_get best p of Some s \<Rightarrow> f32_max s (ma_score m) | None \<Rightarrow> ma_score m) best)"

record hit =
  hit_record :: rec
  hit_score :: f32

record chunk_hit =
  ch_record :: rec
  ch_score :: f32
  ch_ordinal :: nat
  ch_text :: string

fun resolve_hits ::
  "('s, 'v, 'e) knowledge_ops \<Rightarrow> (record_key \<times> f32) list \<Rightarrow> (('s, 'v, 'e) knowledge, core_error, hit list) io" where
  "resolve_hits ko [] = retE []"
| "resolve_hits ko ((p, score) # ranked) =
     bindE (on_records (vt_get (ko_store ko) p)) (\<lambda>found.
     bindE (resolve_hits ko ranked) (\<lambda>hits.
       retE (case found of Some r \<Rightarrow> \<lparr>hit_record = r, hit_score = score\<rparr> # hits | None \<Rightarrow> hits)))"

definition rank_parents :: "nat \<Rightarrow> vmatch list \<Rightarrow> (record_key \<times> f32) list" where
  "rank_parents k matches = take k (sort_key (\<lambda>e. - total_key (snd e)) (foldl best_step [] matches))"

definition knowledge_query ::
  "('s, 'v, 'e) knowledge_ops \<Rightarrow> string \<Rightarrow> nat \<Rightarrow> key_prefix \<Rightarrow> (('s, 'v, 'e) knowledge, core_error, hit list) io" where
  "knowledge_query ko text k f =
     (if k = 0 then retE []
      else
        bindE (on_embedder (ko_embed ko text)) (\<lambda>q.
        bindE (on_index (vi_query (ko_index ko) q (min (2 ^ 64 - 1) (k * OVERFETCH)) f)) (\<lambda>matches.
          resolve_hits ko (rank_parents k matches))))"

fun resolve_chunks ::
  "('s, 'v, 'e) knowledge_ops \<Rightarrow> vmatch list \<Rightarrow> (('s, 'v, 'e) knowledge, core_error, chunk_hit list) io" where
  "resolve_chunks ko [] = retE []"
| "resolve_chunks ko (m # ms) =
     (case parent_key (ma_key m) of
        (p, n) \<Rightarrow>
          bindE (on_records (vt_get (ko_store ko) p)) (\<lambda>found.
            case found of
              None \<Rightarrow> resolve_chunks ko ms
            | Some r \<Rightarrow>
                bindE (liftE (chunk (ko_parsers ko) r)) (\<lambda>cs.
                  let text = (case cs of Some ts \<Rightarrow> if n < length ts then ts ! n else [] | None \<Rightarrow> []) in
                  bindE (resolve_chunks ko ms) (\<lambda>hits.
                    retE (\<lparr>ch_record = r, ch_score = ma_score m, ch_ordinal = n, ch_text = text\<rparr> # hits)))))"

definition knowledge_query_chunks ::
  "('s, 'v, 'e) knowledge_ops \<Rightarrow> string \<Rightarrow> nat \<Rightarrow> key_prefix \<Rightarrow>
   (('s, 'v, 'e) knowledge, core_error, chunk_hit list) io" where
  "knowledge_query_chunks ko text k f =
     (if k = 0 then retE []
      else
        bindE (on_embedder (ko_embed ko text)) (\<lambda>q.
        bindE (on_index (vi_query (ko_index ko) q k f)) (\<lambda>matches. resolve_chunks ko matches)))"

definition knowledge_query_in_subgraph ::
  "('s, 'v, 'e) knowledge_ops \<Rightarrow> string \<Rightarrow> nat \<Rightarrow> graph_view \<Rightarrow> string \<Rightarrow>
   (('s, 'v, 'e) knowledge, core_error, hit list) io" where
  "knowledge_query_in_subgraph ko text k g start =
     (let neighborhood = bts_of_list (start # gv_callers_of g start @ gv_callees g start) in
      bindE (knowledge_query ko text k \<lparr>kp_namespace = None, kp_collection = None\<rparr>) (\<lambda>hits.
        retE (filter (\<lambda>h. key_id (rec_key (hit_record h)) \<in> set neighborhood) hits)))"

end
