(* ===== verification/Gz_KnowledgeProofs.thy ===== *)
theory Gz_KnowledgeProofs
  imports Gz_Knowledge Gz_RecordIndexProofs Gz_FleetProofs
begin

text \<open>
  What the knowledge layer needs from its parts, and what it then guarantees. \<open>exact_index\<close> is the contract
  of an exact vector index; the in-memory index provides it. In \<open>knowledge_base\<close>, over a store and an exact
  index, the vectors of a record are those of the chunks of its last ingest, the counts cover every indexed
  chunk, and a query ranks the parents of the matching chunks.
\<close>

subsection \<open>Derived keys\<close>

lemma rsplit_once_last: "c \<notin> set b \<Longrightarrow> rsplit_once c (a @ c # b) = Some (a, b)"
proof -
  assume c: "c \<notin> set b"
  have "takeWhile (\<lambda>x. x \<noteq> c) (rev b @ c # rev a) = rev b"
    using c by (subst takeWhile_append2) auto
  then show ?thesis by (simp add: rsplit_once_def Let_def)
qed

lemma sep_not_digit: "CHUNK_SEP \<notin> set (show_nat n)"
proof
  assume "CHUNK_SEP \<in> set (show_nat n)"
  then have "digit_of CHUNK_SEP \<noteq> None" by (rule show_nat_digit)
  moreover have "digit_of CHUNK_SEP = None" by code_simp
  ultimately show False by simp
qed

lemma split_chunk_id: "rsplit_once CHUNK_SEP (i @ CHUNK_SEP # show_nat n) = Some (i, show_nat n)"
  by (rule rsplit_once_last [OF sep_not_digit])

lemma show_nat_inj: "show_nat m = show_nat n \<Longrightarrow> m = n"
  by (metis show_nat_digits)

lemma chunk_key_inject [simp]: "chunk_key p m = chunk_key q n \<longleftrightarrow> p = q \<and> m = n"
proof
  assume eq: "chunk_key p m = chunk_key q n"
  then have ids: "key_id p @ CHUNK_SEP # show_nat m = key_id q @ CHUNK_SEP # show_nat n" by (simp add: chunk_key_def)
  have "key_id p = key_id q \<and> show_nat m = show_nat n"
    using split_chunk_id [of "key_id p" m, unfolded ids split_chunk_id] by simp
  with eq show "p = q \<and> m = n" by (auto simp: chunk_key_def record_key.expand dest: show_nat_inj)
qed simp

lemma parent_chunk: "fst (parent_key (chunk_key p n)) = p"
  by (cases p) (simp add: parent_key_def chunk_key_def split_chunk_id)

lemma parent_chunk_key: "n < 2 ^ 64 \<Longrightarrow> parent_key (chunk_key p n) = (p, n)"
  by (cases p) (simp add: parent_key_def chunk_key_def split_chunk_id parse_usize_show)

lemma parent_key_parts: "namespace (fst (parent_key c)) = namespace c" "collection (fst (parent_key c)) = collection c"
  by (auto simp: parent_key_def split: option.splits)

subsection \<open>The contract of an exact index\<close>

locale exact_index =
  fixes vi :: "'v vector_vt" and entries :: "'v \<Rightarrow> record_key \<Rightarrow> f32 list option" and ok :: "'v \<Rightarrow> bool"
    and score :: "f32 list \<Rightarrow> f32 list \<Rightarrow> f32" and dim :: nat
  assumes removes: "ok v \<Longrightarrow> \<exists>v'. vi_remove vi c v = (Inr (), v') \<and> ok v' \<and> entries v' = (entries v)(c := None)"
    and upserts: "ok v \<Longrightarrow> \<forall>(c, w) \<in> set items. length w = dim \<Longrightarrow>
      \<exists>v'. vi_upsert_many vi items v = (Inr (), v') \<and> ok v' \<and> entries v' = entries v ++ map_of (rev items)"
    and queries: "ok v \<Longrightarrow> length q = dim \<Longrightarrow>
      \<exists>ms. vi_query vi q n f v = (Inr ms, v) \<and> distinct (map ma_key ms) \<and>
        (\<forall>m \<in> set ms. \<exists>w. entries v (ma_key m) = Some w \<and> kp_matches f (ma_key m) \<and> ma_score m = score q w) \<and>
        (\<forall>c w. entries v c = Some w \<longrightarrow> kp_matches f c \<longrightarrow> c \<notin> ma_key ` set ms \<longrightarrow>
           n \<le> length ms \<and> (\<forall>m \<in> set ms. total_key (score q w) \<le> total_key (ma_score m)))"
    and listed: "ok v \<Longrightarrow> \<exists>ks. vi_keys vi f v = (Inr ks, v) \<and> set ks = {c. entries v c \<noteq> None \<and> kp_matches f c}"
    and finite_entries: "ok v \<Longrightarrow> finite (dom (entries v))"

lemma take_sort_top:
  fixes f :: "'a \<Rightarrow> 'b :: linorder"
  assumes "x \<in> set xs" "x \<notin> set (take n (sort_key f xs))"
  shows "n \<le> length xs \<and> (\<forall>y \<in> set (take n (sort_key f xs)). f y \<le> f x)"
proof -
  have "x \<in> set (take n (sort_key f xs)) \<union> set (drop n (sort_key f xs))"
    using assms(1) by (simp flip: set_append)
  with assms(2) have late: "x \<in> set (drop n (sort_key f xs))" by blast
  then have "drop n (sort_key f xs) \<noteq> []" by force
  then have "n \<le> length xs" by simp
  moreover have "sorted (map f (take n (sort_key f xs) @ drop n (sort_key f xs)))" by simp
  ultimately show ?thesis using late by (auto simp only: map_append sorted_append set_map)
qed

lemma distinct_map_take_sort: "distinct (map g xs) \<Longrightarrow> distinct (map g (take n (sort_key f xs)))"
  by (simp add: distinct_map) (metis inj_on_subset set_sort set_take_subset)

lemma memory_query:
  assumes "bt_ok m" "dims (length q) m"
  shows "\<exists>ms. mvi_query cosine q n f m = Inr ms \<and> distinct (map ma_key ms) \<and>
    (\<forall>a \<in> set ms. \<exists>w. bt_get m (ma_key a) = Some w \<and> kp_matches f (ma_key a) \<and> ma_score a = cosine q w) \<and>
    (\<forall>c w. bt_get m c = Some w \<longrightarrow> kp_matches f c \<longrightarrow> c \<notin> ma_key ` set ms \<longrightarrow>
       n \<le> length ms \<and> (\<forall>a \<in> set ms. total_key (cosine q w) \<le> total_key (ma_score a)))"
proof -
  let ?all = "map (\<lambda>(c, w). \<lparr>ma_key = c, ma_score = cosine q w\<rparr>) (collect_where (kp_matches f) m)"
  let ?f = "\<lambda>a. (- total_key (ma_score a), ma_key a)"
  let ?ms = "take n (sort_key ?f ?all)"
  have run: "mvi_query cosine q n f m = Inr ?ms"
    using check_dim_ok [OF assms(2)] by (simp add: mvi_query_def Let_def)
  have keys: "map ma_key ?all = map fst (collect_where (kp_matches f) m)" by (simp add: case_prod_beta comp_def)
  have "distinct (map ma_key ?all)"
    unfolding keys unfolding collect_where_def by (intro bt_ok_distinct bt_ok_filter assms(1))
  then have d: "distinct (map ma_key ?ms)" by (rule distinct_map_take_sort)
  have mem: "a \<in> set ?all \<longleftrightarrow> (\<exists>w. bt_get m (ma_key a) = Some w \<and> kp_matches f (ma_key a) \<and> ma_score a = cosine q w)" for a
    using bt_get_in_set [OF assms(1)] by (cases a) (force simp: collect_where_def)
  have sub: "a \<in> set ?all" if "a \<in> set ?ms" for a using set_take_subset [of n "sort_key ?f ?all"] that by auto
  have top: "n \<le> length ?ms \<and> (\<forall>a \<in> set ?ms. total_key (cosine q w) \<le> total_key (ma_score a))"
    if c: "bt_get m c = Some w" "kp_matches f c" "c \<notin> ma_key ` set ?ms" for c w
  proof -
    let ?x = "\<lparr>ma_key = c, ma_score = cosine q w\<rparr>"
    have "?x \<in> set ?all" using c(1,2) by (subst mem) simp
    moreover have "?x \<notin> set ?ms" using c(3) by force
    ultimately have "n \<le> length ?all \<and> (\<forall>y \<in> set ?ms. ?f y \<le> ?f ?x)" by (rule take_sort_top)
    then show ?thesis by (fastforce simp: less_eq_prod_def)
  qed
  show ?thesis using run d sub mem top by (intro exI [of _ ?ms]) blast
qed

interpretation memory_index: exact_index "mvi_vt cosine" map_of "\<lambda>m. bt_ok m \<and> dims d m" cosine d for cosine d
proof
  fix v :: vec_map and c and items :: "vec_entry list" and q f n
  assume v: "bt_ok v \<and> dims d v"
  show "\<exists>v'. vi_remove (mvi_vt cosine) c v = (Inr (), v') \<and> (bt_ok v' \<and> dims d v') \<and> map_of v' = (map_of v)(c := None)"
    using v by (simp add: mvi_vt_def mvi_remove_def dims_remove)
  show "\<exists>v'. vi_upsert_many (mvi_vt cosine) items v = (Inr (), v') \<and> (bt_ok v' \<and> dims d v') \<and> map_of v' = map_of v ++ map_of (rev items)"
    if "\<forall>(c, w) \<in> set items. length w = d"
    using v upsert_many_ok [of d v items] that by (simp add: mvi_vt_def)
  show "\<exists>ms. vi_query (mvi_vt cosine) q n f v = (Inr ms, v) \<and> distinct (map ma_key ms) \<and>
      (\<forall>m \<in> set ms. \<exists>w. map_of v (ma_key m) = Some w \<and> kp_matches f (ma_key m) \<and> ma_score m = cosine q w) \<and>
      (\<forall>c w. map_of v c = Some w \<longrightarrow> kp_matches f c \<longrightarrow> c \<notin> ma_key ` set ms \<longrightarrow>
         n \<le> length ms \<and> (\<forall>m \<in> set ms. total_key (cosine q w) \<le> total_key (ma_score m)))"
    if "length q = d"
    using memory_query [of v q cosine n f] v that by (simp add: mvi_vt_def)
  show "\<exists>ks. vi_keys (mvi_vt cosine) f v = (Inr ks, v) \<and> set ks = {c. map_of v c \<noteq> None \<and> kp_matches f c}"
    by (auto simp: mvi_vt_def mvi_keys_def map_of_eq_None_iff)
  show "finite (dom (map_of v))" by (rule finite_dom_map_of)
qed

subsection \<open>Over a store and an index\<close>

fun embed_all :: "(string \<Rightarrow> ('e, core_error, f32 list) io) \<Rightarrow> string list \<Rightarrow> ('e, core_error, f32 list list) io" where
  "embed_all em [] = retE []"
| "embed_all em (t # ts) = bindE (em t) (\<lambda>v. bindE (embed_all em ts) (\<lambda>vs. retE (v # vs)))"

lemma embed_all_length: "embed_all em ts e = (Inr vs, e') \<Longrightarrow> length vs = length ts"
  by (induction ts arbitrary: e vs) (auto simp: retE_def bindE_def split: prod.splits sum.splits)

lemma embed_all_dims:
  "embed_all em ts e = (Inr vs, e') \<Longrightarrow> (\<And>t e v e'. em t e = (Inr v, e') \<Longrightarrow> length v = d) \<Longrightarrow> v \<in> set vs \<Longrightarrow> length v = d"
  by (induction ts arbitrary: e vs) (fastforce simp: retE_def bindE_def split: prod.splits sum.splits)+

definition chunk_items :: "record_key \<Rightarrow> f32 list list \<Rightarrow> vec_entry list" where
  "chunk_items key vs = map (\<lambda>n. (chunk_key key n, vs ! n)) [0..<length vs]"

lemma chunk_items_lookup:
  "map_of (rev (chunk_items key vs)) c = (if \<exists>n < length vs. c = chunk_key key n then Some (vs ! (THE n. c = chunk_key key n)) else None)"
proof (cases "\<exists>n < length vs. c = chunk_key key n")
  case True
  then obtain n where n: "n < length vs" "c = chunk_key key n" by blast
  have "distinct (map fst (rev (chunk_items key vs)))"
    by (simp add: chunk_items_def rev_map [symmetric] comp_def distinct_map inj_on_def)
  moreover have "(c, vs ! n) \<in> set (rev (chunk_items key vs))" using n by (auto simp: chunk_items_def)
  ultimately show ?thesis using n by (auto intro: map_of_is_SomeI)
next
  case False
  then show ?thesis by (auto simp: chunk_items_def map_of_eq_None_iff)
qed

lemma chunk_items_at: "n < length vs \<Longrightarrow> map_of (rev (chunk_items key vs)) (chunk_key key n) = Some (vs ! n)"
  by (auto simp: chunk_items_lookup)

lemma embed_chunks_eq:
  "embed_chunks ko key n ts K =
     (case embed_all (ko_embed ko) ts (kn_embedder K) of
        (Inl e, e') \<Rightarrow> (Inl e, K\<lparr>kn_embedder := e'\<rparr>)
      | (Inr vs, e') \<Rightarrow> (Inr (map (\<lambda>i. (chunk_key key (n + i), vs ! i)) [0..<length vs]), K\<lparr>kn_embedder := e'\<rparr>))"
proof (induction ts arbitrary: n K)
  case Nil
  then show ?case by (simp add: retE_def)
next
  case (Cons t ts)
  have shift: "map (\<lambda>i. (chunk_key key (n + i), (v # vs) ! i)) [0..<Suc (length vs)] =
    (chunk_key key n, v) # map (\<lambda>i. (chunk_key key (Suc n + i), vs ! i)) [0..<length vs]" for v and vs :: "f32 list list"
    by (simp add: upt_conv_Cons map_Suc_upt [symmetric] comp_def del: upt_Suc)
  show ?case
    using shift by (auto simp: Cons.IH bindE_def on_embedder_def retE_def split: prod.splits sum.splits)
qed

text \<open>Every indexed chunk is counted; the chunks of one record; what an operation on it leaves alone.\<close>

definition counted :: "('v \<Rightarrow> record_key \<Rightarrow> f32 list option) \<Rightarrow> ('s, 'v, 'e) knowledge \<Rightarrow> bool" where
  "counted entries K \<longleftrightarrow> (\<forall>p n. entries (kn_index K) (chunk_key p n) \<noteq> None \<longrightarrow> n < count_of K p)"

definition holds_chunks :: "(record_key \<Rightarrow> f32 list option) \<Rightarrow> record_key \<Rightarrow> f32 list list \<Rightarrow> bool" where
  "holds_chunks m key vs \<longleftrightarrow> (\<forall>n. m (chunk_key key n) = (if n < length vs then Some (vs ! n) else None))"

definition same_elsewhere :: "record_key \<Rightarrow> (record_key \<Rightarrow> f32 list option) \<Rightarrow> (record_key \<Rightarrow> f32 list option) \<Rightarrow> bool" where
  "same_elsewhere key m m' \<longleftrightarrow> (\<forall>c. (\<forall>n. c \<noteq> chunk_key key n) \<longrightarrow> m' c = m c)"

lemma counted_step:
  assumes "counted entries K" "same_elsewhere key (entries (kn_index K)) (entries (kn_index K'))"
    "holds_chunks (entries (kn_index K')) key vs" "length vs \<le> count_of K' key" "\<And>p. p \<noteq> key \<Longrightarrow> count_of K' p = count_of K p"
  shows "counted entries K'"
  unfolding counted_def
proof (intro allI impI)
  fix p n
  assume n: "entries (kn_index K') (chunk_key p n) \<noteq> None"
  show "n < count_of K' p"
  proof (cases "p = key")
    case True
    with n assms(3,4) show ?thesis by (auto simp: holds_chunks_def split: if_splits)
  next
    case False
    then have "entries (kn_index K') (chunk_key p n) = entries (kn_index K) (chunk_key p n)"
      using assms(2) by (simp add: same_elsewhere_def)
    with n assms(1,5) False show ?thesis by (simp add: counted_def)
  qed
qed

lemma best_fold:
  assumes "\<forall>m \<in> set ms. \<not> f32_is_nan (ma_score m)"
  defines "B \<equiv> foldl best_step [] ms"
  shows "bt_ok B \<and> fst ` set B = (\<lambda>m. fst (parent_key (ma_key m))) ` set ms \<and>
    (\<forall>p x. bt_get B p = Some x \<longrightarrow>
       (\<exists>m \<in> set ms. fst (parent_key (ma_key m)) = p \<and> ma_score m = x) \<and>
       (\<forall>m \<in> set ms. fst (parent_key (ma_key m)) = p \<longrightarrow> total_key (ma_score m) \<le> total_key x))"
  using assms(1) unfolding B_def
proof (induction ms rule: rev_induct)
  case (snoc m ms)
  let ?B = "foldl best_step [] ms" and ?p = "fst (parent_key (ma_key m))"
  from snoc have IH: "bt_ok ?B" "fst ` set ?B = (\<lambda>m. fst (parent_key (ma_key m))) ` set ms"
    "\<And>p x. bt_get ?B p = Some x \<Longrightarrow> \<exists>m \<in> set ms. fst (parent_key (ma_key m)) = p \<and> ma_score m = x"
    "\<And>p x m. bt_get ?B p = Some x \<Longrightarrow> m \<in> set ms \<Longrightarrow> fst (parent_key (ma_key m)) = p \<Longrightarrow> total_key (ma_score m) \<le> total_key x"
    by auto
  have nan: "\<not> f32_is_nan (ma_score m)" using snoc(2) by simp
  have old: "\<not> f32_is_nan x" if "bt_get ?B p = Some x" for p x using IH(3) [OF that] snoc(2) by auto
  let ?x = "case bt_get ?B ?p of Some y \<Rightarrow> f32_max y (ma_score m) | None \<Rightarrow> ma_score m"
  have step: "foldl best_step [] (ms @ [m]) = bt_insert ?p ?x ?B" by (simp add: best_step_def Let_def)
  have fresh: "bt_get ?B ?p = None \<Longrightarrow> m' \<in> set ms \<Longrightarrow> fst (parent_key (ma_key m')) \<noteq> ?p" for m'
  proof -
    assume "bt_get ?B ?p = None" "m' \<in> set ms"
    then have "?p \<notin> (\<lambda>m. fst (parent_key (ma_key m))) ` set ms" unfolding IH(2) [symmetric] by (simp add: map_of_eq_None_iff)
    with \<open>m' \<in> set ms\<close> show ?thesis by (metis image_eqI)
  qed
  have mine: "(\<exists>m' \<in> set (ms @ [m]). fst (parent_key (ma_key m')) = ?p \<and> ma_score m' = ?x) \<and>
      (\<forall>m' \<in> set (ms @ [m]). fst (parent_key (ma_key m')) = ?p \<longrightarrow> total_key (ma_score m') \<le> total_key ?x)"
  proof (cases "bt_get ?B ?p")
    case None
    then show ?thesis using fresh by auto
  next
    case (Some y)
    have max: "total_key (f32_max y (ma_score m)) = max (total_key y) (total_key (ma_score m))"
      "f32_max y (ma_score m) = y \<or> f32_max y (ma_score m) = ma_score m"
      using nan old [OF Some] by (auto simp: f32_max_def)
    show ?thesis using IH(3,4) [OF Some] max by (fastforce simp: Some)
  qed
  show ?case unfolding step
  proof (intro conjI allI impI)
    show "bt_ok (bt_insert ?p ?x ?B)" by (simp add: IH(1))
    show "fst ` set (bt_insert ?p ?x ?B) = (\<lambda>m. fst (parent_key (ma_key m))) ` set (ms @ [m])" by (simp add: IH(2))
    fix p x
    assume "bt_get (bt_insert ?p ?x ?B) p = Some x"
    then have "(p = ?p \<and> x = ?x) \<or> (p \<noteq> ?p \<and> bt_get ?B p = Some x)" using IH(1) by (auto split: if_splits)
    then show "\<exists>m' \<in> set (ms @ [m]). fst (parent_key (ma_key m')) = p \<and> ma_score m' = x"
      "\<forall>m' \<in> set (ms @ [m]). fst (parent_key (ma_key m')) = p \<longrightarrow> total_key (ma_score m') \<le> total_key x"
      using mine IH(3,4) by (elim disjE; force)+
  qed
qed simp

locale knowledge_base = planned_store H cap vk "ko_store ko" abs inv now +
  exact_index "ko_index ko" entries ok score dim
  for H cap vk and ko :: "('s, 'v, 'e) knowledge_ops" and abs inv now and entries ok score dim +
  assumes embeds: "ko_embed ko t e = (Inr w, e') \<Longrightarrow> length w = dim"
begin

lemma removed:
  assumes "ok (kn_index K)"
  shows "\<exists>v'. remove_chunks ko key ns K = (Inr (), K\<lparr>kn_index := v'\<rparr>) \<and> ok v' \<and>
    entries v' = (\<lambda>c. if c \<in> chunk_key key ` set ns then None else entries (kn_index K) c)"
  using assms
proof (induction ns arbitrary: K)
  case Nil
  then show ?case by (intro exI [of _ "kn_index K"]) (simp add: retE_def)
next
  case (Cons n ns)
  obtain v1 where v1: "vi_remove (ko_index ko) (chunk_key key n) (kn_index K) = (Inr (), v1)" "ok v1"
    "entries v1 = (entries (kn_index K))(chunk_key key n := None)" using removes [OF Cons.prems] by blast
  have "\<exists>v2. remove_chunks ko key ns (K\<lparr>kn_index := v1\<rparr>) = (Inr (), K\<lparr>kn_index := v2\<rparr>) \<and> ok v2 \<and>
    entries v2 = (\<lambda>c. if c \<in> chunk_key key ` set ns then None else entries v1 c)"
    using Cons.IH [of "K\<lparr>kn_index := v1\<rparr>"] v1(2) by (simp cong: if_cong)
  then obtain v2 where v2: "remove_chunks ko key ns (K\<lparr>kn_index := v1\<rparr>) = (Inr (), K\<lparr>kn_index := v2\<rparr>)" "ok v2"
    "entries v2 = (\<lambda>c. if c \<in> chunk_key key ` set ns then None else entries v1 c)" by (elim exE conjE) (rule that)
  show ?case using v1 v2 by (intro exI [of _ v2]) (auto simp: bindE_def on_index_def fun_eq_iff)
qed

lemma upserted:
  assumes "ok v" "\<forall>w \<in> set vs. length w = dim"
  shows "\<exists>v'. (if chunk_items key vs \<noteq> [] then on_index (vi_upsert_many (ko_index ko) (chunk_items key vs)) else retE ())
      (K\<lparr>kn_index := v\<rparr>) = (Inr (), K\<lparr>kn_index := v'\<rparr>) \<and> ok v' \<and> entries v' = entries v ++ map_of (rev (chunk_items key vs))"
proof (cases "vs = []")
  case False
  have "\<forall>(c, w) \<in> set (chunk_items key vs). length w = dim" using assms(2) by (auto simp: chunk_items_def)
  then obtain v' where "vi_upsert_many (ko_index ko) (chunk_items key vs) v = (Inr (), v')" "ok v'"
    "entries v' = entries v ++ map_of (rev (chunk_items key vs))" using upserts [OF assms(1)] by blast
  then show ?thesis using False by (intro exI [of _ v']) (simp add: on_index_def chunk_items_def)
qed (use assms(1) in \<open>intro exI [of _ v], simp add: chunk_items_def retE_def\<close>)

lemma indexed:
  assumes "ok (kn_index K)" "counted entries K"
  shows "case embed_all (ko_embed ko) ts (kn_embedder K) of
      (Inl e, e') \<Rightarrow> \<exists>v'. index_chunks ko key ts K = (Inl e, K\<lparr>kn_index := v', kn_embedder := e'\<rparr>) \<and> ok v' \<and>
        entries v' = (\<lambda>c. if c \<in> chunk_key key ` {length ts..<count_of K key} then None else entries (kn_index K) c)
    | (Inr vs, e') \<Rightarrow> \<exists>v'. index_chunks ko key ts K =
          (Inr True, K\<lparr>kn_index := v', kn_embedder := e', kn_counts := (kn_counts K)(key \<mapsto> length ts)\<rparr>) \<and> ok v' \<and>
        holds_chunks (entries v') key vs \<and> same_elsewhere key (entries (kn_index K)) (entries v')"
proof -
  obtain v1 where v1: "remove_chunks ko key [length ts..<count_of K key] K = (Inr (), K\<lparr>kn_index := v1\<rparr>)" "ok v1"
    "entries v1 = (\<lambda>c. if c \<in> chunk_key key ` {length ts..<count_of K key} then None else entries (kn_index K) c)"
    using removed [OF assms(1), of key "[length ts..<count_of K key]"] by auto
  obtain res e' where run: "embed_all (ko_embed ko) ts (kn_embedder K) = (res, e')" by (rule prod.exhaust)
  show ?thesis
  proof (cases res)
    case (Inl e)
    with run v1 show ?thesis
      by (auto intro!: exI [of _ v1] simp: index_chunks_def bindE_def embed_chunks_eq)
  next
    case (Inr vs)
    note len = embed_all_length [OF run [unfolded Inr]]
    have "\<forall>w \<in> set vs. length w = dim" using embed_all_dims [OF run [unfolded Inr]] embeds by blast
    have swap: "K\<lparr>kn_embedder := e', kn_index := x\<rparr> = K\<lparr>kn_index := x, kn_embedder := e'\<rparr>" for x by simp
    from upserted [OF v1(2) \<open>\<forall>w \<in> set vs. length w = dim\<close>, of key "K\<lparr>kn_embedder := e'\<rparr>", unfolded swap] obtain v2 where v2:
      "(if chunk_items key vs \<noteq> [] then on_index (vi_upsert_many (ko_index ko) (chunk_items key vs)) else retE ())
        (K\<lparr>kn_index := v1, kn_embedder := e'\<rparr>) = (Inr (), K\<lparr>kn_index := v2, kn_embedder := e'\<rparr>)" "ok v2"
      "entries v2 = entries v1 ++ map_of (rev (chunk_items key vs))" by blast
    have items: "embed_chunks ko key 0 ts (K\<lparr>kn_index := v1\<rparr>) = (Inr (chunk_items key vs), K\<lparr>kn_index := v1, kn_embedder := e'\<rparr>)"
      by (simp add: embed_chunks_eq run Inr chunk_items_def)
    have ran: "index_chunks ko key ts K =
        (Inr True, K\<lparr>kn_index := v2, kn_embedder := e', kn_counts := (kn_counts K)(key \<mapsto> length ts)\<rparr>)"
      unfolding index_chunks_def by (simp only: bindE_def v1(1) items v2(1) prod.case sum.case) (simp add: set_count_def retE_def)
    have "holds_chunks (entries v2) key vs"
      unfolding holds_chunks_def
    proof
      fix n
      show "entries v2 (chunk_key key n) = (if n < length vs then Some (vs ! n) else None)"
      proof (cases "n < length vs")
        case False
        then have "map_of (rev (chunk_items key vs)) (chunk_key key n) = None" by (auto simp: chunk_items_lookup)
        moreover have "entries v1 (chunk_key key n) = None"
          using False len assms(2) by (auto simp: v1(3) counted_def not_less)
        ultimately show ?thesis using False by (simp add: v2(3) map_add_def)
      qed (simp add: v2(3) map_add_def chunk_items_at)
    qed
    moreover have "same_elsewhere key (entries (kn_index K)) (entries v2)"
      by (auto simp: same_elsewhere_def v2(3) v1(3) map_add_def chunk_items_lookup)
    ultimately show ?thesis using run ran v2(2) by (auto intro!: exI [of _ v2] simp: Inr)
  qed
qed

lemma counted_indexed:
  assumes "counted entries K" "holds_chunks (entries v') key vs" "same_elsewhere key (entries (kn_index K)) (entries v')"
    "length vs = length ts"
  shows "counted entries (K\<lparr>kn_index := v', kn_embedder := e', kn_counts := (kn_counts K)(key \<mapsto> length ts)\<rparr>)"
  by (rule counted_step [OF assms(1), where key = key and vs = vs]) (use assms(2-4) in \<open>simp_all add: count_of_def\<close>)

lemma forgotten:
  assumes "ok (kn_index K)" "counted entries K"
  shows "\<exists>v'. knowledge_remove ko key K = (Inr (), K\<lparr>kn_index := v', kn_counts := (kn_counts K)(key := None)\<rparr>) \<and> ok v' \<and>
    holds_chunks (entries v') key [] \<and> same_elsewhere key (entries (kn_index K)) (entries v') \<and>
    counted entries (K\<lparr>kn_index := v', kn_counts := (kn_counts K)(key := None)\<rparr>)"
proof -
  obtain v' where v': "remove_chunks ko key [0..<count_of K key] K = (Inr (), K\<lparr>kn_index := v'\<rparr>)" "ok v'"
    "entries v' = (\<lambda>c. if c \<in> chunk_key key ` {0..<count_of K key} then None else entries (kn_index K) c)"
    using removed [OF assms(1), of key "[0..<count_of K key]"] by auto
  have none: "holds_chunks (entries v') key []" using assms(2) by (auto simp: holds_chunks_def v'(3) counted_def)
  have same: "same_elsewhere key (entries (kn_index K)) (entries v')" by (auto simp: same_elsewhere_def v'(3))
  have "counted entries (K\<lparr>kn_index := v', kn_counts := (kn_counts K)(key := None)\<rparr>)"
    by (rule counted_step [OF assms(2), where key = key and vs = "[]"]) (simp_all add: none same count_of_def)
  with v' none same show ?thesis by (intro exI [of _ v']) (simp add: knowledge_remove_def bindE_def set_count_def)
qed

lemma ingested:
  assumes "inv (kn_store K)" "vk key"
  shows "knowledge_ingest ko key K =
    (case live_only (abs (kn_store K) key) of
       None \<Rightarrow> (Inr False, K)
     | Some r \<Rightarrow>
         (case chunk (ko_parsers ko) r of
            Inl e \<Rightarrow> (Inl e, K)
          | Inr None \<Rightarrow> (Inr False, K)
          | Inr (Some ts) \<Rightarrow> index_chunks ko key ts K))"
  using get [OF assms]
  by (simp add: knowledge_ingest_def bindE_def on_records_def retE_def liftE_def split: option.splits sum.splits)

lemma resolved:
  assumes "inv (kn_store K)" "\<forall>e \<in> set ranked. vk (fst e)"
  shows "resolve_hits ko ranked K =
    (Inr (map (\<lambda>e. \<lparr>hit_record = the (live_only (abs (kn_store K) (fst e))), hit_score = snd e\<rparr>)
       (filter (\<lambda>e. live_only (abs (kn_store K) (fst e)) \<noteq> None) ranked)), K)"
  using assms(2)
proof (induction ranked)
  case Nil
  then show ?case by (simp add: retE_def)
next
  case (Cons e ranked)
  obtain p x where e: "e = (p, x)" by (cases e)
  with Cons get [OF assms(1), of p] show ?case
    by (auto simp: bindE_def on_records_def retE_def split: option.splits)
qed

end

subsection \<open>Reopening\<close>

lemma count_chunk_grows:
  "(case counts p of Some m \<Rightarrow> m | None \<Rightarrow> 0) \<le> (case foldl count_chunk counts ks p of Some m \<Rightarrow> m | None \<Rightarrow> 0)"
proof (induction ks arbitrary: counts)
  case (Cons c ks)
  have "(case counts p of Some m \<Rightarrow> m | None \<Rightarrow> 0) \<le> (case count_chunk counts c p of Some m \<Rightarrow> m | None \<Rightarrow> 0)"
    by (auto simp: count_chunk_def split: prod.splits option.splits)
  with Cons.IH [of "count_chunk counts c"] show ?case by simp
qed simp

lemma count_chunk_covers:
  assumes "c \<in> set ks" "parent_key c = (p, n)" "n + 1 < 2 ^ 64"
  shows "n < (case foldl count_chunk counts ks p of Some m \<Rightarrow> m | None \<Rightarrow> 0)"
  using assms(1)
proof (induction ks arbitrary: counts)
  case (Cons c' ks)
  show ?case
  proof (cases "c = c'")
    case True
    have "n < (case count_chunk counts c p of Some m \<Rightarrow> m | None \<Rightarrow> 0)"
      using assms(2,3) by (simp add: count_chunk_def)
    with count_chunk_grows [of "count_chunk counts c" p ks] True show ?thesis by simp
  qed (use Cons in simp)
qed simp

context knowledge_base
begin

lemma opened:
  assumes "ok (kn_index K)" "\<And>p n. entries (kn_index K) (chunk_key p n) \<noteq> None \<Longrightarrow> n + 1 < 2 ^ 64"
  shows "\<exists>cs. knowledge_open ko K = (Inr (), K\<lparr>kn_counts := cs\<rparr>) \<and> counted entries (K\<lparr>kn_counts := cs\<rparr>)"
proof -
  obtain ks where ks: "vi_keys (ko_index ko) \<lparr>kp_namespace = None, kp_collection = None\<rparr> (kn_index K) = (Inr ks, kn_index K)"
    "set ks = {c. entries (kn_index K) c \<noteq> None \<and> kp_matches \<lparr>kp_namespace = None, kp_collection = None\<rparr> c}"
    using listed [OF assms(1)] by blast
  let ?cs = "foldl count_chunk Map.empty ks"
  have "n < count_of (K\<lparr>kn_counts := ?cs\<rparr>) p" if n: "entries (kn_index K) (chunk_key p n) \<noteq> None" for p n
  proof -
    have small: "n + 1 < 2 ^ 64" by (rule assms(2) [OF n])
    have "chunk_key p n \<in> set ks" using n by (simp add: ks(2) kp_matches_def is_none_or_def)
    moreover have "parent_key (chunk_key p n) = (p, n)" using small by (intro parent_chunk_key) simp
    ultimately show ?thesis using count_chunk_covers small by (simp add: count_of_def)
  qed
  then show ?thesis
    using ks(1) by (intro exI [of _ ?cs]) (simp add: knowledge_open_def bindE_def on_index_def counted_def)
qed

end

subsection \<open>Ranking\<close>

text \<open>The chunks a query may match, their parents, and the best score of a parent.\<close>

definition matching :: "(record_key \<Rightarrow> f32 list option) \<Rightarrow> key_prefix \<Rightarrow> record_key set" where
  "matching m f = {c. m c \<noteq> None \<and> kp_matches f c}"

definition parents :: "(record_key \<Rightarrow> f32 list option) \<Rightarrow> key_prefix \<Rightarrow> record_key set" where
  "parents m f = (\<lambda>c. fst (parent_key c)) ` matching m f"

definition best_score ::
  "(f32 list \<Rightarrow> f32 list \<Rightarrow> f32) \<Rightarrow> f32 list \<Rightarrow> (record_key \<Rightarrow> f32 list option) \<Rightarrow> key_prefix \<Rightarrow> record_key \<Rightarrow> int" where
  "best_score score q m f p = Max ((\<lambda>c. total_key (score q (the (m c)))) ` {c \<in> matching m f. fst (parent_key c) = p})"

lemma sorted_take_desc: "sorted_wrt (\<lambda>a b. total_key (snd b) \<le> total_key (snd a)) (take k (sort_key (\<lambda>e. - total_key (snd e)) B))"
proof -
  have "sorted (map (\<lambda>e. - total_key (snd e)) (sort_key (\<lambda>e. - total_key (snd e)) B))" by simp
  then have "sorted_wrt (\<lambda>a b. total_key (snd b) \<le> total_key (snd a)) (sort_key (\<lambda>e. - total_key (snd e)) B)"
    by (simp add: sorted_map)
  then show ?thesis by (rule sorted_wrt_take)
qed

context knowledge_base
begin

lemma fetched:
  assumes "ok v" "length q = dim" "\<forall>c \<in> matching (entries v) f. \<not> f32_is_nan (score q (the (entries v c)))"
  shows "\<exists>ms. vi_query (ko_index ko) q n f v = (Inr ms, v) \<and> (\<forall>m \<in> set ms. \<not> f32_is_nan (ma_score m)) \<and>
    ma_key ` set ms \<subseteq> matching (entries v) f \<and> (\<forall>m \<in> set ms. ma_score m = score q (the (entries v (ma_key m)))) \<and>
    (card (matching (entries v) f) \<le> n \<longrightarrow> ma_key ` set ms = matching (entries v) f)"
proof -
  obtain ms where ms: "vi_query (ko_index ko) q n f v = (Inr ms, v)" "distinct (map ma_key ms)"
    "\<forall>m \<in> set ms. \<exists>w. entries v (ma_key m) = Some w \<and> kp_matches f (ma_key m) \<and> ma_score m = score q w"
    "\<forall>c w. entries v c = Some w \<longrightarrow> kp_matches f c \<longrightarrow> c \<notin> ma_key ` set ms \<longrightarrow> n \<le> length ms \<and>
      (\<forall>m \<in> set ms. total_key (score q w) \<le> total_key (ma_score m))"
    using queries [OF assms(1,2)] by blast
  have sub: "ma_key ` set ms \<subseteq> matching (entries v) f" using ms(3) by (auto simp: matching_def)
  have scores: "\<forall>m \<in> set ms. ma_score m = score q (the (entries v (ma_key m)))" using ms(3) by fastforce
  have fin: "finite (matching (entries v) f)"
    by (rule finite_subset [OF _ finite_entries [OF assms(1)]]) (auto simp: matching_def)
  have "ma_key ` set ms = matching (entries v) f" if small: "card (matching (entries v) f) \<le> n"
  proof (rule ccontr)
    assume "ma_key ` set ms \<noteq> matching (entries v) f"
    with sub have less: "ma_key ` set ms \<subset> matching (entries v) f" by blast
    then obtain c where "c \<in> matching (entries v) f" "c \<notin> ma_key ` set ms" by blast
    then have "n \<le> length ms" using ms(4) by (auto simp: matching_def)
    also have "length ms = card (ma_key ` set ms)" using distinct_card [OF ms(2)] by simp
    also have "\<dots> < card (matching (entries v) f)" by (rule psubset_card_mono [OF fin less])
    finally show False using small by simp
  qed
  with ms(1) sub scores assms(3) show ?thesis by (intro exI [of _ ms]) auto
qed

text \<open>The ranking of a complete window.\<close>

lemma window_best:
  assumes "ok v" "ma_key ` set ms = matching (entries v) f" "\<forall>m \<in> set ms. ma_score m = score q (the (entries v (ma_key m)))"
    "\<forall>m \<in> set ms. \<not> f32_is_nan (ma_score m)" "(p, x) \<in> set (foldl best_step [] ms)"
  shows "total_key x = best_score score q (entries v) f p"
proof -
  note B = best_fold [OF assms(4)]
  have p: "bt_get (foldl best_step [] ms) p = Some x" using B assms(5) by (simp add: bt_get_in_set)
  with B obtain m where m: "m \<in> set ms" "fst (parent_key (ma_key m)) = p" "ma_score m = x" by blast
  have fin: "finite (matching (entries v) f)"
    by (rule finite_subset [OF _ finite_entries [OF assms(1)]]) (auto simp: matching_def)
  show ?thesis
    unfolding best_score_def
  proof (rule Max_eqI [symmetric])
    show "finite ((\<lambda>c. total_key (score q (the (entries v c)))) ` {c \<in> matching (entries v) f. fst (parent_key c) = p})"
      using fin by simp
    show "total_key x \<in> (\<lambda>c. total_key (score q (the (entries v c)))) ` {c \<in> matching (entries v) f. fst (parent_key c) = p}"
      using m assms(2,3) by (intro image_eqI [of _ _ "ma_key m"]) auto
    fix y
    assume "y \<in> (\<lambda>c. total_key (score q (the (entries v c)))) ` {c \<in> matching (entries v) f. fst (parent_key c) = p}"
    then obtain c where c: "c \<in> matching (entries v) f" "fst (parent_key c) = p" "y = total_key (score q (the (entries v c)))"
      by blast
    then obtain m' where m': "m' \<in> set ms" "c = ma_key m'" unfolding assms(2) [symmetric] by blast
    have "y = total_key (ma_score m')" using assms(3) m' c(3) by simp
    moreover have "total_key (ma_score m') \<le> total_key x" using B p m'(1) c(2) unfolding m'(2) by blast
    ultimately show "y \<le> total_key x" by simp
  qed
qed

lemma queried:
  assumes "inv (kn_store K)" "ok (kn_index K)" "0 < k" "k * OVERFETCH < 2 ^ 64"
    and q: "ko_embed ko txt (kn_embedder K) = (Inr q, e')"
    and "\<forall>p \<in> parents (entries (kn_index K)) f. vk p"
    and "\<forall>c \<in> matching (entries (kn_index K)) f. \<not> f32_is_nan (score q (the (entries (kn_index K) c)))"
  obtains B where "knowledge_query ko txt k f K =
      (Inr (map (\<lambda>e. \<lparr>hit_record = the (live_only (abs (kn_store K) (fst e))), hit_score = snd e\<rparr>)
        (filter (\<lambda>e. live_only (abs (kn_store K) (fst e)) \<noteq> None) (take k (sort_key (\<lambda>e. - total_key (snd e)) B)))),
       K\<lparr>kn_embedder := e'\<rparr>)"
    and "distinct (map fst B)" "fst ` set B \<subseteq> parents (entries (kn_index K)) f"
    and "card (matching (entries (kn_index K)) f) \<le> k * OVERFETCH \<longrightarrow> fst ` set B = parents (entries (kn_index K)) f \<and>
      (\<forall>(p, x) \<in> set B. total_key x = best_score score q (entries (kn_index K)) f p)"
proof -
  obtain ms where ms: "vi_query (ko_index ko) q (k * OVERFETCH) f (kn_index K) = (Inr ms, kn_index K)"
    "\<forall>m \<in> set ms. \<not> f32_is_nan (ma_score m)" "ma_key ` set ms \<subseteq> matching (entries (kn_index K)) f"
    "\<forall>m \<in> set ms. ma_score m = score q (the (entries (kn_index K) (ma_key m)))"
    "card (matching (entries (kn_index K)) f) \<le> k * OVERFETCH \<Longrightarrow> ma_key ` set ms = matching (entries (kn_index K)) f"
    using fetched [OF assms(2) embeds [OF q] assms(7)] by blast
  note B = best_fold [OF ms(2)]
  let ?B = "foldl best_step [] ms"
  have keys: "fst ` set ?B = (\<lambda>c. fst (parent_key c)) ` ma_key ` set ms" using B by (simp add: image_image)
  have sub: "fst ` set ?B \<subseteq> parents (entries (kn_index K)) f" unfolding keys parents_def by (rule image_mono [OF ms(3)])
  have "\<forall>e \<in> set (rank_parents k ms). vk (fst e)"
    using sub assms(6) by (fastforce simp: rank_parents_def dest!: in_set_takeD)
  note hits = resolved [OF _ this, of "K\<lparr>kn_embedder := e'\<rparr>", simplified, OF assms(1), unfolded rank_parents_def]
  show thesis
  proof (rule that [of ?B])
    show "knowledge_query ko txt k f K =
      (Inr (map (\<lambda>e. \<lparr>hit_record = the (live_only (abs (kn_store K) (fst e))), hit_score = snd e\<rparr>)
        (filter (\<lambda>e. live_only (abs (kn_store K) (fst e)) \<noteq> None) (take k (sort_key (\<lambda>e. - total_key (snd e)) ?B)))),
       K\<lparr>kn_embedder := e'\<rparr>)"
      using assms(3,4) q ms(1) hits
      by (simp add: knowledge_query_def bindE_def on_embedder_def on_index_def min_absorb2 rank_parents_def)
    show "distinct (map fst ?B)" using B bt_ok_distinct by blast
    show "fst ` set ?B \<subseteq> parents (entries (kn_index K)) f" by (rule sub)
    show "card (matching (entries (kn_index K)) f) \<le> k * OVERFETCH \<longrightarrow> fst ` set ?B = parents (entries (kn_index K)) f \<and>
      (\<forall>(p, x) \<in> set ?B. total_key x = best_score score q (entries (kn_index K)) f p)"
    proof
      assume small: "card (matching (entries (kn_index K)) f) \<le> k * OVERFETCH"
      from ms(5) [OF small] window_best [OF assms(2) ms(5) [OF small] ms(4,2)] keys
      show "fst ` set ?B = parents (entries (kn_index K)) f \<and>
        (\<forall>(p, x) \<in> set ?B. total_key x = best_score score q (entries (kn_index K)) f p)"
        by (auto simp: parents_def)
    qed
  qed
qed

end

end
