(* ===== verification/Gz_KnowledgeProps.thy ===== *)
theory Gz_KnowledgeProps
  imports Gz_KnowledgeProofs Gz_Demo
begin

text \<open>
  The properties of the knowledge layer over the filesystem store and the in-memory index, for any embedder
  whose vectors have one dimension, with concrete inputs.
\<close>

lemma knowledge_on_files:
  assumes "fs_substrate H C" "ko_store ko = fs_vt H C st" "ko_index ko = mvi_vt cosine"
    "\<forall>t e v e'. ko_embed ko t e = (Inr v, e') \<longrightarrow> length v = d"
  shows "knowledge_base H (fs_cap st) fs_valid ko (fs_abs C (fs_root st)) (fs_inv H C (fs_root st)) fs_clock
    map_of (\<lambda>m. bt_ok m \<and> dims d m) cosine d"
  unfolding knowledge_base_def knowledge_base_axioms_def assms(2,3)
  using fs_substrate.planned [OF assms(1)] memory_index.exact_index_axioms assms(4) by blast

subsection \<open>A concrete knowledge store\<close>

definition demo_ko :: "(disk, vec_map, unit) knowledge_ops" where
  "demo_ko =
     \<lparr>ko_store = fs_vt demo_digest demo_codec demo_fs, ko_index = mvi_vt (\<lambda>a b. 0x3F800000),
      ko_embed = (\<lambda>t e. (Inr [of_nat (length t)], e)),
      ko_parsers =
        \<lparr>dp_memory_tier = (\<lambda>_. Inl ''malformed''), dp_topic = (\<lambda>bs. Inr \<lparr>tp_slug = ''greeting'', tp_bullets = [bs, bs]\<rparr>),
         dp_session = (\<lambda>_. Inl ''malformed''), dp_ticket = (\<lambda>_. Inl ''malformed''),
         dp_ticket_event = (\<lambda>_. Inl ''malformed'')\<rparr>\<rparr>"

lemma demo_ko:
  "ko_store demo_ko = fs_vt demo_digest demo_codec demo_fs" "ko_index demo_ko = mvi_vt (\<lambda>a b. 0x3F800000)"
  "\<forall>t e v e'. ko_embed demo_ko t e = (Inr v, e') \<longrightarrow> length v = 1"
  by (auto simp: demo_ko_def)

interpretation demo_knowledge: knowledge_base demo_digest "fs_cap demo_fs" fs_valid demo_ko "fs_abs demo_codec (fs_root demo_fs)"
  "fs_inv demo_digest demo_codec (fs_root demo_fs)" fs_clock map_of "\<lambda>m. bt_ok m \<and> dims 1 m" "\<lambda>a b. 0x3F800000" 1
  by (rule knowledge_on_files [OF demo.fs_substrate_axioms demo_ko])

section \<open>The knowledge layer\<close>

text \<open>
  C22. After an ingest the index holds exactly the chunks of the record. A key without a live record, and a
  record of a kind that is not knowledge (access records, manifests, checkpoints), changes nothing; so does a
  body that does not parse, which is an error. Otherwise every chunk of the record has the vector the embedder
  gave for it, every other vector the record once had is gone, and no other vector is touched. If an embedding
  fails nothing is written: the only vectors lost are those of chunks the record no longer has.
\<close>

theorem knowledge_ingest_exact:
  assumes "fs_substrate H C" "ko_store ko = fs_vt H C st" "ko_index ko = mvi_vt cosine"
    "\<forall>t e v e'. ko_embed ko t e = (Inr v, e') \<longrightarrow> length v = d"
    "fs_inv H C (fs_root st) (kn_store K)" "bt_ok (kn_index K)" "dims d (kn_index K)" "counted map_of K" "fs_valid key"
  shows "case live_only (fs_abs C (fs_root st) (kn_store K) key) of
      None \<Rightarrow> knowledge_ingest ko key K = (Inr False, K)
    | Some r \<Rightarrow>
        (case chunk (ko_parsers ko) r of
           Inl e \<Rightarrow> knowledge_ingest ko key K = (Inl e, K)
         | Inr None \<Rightarrow> knowledge_ingest ko key K = (Inr False, K)
         | Inr (Some ts) \<Rightarrow>
             (case embed_all (ko_embed ko) ts (kn_embedder K) of
                (Inl e, e') \<Rightarrow> \<exists>v'. knowledge_ingest ko key K = (Inl e, K\<lparr>kn_index := v', kn_embedder := e'\<rparr>) \<and>
                  bt_get v' = (\<lambda>c. if c \<in> chunk_key key ` {length ts..<count_of K key} then None else bt_get (kn_index K) c)
              | (Inr vs, e') \<Rightarrow> \<exists>v'. knowledge_ingest ko key K =
                    (Inr True, K\<lparr>kn_index := v', kn_embedder := e', kn_counts := (kn_counts K)(key \<mapsto> length ts)\<rparr>) \<and>
                  length vs = length ts \<and> holds_chunks (bt_get v') key vs \<and> same_elsewhere key (bt_get (kn_index K)) (bt_get v') \<and>
                  bt_ok v' \<and> dims d v' \<and>
                  counted map_of (K\<lparr>kn_index := v', kn_embedder := e', kn_counts := (kn_counts K)(key \<mapsto> length ts)\<rparr>)))"
proof -
  note kb = knowledge_on_files [where ko = ko, OF assms(1-4)]
  have ok: "bt_ok (kn_index K) \<and> dims d (kn_index K)" using assms(6,7) by blast
  show ?thesis
  proof (cases "live_only (fs_abs C (fs_root st) (kn_store K) key)")
    case (Some r)
    note run = knowledge_base.ingested [OF kb assms(5,9), unfolded Some, simplified]
    show ?thesis
    proof (cases "\<exists>ts. chunk (ko_parsers ko) r = Inr (Some ts)")
      case True
      then obtain ts where ts: "chunk (ko_parsers ko) r = Inr (Some ts)" by blast
      note ix = knowledge_base.indexed [OF kb ok assms(8), where ts = ts and key = key]
      obtain res e' where em: "embed_all (ko_embed ko) ts (kn_embedder K) = (res, e')" by (rule prod.exhaust)
      show ?thesis
      proof (cases res)
        case (Inr vs)
        have len: "length vs = length ts" by (rule embed_all_length [OF em [unfolded Inr]])
        from ix em Inr obtain v' where v': "index_chunks ko key ts K =
            (Inr True, K\<lparr>kn_index := v', kn_embedder := e', kn_counts := (kn_counts K)(key \<mapsto> length ts)\<rparr>)"
          "bt_ok v'" "dims d v'" "holds_chunks (bt_get v') key vs" "same_elsewhere key (bt_get (kn_index K)) (bt_get v')" by auto
        from knowledge_base.counted_indexed [OF kb assms(8) v'(4,5) len] v' len run
        show ?thesis by (auto simp: Some ts em Inr intro!: exI [of _ v'])
      qed (use ix em run in \<open>auto simp: Some ts\<close>)
    qed (use run in \<open>auto simp: Some split: sum.splits option.splits\<close>)
  qed (use knowledge_base.ingested [OF kb assms(5,9)] in simp)
qed

definition demo_known :: "(disk, vec_map, unit) knowledge" where
  "demo_known = knowledge_new demo_created [(chunk_key demo_key 0, [1])] ()"

lemma demo_stored:
  "live_only (fs_abs demo_codec (fs_root demo_fs) demo_created demo_key) =
     Some (with_folded None 32 (stamp 1700000000000 1700000000000 demo_rec))"
  by (simp add: demo_created(2) live_only_def demo_live)

lemma demo_chunks:
  "chunk (ko_parsers demo_ko) (with_folded None 32 (stamp 1700000000000 1700000000000 demo_rec)) =
     Inr (Some [''greeting\<newline>hello'', ''hello''])"
  by code_simp

theorem knowledge_ingest_exact_witness:
  "\<exists>v'. knowledge_ingest demo_ko demo_key (knowledge_new demo_created [] ()) =
      (Inr True, (knowledge_new demo_created v' ())\<lparr>kn_counts := [demo_key \<mapsto> 2]\<rparr>) \<and>
    bt_get v' (chunk_key demo_key 1) = Some [5] \<and> bt_get v' (chunk_key demo_key 2) = None"
proof -
  let ?K = "knowledge_new demo_created [] () :: (disk, vec_map, unit) knowledge"
  have start: "fs_inv demo_digest demo_codec (fs_root demo_fs) (kn_store ?K)" "bt_ok (kn_index ?K)" "dims 1 (kn_index ?K)"
    "counted map_of ?K" by (simp_all add: knowledge_new_def demo_created(1) dims_def counted_def)
  have embedded: "embed_all (ko_embed demo_ko) [''greeting\<newline>hello'', ''hello''] (kn_embedder ?K) = (Inr [[14], [5]], ())"
    by (simp add: demo_ko_def bindE_def retE_def)
  from knowledge_ingest_exact [OF demo.fs_substrate_axioms demo_ko start demo_key_valid]
  obtain v' where "knowledge_ingest demo_ko demo_key ?K = (Inr True, ?K\<lparr>kn_index := v', kn_counts := [demo_key \<mapsto> 2]\<rparr>)"
    "holds_chunks (bt_get v') demo_key [[14], [5]]"
    by (auto simp: numeral_2_eq_2 knowledge_new_def demo_stored demo_chunks embedded [unfolded knowledge_new_def, simplified])
  then show ?thesis by (intro exI [of _ v']) (simp add: holds_chunks_def knowledge_new_def numeral_2_eq_2)
qed

text \<open>
  C24. Counts survive a restart. Over an index some earlier run filled, \<open>open\<close> succeeds, changes nothing and
  counts every indexed chunk, so that the removal of a record that follows finds all its vectors: none of them is
  left to match a query, no other vector is touched, and neither is the store.
\<close>

theorem knowledge_reopen_removes:
  assumes "fs_substrate H C" "ko_store ko = fs_vt H C st" "ko_index ko = mvi_vt cosine"
    "\<forall>t e v e'. ko_embed ko t e = (Inr v, e') \<longrightarrow> length v = d"
    "bt_ok (kn_index K)" "dims d (kn_index K)"
    "\<forall>p n. bt_get (kn_index K) (chunk_key p n) \<noteq> None \<longrightarrow> n + 1 < 2 ^ 64"
  shows "\<exists>cs v'. knowledge_open ko K = (Inr (), K\<lparr>kn_counts := cs\<rparr>) \<and> counted map_of (K\<lparr>kn_counts := cs\<rparr>) \<and>
    knowledge_remove ko key (K\<lparr>kn_counts := cs\<rparr>) = (Inr (), K\<lparr>kn_index := v', kn_counts := cs(key := None)\<rparr>) \<and>
    holds_chunks (bt_get v') key [] \<and> same_elsewhere key (bt_get (kn_index K)) (bt_get v') \<and>
    counted map_of (K\<lparr>kn_index := v', kn_counts := cs(key := None)\<rparr>)"
proof -
  note kb = knowledge_on_files [where ko = ko, OF assms(1-4)]
  have ok: "bt_ok (kn_index K) \<and> dims d (kn_index K)" using assms(5,6) by blast
  obtain cs where cs: "knowledge_open ko K = (Inr (), K\<lparr>kn_counts := cs\<rparr>)" "counted map_of (K\<lparr>kn_counts := cs\<rparr>)"
    using knowledge_base.opened [OF kb ok] assms(7) by blast
  have "bt_ok (kn_index (K\<lparr>kn_counts := cs\<rparr>)) \<and> dims d (kn_index (K\<lparr>kn_counts := cs\<rparr>))" using ok by simp
  from knowledge_base.forgotten [OF kb this cs(2), where key = key] obtain v' where
    "knowledge_remove ko key (K\<lparr>kn_counts := cs\<rparr>) = (Inr (), K\<lparr>kn_index := v', kn_counts := cs(key := None)\<rparr>)"
    "holds_chunks (bt_get v') key []" "same_elsewhere key (bt_get (kn_index K)) (bt_get v')"
    "counted map_of (K\<lparr>kn_index := v', kn_counts := cs(key := None)\<rparr>)" by auto
  with cs show ?thesis by blast
qed

theorem knowledge_reopen_removes_witness:
  "\<exists>cs v'. knowledge_open demo_ko demo_known = (Inr (), demo_known\<lparr>kn_counts := cs\<rparr>) \<and>
     knowledge_remove demo_ko demo_key (demo_known\<lparr>kn_counts := cs\<rparr>) =
       (Inr (), demo_known\<lparr>kn_index := v', kn_counts := cs(demo_key := None)\<rparr>) \<and> bt_get v' (chunk_key demo_key 0) = None"
proof -
  have "bt_ok (kn_index demo_known)" "dims 1 (kn_index demo_known)"
    "\<forall>p n. bt_get (kn_index demo_known) (chunk_key p n) \<noteq> None \<longrightarrow> n + 1 < 2 ^ 64"
    by (simp_all add: demo_known_def knowledge_new_def bt_ok_def dims_def)
  from knowledge_reopen_removes [OF demo.fs_substrate_axioms demo_ko this, of demo_key] show ?thesis
    by (auto simp: holds_chunks_def)
qed

text \<open>
  C23. A query returns records, best first. Each hit is the live record under its key, appears once, and there are
  at most \<open>k\<close>. When the matching chunks fit the window of \<open>8 k\<close> chunks that is fetched, the score of a hit is the
  best score among the chunks of its record, and a live record that is missing from the answer is outranked by
  \<open>k\<close> others.
\<close>

theorem knowledge_query_ranks:
  assumes "fs_substrate H C" "ko_store ko = fs_vt H C st" "ko_index ko = mvi_vt cosine"
    "\<forall>t e v e'. ko_embed ko t e = (Inr v, e') \<longrightarrow> length v = d"
    "fs_inv H C (fs_root st) (kn_store K)" "bt_ok (kn_index K)" "dims d (kn_index K)"
    "0 < k" "k * OVERFETCH < 2 ^ 64" "ko_embed ko txt (kn_embedder K) = (Inr q, e')"
    "\<forall>p \<in> parents (bt_get (kn_index K)) f. fs_valid p"
    "\<forall>c \<in> matching (bt_get (kn_index K)) f. \<not> f32_is_nan (cosine q (the (bt_get (kn_index K) c)))"
  shows "\<exists>hits. knowledge_query ko txt k f K = (Inr hits, K\<lparr>kn_embedder := e'\<rparr>) \<and> length hits \<le> k \<and>
    distinct (map (\<lambda>h. rec_key (hit_record h)) hits) \<and>
    sorted_wrt (\<lambda>a b. total_key (hit_score b) \<le> total_key (hit_score a)) hits \<and>
    (\<forall>h \<in> set hits. rec_key (hit_record h) \<in> parents (bt_get (kn_index K)) f \<and>
       live_only (fs_abs C (fs_root st) (kn_store K) (rec_key (hit_record h))) = Some (hit_record h)) \<and>
    (card (matching (bt_get (kn_index K)) f) \<le> k * OVERFETCH \<longrightarrow>
       (\<forall>h \<in> set hits. total_key (hit_score h) = best_score cosine q (bt_get (kn_index K)) f (rec_key (hit_record h))) \<and>
       (\<forall>p \<in> parents (bt_get (kn_index K)) f. \<forall>r. live_only (fs_abs C (fs_root st) (kn_store K) p) = Some r \<longrightarrow>
          r \<notin> hit_record ` set hits \<longrightarrow>
          k \<le> card {p' \<in> parents (bt_get (kn_index K)) f. p' \<noteq> p \<and>
                best_score cosine q (bt_get (kn_index K)) f p \<le> best_score cosine q (bt_get (kn_index K)) f p'}))"
proof -
  note kb = knowledge_on_files [where ko = ko, OF assms(1-4)]
  have ok: "bt_ok (kn_index K) \<and> dims d (kn_index K)" using assms(6,7) by blast
  let ?m = "bt_get (kn_index K)" and ?live = "\<lambda>p. live_only (fs_abs C (fs_root st) (kn_store K) p)"
  obtain B where B: "knowledge_query ko txt k f K =
      (Inr (map (\<lambda>e. \<lparr>hit_record = the (?live (fst e)), hit_score = snd e\<rparr>)
        (filter (\<lambda>e. ?live (fst e) \<noteq> None) (take k (sort_key (\<lambda>e. - total_key (snd e)) B)))), K\<lparr>kn_embedder := e'\<rparr>)"
    "distinct (map fst B)" "fst ` set B \<subseteq> parents ?m f"
    "card (matching ?m f) \<le> k * OVERFETCH \<longrightarrow> fst ` set B = parents ?m f \<and>
      (\<forall>(p, x) \<in> set B. total_key x = best_score cosine q ?m f p)"
    by (rule knowledge_base.queried [OF kb assms(5) ok assms(8-12)])
  let ?ranked = "take k (sort_key (\<lambda>e. - total_key (snd e)) B)"
  let ?kept = "filter (\<lambda>e. ?live (fst e) \<noteq> None) ?ranked"
  let ?hit = "\<lambda>e. \<lparr>hit_record = the (?live (fst e)), hit_score = snd e\<rparr>"
  have key: "rec_key (the (?live p)) = p" if "?live p \<noteq> None" for p
    using that planned_store.stored_key [OF fs_substrate.planned [OF assms(1), of st] assms(5), of p]
    by (auto simp: live_only_def split: option.splits if_splits)
  have ranked: "set ?ranked \<subseteq> set B" using set_take_subset [of k "sort_key (\<lambda>e. - total_key (snd e)) B"] by simp
  have keys: "map (\<lambda>h. rec_key (hit_record h)) (map ?hit ?kept) = map fst ?kept" using key by auto
  have "distinct (map fst ?ranked)" by (rule distinct_map_take_sort [OF B(2)])
  then have "distinct (map fst ?kept)" by (rule distinct_map_filter)
  note distinct = this [folded keys]
  have sorted: "sorted_wrt (\<lambda>a b. total_key (hit_score b) \<le> total_key (hit_score a)) (map ?hit ?kept)"
    using sorted_wrt_filter [OF sorted_take_desc] by (simp add: sorted_wrt_map)
  have short: "length (map ?hit ?kept) \<le> k" using length_filter_le [of _ ?ranked] by (simp add: le_trans)
  have live: "rec_key (hit_record h) \<in> parents ?m f \<and> ?live (rec_key (hit_record h)) = Some (hit_record h)"
    if "h \<in> set (map ?hit ?kept)" for h
  proof -
    from that obtain e where e: "e \<in> set ?ranked" "?live (fst e) \<noteq> None" "h = ?hit e" by auto
    have "fst e \<in> parents ?m f" using e(1) ranked B(3) by blast
    moreover have "rec_key (hit_record h) = fst e" using key [OF e(2)] by (simp add: e(3))
    ultimately show ?thesis using e(2,3) by simp
  qed
  have best: "total_key (hit_score h) = best_score cosine q ?m f (rec_key (hit_record h))"
    if "card (matching ?m f) \<le> k * OVERFETCH" "h \<in> set (map ?hit ?kept)" for h
  proof -
    from that(2) obtain p x where e: "(p, x) \<in> set ?ranked" "?live p \<noteq> None" "h = ?hit (p, x)" by auto
    then have "(p, x) \<in> set B" using ranked by blast
    with B(4) [THEN mp, OF that(1)] have "total_key x = best_score cosine q ?m f p" by blast
    moreover have "rec_key (hit_record h) = p" using key [OF e(2)] by (simp add: e(3))
    ultimately show ?thesis by (simp add: e(3))
  qed
  have missing: "k \<le> card {p' \<in> parents ?m f. p' \<noteq> p \<and> best_score cosine q ?m f p \<le> best_score cosine q ?m f p'}"
    if "card (matching ?m f) \<le> k * OVERFETCH" "p \<in> parents ?m f" "?live p = Some r" "r \<notin> hit_record ` set (map ?hit ?kept)" for p r
  proof -
    note all = B(4) [THEN mp, OF that(1)]
    from all that(2) obtain x where x: "(p, x) \<in> set B" by force
    have out: "(p, x) \<notin> set ?ranked"
    proof
      assume "(p, x) \<in> set ?ranked"
      then have "(p, x) \<in> set ?kept" using that(3) by simp
      then have "hit_record (?hit (p, x)) \<in> hit_record ` set (map ?hit ?kept)" by (simp only: set_map) blast
      with that(3,4) show False by simp
    qed
    note top = take_sort_top [OF x out]
    have "fst ` set ?ranked \<subseteq> {p' \<in> parents ?m f. p' \<noteq> p \<and> best_score cosine q ?m f p \<le> best_score cosine q ?m f p'}"
    proof
      fix p'
      assume "p' \<in> fst ` set ?ranked"
      then obtain y where y: "(p', y) \<in> set ?ranked" by force
      then have in_B: "(p', y) \<in> set B" using ranked by blast
      have "p' \<noteq> p" using in_B x y out B(2) by (metis eq_key_imp_eq_value)
      moreover have "total_key x \<le> total_key y" using top y by force
      ultimately show "p' \<in> {p' \<in> parents ?m f. p' \<noteq> p \<and> best_score cosine q ?m f p \<le> best_score cosine q ?m f p'}"
        using all [THEN conjunct1] bspec [OF all [THEN conjunct2] x] bspec [OF all [THEN conjunct2] in_B] image_eqI [OF refl in_B, of fst]
        by simp
    qed
    moreover have "finite {p' \<in> parents ?m f. p' \<noteq> p \<and> best_score cosine q ?m f p \<le> best_score cosine q ?m f p'}"
      using all [THEN conjunct1] by (intro finite_subset [OF _ finite_imageI [OF finite_set, of fst B]]) auto
    ultimately have "card (fst ` set ?ranked) \<le>
        card {p' \<in> parents ?m f. p' \<noteq> p \<and> best_score cosine q ?m f p \<le> best_score cosine q ?m f p'}" by (rule card_mono [rotated])
    moreover have "card (fst ` set ?ranked) = k"
      using distinct_card [OF \<open>distinct (map fst ?ranked)\<close>] top [THEN conjunct1]
      by (simp only: set_map length_map length_take length_sort min_absorb2)
    ultimately show ?thesis by simp
  qed
  show ?thesis
    using B(1) short distinct sorted live best missing by (intro exI [of _ "map ?hit ?kept"]) blast
qed

theorem knowledge_query_ranks_witness:
  "\<exists>hits. knowledge_query demo_ko ''hi'' 1 \<lparr>kp_namespace = None, kp_collection = None\<rparr> demo_known = (Inr hits, demo_known) \<and>
     with_folded None 32 (stamp 1700000000000 1700000000000 demo_rec) \<in> hit_record ` set hits"
proof -
  let ?f = "\<lparr>kp_namespace = None, kp_collection = None\<rparr> :: key_prefix" and ?m = "bt_get (kn_index demo_known)"
  have matching: "matching ?m ?f = {chunk_key demo_key 0}"
    by (auto simp: matching_def demo_known_def knowledge_new_def kp_matches_def is_none_or_def)
  then have parents: "parents ?m ?f = {demo_key}" by (simp add: parents_def parent_chunk)
  have start: "fs_inv demo_digest demo_codec (fs_root demo_fs) (kn_store demo_known)" "bt_ok (kn_index demo_known)"
    "dims 1 (kn_index demo_known)" "(0::nat) < 1" "1 * OVERFETCH < 2 ^ 64"
    "ko_embed demo_ko ''hi'' (kn_embedder demo_known) = (Inr [2], ())" "\<forall>p \<in> parents ?m ?f. fs_valid p"
    by (simp_all add: demo_known_def knowledge_new_def demo_created(1) bt_ok_def dims_def OVERFETCH_def demo_ko_def
        parents [unfolded demo_known_def knowledge_new_def, simplified] demo_key_valid)
  have "\<not> f32_is_nan 0x3F800000" by code_simp
  then have "\<forall>c \<in> matching ?m ?f. \<not> f32_is_nan ((\<lambda>a b. 0x3F800000) [2] (the (?m c)))" by simp
  from knowledge_query_ranks [OF demo.fs_substrate_axioms demo_ko start this]
  obtain hits where hits: "knowledge_query demo_ko ''hi'' 1 ?f demo_known = (Inr hits, demo_known)"
    "\<forall>r. live_only (fs_abs demo_codec (fs_root demo_fs) (kn_store demo_known) demo_key) = Some r \<longrightarrow> r \<notin> hit_record ` set hits \<longrightarrow>
       1 \<le> card {p' \<in> {demo_key}. p' \<noteq> demo_key \<and> best_score (\<lambda>a b. 0x3F800000) [2] ?m ?f demo_key \<le>
         best_score (\<lambda>a b. 0x3F800000) [2] ?m ?f p'}"
    unfolding parents matching by (auto simp: OVERFETCH_def)
  have none: "card {p' \<in> {demo_key}. p' \<noteq> demo_key \<and> Q p'} = 0" for Q by (simp add: card_eq_0_iff)
  have "kn_store demo_known = demo_created" by (simp add: demo_known_def knowledge_new_def)
  with hits(2) demo_stored have "with_folded None 32 (stamp 1700000000000 1700000000000 demo_rec) \<in> hit_record ` set hits"
    unfolding none by auto
  with hits(1) show ?thesis by blast
qed

end
