(* ===== verification/Spec2Isabelle.thy ===== *)
theory Spec2Isabelle
  imports Gz_Demo Gz_Manifest Gz_HttpProps Gz_DomainProps Gz_ClientProps Gz_VectorProps Gz_S3Props Gz_GrpcProps Gz_KnowledgeProps
begin

text \<open>
  \<^bold>\<open>Gonzalo\<close> is a store for the records of a fleet of coding agents: documents, sessions, tickets, access
  records, code-graph manifests and vector indexes, each under a key (namespace, collection, id) with a
  revision, optimistic concurrency, tombstones instead of removals, and blobs beside the records. This
  development models its core and proves what makes it correct. Definitions follow the sources under
  \<open>src/crates\<close>; each theory opens with what it holds.

  \<^bold>\<open>How the parts fit together.\<close> A pure planner decides what a write, delete or purge does to the record
  stored under a key. Each substrate (memory, filesystem, object store) reads the record, asks the planner and
  carries the plan out atomically in its own way. Everything above speaks to a substrate through the two
  traits \<open>Store\<close> and \<open>BlobStore\<close>: sync, reset, collection, garbage collection, undelete, the ancestry
  wrapper, the daemon's service behind HTTP and gRPC, the remote client that turns those back into a \<open>Store\<close>, the
  vector index, and the layers that give records a meaning.

  \<^bold>\<open>The model.\<close> A trait object is a record of operations (\<open>store_vt\<close>, \<open>blob_vt\<close>), an operation a
  function from a state to a result and a state (\<open>io\<close> in \<open>Gz_Prelude\<close>), an error a value of \<open>core_error\<close>. What
  an implementation promises is a locale (\<open>planned_store\<close>, \<open>blob_store\<close>, \<open>full_store\<close>); what is built on it is
  proved inside the locale, once; every substrate interprets it.

  \<^item> Data: \<open>Gz_Record\<close> (\<open>key.rs\<close>, \<open>identity.rs\<close>, \<open>revision.rs\<close>, \<open>record.rs\<close>, \<open>error.rs\<close>), \<open>Gz_Paths\<close> (\<open>paths.rs\<close>),
    \<open>Gz_Merge\<close> (\<open>merge.rs\<close>), \<open>Gz_Manifest\<close> (\<open>manifest.rs\<close>, \<open>vector_manifest.rs\<close>).
  \<^item> Planner and contracts: \<open>Gz_Tombstone\<close> (\<open>tombstone.rs\<close>), \<open>Gz_Store\<close> and \<open>Gz_Blobs\<close> (\<open>store.rs\<close>).
  \<^item> Substrates: \<open>Gz_MemStore\<close> (\<open>memstore.rs\<close>); \<open>Gz_Disk\<close>, \<open>Gz_FsStore\<close> and its proof theories \<open>Gz_FsPaths\<close>,
    \<open>Gz_FsProofs\<close>, \<open>Gz_FsListing\<close>, \<open>Gz_FsSubstrate\<close>, \<open>Gz_FsFaults\<close> (\<open>gonzalo-store-fs\<close>); \<open>Gz_S3\<close>, \<open>Gz_S3Keys\<close>,
    \<open>Gz_S3Proofs\<close>, \<open>Gz_S3Quiet\<close>, \<open>Gz_S3Listing\<close>, \<open>Gz_S3Store\<close> (\<open>gonzalo-store-s3\<close>).
  \<^item> Over a store: \<open>Gz_Sync\<close> (\<open>sync.rs\<close>), \<open>Gz_Ancestry\<close>, \<open>Gz_Reset_Collect\<close>, \<open>Gz_GC\<close>, \<open>Gz_Undelete\<close>.
  \<^item> The daemon: \<open>Gz_Auth\<close>, \<open>Gz_Service\<close>, \<open>Gz_Http\<close>, \<open>Gz_Grpc\<close>, \<open>Gz_Daemon\<close> and their proof theories (\<open>gonzalo-server\<close>,
    \<open>gonzalo-proto\<close>); the remote client: \<open>Gz_Client\<close>, \<open>Gz_ClientProofs\<close>, \<open>Gz_GrpcClient\<close>
    (\<open>gonzalo-store-server\<close>).
  \<^item> What records mean: \<open>Gz_Fleet\<close> (\<open>gonzalo-domain/src/fleet\<close>), \<open>Gz_Ticket\<close> (\<open>ticket.rs\<close>, \<open>gonzalo-ticket\<close>), \<open>Gz_Graph\<close>
    and \<open>Gz_Resolve\<close> (\<open>gonzalo-graph\<close>), \<open>Gz_Vector\<close> and \<open>Gz_RecordIndex\<close> (\<open>gonzalo-vector\<close>), \<open>Gz_Knowledge\<close>
    (\<open>gonzalo-knowledge\<close>).
  \<^item> Concrete inputs: \<open>Gz_Codec\<close>, \<open>Gz_Demo\<close>, \<open>Gz_S3Demo\<close>. The theories named \<open>\<dots>Props\<close> and this one hold the properties.

  \<^bold>\<open>What is shown.\<close> The filesystem store is atomic under any schedule of failing system calls, loses no
  update, lists exactly and agrees with the in-memory store; so does the object store at rest, while under
  arbitrary interference and failures each of its writes is a step the planner decided on the record it
  replaces, and no write strands a tombstone without its marker. Sync converges, reports what it did, never
  revives a deleted record and is idempotent. Garbage collection deletes exactly the old unreferenced blobs and
  refuses an unreadable manifest. A request over HTTP or gRPC is confined to its principal's scopes and cannot forge
  authorship, and the remote client is transparent. The durable vector index keeps every committed vector; the
  knowledge layer indexes exactly the chunks of a record and ranks records by their best chunk. Ids, paths,
  shards, secrets and blobs read back as they were written. Where the code departs from what it says, a property
  states what it does instead: a blob hash that climbs out of its directory, keys that share a file, tombstone fields a
  client can smuggle in, URLs that miss their record, a listing that drops the marker of a new tombstone.

  \<^bold>\<open>Bounds and loops.\<close> Sync makes at most \<open>MAX_SYNC_PASSES\<close> = 16 passes and the properties hold for whatever
  it returns; the compare-and-swap loops make \<open>MAX_WRITE_ATTEMPTS\<close> = 8 (object store) and \<open>MAX_COMMIT_ATTEMPTS\<close> = 5
  (vector index) rounds and then fail, as in the code; without another writer the first round succeeds. The impact
  walk terminates by the unvisited callers. The pages of an object listing are followed by a
  \<open>partial_function (option)\<close>, which returns when the pages end. No other recursion needs fuel.

  \<^bold>\<open>Parameters.\<close> Third-party code is a parameter with its documented behaviour as named hypotheses: BLAKE3, \<open>serde_json\<close> and
  \<open>toml\<close> (they read back what they wrote), axum, tonic and reqwest (they deliver requests and responses), \<open>aws-sdk-s3\<close>
  (conditional requests, strong entity tags), the cosine of two vectors, embedders, ticket providers. \<open>Gz_Codec\<close> and
  the other demo theories instantiate each of them.

  \<^bold>\<open>Not modelled.\<close> Tree-sitter extraction and the parser worker, the SQLite graph store, the git store, the HNSW
  index, the embedding clients and the ticket connectors are calls into libraries and services. The command line and
  the MCP server parse arguments and print what the modelled operations return. The graph queries and ticket sync of
  the service read SQLite files or contact providers. The conformance suite, the soak harness and the
  benchmarks are test code; logging, metrics, sockets and signals are I/O.
\<close>

section \<open>The filesystem store\<close>

text \<open>
  C1. Crash atomicity of a write on the filesystem store. Whatever system calls of a \<open>put\<close> fail, in
  whatever order (the schedule of faults is arbitrary, and a failing write may have written part of
  its bytes), the store stays well formed, no blob and no other record changes, and the record at
  the key is either what it was or exactly what the planner decided. If the caller is told
  \<open>Committed\<close>, the planned record is there.
\<close>

theorem fs_put_atomic:
  assumes "fs_substrate H C" "fs_inv H C (fs_root st) (heal s)" "fs_valid (rec_key r)"
    "fs_put H C st r ex s = (res, s')"
  shows "fs_inv H C (fs_root st) (heal s') \<and>
    fs_blobs (fs_root st) s' = fs_blobs (fs_root st) s \<and>
    (fs_abs C (fs_root st) s' = fs_abs C (fs_root st) s \<or>
     fs_abs C (fs_root st) s' = put_effect (rec_key r)
       (plan_put H (fs_abs C (fs_root st) s (rec_key r)) r ex (fs_clock s) (fs_cap st))
       (fs_abs C (fs_root st) s)) \<and>
    (\<forall>rv. res = Inr (Committed rv) \<longrightarrow>
       fs_abs C (fs_root st) s' = put_effect (rec_key r)
         (plan_put H (fs_abs C (fs_root st) s (rec_key r)) r ex (fs_clock s) (fs_cap st))
         (fs_abs C (fs_root st) s) \<and>
       res = put_outcome (rec_key r)
         (plan_put H (fs_abs C (fs_root st) s (rec_key r)) r ex (fs_clock s) (fs_cap st)))"
  using fs_substrate.put_locked_atomic [OF assms(1-3), of "plan_put H" ex res s'] assms(4) plan_put_key
  by (simp add: fs_put_def)

theorem fs_put_atomic_witness:
  "fst (fs_put demo_digest demo_codec demo_fs demo_rec None
      (demo_disk [NoFault, NoFault, NoFault, NoFault, Fault ''disk full'' 3])) =
     Inl (Backend ''disk full'') \<and>
   fs_abs demo_codec (fs_root demo_fs) (snd (fs_put demo_digest demo_codec demo_fs demo_rec None
      (demo_disk [NoFault, NoFault, NoFault, NoFault, Fault ''disk full'' 3]))) demo_key
     \<in> {None, Some (with_folded None 32 (stamp 1700000000000 1700000000000 demo_rec))}"
proof
  let ?d = "demo_disk [NoFault, NoFault, NoFault, NoFault, Fault ''disk full'' 3]"
  show "fst (fs_put demo_digest demo_codec demo_fs demo_rec None ?d) = Inl (Backend ''disk full'')"
    by code_simp
  have "fs_put demo_digest demo_codec demo_fs demo_rec None ?d =
      (fst (fs_put demo_digest demo_codec demo_fs demo_rec None ?d),
       snd (fs_put demo_digest demo_codec demo_fs demo_rec None ?d))" by simp
  note w = fs_put_atomic [OF demo.fs_substrate_axioms _ _ this, unfolded demo_disk_heal demo_rec_key,
      OF demo_disk_inv demo_key_valid]
  have abs: "fs_abs demo_codec (fs_root demo_fs) ?d demo_key = None"
    by (simp add: fs_abs_def demo_disk_def)
  have "fs_clock ?d = 1700000000000" "fs_cap demo_fs = 32" "\<not> is_tombstone demo_rec" by code_simp+
  with w abs show "fs_abs demo_codec (fs_root demo_fs)
      (snd (fs_put demo_digest demo_codec demo_fs demo_rec None ?d)) demo_key
     \<in> {None, Some (with_folded None 32 (stamp 1700000000000 1700000000000 demo_rec))}"
    by (auto simp: plan_put_def)
qed

text \<open>
  C3. Every substrate behaves alike: a filesystem store and the in-memory reference store that hold
  the same records and read the same clock answer every write, delete and purge alike and hold the
  same records afterwards.
\<close>

theorem fs_agrees_with_memstore:
  assumes "fs_substrate H C" "fs_inv H C (fs_root st) d" "mem_inv (fs_cap st) m"
    "mem_abs m = fs_abs C (fs_root st) d" "mem_now m = fs_clock d"
    "fs_valid (rec_key r)" "fs_valid k"
  shows "fst (fs_put H C st r ex d) = fst (mem_put H r ex m) \<and>
    fs_abs C (fs_root st) (snd (fs_put H C st r ex d)) = mem_abs (snd (mem_put H r ex m)) \<and>
    fst (fs_put_raw C st r ex d) = fst (mem_put_raw r ex m) \<and>
    fs_abs C (fs_root st) (snd (fs_put_raw C st r ex d)) = mem_abs (snd (mem_put_raw r ex m)) \<and>
    fst (fs_delete_as H C st k ex au d) = fst (mem_delete_as H k ex au m) \<and>
    fs_abs C (fs_root st) (snd (fs_delete_as H C st k ex au d)) = mem_abs (snd (mem_delete_as H k ex au m)) \<and>
    fst (fs_purge C st k rv d) = fst (mem_purge k rv m) \<and>
    fs_abs C (fs_root st) (snd (fs_purge C st k rv d)) = mem_abs (snd (mem_purge k rv m)) \<and>
    fst (fs_get C st k d) = fst (mem_get k m) \<and> fst (fs_get_raw C st k d) = fst (mem_get_raw k m)"
proof -
  note fs = fs_substrate.planned [OF assms(1), of st]
  note fsl = planned_store.put [OF fs assms(2,6), unfolded fs_vt_def, simplified, OF prod.collapse [symmetric]]
    planned_store.put_raw [OF fs assms(2,6), unfolded fs_vt_def, simplified, OF prod.collapse [symmetric]]
    planned_store.delete_as [OF fs assms(2,7), unfolded fs_vt_def, simplified, OF prod.collapse [symmetric]]
    planned_store.purge [OF fs assms(2,7), unfolded fs_vt_def, simplified, OF prod.collapse [symmetric]]
    planned_store.get [OF fs assms(2,7), unfolded fs_vt_def, simplified]
    planned_store.get_raw [OF fs assms(2,7), unfolded fs_vt_def, simplified]
  note ml = mem.put [OF assms(3) TrueI, unfolded mem_vt_def, simplified, OF prod.collapse [symmetric]]
    mem.put_raw [OF assms(3) TrueI, unfolded mem_vt_def, simplified, OF prod.collapse [symmetric]]
    mem.delete_as [OF assms(3) TrueI, unfolded mem_vt_def, simplified, OF prod.collapse [symmetric]]
    mem.purge [OF assms(3) TrueI, unfolded mem_vt_def, simplified, OF prod.collapse [symmetric]]
    mem.get [OF assms(3) TrueI, unfolded mem_vt_def, simplified]
    mem.get_raw [OF assms(3) TrueI, unfolded mem_vt_def, simplified]
  show ?thesis
    using fsl(1) [of ex] fsl(2) [of ex] fsl(3) [of ex au] fsl(4) [of rv] fsl(5,6)
      ml(1) [of H r ex] ml(2) [of r ex] ml(3) [of H k ex au] ml(4) [of k rv] ml(5) [of k] ml(6) [of k] assms(4,5)
    by simp
qed

theorem fs_agrees_with_memstore_witness:
  "fst (fs_put demo_digest demo_codec demo_fs demo_rec None (demo_disk [])) =
     Inr (Committed (rec_revision demo_rec)) \<and>
   fs_abs demo_codec (fs_root demo_fs)
       (snd (fs_put demo_digest demo_codec demo_fs demo_rec None (demo_disk []))) =
     mem_abs (snd (mem_put demo_digest demo_rec None (mem_with_clock 1700000000000 (mem_new 0))))"
proof -
  let ?m = "mem_with_clock 1700000000000 (mem_new 0)"
  have hyps: "mem_inv (fs_cap demo_fs) ?m" "mem_now ?m = fs_clock (demo_disk [])" by code_simp+
  have "mem_abs ?m = fs_abs demo_codec (fs_root demo_fs) (demo_disk [])"
    by (simp add: mem_abs_def fs_abs_def demo_disk_def mem_with_clock_def mem_new_def fun_eq_iff)
  note w = fs_agrees_with_memstore [OF demo.fs_substrate_axioms demo_disk_inv hyps(1) this hyps(2),
      of demo_rec demo_key None, unfolded demo_rec_key, OF demo_key_valid demo_key_valid]
  have "fst (mem_put demo_digest demo_rec None ?m) = Inr (Committed (rec_revision demo_rec))"
    by code_simp
  with w show ?thesis by simp
qed

text \<open>
  C7. No update is lost on the filesystem store: when two writers start from the same stored
  revision and the first one commits, the second is answered with a conflict that carries the first
  writer's record, and the store keeps it.
\<close>

theorem fs_no_lost_update:
  assumes "fs_substrate H C" "fs_inv H C (fs_root st) s"
    "fs_abs C (fs_root st) s k = Some c" "\<not> is_tombstone c"
    "rec_key r1 = k" "rec_key r2 = k" "\<not> is_tombstone r1" "\<not> is_tombstone r2"
    "rec_revision r1 \<noteq> rec_revision c"
    "fs_put H C st r1 (Some (rec_revision c)) s = (res1, s1)"
    "fs_put H C st r2 (Some (rec_revision c)) s1 = (res2, s2)"
  shows "res1 = Inr (Committed (rec_revision r1)) \<and>
    (\<exists>stored. fs_abs C (fs_root st) s1 k = Some stored \<and> rec_body stored = rec_body r1 \<and>
      res2 = Inr (PutConflict
        \<lparr>conf_key = k, conf_expected = Some (rec_revision c), conf_current = stored\<rparr>)) \<and>
    fs_abs C (fs_root st) s2 = fs_abs C (fs_root st) s1"
  using planned_store.no_lost_update [OF fs_substrate.planned [OF assms(1)] assms(2-9)] assms(10,11)
  by (simp add: fs_vt_def)

theorem fs_no_lost_update_witness:
  "\<exists>s1 s2 stored.
     fs_put demo_digest demo_codec demo_fs (demo_edit ''one'') (Some (rec_revision demo_rec)) demo_created =
       (Inr (Committed (rec_revision (demo_edit ''one''))), s1) \<and>
     fs_put demo_digest demo_codec demo_fs (demo_edit ''two'') (Some (rec_revision demo_rec)) s1 =
       (Inr (PutConflict \<lparr>conf_key = demo_key, conf_expected = Some (rec_revision demo_rec),
          conf_current = stored\<rparr>), s2) \<and>
     rec_body stored = Inline ''one''"
proof -
  let ?c = "with_folded None 32 (stamp 1700000000000 1700000000000 demo_rec)"
  obtain res1 s1 where 1: "fs_put demo_digest demo_codec demo_fs (demo_edit ''one'')
      (Some (rec_revision ?c)) demo_created = (res1, s1)" by (rule prod.exhaust)
  obtain res2 s2 where 2: "fs_put demo_digest demo_codec demo_fs (demo_edit ''two'')
      (Some (rec_revision ?c)) s1 = (res2, s2)" by (rule prod.exhaust)
  have "rec_revision (demo_edit ''one'') \<noteq> rec_revision ?c" by code_simp
  note w = fs_no_lost_update [OF demo.fs_substrate_axioms demo_created(1) _ _ _ _ _ _ this 1 2, of demo_key]
  have "rec_body (demo_edit ''one'') = Inline ''one''" by code_simp
  with w 1 2 show ?thesis by (auto simp: demo_created(2) demo_live)
qed

text \<open>
  C25. Listing is exact: on a healthy disk the consumer listing returns each live record's key that
  matches the prefix once and nothing else, and the raw listing does the same for every stored
  record, tombstones included.
\<close>

theorem fs_list_exact:
  assumes "fs_inv H C (fs_root st) s"
  shows "\<exists>ks rs. fs_list C st p s = (Inr ks, s) \<and> distinct ks \<and>
    set ks = {k. live_only (fs_abs C (fs_root st) s k) \<noteq> None \<and> kp_matches p k} \<and>
    fs_list_raw st p s = (Inr rs, s) \<and> distinct rs \<and>
    set rs = {k. fs_abs C (fs_root st) s k \<noteq> None \<and> kp_matches p k}"
  using fs_list_ok [OF assms, of p] fs_list_raw_ok [OF assms, of p] by blast

theorem fs_list_exact_witness:
  "fst (fs_list demo_codec demo_fs kp_default demo_created) = Inr [demo_key] \<and>
   fst (fs_list_raw demo_fs kp_default demo_created) = Inr [demo_key]"
proof -
  obtain ks rs where k: "fs_list demo_codec demo_fs kp_default demo_created = (Inr ks, demo_created)" "distinct ks"
    "set ks = {k. live_only (fs_abs demo_codec (fs_root demo_fs) demo_created k) \<noteq> None \<and> kp_matches kp_default k}"
    "fs_list_raw demo_fs kp_default demo_created = (Inr rs, demo_created)" "distinct rs"
    "set rs = {k. fs_abs demo_codec (fs_root demo_fs) demo_created k \<noteq> None \<and> kp_matches kp_default k}"
    using fs_list_exact [OF demo_created(1), of kp_default] by blast
  have "set ks = {demo_key}" "set rs = {demo_key}"
    unfolding k(3,6) demo_created(2) by (auto simp: live_only_def demo_live)
  then have "ks = [demo_key]" "rs = [demo_key]"
    using distinct_singleton [OF k(2)] distinct_singleton [OF k(5)] by blast+
  with k(1,4) show ?thesis by simp
qed

section \<open>Replication\<close>

text \<open>
  C2. Sync converges. Two filesystem stores that no one else writes to meanwhile come out of one
  sync run with the same revision under every key that is not reported as a conflict (and the same
  record, up to the advisory ancestor list, wherever their revisions differed before). Every
  reported conflict is a key both sides hold, and both sides keep exactly what they had there.
\<close>

theorem fs_sync_converges:
  assumes "fs_substrate H C" "fs_inv H C (fs_root stA) s" "fs_inv H C (fs_root stB) t"
  shows "\<exists>rep s' t' u'. sync_with_ancestry H parse print (fs_vt H C stA) (fs_vt H C stB) anc (s, t, u) =
      (Inr rep, (s', t', u')) \<and>
    fs_inv H C (fs_root stA) s' \<and> fs_inv H C (fs_root stB) t' \<and> converged rep \<and>
    (\<forall>k. k \<notin> sc_key ` set (conflicts rep) \<longrightarrow>
       same_revision (fs_abs C (fs_root stA) s' k) (fs_abs C (fs_root stB) t' k) \<and>
       (same_revision (fs_abs C (fs_root stA) s k) (fs_abs C (fs_root stB) t k) \<or>
        same_record (fs_abs C (fs_root stA) s' k) (fs_abs C (fs_root stB) t' k))) \<and>
    (\<forall>c \<in> set (conflicts rep).
       fs_abs C (fs_root stA) s (sc_key c) = Some (sc_a c) \<and>
       fs_abs C (fs_root stB) t (sc_key c) = Some (sc_b c) \<and>
       fs_abs C (fs_root stA) s' (sc_key c) = Some (sc_a c) \<and>
       fs_abs C (fs_root stB) t' (sc_key c) = Some (sc_b c))"
  by (rule store_pair.sync_converges
      [OF store_pair.intro [OF fs_substrate.planned [OF assms(1)] fs_substrate.planned [OF assms(1)]] assms(2,3)])

theorem fs_sync_converges_witness:
  "\<exists>rep s' t' u'. sync_with_ancestry demo_digest (\<lambda>_. None) (\<lambda>_. None)
      (fs_vt demo_digest demo_codec demo_fs) (fs_vt demo_digest demo_codec demo_fs) None
      (demo_created, demo_disk [], ()) = (Inr rep, (s', t', u')) \<and> converged rep \<and>
    (conflicts rep = [] \<longrightarrow> same_revision (fs_abs demo_codec (fs_root demo_fs) s' demo_key)
       (fs_abs demo_codec (fs_root demo_fs) t' demo_key))"
  using fs_sync_converges [OF demo.fs_substrate_axioms demo_created(1) demo_disk_inv,
      of "\<lambda>_. None" "\<lambda>_. None" None "()"]
  by fastforce

text \<open>
  C29. Sync is idempotent: a second run right after the first changes no record of either store and
  reports the same conflicts.
\<close>

theorem mem_sync_idempotent:
  assumes "mem_inv ca s" "mem_inv cb t"
    "sync_with_ancestry H parse print (mem_vt H) (mem_vt H) None (s, t, u) = (Inr rep, (s1, t1, u1))"
  shows "\<exists>rep' s2 t2. sync_with_ancestry H parse print (mem_vt H) (mem_vt H) None (s1, t1, u1) =
      (Inr rep', (s2, t2, u1)) \<and>
    mem_abs s2 = mem_abs s1 \<and> mem_abs t2 = mem_abs t1 \<and> conflicts rep' = conflicts rep \<and> converged rep'"
  by (rule mem2.sync_idempotent [OF assms])

theorem mem_sync_idempotent_witness:
  "\<exists>rep s1 t1. demo_sync demo_mem_edited demo_mem = (Inr rep, (s1, t1, ())) \<and>
    (\<exists>rep' s2 t2. demo_sync s1 t1 = (Inr rep', (s2, t2, ())) \<and>
      mem_abs s2 = mem_abs s1 \<and> mem_abs t2 = mem_abs t1)"
proof -
  obtain rep s1 t1 where run: "demo_sync demo_mem_edited demo_mem = (Inr rep, (s1, t1, ()))"
    by (rule demo_sync_run [OF demo_mem_inv(3,2)])
  from mem_sync_idempotent [OF demo_mem_inv(3,2) run [unfolded demo_sync_def]] run show ?thesis
    unfolding demo_sync_def by blast
qed





section \<open>Garbage collection and restore\<close>

text \<open>
  C6. Garbage collection on the filesystem store removes exactly the garbage: if every stored
  manifest parses, the collection succeeds, changes no record, and removes precisely the blobs that
  no stored record (live or tombstone) references and that are at least the minimum age old; the
  report lists those hashes in order and counts the retained and the deferred ones.
\<close>

theorem fs_gc_exact:
  assumes "fs_substrate H C" "fs_inv H C (fs_root st) s"
    "\<forall>r \<in> ran (fs_abs C (fs_root st) s). parses gp vp r"
    "live = (\<Union>r \<in> ran (fs_abs C (fs_root st) s). references gp vp r)"
  shows "\<exists>rep s'. gc_blobs_with gp vp (fs_vt H C st) (fs_bv H st) pol s = (Inr rep, s') \<and>
    fs_inv H C (fs_root st) s' \<and> fs_abs C (fs_root st) s' = fs_abs C (fs_root st) s \<and>
    is_gc_report live pol (fs_blobs (fs_root st) s) rep \<and>
    fs_blobs (fs_root st) s' = swept live pol (fs_blobs (fs_root st) s)"
  using full_store.gc_spec [OF fs_substrate.full [OF assms(1)] assms(2,3), of pol] assms(4) by simp

theorem fs_gc_exact_witness:
  "\<exists>rep s'. gc_blobs_with (\<lambda>_. Inl []) (\<lambda>_. Inl []) (fs_vt demo_digest demo_codec demo_fs)
      (fs_bv demo_digest demo_fs) (sweep_policy_default 1800000000000000000) demo_created = (Inr rep, s') \<and>
    fs_abs demo_codec (fs_root demo_fs) s' demo_key \<noteq> None"
proof -
  have "parses (\<lambda>_. Inl []) (\<lambda>_. Inl []) (with_folded None 32 (stamp 1700000000000 1700000000000 demo_rec))"
    by code_simp
  then have "\<forall>r \<in> ran (fs_abs demo_codec (fs_root demo_fs) demo_created). parses (\<lambda>_. Inl []) (\<lambda>_. Inl []) r"
    by (simp add: demo_created(2))
  from fs_gc_exact [OF demo.fs_substrate_axioms demo_created(1) this refl,
      of "sweep_policy_default 1800000000000000000"]
  show ?thesis by (auto simp: demo_created(2))
qed

text \<open>
  C31. A manifest that does not parse stops the collection before anything is removed: the error is
  reported and the disk is exactly what it was.
\<close>

theorem fs_gc_refuses_unreadable_manifest:
  assumes "fs_substrate H C" "fs_inv H C (fs_root st) s"
    "r \<in> ran (fs_abs C (fs_root st) s)" "\<not> parses gp vp r"
  shows "\<exists>e. gc_blobs_with gp vp (fs_vt H C st) (fs_bv H st) pol s = (Inl (Serde e), s)"
  by (rule full_store.gc_parse_failure [OF fs_substrate.full [OF assms(1)] assms(2-4)])

theorem fs_gc_refuses_unreadable_manifest_witness:
  "\<exists>e. gc_blobs_with (\<lambda>_. Inl ''bad'') (\<lambda>_. Inl ''bad'') (fs_vt demo_digest demo_codec demo_fs)
      (fs_bv demo_digest demo_fs) (sweep_policy_default 0) (demo_with demo_manifest) =
    (Inl (Serde e), demo_with demo_manifest)"
proof -
  let ?r = "with_folded None 32 (stamp 1700000000000 1700000000000 demo_manifest)"
  have "\<not> parses (\<lambda>_. Inl ''bad'') (\<lambda>_. Inl ''bad'') ?r" by code_simp
  moreover have "?r \<in> ran (fs_abs demo_codec (fs_root demo_fs) (demo_with demo_manifest))"
    by (simp add: demo_manifest(2))
  ultimately show ?thesis
    using fs_gc_refuses_unreadable_manifest [OF demo.fs_substrate_axioms demo_manifest(1)] by blast
qed

text \<open>
  C32. Deleting a manifest and restoring it is a round trip: the key is hidden in between, and
  afterwards the record is live again with its body, kind, creation time and labels, at a revision
  two past the deleted one (so the restore wins over the delete everywhere), with every other
  record and every blob untouched.
\<close>

theorem fs_delete_undelete:
  assumes "fs_substrate H C" "fs_inv H C (fs_root st) s"
    "fs_abs C (fs_root st) s k = Some r" "\<not> is_tombstone r" "retains_body (rec_kind r)"
    "referenced_blobs gp vp (rec_kind r) r = Inr hs"
    "\<forall>h \<in> set hs. fs_hash_valid h \<and> fs_blobs (fs_root st) s h \<noteq> None"
  shows "\<exists>s1 rv s2 r2. fs_delete_as H C st k None au s = (Inr Deleted, s1) \<and>
    live_only (fs_abs C (fs_root st) s1 k) = None \<and>
    undelete H gp vp (fs_vt H C st) (fs_bv H st) k now None s1 = (Inr rv, s2) \<and>
    fs_abs C (fs_root st) s2 = (fs_abs C (fs_root st) s)(k \<mapsto> r2) \<and>
    rec_revision r2 = rv \<and> \<not> is_tombstone r2 \<and> rec_body r2 = rec_body r \<and> rec_kind r2 = rec_kind r \<and>
    created (rec_meta r2) = created (rec_meta r) \<and> labels (rec_meta r2) = labels (rec_meta r) \<and>
    counter rv = counter (rec_revision r) + 2 \<and>
    fs_blobs (fs_root st) s2 = fs_blobs (fs_root st) s"
  using full_store.delete_undelete [OF fs_substrate.full [OF assms(1)] assms(2-7), of au now]
  by (fastforce simp: fs_vt_def)

theorem fs_delete_undelete_witness:
  "\<exists>s1 rv s2. fs_delete_as demo_digest demo_codec demo_fs (rec_key demo_manifest) None None
      (demo_with demo_manifest) = (Inr Deleted, s1) \<and>
    undelete demo_digest (\<lambda>_. Inr []) (\<lambda>_. Inl []) (fs_vt demo_digest demo_codec demo_fs)
      (fs_bv demo_digest demo_fs) (rec_key demo_manifest) 1700000000001 None s1 = (Inr rv, s2) \<and>
    counter rv = 2"
proof -
  let ?r = "with_folded None 32 (stamp 1700000000000 1700000000000 demo_manifest)"
  have "\<not> is_tombstone ?r" "retains_body (rec_kind ?r)"
    "referenced_blobs (\<lambda>_. Inr []) (\<lambda>_. Inl []) (rec_kind ?r) ?r = Inr []" "counter (rec_revision ?r) + 2 = 2"
    by code_simp+
  moreover have "fs_abs demo_codec (fs_root demo_fs) (demo_with demo_manifest) (rec_key demo_manifest) = Some ?r"
    by (simp add: demo_manifest(2))
  ultimately show ?thesis
    using fs_delete_undelete [OF demo.fs_substrate_axioms demo_manifest(1), of "rec_key demo_manifest" ?r
        "\<lambda>_. Inr []" "\<lambda>_. Inl []" "[]" None 1700000000001]
    by fastforce
qed

text \<open>
  A restore that cannot be complete is refused without a write: when nothing is stored at the
  key, the record is live, the tombstone kept no body, or a blob the retained body names is gone,
  the store is exactly what it was.
\<close>

lemma fs_undelete_refused:
  assumes "fs_substrate H C" "fs_inv H C (fs_root st) s" "fs_valid k"
    "case fs_abs C (fs_root st) s k of
       None \<Rightarrow> True
     | Some r \<Rightarrow> \<not> is_tombstone r \<or> rec_deleted_kind r = None \<or>
         (\<exists>kind hs h. rec_deleted_kind r = Some kind \<and> referenced_blobs gp vp kind r = Inr hs \<and>
            (\<forall>h \<in> set hs. fs_hash_valid h) \<and> h \<in> set hs \<and> fs_blobs (fs_root st) s h = None)"
  shows "\<exists>e. undelete H gp vp (fs_vt H C st) (fs_bv H st) k now au s = (Inl e, s)"
proof -
  note fs = fs_substrate.full [OF assms(1), of st]
  show ?thesis
  proof (cases "\<exists>r kind hs h. fs_abs C (fs_root st) s k = Some r \<and> is_tombstone r \<and>
      rec_deleted_kind r = Some kind \<and> referenced_blobs gp vp kind r = Inr hs \<and>
      (\<forall>h \<in> set hs. fs_hash_valid h) \<and> h \<in> set hs \<and> fs_blobs (fs_root st) s h = None")
    case True
    then show ?thesis using full_store.undelete_missing [OF fs assms(2)] by metis
  next
    case False
    then have "fs_abs C (fs_root st) s k = None \<or> (\<exists>r. fs_abs C (fs_root st) s k = Some r \<and>
        (\<not> is_tombstone r \<or> rec_deleted_kind r = None))"
      using assms(4) by (cases "fs_abs C (fs_root st) s k") (simp, simp only: option.case, blast)
    then show ?thesis by (rule full_store.undelete_refused [OF fs assms(2,3)])
  qed
qed

section \<open>Blobs\<close>





text \<open>
  The age rule of the sweep: a blob is old enough only if it is not dated after the sweep's
  clock and the whole milliseconds between its stamp and the clock are at least the minimum age; a
  stamp in the future, or one so far off that the difference leaves 64 bits, is never old enough.
\<close>

lemma blob_age_rule:
  assumes "old_enough pol h ms"
  shows "ms \<le> unix_ms (sp_now pol) \<and> unix_ms (sp_now pol) - ms \<le> i64_max \<and>
    sp_min_age pol \<le> from_millis (nat (unix_ms (sp_now pol) - ms))"
  using assms blob_age_Some [of "\<lparr>be_hash = h, be_modified_unix_ms = ms\<rparr>" "sp_now pol"]
  by (auto simp: old_enough_def split: option.splits)

section \<open>Scoped delete and tombstone collection\<close>

text \<open>
  A scoped reset deletes exactly the live records under its prefix: the report lists each of
  them once and no conflict, each of them becomes its own tombstone (with the given author, if
  any), and every other record, tombstones included, is untouched.
\<close>

lemma mem_reset_exact:
  assumes "mem_inv c s" "kp_namespace p \<noteq> None"
  shows "\<exists>ks s'. reset_as (mem_vt H) p au s = (Inr \<lparr>rr_deleted = ks, rr_conflicts = []\<rparr>, s') \<and>
    mem_inv c s' \<and> distinct ks \<and> set ks = {k. live_only (mem_abs s k) \<noteq> None \<and> kp_matches p k} \<and>
    (\<forall>k. case live_only (mem_abs s k) of
           Some r \<Rightarrow> if kp_matches p k then \<exists>t. mem_abs s' k = Some (tombstone_of H r t c au)
                     else mem_abs s' k = mem_abs s k
         | None \<Rightarrow> mem_abs s' k = mem_abs s k)"
  using mem.reset_as_spec [OF assms, of H au] unfolding reset_at_def .

text \<open>
  C35. Collection purges exactly the expired tombstones under the prefix: the report lists each key
  whose tombstone carries a delete time at least the horizon in the past, counts the tombstones
  without one, and nothing else changes; live records and younger tombstones stay.
\<close>

theorem fs_collect_exact:
  assumes "fs_substrate H C" "fs_inv H C (fs_root st) s"
  shows "\<exists>ks n s'. collect (fs_vt H C st) p horizon t s =
      (Inr \<lparr>cr_purged = ks, cr_unstamped = n, cr_conflicts = []\<rparr>, s') \<and>
    fs_inv H C (fs_root st) s' \<and> distinct ks \<and>
    set ks = {k. kp_matches p k \<and> collectable (horizon_ms horizon) t (fs_abs C (fs_root st) s k)} \<and>
    n = card {k. kp_matches p k \<and> unstamped (fs_abs C (fs_root st) s k)} \<and>
    fs_abs C (fs_root st) s' =
      (\<lambda>k. if kp_matches p k \<and> collectable (horizon_ms horizon) t (fs_abs C (fs_root st) s k)
           then None else fs_abs C (fs_root st) s k)"
  by (rule planned_store.collect_spec [OF fs_substrate.planned [OF assms(1)] assms(2)])

theorem fs_collect_exact_witness:
  "\<exists>n s'. collect (fs_vt demo_digest demo_codec demo_fs) kp_default 0 1800000000000 demo_created =
      (Inr \<lparr>cr_purged = [], cr_unstamped = n, cr_conflicts = []\<rparr>, s') \<and>
    fs_abs demo_codec (fs_root demo_fs) s' = fs_abs demo_codec (fs_root demo_fs) demo_created"
proof -
  have none: "\<not> collectable hz t (fs_abs demo_codec (fs_root demo_fs) demo_created k)" for hz t k
    by (simp add: collectable_def demo_created(2) demo_live)
  obtain ks n s' where "collect (fs_vt demo_digest demo_codec demo_fs) kp_default 0 1800000000000 demo_created =
      (Inr \<lparr>cr_purged = ks, cr_unstamped = n, cr_conflicts = []\<rparr>, s')"
    "set ks = {k. kp_matches kp_default k \<and> collectable (horizon_ms 0) 1800000000000
       (fs_abs demo_codec (fs_root demo_fs) demo_created k)}"
    "fs_abs demo_codec (fs_root demo_fs) s' =
      (\<lambda>k. if kp_matches kp_default k \<and> collectable (horizon_ms 0) 1800000000000
         (fs_abs demo_codec (fs_root demo_fs) demo_created k)
       then None else fs_abs demo_codec (fs_root demo_fs) demo_created k)"
    using fs_collect_exact [OF demo.fs_substrate_axioms demo_created(1), of kp_default 0 1800000000000] by blast
  with none show ?thesis by simp
qed

section \<open>Tombstones and ancestor lists\<close>

text \<open>
  C36. Every state the in-memory store can reach by any sequence of puts, replication writes,
  deletes, purges and clock changes is well formed: each key holds a record of that key, and every
  record's ancestor list is strictly newest first, no longer than the cap and without the record's
  own revision.
\<close>

theorem mem_reachable_wellformed:
  assumes "mem_reachable H c s"
  shows "mem_inv c s \<and>
    (\<forall>k r. mem_abs s k = Some r \<longrightarrow> rec_key r = k \<and> sorted_wrt (>) (rec_ancestors r) \<and>
      length (rec_ancestors r) \<le> c \<and> rec_revision r \<notin> set (rec_ancestors r))"
  using mem_reachable_inv [OF assms] mem.stored_key by (auto simp: chains_ok_def chain_ok_def)

theorem mem_reachable_wellformed_witness:
  "\<exists>r. mem_abs demo_mem_edited demo_key = Some r \<and> rec_ancestors r = [rec_revision demo_rec] \<and>
     sorted_wrt (>) (rec_ancestors r) \<and> length (rec_ancestors r) \<le> DEFAULT_ANCESTOR_CAP"
proof -
  have "mem_reachable demo_digest DEFAULT_ANCESTOR_CAP demo_mem0"
    by (rule reach_new) (simp_all add: demo_mem0_def mem_with_clock_def mem_new_def)
  then have "mem_reachable demo_digest DEFAULT_ANCESTOR_CAP demo_mem"
    unfolding demo_mem_def by (rule reach_step) (rule step_put)
  then have "mem_reachable demo_digest DEFAULT_ANCESTOR_CAP demo_mem_edited"
    unfolding demo_mem_edited_def by (rule reach_step) (rule step_put)
  note w = mem_reachable_wellformed [OF this]
  have "map_option rec_ancestors (mem_abs demo_mem_edited demo_key) = Some [rec_revision demo_rec]"
    by code_simp
  with w show ?thesis by auto
qed

text \<open>
  C37. The ancestor list of a stored record is determined by sets alone: it is the newest \<open>cap\<close> of
  the incoming ancestors, the replaced record's ancestors and the replaced revision, without
  duplicates and without the stored revision, newest first. So two stores that fold the same
  history persist the same list.
\<close>

theorem fold_ancestors_spec:
  "fold_ancestors stored incoming cur cap =
     take cap (rev (sorted_list_of_set
       ((set incoming \<union> (case cur of None \<Rightarrow> {} | Some c \<Rightarrow> insert (rec_revision c) (set (rec_ancestors c))))
        - {stored})))"
proof -
  have "fold_set stored incoming cur =
      (set incoming \<union> (case cur of None \<Rightarrow> {} | Some c \<Rightarrow> insert (rec_revision c) (set (rec_ancestors c))))
        - {stored}"
    by (cases cur) (auto simp: fold_set_def from_current_def)
  then show ?thesis by (simp add: fold_ancestors_eq)
qed

text \<open>
  Two stores that reconcile two concurrent tombstones agree whichever side they call first: the
  winner, its ancestor list included, does not depend on the order.
\<close>

lemma tombstone_winner_symmetric:
  assumes "rec_revision a \<noteq> rec_revision b"
  shows "tombstone_winner a b cap = tombstone_winner b a cap \<and>
    rec_revision (tombstone_winner a b cap) = max (rec_revision a) (rec_revision b)"
  using tombstone_winner_sym [OF assms] by (auto simp: tombstone_winner_eq Let_def max_def)

text \<open>
  Delete, then create again: the delete hides the key from consumers while the raw read shows
  the tombstone, and a create over it commits a live record that continues the chain: its counter
  is one past the tombstone's (modulo the width of the counter), its parent is the tombstone's
  revision, and it carries none of the fields only a tombstone may carry.
\<close>

lemma mem_delete_recreate:
  assumes "mem_inv c s" "mem_abs s k = Some old" "\<not> is_tombstone old" "\<not> retains_body (rec_kind old)"
    "rec_key r = k" "\<not> is_tombstone r"
    "mem_delete_as H k None au s = (dres, s1)" "mem_put H r None s1 = (res, s2)"
  shows "dres = Inr Deleted \<and> fst (mem_get k s1) = Inr None \<and>
    (\<exists>tomb new. fst (mem_get_raw k s1) = Inr (Some tomb) \<and> is_tombstone tomb \<and>
      counter (rec_revision tomb) = counter (rec_revision old) + 1 \<and>
      res = Inr (Committed (rec_revision new)) \<and> fst (mem_get k s2) = Inr (Some new) \<and>
      rec_body new = rec_body r \<and> rec_parent new = Some (rec_revision tomb) \<and>
      counter (rec_revision new) = counter (rec_revision old) + 2 \<and>
      rec_deleted_at new = None \<and> rec_deleted_blob new = None \<and> rec_deleted_kind new = None)"
proof -
  let ?t = "tombstone_of H old (mem_now s) c au"
  obtain s1' where "vt_delete_as (mem_vt H) k None au s = (Inr Deleted, s1')" "mem_inv c s1'"
    "mem_abs s1' = (mem_abs s)(k \<mapsto> ?t)"
    using mem.delete_live [OF assms(1-3)] by blast
  with assms(7) have d: "dres = Inr Deleted" "mem_inv c s1" "mem_abs s1 = (mem_abs s)(k \<mapsto> ?t)"
    by (simp_all add: mem_vt_def)
  have dk: "rec_deleted_kind ?t = None" using assms(4) by (simp add: tombstone_of_def Let_def)
  have "vt_put (mem_vt H) r None s1 = (res, s2)" using assms(8) by (simp add: mem_vt_def)
  from mem.put [OF d(2) TrueI this] d(3) assms(5,6) dk
  have p: "res = Inr (Committed (rec_revision (recreated H ?t r (mem_now s1) c)))" "mem_inv c s2"
    "mem_abs s2 k = Some (recreated H ?t r (mem_now s1) c)"
    by (auto simp: plan_put_def split: option.splits)
  show ?thesis
    using d p assms(6)
    by (intro conjI exI [of _ ?t] exI [of _ "recreated H ?t r (mem_now s1) c"])
      (simp_all add: mem_get_def mem_get_raw_def mem_abs_def recreated_def is_tombstone_def with_folded_def
        stamp_def Let_def)
qed



section \<open>Merging\<close>

text \<open>
  An append-only merge loses no line of either side: the merged lines are those of \<open>ours\<close>
  followed by what \<open>theirs\<close> has after the last line the two share from the start, so the lines of
  \<open>theirs\<close>, in order and with their repetitions, are all still there; a missing final newline on
  \<open>ours\<close> does not glue two lines together.
\<close>

lemma append_only_merge_keeps_lines:
  "\<exists>tail. map strip_nl (split_lines (append_only_bytes ours theirs)) =
      map strip_nl (split_lines ours) @ tail \<and>
    subseq (map strip_nl (split_lines theirs)) (map strip_nl (split_lines (append_only_bytes ours theirs))) \<and>
    concat (split_lines ours) = ours"
  using append_only_lines [of ours theirs] append_only_subseq [of theirs ours] concat_split_lines by blast

text \<open>
  C39. The structured merge of two objects is the field-by-field merge: when it succeeds, the
  result is an object whose field at every name is the merge of that field (present or absent) in
  the base and both sides; when it fails, some field was changed by both sides, to different
  values.
\<close>

theorem structured_merge_fieldwise:
  "case merge_value (JObject bo) (JObject oo) (JObject tt) of
     Some m \<Rightarrow> \<exists>out. m = JObject out \<and>
       (\<forall>k. merge_field (bt_get bo k) (bt_get oo k) (bt_get tt k) = Some (bt_get out k) \<and>
         (bt_get oo k = bt_get bo k \<longrightarrow> bt_get out k = bt_get tt k) \<and>
         (bt_get tt k = bt_get bo k \<longrightarrow> bt_get out k = bt_get oo k))
   | None \<Rightarrow> \<exists>k. bt_get oo k \<noteq> bt_get bo k \<and> bt_get tt k \<noteq> bt_get bo k \<and> bt_get oo k \<noteq> bt_get tt k"
proof (cases "merge_value (JObject bo) (JObject oo) (JObject tt)")
  case None
  then show ?thesis
    unfolding None option.case using merge_value_conflict [OF None] merge_field_conflict by blast
next
  case (Some m)
  then obtain out where out: "m = JObject out"
    "\<forall>k. merge_field (bt_get bo k) (bt_get oo k) (bt_get tt k) = Some (bt_get out k)"
    using merge_value_objects [OF Some] by blast
  have ours: "bt_get out k = bt_get tt k" if "bt_get oo k = bt_get bo k" for k
    using out(2) [rule_format, of k] that by simp
  have theirs: "bt_get out k = bt_get oo k" if "bt_get tt k = bt_get bo k" for k
    using out(2) [rule_format, of k] that by simp
  show ?thesis unfolding Some option.case using out ours theirs by blast
qed

theorem structured_merge_fieldwise_witness:
  "merge_value (JObject [(''a'', JNull), (''b'', JNull)]) (JObject [(''a'', JBool True), (''b'', JNull)])
      (JObject [(''a'', JNull), (''b'', JBool False)]) =
    Some (JObject [(''a'', JBool True), (''b'', JBool False)]) \<and>
   (\<exists>k. bt_get [(''a'', JBool True)] k \<noteq> bt_get [(''a'', JNull)] k \<and>
        bt_get [(''a'', JBool False)] k \<noteq> bt_get [(''a'', JNull)] k)"
proof
  show "merge_value (JObject [(''a'', JNull), (''b'', JNull)]) (JObject [(''a'', JBool True), (''b'', JNull)])
      (JObject [(''a'', JNull), (''b'', JBool False)]) =
    Some (JObject [(''a'', JBool True), (''b'', JBool False)])" by code_simp
  have "merge_value (JObject [(''a'', JNull)]) (JObject [(''a'', JBool True)]) (JObject [(''a'', JBool False)]) = None"
    by code_simp
  with structured_merge_fieldwise [where bo = "[(''a'', JNull)]" and oo = "[(''a'', JBool True)]"
      and tt = "[(''a'', JBool False)]"]
  show "\<exists>k. bt_get [(''a'', JBool True)] k \<noteq> bt_get [(''a'', JNull)] k \<and>
        bt_get [(''a'', JBool False)] k \<noteq> bt_get [(''a'', JNull)] k" by (simp only: option.case) blast
qed

text \<open>
  The structured merge does not depend on which side is called ours, so both replicas of a
  divergence compute the same body.
\<close>

lemma structured_merge_symmetric:
  "merge parse print Structured base ours theirs = merge parse print Structured base theirs ours"
  by (auto simp: structured_merge_def merge_sym(1) split: option.splits)

end
